(* ===== verification/Prelude.thy ===== *)
theory Prelude
  imports Complex_Main "HOL-Library.Sublist"
begin

text \<open>
  Shared vocabulary of the development: the Python string and list operations the
  components use (\<open>str.find\<close>, \<open>str.startswith\<close>, \<open>str.strip\<close>, \<open>str.upper\<close>,
  \<open>str.split\<close>, \<open>str.join\<close>, slices), the result type of fallible code, and the
  generic lemmas about them. Text is a list of code points: operations that only
  compare and cut are polymorphic in the code point, the ones that look at letters or
  white space work on \<open>char\<close> and treat the ASCII range as Python does.
\<close>

named_theorems py_text \<open>rewrite rules for the Python text operations\<close>
named_theorems run_inv \<open>facts that a step keeps an invariant\<close>

section \<open>Results of fallible code\<close>

text \<open>\<open>Inl\<close> carries the raised error, \<open>Inr\<close> the value returned.\<close>

type_synonym ('e, 'a) result = "'e + 'a"

definition bindr :: "('e, 'a) result \<Rightarrow> ('a \<Rightarrow> ('e, 'b) result) \<Rightarrow> ('e, 'b) result" where
  "bindr r f = (case r of Inl e \<Rightarrow> Inl e | Inr a \<Rightarrow> f a)"

lemma bindr_simps [simp]: "bindr (Inl e) f = Inl e" "bindr (Inr a) f = f a"
  by (simp_all add: bindr_def)

lemma bindr_Inr [simp]: "bindr r Inr = r"
  by (cases r) simp_all

lemma bindr_eq_Inr: "bindr r f = Inr b \<longleftrightarrow> (\<exists>a. r = Inr a \<and> f a = Inr b)"
  by (cases r) auto

lemma bindr_eq_Inl: "bindr r f = Inl e \<longleftrightarrow> r = Inl e \<or> (\<exists>a. r = Inr a \<and> f a = Inl e)"
  by (cases r) auto

definition ensure :: "bool \<Rightarrow> 'e \<Rightarrow> ('e, unit) result" where
  "ensure b e = (if b then Inr () else Inl e)"

lemma ensure_eq [simp]:
  "ensure b e = Inr u \<longleftrightarrow> b" "ensure b e = Inl e' \<longleftrightarrow> \<not> b \<and> e' = e"
  by (auto simp: ensure_def)

section \<open>Runs of a deterministic machine\<close>

text \<open>
  The contract of a component whose every operation keeps an invariant: clients reason
  about whole runs. Each component that has one interprets it with its own step.
\<close>

locale invariant_machine =
  fixes ok :: "'s \<Rightarrow> bool"
    and step :: "'s \<Rightarrow> 'e \<Rightarrow> 's"
  assumes step_ok: "ok s \<Longrightarrow> ok (step s e)"
begin

lemma run_ok: "ok s \<Longrightarrow> ok (foldl step s es)"
  by (induction es arbitrary: s) (auto intro: step_ok)

lemma run_ok_everywhere:
  assumes "ok s" and "es = xs @ ys"
  shows "ok (foldl step s xs) \<and> ok (foldl step (foldl step s xs) ys)"
  using assms by (blast intro: run_ok)

end

section \<open>Cutting and searching text\<close>

text \<open>\<open>text.find(sub)\<close>: the first position, \<open>None\<close> for Python's \<open>-1\<close>.\<close>

fun py_find :: "'a list \<Rightarrow> 'a list \<Rightarrow> nat option" where
  "py_find [] sub = (if sub = [] then Some 0 else None)"
| "py_find (c # cs) sub =
     (if prefix sub (c # cs) then Some 0 else map_option Suc (py_find cs sub))"

lemma py_find_Some:
  "py_find t sub = Some i \<Longrightarrow>
     i \<le> length t \<and> prefix sub (drop i t) \<and> (\<forall>j<i. \<not> prefix sub (drop j t))"
proof (induction t arbitrary: i)
  case Nil
  then show ?case by (simp split: if_splits)
next
  case (Cons c cs)
  show ?case
  proof (cases "prefix sub (c # cs)")
    case True
    with Cons.prems show ?thesis by simp
  next
    case False
    with Cons.prems obtain k where k: "py_find cs sub = Some k" "i = Suc k" by auto
    from Cons.IH [OF k(1)] have "k \<le> length cs" "prefix sub (drop k cs)"
      and lt: "\<forall>j<k. \<not> prefix sub (drop j cs)" by auto
    moreover have "\<not> prefix sub (drop j (c # cs))" if "j < Suc k" for j
      using that lt False by (cases j) auto
    ultimately show ?thesis using k(2) by simp
  qed
qed

lemma py_find_None: "py_find t sub = None \<longleftrightarrow> (\<forall>j\<le>length t. \<not> prefix sub (drop j t))"
proof (induction t)
  case Nil
  then show ?case by simp
next
  case (Cons c cs)
  have "(\<forall>j\<le>length (c # cs). \<not> prefix sub (drop j (c # cs))) \<longleftrightarrow>
        \<not> prefix sub (c # cs) \<and> (\<forall>j\<le>length cs. \<not> prefix sub (drop j cs))" (is "?L \<longleftrightarrow> ?R")
  proof
    assume ?L
    then show ?R by (metis drop0 drop_Suc_Cons le0 length_Cons not_less_eq_eq)
  next
    assume R: ?R
    show ?L
    proof (intro allI impI)
      fix j assume "j \<le> length (c # cs)"
      with R show "\<not> prefix sub (drop j (c # cs))" by (cases j) auto
    qed
  qed
  with Cons show ?case by auto
qed

lemma py_find_unique:
  assumes "prefix sub (drop i t)" and "i \<le> length t" and "\<forall>j<i. \<not> prefix sub (drop j t)"
  shows "py_find t sub = Some i"
proof (cases "py_find t sub")
  case None
  with assms show ?thesis by (auto simp: py_find_None)
next
  case (Some k)
  from py_find_Some [OF this] assms have "k = i" by (metis linorder_neqE_nat)
  with Some show ?thesis by simp
qed

lemma py_find_le:
  assumes "prefix sub (drop i t)" and "i \<le> length t"
  obtains k where "py_find t sub = Some k" "k \<le> i"
proof -
  from assms have "py_find t sub \<noteq> None" by (auto simp: py_find_None)
  then obtain k where k: "py_find t sub = Some k" by auto
  with py_find_Some [OF k] assms(1) have "k \<le> i" by (meson not_le)
  with k show ?thesis by (rule that)
qed

text \<open>\<open>s.startswith(p)\<close>, \<open>s.removeprefix(p)\<close>.\<close>

abbreviation starts_with :: "'a list \<Rightarrow> 'a list \<Rightarrow> bool" where
  "starts_with s p \<equiv> prefix p s"

definition remove_prefix :: "'a list \<Rightarrow> 'a list \<Rightarrow> 'a list" where
  "remove_prefix s p = (if starts_with s p then drop (length p) s else s)"

text \<open>\<open>xs[-k:]\<close>: the last \<open>k\<close> elements; \<open>xs[-0:]\<close> is the whole list.\<close>

definition last_n :: "nat \<Rightarrow> 'a list \<Rightarrow> 'a list" where
  "last_n k xs = (if k = 0 then xs else drop (length xs - k) xs)"

lemma suffix_last_n: "suffix (last_n k xs) xs"
  by (simp add: last_n_def suffix_drop)

lemma length_last_n: "0 < k \<Longrightarrow> k \<le> length xs \<Longrightarrow> length (last_n k xs) = k"
  by (simp add: last_n_def)

lemma last_n_decomp: "xs = take (length xs - length (last_n k xs)) xs @ last_n k xs"
  by (auto simp: last_n_def)

section \<open>Letters and white space\<close>

text \<open>The ASCII characters for which \<open>str.isspace\<close> holds.\<close>

definition py_space :: "char \<Rightarrow> bool" where
  "py_space c \<longleftrightarrow> (let n = of_char c :: nat in (9 \<le> n \<and> n \<le> 13) \<or> (28 \<le> n \<and> n \<le> 32))"

definition py_lstrip :: "string \<Rightarrow> string" where
  "py_lstrip s = dropWhile py_space s"

definition py_rstrip :: "string \<Rightarrow> string" where
  "py_rstrip s = rev (dropWhile py_space (rev s))"

definition py_strip :: "string \<Rightarrow> string" where
  "py_strip s = py_rstrip (py_lstrip s)"

definition upper_char :: "char \<Rightarrow> char" where
  "upper_char c = (let n = of_char c :: nat in if 97 \<le> n \<and> n \<le> 122 then char_of (n - 32) else c)"

definition lower_char :: "char \<Rightarrow> char" where
  "lower_char c = (let n = of_char c :: nat in if 65 \<le> n \<and> n \<le> 90 then char_of (n + 32) else c)"

definition py_upper :: "string \<Rightarrow> string" where
  "py_upper s = map upper_char s"

definition py_lower :: "string \<Rightarrow> string" where
  "py_lower s = map lower_char s"

lemma upper_char_idem [simp]: "upper_char (upper_char c) = upper_char c"
  by (auto simp: upper_char_def Let_def of_char_of)

lemma lower_char_idem [simp]: "lower_char (lower_char c) = lower_char c"
  by (auto simp: lower_char_def Let_def of_char_of)

lemma py_upper_idem [simp]: "py_upper (py_upper s) = py_upper s"
  by (simp add: py_upper_def)

lemma py_lower_idem [simp]: "py_lower (py_lower s) = py_lower s"
  by (simp add: py_lower_def)

text \<open>\<open>s.split(sep)\<close> for a one-character separator, and \<open>sep.join(parts)\<close>.\<close>

fun py_split :: "'a \<Rightarrow> 'a list \<Rightarrow> 'a list list" where
  "py_split sep [] = [[]]"
| "py_split sep (c # cs) =
     (if c = sep then [] # py_split sep cs
      else (case py_split sep cs of [] \<Rightarrow> [[c]] | p # ps \<Rightarrow> (c # p) # ps))"

fun py_join :: "'a list \<Rightarrow> 'a list list \<Rightarrow> 'a list" where
  "py_join sep [] = []"
| "py_join sep [p] = p"
| "py_join sep (p # q # ps) = p @ sep @ py_join sep (q # ps)"

lemma py_split_not_Nil [simp]: "py_split sep s \<noteq> []"
  by (cases s) (auto split: list.splits)

lemma py_split_free: "sep \<notin> set s \<Longrightarrow> py_split sep s = [s]"
  by (induction s) auto

lemma py_split_append:
  "sep \<notin> set p \<Longrightarrow> py_split sep (p @ sep # s) = p # py_split sep s"
  by (induction p) auto

lemma py_split_join:
  assumes "ps \<noteq> []" and "\<forall>p \<in> set ps. sep \<notin> set p"
  shows "py_split sep (py_join [sep] ps) = ps"
  using assms
proof (induction "[sep]" ps rule: py_join.induct)
  case (3 p q ps)
  then show ?case by (simp add: py_split_append)
qed (auto simp: py_split_free)

lemma py_join_split: "py_join [sep] (py_split sep s) = s"
proof (induction s)
  case (Cons c cs)
  obtain p ps where split: "py_split sep cs = p # ps"
    by (meson neq_Nil_conv py_split_not_Nil)
  with Cons show ?case by (cases ps) auto
qed simp

lemma set_py_split: "p \<in> set (py_split sep s) \<Longrightarrow> sep \<notin> set p \<and> set p \<subseteq> set s"
proof (induction s arbitrary: p)
  case (Cons c cs)
  obtain q qs where "py_split sep cs = q # qs"
    by (meson neq_Nil_conv py_split_not_Nil)
  with Cons show ?case by (fastforce split: if_splits)
qed simp

text \<open>\<open>text.split()\<close>: the words between runs of white space; \<open>sub in text\<close>.\<close>

definition py_words :: "string \<Rightarrow> string list" where
  "py_words s = filter (\<lambda>w. w \<noteq> []) (py_split (CHR '' '') (map (\<lambda>c. if py_space c then CHR '' '' else c) s))"

definition py_in :: "'a list \<Rightarrow> 'a list \<Rightarrow> bool" where
  "py_in sub t \<longleftrightarrow> py_find t sub \<noteq> None"

text \<open>\<open>text.split(sep, 1)\<close>: at the first separator only.\<close>

definition py_split1 :: "'a \<Rightarrow> 'a list \<Rightarrow> 'a list list" where
  "py_split1 sep s =
     (if sep \<in> set s then [takeWhile (\<lambda>c. c \<noteq> sep) s, tl (dropWhile (\<lambda>c. c \<noteq> sep) s)] else [s])"

lemma py_split1_append:
  "sep \<notin> set p \<Longrightarrow> py_split1 sep (p @ sep # s) = [p, s]"
  by (induction p) (auto simp: py_split1_def)

section \<open>Decimal numerals\<close>

text \<open>\<open>str(n)\<close> for a non-negative integer.\<close>

definition digit_char :: "nat \<Rightarrow> char" where
  "digit_char d = char_of (48 + d)"

fun show_nat :: "nat \<Rightarrow> string" where
  "show_nat n = (if n < 10 then [digit_char n] else show_nat (n div 10) @ [digit_char (n mod 10)])"

declare show_nat.simps [simp del]

definition show_int :: "int \<Rightarrow> string" where
  "show_int i = (if i < 0 then ''-'' @ show_nat (nat (- i)) else show_nat (nat i))"

definition is_digit :: "char \<Rightarrow> bool" where
  "is_digit c \<longleftrightarrow> (let n = of_char c :: nat in 48 \<le> n \<and> n \<le> 57)"

definition digit_val :: "char \<Rightarrow> nat" where
  "digit_val c = of_char c - 48"

definition digits_val :: "string \<Rightarrow> nat" where
  "digits_val ds = foldl (\<lambda>v c. 10 * v + digit_val c) 0 ds"

text \<open>
  \<open>int(raw)\<close> on bytes: surrounding white space, one sign, digits with single
  underscores between them, and at most 4300 digits; anything else is a
  \<open>ValueError\<close>, here \<open>None\<close>.
\<close>

definition c_space :: "char \<Rightarrow> bool" where
  "c_space c \<longleftrightarrow> (let n = of_char c :: nat in (9 \<le> n \<and> n \<le> 13) \<or> n = 32)"

definition py_digits :: "string \<Rightarrow> nat option" where
  "py_digits ds =
     (let groups = py_split (CHR ''_'') ds
      in if (\<forall>g \<in> set groups. g \<noteq> [] \<and> list_all is_digit g) \<and> length (concat groups) \<le> 4300
         then Some (digits_val (concat groups)) else None)"

definition py_int :: "string \<Rightarrow> int option" where
  "py_int raw =
     (let s = rev (dropWhile c_space (rev (dropWhile c_space raw)))
      in case s of
           [] \<Rightarrow> None
         | c # cs \<Rightarrow> if c = CHR ''-'' then map_option (\<lambda>n. - int n) (py_digits cs)
                     else if c = CHR ''+'' then map_option int (py_digits cs)
                     else map_option int (py_digits s))"

lemma digit_char_props:
  assumes "d < 10"
  shows "is_digit (digit_char d)" "digit_val (digit_char d) = d" "\<not> c_space (digit_char d)"
    "digit_char d \<noteq> CHR ''_''" "digit_char d \<noteq> CHR ''-''" "digit_char d \<noteq> CHR ''+''"
proof -
  have val: "of_char (digit_char d) = 48 + d"
    using assms by (simp add: digit_char_def of_char_of)
  then show "is_digit (digit_char d)" "digit_val (digit_char d) = d" "\<not> c_space (digit_char d)"
    using assms by (auto simp: is_digit_def digit_val_def c_space_def Let_def)
  have "digit_char d \<noteq> c" if "of_char c \<noteq> 48 + d" for c
    using that val by metis
  then show "digit_char d \<noteq> CHR ''_''" "digit_char d \<noteq> CHR ''-''" "digit_char d \<noteq> CHR ''+''"
    using assms by auto
qed

lemma show_nat_not_Nil [simp]: "show_nat n \<noteq> []"
  by (subst show_nat.simps) simp

lemma show_nat_chars: "c \<in> set (show_nat n) \<Longrightarrow> \<exists>d<10. c = digit_char d"
proof (induction n arbitrary: c rule: show_nat.induct)
  case (1 n)
  have "\<exists>d<10. digit_char (n mod 10) = digit_char d" by (rule exI [of _ "n mod 10"]) simp
  with 1 show ?case by (subst (asm) (2) show_nat.simps) (auto split: if_splits)
qed

lemma digits_val_snoc: "digits_val (ds @ [c]) = 10 * digits_val ds + digit_val c"
  by (simp add: digits_val_def)

lemma digits_val_show_nat: "digits_val (show_nat n) = n"
proof (induction n rule: show_nat.induct)
  case (1 n)
  show ?case
  proof (cases "n < 10")
    case True
    then show ?thesis by (subst show_nat.simps) (simp add: digits_val_def digit_char_props)
  next
    case False
    with 1 show ?thesis
      by (subst show_nat.simps) (simp add: digits_val_snoc digit_char_props)
  qed
qed

lemma length_show_nat: "n < 10 ^ Suc k \<Longrightarrow> length (show_nat n) \<le> Suc k"
proof (induction k arbitrary: n)
  case 0
  then show ?case by (subst show_nat.simps) simp
next
  case (Suc k)
  have "n div 10 < 10 ^ Suc k" using Suc.prems by (simp add: less_mult_imp_div_less)
  from Suc.IH [OF this] show ?case by (subst show_nat.simps) simp
qed

lemma dropWhile_none: "\<forall>x \<in> set xs. \<not> P x \<Longrightarrow> dropWhile P xs = xs"
  by (cases xs) auto

text \<open>Printing a number and reading it back, within Python's limit of 4300 digits.\<close>

lemma py_int_show_nat:
  assumes "length (show_nat n) \<le> 4300"
  shows "py_int (show_nat n) = Some (int n)"
proof -
  let ?s = "show_nat n"
  have no: "\<not> c_space c" "is_digit c" "c \<noteq> CHR ''_''" "c \<noteq> CHR ''-''" "c \<noteq> CHR ''+''"
    if "c \<in> set ?s" for c
    using show_nat_chars [OF that] digit_char_props by auto
  have "py_split (CHR ''_'') ?s = [?s]" using no by (intro py_split_free) auto
  then have "py_digits ?s = Some n"
    using assms no by (simp add: py_digits_def list_all_iff digits_val_show_nat)
  moreover obtain c cs where "?s = c # cs" by (cases ?s) auto
  moreover have "rev (dropWhile c_space (rev (dropWhile c_space ?s))) = ?s"
    using no by (simp add: dropWhile_none)
  ultimately show ?thesis using no [of c] by (simp add: py_int_def)
qed

section \<open>Stripping\<close>

lemma py_rstrip_snoc: "py_rstrip (s @ [c]) = (if py_space c then py_rstrip s else s @ [c])"
  by (simp add: py_rstrip_def)

lemma py_rstrip_Nil [simp]: "py_rstrip [] = []"
  by (simp add: py_rstrip_def)

lemma py_rstrip_idem [simp]: "py_rstrip (py_rstrip s) = py_rstrip s"
  by (induction s rule: rev_induct) (simp_all add: py_rstrip_snoc)

lemma py_space_newline [simp]: "py_space (CHR 0x0A)"
  by (simp add: py_space_def)

lemma py_rstrip_prefix: "\<exists>ws. s = py_rstrip s @ ws \<and> list_all py_space ws"
proof (induction s rule: rev_induct)
  case (snoc c s)
  then obtain ws where ws: "s = py_rstrip s @ ws" "list_all py_space ws" by blast
  show ?case
  proof (cases "py_space c")
    case True
    with ws have "s @ [c] = py_rstrip (s @ [c]) @ ws @ [c]" "list_all py_space (ws @ [c])"
      by (simp_all add: py_rstrip_snoc)
    then show ?thesis by blast
  qed (simp add: py_rstrip_snoc)
qed simp

lemma py_rstrip_last:
  "py_rstrip s \<noteq> [] \<Longrightarrow> \<not> py_space (last (py_rstrip s))"
  by (induction s rule: rev_induct) (auto simp: py_rstrip_snoc)

lemma py_strip_idem [simp]: "py_strip (py_strip s) = py_strip s"
proof (cases "py_strip s = []")
  case False
  have "\<not> py_space (hd (py_lstrip s))" if "py_lstrip s \<noteq> []"
    using that hd_dropWhile unfolding py_lstrip_def by blast
  moreover have "hd (py_strip s) = hd (py_lstrip s)" "py_lstrip s \<noteq> []"
    using False py_rstrip_prefix [of "py_lstrip s"] unfolding py_strip_def
    by (metis hd_append2, metis py_rstrip_Nil)
  ultimately have "py_lstrip (py_strip s) = py_strip s"
    using False by (cases "py_strip s") (auto simp: py_lstrip_def)
  then show ?thesis by (metis py_rstrip_idem py_strip_def)
qed (simp add: py_strip_def py_lstrip_def)

lemma py_words_chars:
  assumes "w \<in> set (py_words s)"
  shows "w \<noteq> [] \<and> set w \<subseteq> set s \<and> (\<forall>c \<in> set w. \<not> py_space c)"
proof -
  let ?f = "\<lambda>c. if py_space c then CHR '' '' else c"
  from assms have w: "w \<noteq> []" "w \<in> set (py_split (CHR '' '') (map ?f s))" by (auto simp: py_words_def)
  from set_py_split [OF w(2)] have "CHR '' '' \<notin> set w" "set w \<subseteq> ?f ` set s" by auto
  then have "\<not> py_space c \<and> c \<in> set s" if "c \<in> set w" for c
    using that by (fastforce split: if_splits)
  with w(1) show ?thesis by auto
qed

lemma py_join_head:
  "ps \<noteq> [] \<Longrightarrow> \<forall>p \<in> set ps. p \<noteq> [] \<Longrightarrow> py_join sep ps \<noteq> [] \<and> hd (py_join sep ps) = hd (hd ps)"
  by (induction sep ps rule: py_join.induct) auto

lemma py_join_chars: "set (py_join sep ps) \<subseteq> set sep \<union> \<Union> (set ` set ps)"
  by (induction sep ps rule: py_join.induct) auto

lemma py_strip_head:
  assumes "s \<noteq> []" and "\<not> py_space (hd s)"
  shows "py_strip s = py_rstrip s" "py_strip s \<noteq> []" "hd (py_strip s) = hd s"
proof -
  obtain c cs where s: "s = c # cs" using assms(1) by (cases s) auto
  then show eq: "py_strip s = py_rstrip s" using assms(2) by (simp add: py_strip_def py_lstrip_def)
  obtain ws where ws: "s = py_rstrip s @ ws" "list_all py_space ws" using py_rstrip_prefix by blast
  show ne: "py_strip s \<noteq> []" using eq s ws assms(2) by (metis append_Nil list.pred_inject(2) list.sel(1))
  show "hd (py_strip s) = hd s" using eq ne ws(1) by (metis hd_append2)
qed

lemma py_strip_chars: "set (py_strip s) \<subseteq> set s" "length (py_strip s) \<le> length s"
proof -
  obtain ws where ws: "py_lstrip s = py_strip s @ ws" using py_rstrip_prefix unfolding py_strip_def by blast
  have sub: "set (py_lstrip s) \<subseteq> set s" "length (py_lstrip s) \<le> length s"
    by (auto simp: py_lstrip_def length_dropWhile_le dest: set_dropWhileD)
  show "set (py_strip s) \<subseteq> set s" using ws sub(1) by auto
  show "length (py_strip s) \<le> length s" using ws sub(2) by simp
qed

section \<open>Rounding\<close>

text \<open>\<open>round\<close> takes the nearest integer, an even one when two are equally near.\<close>

definition py_round :: "rat \<Rightarrow> int" where
  "py_round r =
     (let f = \<lfloor>r\<rfloor>; d = r - of_int f
      in if d < 1 / 2 then f else if d > 1 / 2 then f + 1 else if even f then f else f + 1)"

definition round_to :: "nat \<Rightarrow> rat \<Rightarrow> rat" where
  "round_to n x = of_int (py_round (x * 10 ^ n)) / 10 ^ n"

end
