(* ===== verification/PyValue.thy ===== *)
theory PyValue
  imports Prelude
begin

text \<open>
  The values \<open>json.loads\<close> returns and the operations the components apply to them:
  \<open>dict.get\<close>, truthiness, \<open>isinstance\<close> tests and \<open>str\<close>. A float is an exact
  rational or one of the three values JSON text can also produce, so rounding is not
  modelled. A dict is the list of its items, each key once.
\<close>

datatype pyfloat = Fin rat | PosInf | NegInf | NaN

datatype json =
    JNull
  | JBool bool
  | JInt int
  | JFloat pyfloat
  | JStr string
  | JList "json list"
  | JObj "(string \<times> json) list"

definition get :: "json \<Rightarrow> string \<Rightarrow> json" where
  "get v k = (case v of JObj items \<Rightarrow> (case map_of items k of Some x \<Rightarrow> x | None \<Rightarrow> JNull)
              | _ \<Rightarrow> JNull)"

definition has_key :: "json \<Rightarrow> string \<Rightarrow> bool" where
  "has_key v k = (case v of JObj items \<Rightarrow> map_of items k \<noteq> None | _ \<Rightarrow> False)"

definition get_or :: "json \<Rightarrow> string \<Rightarrow> json \<Rightarrow> json" where
  "get_or v k d = (if has_key v k then get v k else d)"

definition truthy :: "json \<Rightarrow> bool" where
  "truthy v = (case v of JNull \<Rightarrow> False | JBool b \<Rightarrow> b | JInt i \<Rightarrow> i \<noteq> 0
     | JFloat f \<Rightarrow> f \<noteq> Fin 0 | JStr s \<Rightarrow> s \<noteq> [] | JList xs \<Rightarrow> xs \<noteq> [] | JObj kvs \<Rightarrow> kvs \<noteq> [])"

text \<open>\<open>a or b\<close>.\<close>

definition py_or :: "json \<Rightarrow> json \<Rightarrow> json" where
  "py_or a b = (if truthy a then a else b)"

definition is_obj :: "json \<Rightarrow> bool" where
  "is_obj v = (case v of JObj _ \<Rightarrow> True | _ \<Rightarrow> False)"

definition is_str :: "json \<Rightarrow> bool" where
  "is_str v = (case v of JStr _ \<Rightarrow> True | _ \<Rightarrow> False)"

text \<open>
  \<open>str(v)\<close>. The text of floats and containers is only ever compared with fixed words or
  put into a message, so it is one marker that is none of those words.
\<close>

definition py_str :: "json \<Rightarrow> string" where
  "py_str v = (case v of JNull \<Rightarrow> ''None'' | JBool True \<Rightarrow> ''True'' | JBool False \<Rightarrow> ''False''
     | JInt i \<Rightarrow> show_int i | JStr s \<Rightarrow> s | _ \<Rightarrow> ''<repr>'')"

lemma truthy_simps [simp]:
  "\<not> truthy JNull" "truthy (JBool b) = b" "truthy (JInt i) = (i \<noteq> 0)"
  "truthy (JStr s) = (s \<noteq> [])" "truthy (JList xs) = (xs \<noteq> [])" "truthy (JObj kvs) = (kvs \<noteq> [])"
  by (simp_all add: truthy_def)

lemma get_simps [simp]:
  "get (JObj kvs) k = (case map_of kvs k of Some x \<Rightarrow> x | None \<Rightarrow> JNull)"
  "has_key (JObj kvs) k = (map_of kvs k \<noteq> None)"
  by (simp_all add: get_def has_key_def)

section \<open>\<open>int(x)\<close> and \<open>float(x)\<close> of a JSON value\<close>

datatype num_error = NumType | NumValue | NumOverflow

definition json_int :: "json \<Rightarrow> (num_error, int) result" where
  "json_int v =
     (case v of
        JInt i \<Rightarrow> Inr i
      | JBool b \<Rightarrow> Inr (if b then 1 else 0)
      | JFloat f \<Rightarrow>
          (case f of Fin r \<Rightarrow> Inr (if 0 \<le> r then \<lfloor>r\<rfloor> else - \<lfloor>- r\<rfloor>) | NaN \<Rightarrow> Inl NumValue | _ \<Rightarrow> Inl NumOverflow)
      | JStr s \<Rightarrow> (case py_int (py_strip s) of Some i \<Rightarrow> Inr i | None \<Rightarrow> Inl NumValue)
      | _ \<Rightarrow> Inl NumType)"

definition digit_part :: "string \<Rightarrow> string option" where
  "digit_part ds = (let groups = py_split (CHR ''_'') ds
     in if \<forall>g \<in> set groups. g \<noteq> [] \<and> list_all is_digit g then Some (concat groups) else None)"

definition signed_part :: "string \<Rightarrow> bool \<times> string" where
  "signed_part s = (case s of [] \<Rightarrow> (False, [])
     | c # cs \<Rightarrow> if c = CHR ''-'' then (True, cs) else if c = CHR ''+'' then (False, cs) else (False, s))"

definition scaled :: "nat \<Rightarrow> int \<Rightarrow> rat" where
  "scaled n e = (if 0 \<le> e then of_nat n * 10 ^ nat e else of_nat n / 10 ^ nat (- e))"

definition mantissa :: "string \<Rightarrow> (nat \<times> nat) option" where
  "mantissa m =
     (case py_split1 (CHR ''.'') m of
        [w] \<Rightarrow> map_option (\<lambda>d. (digits_val d, 0)) (digit_part w)
      | [w, f] \<Rightarrow>
          (if w = [] \<and> f = [] then None
           else case (if w = [] then Some [] else digit_part w, if f = [] then Some [] else digit_part f) of
             (Some dw, Some df) \<Rightarrow> Some (digits_val (dw @ df), length df)
           | _ \<Rightarrow> None)
      | _ \<Rightarrow> None)"

definition py_float_str :: "string \<Rightarrow> pyfloat option" where
  "py_float_str s0 =
     (let (neg, body) = signed_part (py_strip s0); low = py_lower body
      in if low = ''inf'' \<or> low = ''infinity'' then Some (if neg then NegInf else PosInf)
         else if low = ''nan'' then Some NaN
         else
           let parts = py_split1 (CHR ''e'') low;
               expo = (case parts of
                   [_, x] \<Rightarrow> (let (xn, xd) = signed_part x
                     in map_option (\<lambda>d. if xn then - int (digits_val d) else int (digits_val d)) (digit_part xd))
                 | _ \<Rightarrow> Some 0)
           in case (mantissa (hd parts), expo) of
                (Some (n, places), Some e) \<Rightarrow>
                  Some (Fin (if neg then - scaled n (e - int places) else scaled n (e - int places)))
              | _ \<Rightarrow> None)"

text \<open>An integer whose magnitude rounds past the largest double overflows.\<close>

definition float_limit :: int where "float_limit = 2 ^ 1024 - 2 ^ 970"

definition json_float :: "json \<Rightarrow> (num_error, pyfloat) result" where
  "json_float v =
     (case v of
        JInt i \<Rightarrow> if \<bar>i\<bar> \<ge> float_limit then Inl NumOverflow else Inr (Fin (of_int i))
      | JBool b \<Rightarrow> Inr (Fin (if b then 1 else 0))
      | JFloat f \<Rightarrow> Inr f
      | JStr s \<Rightarrow> (case py_float_str s of Some f \<Rightarrow> Inr f | None \<Rightarrow> Inl NumValue)
      | _ \<Rightarrow> Inl NumType)"

text \<open>\<open>v == 1\<close>\<close>

definition json_is_one :: "json \<Rightarrow> bool" where
  "json_is_one v = (case v of JInt i \<Rightarrow> i = 1 | JBool b \<Rightarrow> b | JFloat f \<Rightarrow> f = Fin 1 | _ \<Rightarrow> False)"

end
