(* ===== verification/ModelArtifacts.thy ===== *)
theory ModelArtifacts
  imports PyValue
begin

text \<open>
  \<open>runtime/model_artifacts.py\<close>: is a converted model directory complete? A directory is a
  map from names to entries. The XML parser and the JSON decoder are parameters: the root
  tag of a document that parses as a whole, and the value of a UTF-8 JSON text, \<open>None\<close> where
  they raise an error the code catches.
\<close>

datatype entry =
    File "char list"   \<comment> \<open>the bytes\<close>
  | Folder
  | Unreadable         \<comment> \<open>\<open>OSError\<close> from \<open>stat\<close> or \<open>open\<close>\<close>

type_synonym files = "string \<Rightarrow> entry option"

record parsers =
  xml_root :: "char list \<Rightarrow> string option"
  json_text :: "char list \<Rightarrow> json option"

definition xml_probe_bytes :: nat where "xml_probe_bytes = 4096"
definition max_config_bytes :: nat where "max_config_bytes = 4 * 1024 * 1024"

definition ir_markers :: "string list" where
  "ir_markers = [''openvino_model.xml'', ''openvino_language_model.xml'']"

definition has_bytes :: "char list \<Rightarrow> char list \<Rightarrow> bool" where
  "has_bytes sub b \<longleftrightarrow> py_find b sub \<noteq> None"

definition nonempty_file :: "entry option \<Rightarrow> bool" where
  "nonempty_file e = (case e of Some (File b) \<Rightarrow> b \<noteq> [] | _ \<Rightarrow> False)"

text \<open>The first and the last 4096 bytes.\<close>

definition valid_ir_xml_probe :: "entry option \<Rightarrow> bool" where
  "valid_ir_xml_probe e =
     (case e of
        Some (File b) \<Rightarrow>
          b \<noteq> [] \<and> has_bytes ''<net'' (take xml_probe_bytes b)
            \<and> has_bytes ''</net>'' (take xml_probe_bytes (drop (length b - xml_probe_bytes) b))
      | _ \<Rightarrow> False)"

text \<open>\<open>tag.rsplit("}", 1)[-1]\<close>\<close>

definition local_name :: "string \<Rightarrow> string" where
  "local_name tag = rev (takeWhile (\<lambda>c. c \<noteq> CHR ''}'') (rev tag))"

definition valid_ir_xml_full :: "parsers \<Rightarrow> entry option \<Rightarrow> bool" where
  "valid_ir_xml_full ps e =
     (case e of
        Some (File b) \<Rightarrow> (case xml_root ps b of None \<Rightarrow> False | Some tag \<Rightarrow> local_name tag = ''net'')
      | _ \<Rightarrow> False)"

definition valid_config :: "parsers \<Rightarrow> entry option \<Rightarrow> bool" where
  "valid_config ps e =
     (case e of
        Some (File b) \<Rightarrow>
          b \<noteq> [] \<and> length b \<le> max_config_bytes
            \<and> (case json_text ps b of Some (JObj _) \<Rightarrow> True | _ \<Rightarrow> False)
      | _ \<Rightarrow> False)"

text \<open>\<open>ir_xml.with_suffix(".bin")\<close> for the two marker names.\<close>

definition bin_name :: "string \<Rightarrow> string" where
  "bin_name marker = take (length marker - 4) marker @ ''.bin''"

record artifact_validation =
  ready :: bool
  reason :: string
  ir_xml :: "string option"
  ir_bin :: "string option"

definition rejected :: "string \<Rightarrow> artifact_validation" where
  "rejected why = \<lparr>ready = False, reason = why, ir_xml = None, ir_bin = None\<rparr>"

text \<open>One turn of the loop: what is wrong with this marker.\<close>

definition marker_failure :: "parsers \<Rightarrow> bool \<Rightarrow> files \<Rightarrow> string \<Rightarrow> string option" where
  "marker_failure ps thorough d marker =
     (if \<not> valid_ir_xml_probe (d marker) then Some (marker @ '' is empty, unreadable, or truncated'')
      else if thorough \<and> \<not> valid_ir_xml_full ps (d marker)
        then Some (marker @ '' contains malformed or incomplete XML'')
      else if \<not> nonempty_file (d (bin_name marker)) then Some (bin_name marker @ '' is missing or empty'')
      else if \<not> valid_config ps (d ''config.json'')
        then Some (''config.json is missing, empty, oversized, or invalid'')
      else None)"

fun scan_markers :: "parsers \<Rightarrow> bool \<Rightarrow> files \<Rightarrow> string list \<Rightarrow> string list \<Rightarrow> artifact_validation" where
  "scan_markers ps thorough d [] failures =
     rejected (if failures = [] then ''model output is incomplete'' else py_join ''; '' failures)"
| "scan_markers ps thorough d (m # ms) failures =
     (if d m = None then scan_markers ps thorough d ms failures
      else case marker_failure ps thorough d m of
        Some why \<Rightarrow> scan_markers ps thorough d ms (failures @ [why])
      | None \<Rightarrow>
          \<lparr>ready = True, reason = ''OpenVINO IR, weights, and configuration are present'',
           ir_xml = Some m, ir_bin = Some (bin_name m)\<rparr>)"

text \<open>\<open>None\<close> when the path is not a directory.\<close>

definition validate_openvino_model_dir :: "parsers \<Rightarrow> bool \<Rightarrow> files option \<Rightarrow> artifact_validation" where
  "validate_openvino_model_dir ps thorough dir =
     (case dir of
        None \<Rightarrow> rejected ''model directory does not exist''
      | Some d \<Rightarrow>
          if \<forall>m \<in> set ir_markers. d m = None then rejected ''primary OpenVINO IR XML file is missing''
          else scan_markers ps thorough d ir_markers [])"

definition is_openvino_model_dir :: "parsers \<Rightarrow> files option \<Rightarrow> bool" where
  "is_openvino_model_dir ps dir = ready (validate_openvino_model_dir ps False dir)"

section \<open>What readiness means\<close>

lemma rejected_ready [simp]: "\<not> ready (rejected why)"
  by (simp add: rejected_def)

lemma scan_ready: "ready (scan_markers ps th d ms fs) \<longleftrightarrow> (\<exists>m \<in> set ms. d m \<noteq> None \<and> marker_failure ps th d m = None)"
  by (induction ms arbitrary: fs) (auto split: option.split)

lemma validate_ready:
  "ready (validate_openvino_model_dir ps th dir) \<longleftrightarrow>
     (\<exists>d. dir = Some d \<and> (\<exists>m \<in> set ir_markers. d m \<noteq> None \<and> marker_failure ps th d m = None))"
  by (auto simp: validate_openvino_model_dir_def scan_ready split: option.split)

lemma marker_failure_None:
  "marker_failure ps th d m = None \<longleftrightarrow>
     valid_ir_xml_probe (d m) \<and> (th \<longrightarrow> valid_ir_xml_full ps (d m)) \<and> nonempty_file (d (bin_name m))
     \<and> valid_config ps (d ''config.json'')"
  by (simp add: marker_failure_def)

lemma absent_invalid [simp]: "\<not> valid_ir_xml_probe None" "\<not> nonempty_file None" "\<not> valid_config ps None"
  by (simp_all add: valid_ir_xml_probe_def nonempty_file_def valid_config_def)

text \<open>Deleting files never makes an incomplete model complete.\<close>

lemma ready_after_deletion:
  assumes "ready (validate_openvino_model_dir ps th (Some (d |` keep)))"
  shows "ready (validate_openvino_model_dir ps th (Some d))"
proof -
  from assms obtain m where m: "m \<in> set ir_markers" and ok: "marker_failure ps th (d |` keep) m = None"
    unfolding validate_ready by blast
  have same: "x \<in> keep \<and> (d |` keep) x = d x" if "(d |` keep) x \<noteq> None" for x
    using that by (auto simp: restrict_map_def split: if_splits)
  have "(d |` keep) m \<noteq> None" "(d |` keep) (bin_name m) \<noteq> None" "(d |` keep) ''config.json'' \<noteq> None"
    using ok unfolding marker_failure_None by (metis absent_invalid)+
  with same ok have "marker_failure ps th d m = None" unfolding marker_failure_None by metis
  with m same \<open>(d |` keep) m \<noteq> None\<close> show ?thesis unfolding validate_ready by metis
qed

lemma thorough_ready_is_ready:
  "ready (validate_openvino_model_dir ps True dir) \<Longrightarrow> ready (validate_openvino_model_dir ps th dir)"
  unfolding validate_ready marker_failure_None by blast

end
