(* ===== verification/ManagedTree.thy ===== *)
theory ManagedTree
  imports ModelArtifacts
begin

text \<open>
  Measuring and removing the directory trees InferBridge manages: \<open>_measure_tree\<close> and
  \<open>_remove_tree\<close> of \<open>app/storage_safety.py\<close> and \<open>_remove_tree\<close> of
  \<open>app/model_recovery_cleanup.py\<close>. A tree is a value; a symbolic link or junction carries what it
  leads to, which is never entered. What one attempt at removal leaves behind, and how it ends,
  comes from outside.
\<close>

section \<open>Trees\<close>

datatype fs_node =
    Document "char list"
  | Locked                             \<comment> \<open>a file whose \<open>stat\<close> raises \<open>OSError\<close>\<close>
  | Device                             \<comment> \<open>neither a file nor a directory\<close>
  | Linked "fs_node option"            \<comment> \<open>\<open>None\<close>: dangling\<close>
  | Directory bool "(string \<times> fs_node) list"  \<comment> \<open>can it be listed?\<close>

fun is_directory :: "fs_node \<Rightarrow> bool" where
  "is_directory (Directory listed es) = True"
| "is_directory (Linked (Some t)) = is_directory t"
| "is_directory n = False"

fun is_regular :: "fs_node \<Rightarrow> bool" where
  "is_regular (Document b) = True"
| "is_regular Locked = True"
| "is_regular (Linked (Some t)) = is_regular t"
| "is_regular n = False"

fun leads_somewhere :: "fs_node \<Rightarrow> bool" where
  "leads_somewhere (Linked None) = False"
| "leads_somewhere (Linked (Some t)) = leads_somewhere t"
| "leads_somewhere n = True"

definition is_reparse_point :: "fs_node option \<Rightarrow> bool" where
  "is_reparse_point n = (case n of Some (Linked t) \<Rightarrow> True | _ \<Rightarrow> False)"

text \<open>\<open>Path.exists\<close>, which follows links, and \<open>os.path.lexists\<close>.\<close>

definition path_exists :: "fs_node option \<Rightarrow> bool" where
  "path_exists n = (case n of None \<Rightarrow> False | Some t \<Rightarrow> leads_somewhere t)"

definition lexists :: "fs_node option \<Rightarrow> bool" where
  "lexists n \<longleftrightarrow> n \<noteq> None"

text \<open>The directory as \<open>ModelArtifacts\<close> reads it.\<close>

fun entry_of :: "fs_node \<Rightarrow> entry option" where
  "entry_of (Document b) = Some (File b)"
| "entry_of Locked = Some Unreadable"
| "entry_of Device = Some Folder"
| "entry_of (Directory listed es) = Some Folder"
| "entry_of (Linked None) = None"
| "entry_of (Linked (Some t)) = entry_of t"

fun dir_files :: "fs_node \<Rightarrow> files option" where
  "dir_files (Directory listed es) =
     Some (\<lambda>k. case map_of es k of None \<Rightarrow> None | Some n \<Rightarrow> entry_of n)"
| "dir_files (Linked (Some t)) = dir_files t"
| "dir_files n = None"

definition holds_model :: "parsers \<Rightarrow> fs_node option \<Rightarrow> bool" where
  "holds_model ps n = is_openvino_model_dir ps (Option.bind n dir_files)"

section \<open>Measuring\<close>

text \<open>
  \<open>os.walk\<close> yields a directory before its subdirectories and skips one it cannot list. In each the links
  to directories are looked at first, then the files in order.
\<close>

datatype walk = WalkUnsafe | WalkDenied nat | WalkTotal nat

fun file_level :: "(string \<times> fs_node) list \<Rightarrow> nat \<Rightarrow> walk" where
  "file_level [] acc = WalkTotal acc"
| "file_level ((k, n) # rest) acc =
     (case n of
        Document b \<Rightarrow> file_level rest (acc + length b)
      | Locked \<Rightarrow> WalkDenied acc
      | Device \<Rightarrow> file_level rest acc
      | Linked t \<Rightarrow> if is_directory n then file_level rest acc else WalkUnsafe
      | Directory listed es \<Rightarrow> file_level rest acc)"

definition linked_dir :: "string \<times> fs_node \<Rightarrow> bool" where
  "linked_dir e \<longleftrightarrow> is_reparse_point (Some (snd e)) \<and> is_directory (snd e)"

definition one_level :: "(string \<times> fs_node) list \<Rightarrow> nat \<Rightarrow> walk" where
  "one_level es acc = (if list_ex linked_dir es then WalkUnsafe else file_level es acc)"

fun walk_below :: "(string \<times> fs_node) list \<Rightarrow> nat \<Rightarrow> walk" where
  "walk_below [] acc = WalkTotal acc"
| "walk_below ((k, Directory True es) # rest) acc =
     (case one_level es acc of
        WalkTotal t \<Rightarrow> (case walk_below es t of WalkTotal u \<Rightarrow> walk_below rest u | w \<Rightarrow> w)
      | w \<Rightarrow> w)"
| "walk_below (e # rest) acc = walk_below rest acc"

record tree_measurement =
  present :: bool
  size_bytes :: nat
  unsafe :: bool
  unreadable :: bool

definition measured :: "bool \<Rightarrow> nat \<Rightarrow> bool \<Rightarrow> bool \<Rightarrow> tree_measurement" where
  "measured p n u r = \<lparr>present = p, size_bytes = n, unsafe = u, unreadable = r\<rparr>"

text \<open>Is the root itself a link, and does the path lie lexically in it?\<close>

record managed_root =
  root_linked :: bool
  lexically_within :: bool

definition measure_tree :: "managed_root \<Rightarrow> bool \<Rightarrow> fs_node option \<Rightarrow> tree_measurement" where
  "measure_tree rt allow_file n =
     (if root_linked rt \<or> \<not> lexically_within rt then measured (lexists n) 0 True False
      else case n of
        None \<Rightarrow> measured False 0 False False
      | Some t \<Rightarrow>
          if is_reparse_point n then measured True 0 True False
          else if is_regular t then
            (if \<not> allow_file then measured True 0 True False
             else case t of Document b \<Rightarrow> measured True (length b) False False | _ \<Rightarrow> measured True 0 False True)
          else if \<not> is_directory t then measured True 0 True False
          else (case walk_below [([], t)] 0 of
                  WalkUnsafe \<Rightarrow> measured True 0 True False
                | WalkDenied so_far \<Rightarrow> measured True so_far False True
                | WalkTotal all_bytes \<Rightarrow> measured True all_bytes False False))"

section \<open>Removing\<close>

definition retry_delays :: "rat list" where
  "retry_delays = [0, 15 / 100, 5 / 10, 1, 2]"

text \<open>
  One call of \<open>rmtree\<close> or \<open>unlink\<close>: it returns, raises \<open>FileNotFoundError\<close> or another \<open>OSError\<close>; the
  argument is what is at the path afterwards.
\<close>

datatype attempt = Returned "fs_node option" | Missing "fs_node option" | Refused "fs_node option"

fun left_behind :: "attempt \<Rightarrow> fs_node option" where
  "left_behind (Returned n) = n"
| "left_behind (Missing n) = n"
| "left_behind (Refused n) = n"

text \<open>The loop over the delays; \<open>True\<close> when it ends by a return, with what is left and the attempts not used.\<close>

fun remove_loop :: "rat list \<Rightarrow> fs_node option \<Rightarrow> attempt list \<Rightarrow> bool \<times> fs_node option \<times> attempt list" where
  "remove_loop [] n as = (False, n, as)"
| "remove_loop (d # ds) n as =
     (if \<not> lexists n then (True, n, as)
      else case as of
        [] \<Rightarrow> (True, None, [])
      | Returned m # rest \<Rightarrow> if \<not> lexists m then (True, m, rest) else remove_loop ds m rest
      | Missing m # rest \<Rightarrow> (True, m, rest)
      | Refused m # rest \<Rightarrow> remove_loop ds m rest)"

datatype storage_conflict =
    CleanupActive | OperationActive | ModelLoaded | UnsafePath | StorageUnreadable | CleanupConflict
  | CleanupFailed | CacheUnavailable | ModelsActive | CompleteOutput | UnsafeOutputPath

definition remove_tree ::
  "managed_root \<Rightarrow> bool \<Rightarrow> fs_node option \<Rightarrow> attempt list \<Rightarrow> (storage_conflict, nat) result \<times> fs_node option \<times> attempt list"
  where
  "remove_tree rt allow_file n as =
     (let m = measure_tree rt allow_file n
      in if \<not> present m then (Inr 0, n, as)
         else if unsafe m then (Inl UnsafePath, n, as)
         else if unreadable m then (Inl StorageUnreadable, n, as)
         else (case remove_loop retry_delays n as of
                 (True, m', rest) \<Rightarrow> (Inr (size_bytes m), m', rest)
               | (False, m', rest) \<Rightarrow> (Inl CleanupFailed, m', rest)))"

text \<open>The variant of \<open>app/model_recovery_cleanup.py\<close>, which tells only whether something was removed.\<close>

definition remove_directory ::
  "fs_node option \<Rightarrow> attempt list \<Rightarrow> (storage_conflict, bool) result \<times> fs_node option \<times> attempt list" where
  "remove_directory n as =
     (case n of
        None \<Rightarrow> (Inr False, n, as)
      | Some t \<Rightarrow>
          if is_reparse_point n \<or> \<not> is_directory t then (Inl UnsafeOutputPath, n, as)
          else (case remove_loop retry_delays n as of
                  (True, m, rest) \<Rightarrow> (Inr True, m, rest)
                | (False, m, rest) \<Rightarrow> (Inl CleanupFailed, m, rest)))"

section \<open>What is measured\<close>

text \<open>The part of a tree that can be listed.\<close>

fun listed_size :: "(string \<times> fs_node) list \<Rightarrow> nat" where
  "listed_size [] = 0"
| "listed_size ((k, Document b) # rest) = length b + listed_size rest"
| "listed_size ((k, Directory True es) # rest) = listed_size es + listed_size rest"
| "listed_size (e # rest) = listed_size rest"

fun listed_ok :: "(string \<times> fs_node) list \<Rightarrow> bool" where
  "listed_ok [] = True"
| "listed_ok ((k, Linked t) # rest) = False"
| "listed_ok ((k, Locked) # rest) = False"
| "listed_ok ((k, Directory True es) # rest) = (listed_ok es \<and> listed_ok rest)"
| "listed_ok (e # rest) = listed_ok rest"

definition document_size :: "fs_node \<Rightarrow> nat" where
  "document_size n = (case n of Document b \<Rightarrow> length b | _ \<Rightarrow> 0)"

definition plain_entry :: "fs_node \<Rightarrow> bool" where
  "plain_entry n = (case n of Linked t \<Rightarrow> False | Locked \<Rightarrow> False | _ \<Rightarrow> True)"

fun below_size :: "(string \<times> fs_node) list \<Rightarrow> nat" where
  "below_size [] = 0"
| "below_size ((k, Directory True es) # rest) = listed_size es + below_size rest"
| "below_size (e # rest) = below_size rest"

fun below_ok :: "(string \<times> fs_node) list \<Rightarrow> bool" where
  "below_ok [] = True"
| "below_ok ((k, Directory True es) # rest) = (listed_ok es \<and> below_ok rest)"
| "below_ok (e # rest) = below_ok rest"

lemma file_level_total:
  "file_level es acc = WalkTotal t \<longleftrightarrow>
     (\<forall>e \<in> set es. linked_dir e \<or> plain_entry (snd e)) \<and> t = acc + (\<Sum>e \<leftarrow> es. document_size (snd e))"
proof (induction es acc rule: file_level.induct)
  case (2 k n rest acc)
  then show ?case
    by (cases n) (auto simp: document_size_def plain_entry_def linked_dir_def is_reparse_point_def)
qed auto

lemma walk_then [simp]:
  "(case w of WalkUnsafe \<Rightarrow> WalkUnsafe | WalkDenied x \<Rightarrow> WalkDenied x | WalkTotal x \<Rightarrow> f x) = WalkTotal t
     \<longleftrightarrow> (\<exists>x. w = WalkTotal x \<and> f x = WalkTotal t)"
  by (cases w) auto

lemma one_level_total:
  "one_level es acc = WalkTotal t \<longleftrightarrow>
     (\<forall>e \<in> set es. plain_entry (snd e)) \<and> t = acc + (\<Sum>e \<leftarrow> es. document_size (snd e))"
proof -
  have "\<not> linked_dir e" if "plain_entry (snd e)" for e
    using that by (auto simp: linked_dir_def plain_entry_def is_reparse_point_def split: fs_node.splits)
  then show ?thesis
    by (auto simp: one_level_def list_ex_iff file_level_total)
qed

lemma listed_size_parts: "listed_size es = (\<Sum>e \<leftarrow> es. document_size (snd e)) + below_size es"
  by (induction es rule: listed_size.induct) (auto simp: document_size_def)

lemma listed_ok_parts: "listed_ok es \<longleftrightarrow> (\<forall>e \<in> set es. plain_entry (snd e)) \<and> below_ok es"
  by (induction es rule: listed_ok.induct) (auto simp: plain_entry_def)

lemma walk_below_total:
  "walk_below es acc = WalkTotal t \<longleftrightarrow> below_ok es \<and> t = acc + below_size es"
proof (induction es acc arbitrary: t rule: walk_below.induct)
  case (2 k es rest acc)
  show ?case
    by (auto simp: one_level_total 2 listed_ok_parts listed_size_parts)
qed auto

text \<open>
  A measurement that is neither unsafe nor unreadable counts every byte of the files that can be listed,
  and there is no link among them.
\<close>

lemma measured_directory:
  assumes "lexically_within rt" and "\<not> root_linked rt" and n: "n = Some (Directory listed es)"
  shows "\<not> unsafe (measure_tree rt af n) \<and> \<not> unreadable (measure_tree rt af n)
     \<longleftrightarrow> (listed \<longrightarrow> listed_ok es)"
    and "listed \<Longrightarrow> listed_ok es \<Longrightarrow> size_bytes (measure_tree rt af n) = listed_size es"
proof -
  have w: "walk_below [([], Directory listed es)] 0 = WalkTotal t
      \<longleftrightarrow> (listed \<longrightarrow> listed_ok es) \<and> t = (if listed then listed_size es else 0)" for t
    by (cases listed) (auto simp: walk_below_total simp del: walk_below.simps)
  show "\<not> unsafe (measure_tree rt af n) \<and> \<not> unreadable (measure_tree rt af n)
     \<longleftrightarrow> (listed \<longrightarrow> listed_ok es)"
    using assms w by (cases "walk_below [([], Directory listed es)] 0")
      (auto simp: measure_tree_def measured_def is_reparse_point_def)
  show "size_bytes (measure_tree rt af n) = listed_size es" if "listed" "listed_ok es"
    using assms w [of "listed_size es"] that by (auto simp: measure_tree_def measured_def is_reparse_point_def)
qed

text \<open>A directory that cannot be listed counts as empty.\<close>

lemma unlistable_counts_as_empty:
  assumes "lexically_within rt" and "\<not> root_linked rt"
  shows "measure_tree rt False (Some (Directory False es)) = measured True 0 False False"
  using assms by (simp add: measure_tree_def is_reparse_point_def)

lemma absent_measured: "\<not> present (measure_tree rt af n) \<longleftrightarrow> n = None"
  by (auto simp: measure_tree_def measured_def lexists_def split: option.splits walk.splits fs_node.splits)

lemma measure_unsafe_outside:
  "root_linked rt \<or> \<not> lexically_within rt \<Longrightarrow> unsafe (measure_tree rt af n)"
  by (simp add: measure_tree_def measured_def)

section \<open>What is removed\<close>

lemma remove_loop_end:
  assumes "remove_loop ds n as = (ended, m, rest)"
  shows "ended \<Longrightarrow> m = None \<or> Missing m \<in> set as"
    and "m = n \<and> rest = as \<or> m = None \<or> (\<exists>a \<in> set as. m = left_behind a)"
    and "length as \<le> length rest + length ds"
proof -
  have "(ended \<longrightarrow> m = None \<or> Missing m \<in> set as)
      \<and> (m = n \<and> rest = as \<or> m = None \<or> (\<exists>a \<in> set as. m = left_behind a)) \<and> length as \<le> length rest + length ds"
    using assms
  proof (induction ds n as rule: remove_loop.induct)
    case (2 d ds n as)
    show ?case
    proof (cases "n = None \<or> as = []")
      case True
      with 2(3) show ?thesis by (auto simp: lexists_def split: if_splits)
    next
      case False
      then obtain a as' where as: "as = a # as'" by (cases as) auto
      with False have e: "lexists n" by (auto simp: lexists_def)
      show ?thesis
      proof (cases a)
        case (Returned q)
        with 2(1) [OF _ as, of q] 2(3) e as show ?thesis by (auto simp: lexists_def split: if_splits)
      next
        case (Missing q)
        with 2(3) e as show ?thesis by auto
      next
        case (Refused q)
        with 2(2) [OF _ as, of q] 2(3) e as show ?thesis by auto
      qed
    qed
  qed auto
  then show "ended \<Longrightarrow> m = None \<or> Missing m \<in> set as"
    and "m = n \<and> rest = as \<or> m = None \<or> (\<exists>a \<in> set as. m = left_behind a)"
    and "length as \<le> length rest + length ds" by blast+
qed

lemma remove_tree_cases:
  assumes "remove_tree rt af n as = (r, m, rest)"
  obtains (absent) "n = None" "r = Inr 0" "m = None" "rest = as"
  | (refused) c where "r = Inl c" "c \<in> {UnsafePath, StorageUnreadable}" "m = n" "rest = as"
  | (removed) "r = Inr (size_bytes (measure_tree rt af n))" "\<not> unsafe (measure_tree rt af n)"
      "\<not> unreadable (measure_tree rt af n)" "remove_loop retry_delays n as = (True, m, rest)"
  | (failed) "r = Inl CleanupFailed" "\<not> unsafe (measure_tree rt af n)"
      "remove_loop retry_delays n as = (False, m, rest)"
  using assms absent_measured [of rt af n]
  by (auto simp: remove_tree_def Let_def split: if_splits prod.splits bool.splits)

text \<open>
  A removal that reports success has removed the tree, unless the system reported a missing file; a refusal
  for a link or an unreadable file touches nothing; there are at most five attempts.
\<close>

lemma removal_reports_truth:
  assumes "remove_tree rt af n as = (r, m, rest)"
  shows "(\<forall>k. r = Inr k \<longrightarrow> m = None \<or> Missing m \<in> set as)
     \<and> (r = Inl UnsafePath \<or> r = Inl StorageUnreadable \<longrightarrow> m = n \<and> rest = as)
     \<and> length as \<le> length rest + 5"
  using assms
proof (cases rule: remove_tree_cases)
  case removed
  with remove_loop_end(1,3) [OF removed(4)] show ?thesis by (simp add: retry_delays_def)
next
  case failed
  with remove_loop_end(3) [OF failed(3)] show ?thesis by (simp add: retry_delays_def)
qed auto

lemma links_never_followed:
  assumes "is_reparse_point n"
  shows "remove_tree rt af n as = (Inl UnsafePath, n, as)" and "remove_directory n as = (Inl UnsafeOutputPath, n, as)"
  using assms
  by (auto simp: remove_tree_def remove_directory_def measure_tree_def measured_def is_reparse_point_def Let_def lexists_def
      split: option.splits fs_node.splits)

text \<open>A file that vanishes during the removal ends it as a success although the rest of the tree is still there.\<close>

lemma vanished_file_ends_removal:
  assumes "lexically_within rt" and "\<not> root_linked rt"
  shows "remove_tree rt False (Some (Directory True [(''a'', Document ''xyz''), (''b'', Document ''uv'')]))
      [Missing (Some (Directory True [(''b'', Document ''uv'')]))]
    = (Inr 5, Some (Directory True [(''b'', Document ''uv'')]), [])"
  using assms by (simp add: remove_tree_def measure_tree_def measured_def is_reparse_point_def Let_def one_level_def
      linked_dir_def retry_delays_def lexists_def)

end
