(* ===== verification/ProgressProtocol.thy ===== *)
theory ProgressProtocol
  imports PyValue
begin

text \<open>
  \<open>runtime/progress_protocol.py\<close>: the JSON Lines records a converter process writes and
  the server decodes. The JSON codec is the pair of parameters \<open>loads\<close> and \<open>dumps\<close>;
  \<open>dumps\<close> is \<open>None\<close> when it raises \<open>ValueError\<close> (an integer with too many digits).
\<close>

section \<open>Events\<close>

record progress_event =
  operation_id :: string
  revision :: int
  phase :: string
  message :: string
  percent :: "pyfloat option"
  model_id :: "string option"
  completed :: "int option"
  total :: "int option"
  timestamp :: pyfloat

datatype loaded = Loaded json | NotJson | LoadsValueError | LoadsRecursionError

datatype wire_error =
    BadSchema | BadOperationId | BadRevision | BadPhase | BadMessage | BadModelId | BadCount | CountsSwapped
  | BadTimestamp | BadPercent | TooManyDigits | FloatOverflow | TooDeep

text \<open>The two errors that are no \<open>ValueError\<close>, so a caller that catches that one lets them through.\<close>

definition is_value_error :: "wire_error \<Rightarrow> bool" where
  "is_value_error e \<longleftrightarrow> e \<noteq> FloatOverflow \<and> e \<noteq> TooDeep"

definition event_type :: string where "event_type = ''inferbridge.progress''"

definition valid_phases :: "string list" where
  "valid_phases = [''queued'', ''resolving'', ''downloading'', ''converting'', ''finalizing'',
     ''loading'', ''ready'', ''cancelled'', ''error'']"

definition json_opt :: "('a \<Rightarrow> json) \<Rightarrow> 'a option \<Rightarrow> json" where
  "json_opt f v = (case v of None \<Rightarrow> JNull | Some x \<Rightarrow> f x)"

definition as_dict :: "progress_event \<Rightarrow> json" where
  "as_dict ev = JObj
     [(''schema_version'', JInt 1), (''type'', JStr event_type), (''operation_id'', JStr (operation_id ev)),
      (''revision'', JInt (revision ev)), (''phase'', JStr (phase ev)), (''message'', JStr (message ev)),
      (''percent'', json_opt JFloat (percent ev)), (''model_id'', json_opt JStr (model_id ev)),
      (''completed'', json_opt JInt (completed ev)), (''total'', json_opt JInt (total ev)),
      (''timestamp'', JFloat (timestamp ev))]"

section \<open>Field checks\<close>

definition code_of :: "char \<Rightarrow> nat" where "code_of c = of_char c"

definition id_start :: "char \<Rightarrow> bool" where
  "id_start c \<longleftrightarrow> (let n = code_of c in (48 \<le> n \<and> n \<le> 57) \<or> (65 \<le> n \<and> n \<le> 90) \<or> (97 \<le> n \<and> n \<le> 122))"

definition id_char :: "char \<Rightarrow> bool" where
  "id_char c \<longleftrightarrow> id_start c \<or> c \<in> {CHR ''.'', CHR ''_'', CHR '':'', CHR ''-''}"

text \<open>\<open>^[A-Za-z0-9][A-Za-z0-9._:-]{0,127}$\<close> and \<open>^[^\x00-\x1f\x7f]{1,240}$\<close>, matched in full.\<close>

definition operation_id_ok :: "string \<Rightarrow> bool" where
  "operation_id_ok s \<longleftrightarrow> s \<noteq> [] \<and> id_start (hd s) \<and> list_all id_char (tl s) \<and> length s \<le> 128"

definition is_control :: "char \<Rightarrow> bool" where
  "is_control c \<longleftrightarrow> code_of c < 32 \<or> code_of c = 127"

definition model_id_ok :: "string \<Rightarrow> bool" where
  "model_id_ok s \<longleftrightarrow> s \<noteq> [] \<and> length s \<le> 240 \<and> list_all (\<lambda>c. \<not> is_control c) s"

definition text_char_ok :: "char \<Rightarrow> bool" where
  "text_char_ok c \<longleftrightarrow> \<not> (code_of c < 32 \<and> code_of c \<noteq> 9)"

definition bounded_text :: "json \<Rightarrow> nat \<Rightarrow> string option" where
  "bounded_text v limit =
     (case v of
        JStr s \<Rightarrow>
          (let t = py_strip s
           in if t = [] \<or> length t > limit \<or> \<not> list_all text_char_ok t then None else Some t)
      | _ \<Rightarrow> None)"

definition normalize_emitted_message :: "string \<Rightarrow> (wire_error, string) result" where
  "normalize_emitted_message v =
     (let m = py_join '' '' (py_words (map (\<lambda>c. if is_control c then CHR '' '' else c) v))
      in if m = [] then Inl BadMessage else Inr (take 500 m))"

definition optional_count :: "json \<Rightarrow> (wire_error, int option) result" where
  "optional_count v =
     (case v of JNull \<Rightarrow> Inr None | JInt i \<Rightarrow> if i < 0 then Inl BadCount else Inr (Some i) | _ \<Rightarrow> Inl BadCount)"

text \<open>\<open>float(value)\<close> of a JSON number that is no boolean.\<close>

definition number_float :: "json \<Rightarrow> wire_error \<Rightarrow> (wire_error, pyfloat) result" where
  "number_float v e =
     (case v of
        JInt i \<Rightarrow> if \<bar>i\<bar> \<ge> float_limit then Inl FloatOverflow else Inr (Fin (of_int i))
      | JFloat f \<Rightarrow> Inr f
      | _ \<Rightarrow> Inl e)"

definition optional_percent :: "json \<Rightarrow> (wire_error, pyfloat option) result" where
  "optional_percent v =
     (if v = JNull then Inr None
      else bindr (number_float v BadPercent) (\<lambda>f.
        case f of Fin p \<Rightarrow> if 0 \<le> p \<and> p \<le> 100 then Inr (Some f) else Inl BadPercent | _ \<Rightarrow> Inl BadPercent))"

definition event_timestamp :: "json \<Rightarrow> (wire_error, pyfloat) result" where
  "event_timestamp v =
     bindr (number_float v BadTimestamp) (\<lambda>f.
       case f of Fin t \<Rightarrow> if t > 0 then Inr f else Inl BadTimestamp | _ \<Rightarrow> Inl BadTimestamp)"

definition event_model_id :: "json \<Rightarrow> (wire_error, string option) result" where
  "event_model_id v =
     (if v = JNull then Inr None
      else case bounded_text v 240 of
        None \<Rightarrow> Inl BadModelId
      | Some m \<Rightarrow> if model_id_ok m then Inr (Some m) else Inl BadModelId)"

section \<open>The decoder\<close>

definition decode_payload :: "json \<Rightarrow> (wire_error, progress_event) result" where
  "decode_payload p =
     bindr (ensure (json_is_one (get p ''schema_version'')) BadSchema) (\<lambda>_.
     case bounded_text (get p ''operation_id'') 128 of
       None \<Rightarrow> Inl BadOperationId
     | Some oid \<Rightarrow>
         if \<not> operation_id_ok oid then Inl BadOperationId
         else case get p ''revision'' of
           JInt rv \<Rightarrow>
             if rv < 1 then Inl BadRevision
             else (case bounded_text (get p ''phase'') 32 of
               None \<Rightarrow> Inl BadPhase
             | Some ph \<Rightarrow>
                 if ph \<notin> set valid_phases then Inl BadPhase
                 else case bounded_text (get p ''message'') 500 of
                   None \<Rightarrow> Inl BadMessage
                 | Some m \<Rightarrow>
                     bindr (event_model_id (get p ''model_id'')) (\<lambda>mid.
                     bindr (optional_count (get p ''completed'')) (\<lambda>c.
                     bindr (optional_count (get p ''total'')) (\<lambda>t.
                     bindr (ensure (\<not> (c \<noteq> None \<and> t \<noteq> None \<and> the c > the t)) CountsSwapped) (\<lambda>_.
                     bindr (event_timestamp (get p ''timestamp'')) (\<lambda>ts.
                     bindr (optional_percent (get p ''percent'')) (\<lambda>pc.
                       Inr \<lparr>operation_id = oid, revision = rv, phase = ph, message = m, percent = pc,
                            model_id = mid, completed = c, total = t, timestamp = ts\<rparr>)))))))
         | _ \<Rightarrow> Inl BadRevision)"

text \<open>\<open>Inr None\<close>: an ordinary line of output.\<close>

definition decode_progress_event ::
  "(string \<Rightarrow> loaded) \<Rightarrow> string \<Rightarrow> (wire_error, progress_event option) result" where
  "decode_progress_event loads line =
     (case loads line of
        NotJson \<Rightarrow> Inr None
      | LoadsValueError \<Rightarrow> Inl TooManyDigits
      | LoadsRecursionError \<Rightarrow> Inl TooDeep
      | Loaded p \<Rightarrow>
          if \<not> is_obj p \<or> get p ''type'' \<noteq> JStr event_type then Inr None
          else map_sum id Some (decode_payload p))"

section \<open>The emitter\<close>

record emitter =
  em_operation_id :: string
  em_model_id :: "string option"
  em_stream :: "string list"
  em_revision :: int

definition new_emitter :: "string option \<Rightarrow> string option \<Rightarrow> string \<Rightarrow> (wire_error, emitter) result" where
  "new_emitter oid mid fresh =
     (let candidate = (case oid of Some s \<Rightarrow> if s = [] then ''converter-'' @ fresh else s
                       | None \<Rightarrow> ''converter-'' @ fresh)
      in if \<not> operation_id_ok candidate then Inl BadOperationId
         else if (case mid of None \<Rightarrow> False | Some m \<Rightarrow> \<not> model_id_ok m) then Inl BadModelId
         else Inr \<lparr>em_operation_id = candidate, em_model_id = mid, em_stream = [], em_revision = 0\<rparr>)"

definition emitted_event ::
  "emitter \<Rightarrow> rat \<Rightarrow> string \<Rightarrow> string \<Rightarrow> pyfloat option \<Rightarrow> int option \<Rightarrow> int option \<Rightarrow> progress_event" where
  "emitted_event em now ph m pc c t =
     \<lparr>operation_id = em_operation_id em, revision = em_revision em + 1, phase = ph, message = m,
      percent = pc, model_id = em_model_id em, completed = c, total = t, timestamp = Fin now\<rparr>"

definition emit ::
  "(json \<Rightarrow> string option) \<Rightarrow> (string \<Rightarrow> loaded) \<Rightarrow> rat \<Rightarrow> emitter \<Rightarrow>
     string \<Rightarrow> string \<Rightarrow> pyfloat option \<Rightarrow> int option \<Rightarrow> int option \<Rightarrow>
     (wire_error, progress_event) result \<times> emitter" where
  "emit dumps loads now em ph msg pc c t =
     (case normalize_emitted_message msg of
        Inl e \<Rightarrow> (Inl e, em)
      | Inr m \<Rightarrow>
          let ev = emitted_event em now ph m pc c t
          in case dumps (as_dict ev) of
               None \<Rightarrow> (Inl TooManyDigits, em)
             | Some encoded \<Rightarrow>
                 (case decode_progress_event loads encoded of
                    Inl e \<Rightarrow> (Inl e, em)
                  | Inr _ \<Rightarrow>
                      (Inr ev, em\<lparr>em_stream := em_stream em @ [encoded], em_revision := em_revision em + 1\<rparr>)))"

section \<open>Decoded events are well formed\<close>

lemma bounded_text_Some:
  assumes "bounded_text v n = Some t"
  shows "py_strip t = t" "t \<noteq> []" "length t \<le> n" "list_all text_char_ok t"
  using assms by (auto simp: bounded_text_def Let_def split: json.splits if_splits)

definition count_ok :: "int option \<Rightarrow> bool" where
  "count_ok c \<longleftrightarrow> (case c of None \<Rightarrow> True | Some i \<Rightarrow> 0 \<le> i)"

definition percent_ok :: "pyfloat option \<Rightarrow> bool" where
  "percent_ok p \<longleftrightarrow> (case p of None \<Rightarrow> True | Some (Fin r) \<Rightarrow> 0 \<le> r \<and> r \<le> 100 | _ \<Rightarrow> False)"

definition event_ok :: "progress_event \<Rightarrow> bool" where
  "event_ok ev \<longleftrightarrow>
     operation_id_ok (operation_id ev) \<and> 1 \<le> revision ev \<and> phase ev \<in> set valid_phases \<and>
     message ev \<noteq> [] \<and> py_strip (message ev) = message ev \<and> length (message ev) \<le> 500 \<and>
     list_all text_char_ok (message ev) \<and>
     (case model_id ev of None \<Rightarrow> True | Some m \<Rightarrow> model_id_ok m \<and> py_strip m = m) \<and>
     count_ok (completed ev) \<and> count_ok (total ev) \<and>
     (completed ev \<noteq> None \<and> total ev \<noteq> None \<longrightarrow> the (completed ev) \<le> the (total ev)) \<and>
     (\<exists>r>0. timestamp ev = Fin r) \<and> percent_ok (percent ev)"

lemma optional_count_Inr: "optional_count v = Inr c \<Longrightarrow> count_ok c"
  by (auto simp: optional_count_def count_ok_def split: json.splits if_splits)

lemma optional_percent_Inr:
  assumes "optional_percent v = Inr p"
  shows "percent_ok p"
proof (cases "v = JNull")
  case False
  with assms obtain f where "number_float v BadPercent = Inr f"
    and "(case f of Fin p \<Rightarrow> if 0 \<le> p \<and> p \<le> 100 then Inr (Some f) else Inl BadPercent | _ \<Rightarrow> Inl BadPercent) = Inr p"
    by (auto simp: optional_percent_def bindr_eq_Inr)
  then show ?thesis by (cases f) (auto simp: percent_ok_def split: if_splits)
qed (use assms in \<open>simp add: optional_percent_def percent_ok_def\<close>)

lemma event_timestamp_Inr:
  assumes "event_timestamp v = Inr t"
  shows "\<exists>r>0. t = Fin r"
proof -
  from assms obtain f where
    "(case f of Fin t \<Rightarrow> if t > 0 then Inr f else Inl BadTimestamp | _ \<Rightarrow> Inl BadTimestamp) = Inr t"
    by (auto simp: event_timestamp_def bindr_eq_Inr)
  then show ?thesis by (cases f) (auto split: if_splits)
qed

lemma event_model_id_Inr:
  "event_model_id v = Inr m \<Longrightarrow> (case m of None \<Rightarrow> True | Some i \<Rightarrow> model_id_ok i \<and> py_strip i = i)"
  by (auto simp: event_model_id_def split: if_splits option.splits dest: bounded_text_Some)

lemmas field_facts = optional_count_Inr optional_percent_Inr event_timestamp_Inr event_model_id_Inr

lemma decode_payload_ok:
  assumes "decode_payload p = Inr ev"
  shows "event_ok ev"
  using assms unfolding decode_payload_def event_ok_def
  by (auto simp: bindr_eq_Inr split: option.splits if_splits json.splits
      dest!: field_facts dest: bounded_text_Some)

text \<open>What the decoder hands to the server is well formed: identifiers match their
  patterns, texts are stripped, bounded and free of control characters, counts are ordered,
  the percentage is a finite number between 0 and 100.\<close>

lemma decoded_event_valid:
  assumes "decode_progress_event loads line = Inr (Some ev)"
  shows "event_ok ev"
proof -
  from assms obtain p where "map_sum id Some (decode_payload p) = Inr (Some ev)"
    by (auto simp: decode_progress_event_def split: loaded.splits if_splits)
  then show ?thesis by (cases "decode_payload p") (auto intro: decode_payload_ok)
qed

lemma decoded_event_valid_witness:
  "event_ok \<lparr>operation_id = ''convert-1'', revision = 2, phase = ''downloading'', message = ''fetching'',
     percent = Some (Fin 50), model_id = None, completed = Some 1, total = Some 2, timestamp = Fin 9\<rparr>"
proof (rule decoded_event_valid)
  show "decode_progress_event (\<lambda>_. Loaded (as_dict
      \<lparr>operation_id = ''convert-1'', revision = 2, phase = '' downloading'', message = ''fetching '',
       percent = Some (Fin 50), model_id = None, completed = Some 1, total = Some 2, timestamp = Fin 9\<rparr>)) ''line''
    = Inr (Some \<lparr>operation_id = ''convert-1'', revision = 2, phase = ''downloading'', message = ''fetching'',
     percent = Some (Fin 50), model_id = None, completed = Some 1, total = Some 2, timestamp = Fin 9\<rparr>)"
    by code_simp
qed

section \<open>Emitting and decoding\<close>

definition arguments_ok :: "pyfloat option \<Rightarrow> int option \<Rightarrow> int option \<Rightarrow> bool" where
  "arguments_ok pc c t \<longleftrightarrow> percent_ok pc \<and> count_ok c \<and> count_ok t \<and> (c \<noteq> None \<and> t \<noteq> None \<longrightarrow> the c \<le> the t)"

definition emitter_ok :: "emitter \<Rightarrow> bool" where
  "emitter_ok em \<longleftrightarrow> operation_id_ok (em_operation_id em) \<and> 0 \<le> em_revision em \<and>
     (case em_model_id em of None \<Rightarrow> True | Some m \<Rightarrow> model_id_ok m)"

lemma new_emitter_ok: "new_emitter oid mid fresh = Inr em \<Longrightarrow> emitter_ok em"
  by (auto simp: new_emitter_def emitter_ok_def Let_def split: if_splits option.splits)

lemma phase_fixed: "ph \<in> set valid_phases \<Longrightarrow> bounded_text (JStr ph) 32 = Some ph"
proof -
  have "\<forall>ph \<in> set valid_phases. bounded_text (JStr ph) 32 = Some ph" by code_simp
  then show "ph \<in> set valid_phases \<Longrightarrow> bounded_text (JStr ph) 32 = Some ph" by blast
qed

lemma id_char_plain: "id_char c \<Longrightarrow> text_char_ok c \<and> \<not> py_space c"
  by (auto simp: id_char_def id_start_def text_char_ok_def py_space_def code_of_def Let_def)

lemma plain_strip_id: "\<forall>c \<in> set s. \<not> py_space c \<Longrightarrow> py_strip s = s"
  by (simp add: py_strip_def py_lstrip_def py_rstrip_def dropWhile_none)

lemma operation_id_fixed:
  assumes "operation_id_ok s"
  shows "bounded_text (JStr s) 128 = Some s"
proof -
  obtain c cs where s: "s = c # cs" using assms by (cases s) (auto simp: operation_id_ok_def)
  with assms have "list_all id_char s" "length s \<le> 128" by (auto simp: operation_id_ok_def id_char_def)
  then have "\<forall>c \<in> set s. \<not> py_space c" "list_all text_char_ok s" "length s \<le> 128"
    using id_char_plain by (auto simp: list_all_iff)
  with s show ?thesis by (simp add: bounded_text_def plain_strip_id)
qed

lemma space_no_control: "\<not> is_control (CHR '' '')"
  by (simp add: is_control_def code_of_def)

lemma emitted_message:
  assumes "normalize_emitted_message v = Inr m"
  shows "bounded_text (JStr m) 500 = Some (py_rstrip m)"
proof -
  let ?ws = "py_words (map (\<lambda>c. if is_control c then CHR '' '' else c) v)"
  let ?j = "py_join '' '' ?ws"
  from assms have j: "?j \<noteq> []" "m = take 500 ?j"
    by (auto simp: normalize_emitted_message_def Let_def split: if_splits)
  have ws: "\<forall>w \<in> set ?ws. w \<noteq> [] \<and> (\<forall>c \<in> set w. \<not> py_space c \<and> \<not> is_control c)"
  proof (intro ballI conjI)
    fix w c assume w: "w \<in> set ?ws"
    show "w \<noteq> []" using py_words_chars [OF w] by blast
    assume c: "c \<in> set w"
    show "\<not> py_space c" using py_words_chars [OF w] c by blast
    have "c \<in> set (map (\<lambda>c. if is_control c then CHR '' '' else c) v)"
      using py_words_chars [OF w] c by blast
    then show "\<not> is_control c" using space_no_control by auto
  qed
  from j(1) have ne: "?ws \<noteq> []" by auto
  then have hd: "hd ?j = hd (hd ?ws)" using ws by (intro py_join_head [THEN conjunct2]) auto
  have "\<not> py_space (hd ?j)" unfolding hd using ne ws by (meson hd_in_set)
  then have m: "m \<noteq> []" "\<not> py_space (hd m)" using j by simp_all
  have free: "\<not> is_control c" if "c \<in> set ?j" for c
  proof -
    have "c \<in> set '' '' \<union> \<Union> (set ` set ?ws)" using that by (rule subsetD [OF py_join_chars])
    then consider "c = CHR '' ''" | w where "w \<in> set ?ws" "c \<in> set w" by auto
    then show ?thesis using ws space_no_control by cases blast+
  qed
  have "\<forall>c \<in> set m. text_char_ok c"
  proof
    fix c assume "c \<in> set m"
    then have "c \<in> set ?j" unfolding j(2) by (rule in_set_takeD)
    from free [OF this] show "text_char_ok c" by (simp add: text_char_ok_def is_control_def)
  qed
  then have "list_all text_char_ok (py_strip m)" using py_strip_chars(1) [of m] by (auto simp: list_all_iff)
  moreover have "length (py_strip m) \<le> 500" using py_strip_chars(2) [of m] j(2) by simp
  ultimately show ?thesis using py_strip_head [OF m] by (simp add: bounded_text_def)
qed

lemma model_id_fixed:
  assumes "model_id_ok m" and "py_strip m \<noteq> []"
  shows "event_model_id (JStr m) = Inr (Some (py_strip m))"
proof -
  have ctl: "text_char_ok c" if "\<not> is_control c" for c
    using that by (simp add: text_char_ok_def is_control_def)
  have "list_all (\<lambda>c. \<not> is_control c) (py_strip m)" "length (py_strip m) \<le> 240"
    using assms(1) py_strip_chars [of m] by (auto simp: model_id_ok_def list_all_iff)
  with ctl assms(2) show ?thesis
    by (auto simp: event_model_id_def bounded_text_def model_id_ok_def list_all_iff)
qed

lemma count_json: "count_ok c \<Longrightarrow> optional_count (json_opt JInt c) = Inr c"
  by (auto simp: optional_count_def json_opt_def count_ok_def split: option.splits)

lemma percent_json: "percent_ok p \<Longrightarrow> optional_percent (json_opt JFloat p) = Inr p"
  by (auto simp: optional_percent_def json_opt_def percent_ok_def number_float_def
      split: option.splits pyfloat.splits)

lemma timestamp_json: "0 < r \<Longrightarrow> event_timestamp (JFloat (Fin r)) = Inr (Fin r)"
  by (simp add: event_timestamp_def number_float_def)

lemma model_json:
  assumes "case mid of None \<Rightarrow> True | Some m \<Rightarrow> model_id_ok m \<and> py_strip m \<noteq> []"
  shows "event_model_id (json_opt JStr mid) = Inr (map_option py_strip mid)"
  using assms model_id_fixed by (cases mid) (auto simp: json_opt_def event_model_id_def)

text \<open>What a reader of the line sees: blanks around the message and the model are gone.\<close>

definition as_read :: "progress_event \<Rightarrow> progress_event" where
  "as_read ev = ev\<lparr>message := py_rstrip (message ev), model_id := map_option py_strip (model_id ev)\<rparr>"

lemma as_dict_get:
  "get (as_dict ev) ''schema_version'' = JInt 1" "get (as_dict ev) ''type'' = JStr event_type"
  "get (as_dict ev) ''operation_id'' = JStr (operation_id ev)" "get (as_dict ev) ''revision'' = JInt (revision ev)"
  "get (as_dict ev) ''phase'' = JStr (phase ev)" "get (as_dict ev) ''message'' = JStr (message ev)"
  "get (as_dict ev) ''percent'' = json_opt JFloat (percent ev)"
  "get (as_dict ev) ''model_id'' = json_opt JStr (model_id ev)"
  "get (as_dict ev) ''completed'' = json_opt JInt (completed ev)" "get (as_dict ev) ''total'' = json_opt JInt (total ev)"
  "get (as_dict ev) ''timestamp'' = JFloat (timestamp ev)" "is_obj (as_dict ev)"
  by (simp_all add: as_dict_def is_obj_def)

lemma decode_as_dict:
  assumes "operation_id_ok (operation_id ev)" "1 \<le> revision ev" "phase ev \<in> set valid_phases"
    and "bounded_text (JStr (message ev)) 500 = Some (py_rstrip (message ev))"
    and "case model_id ev of None \<Rightarrow> True | Some m \<Rightarrow> model_id_ok m \<and> py_strip m \<noteq> []"
    and "arguments_ok (percent ev) (completed ev) (total ev)" "timestamp ev = Fin r" "0 < r"
  shows "decode_payload (as_dict ev) = Inr (as_read ev)"
  using assms
  by (cases "completed ev"; cases "progress_event.total ev")
    (simp_all add: decode_payload_def as_dict_get json_is_one_def operation_id_fixed phase_fixed model_json
      count_json percent_json timestamp_json arguments_ok_def as_read_def ensure_def)

text \<open>Emitting never fails on sensible arguments and the line it writes decodes to the very
  event it returns, but for blanks at the end of a cut message and around the model's name.\<close>

lemma emitted_line_decodes:
  assumes "new_emitter oid mid fresh = Inr em0"
    and "em = em0\<lparr>em_revision := int k, em_stream := lines\<rparr>"
    and "case mid of None \<Rightarrow> True | Some m \<Rightarrow> py_strip m \<noteq> []"
    and "ph \<in> set valid_phases" "normalize_emitted_message msg = Inr m" "arguments_ok pc c t" "0 < now"
    and "dumps (as_dict (emitted_event em now ph m pc c t)) = Some line"
    and "loads line = Loaded (as_dict (emitted_event em now ph m pc c t))"
  shows "emit dumps loads now em ph msg pc c t =
      (Inr (emitted_event em now ph m pc c t), em\<lparr>em_stream := lines @ [line], em_revision := int k + 1\<rparr>) \<and>
    decode_progress_event loads line = Inr (Some (as_read (emitted_event em now ph m pc c t)))"
proof -
  let ?ev = "emitted_event em now ph m pc c t"
  have em: "operation_id_ok (em_operation_id em)" "em_model_id em = mid" "em_revision em = int k"
    "case mid of None \<Rightarrow> True | Some m \<Rightarrow> model_id_ok m" "em_stream em = lines"
    using new_emitter_ok [OF assms(1)] assms(1,2)
    by (auto simp: emitter_ok_def new_emitter_def Let_def split: if_splits option.splits)
  have "decode_payload (as_dict ?ev) = Inr (as_read ?ev)"
    using em assms(3-7) emitted_message [OF assms(5)]
    by (intro decode_as_dict) (auto simp: emitted_event_def split: option.splits)
  then have "decode_progress_event loads line = Inr (Some (as_read ?ev))"
    by (simp add: decode_progress_event_def assms(9) as_dict_get)
  then show ?thesis using em assms(5,8) by (simp add: emit_def)
qed

lemma emitted_line_decodes_witness:
  "emit (\<lambda>_. Some ''line'') (\<lambda>_. Loaded (as_dict (emitted_event
        \<lparr>em_operation_id = ''convert-7'', em_model_id = Some ''qwen'', em_stream = [], em_revision = 0\<rparr>
        5 ''downloading'' ''two lines'' (Some (Fin 50)) (Some 1) None))) 5
      \<lparr>em_operation_id = ''convert-7'', em_model_id = Some ''qwen'', em_stream = [], em_revision = 0\<rparr>
      ''downloading'' [CHR ''t'', CHR ''w'', CHR ''o'', CHR 0x0A, CHR ''l'', CHR ''i'', CHR ''n'', CHR ''e'', CHR ''s'']
      (Some (Fin 50)) (Some 1) None =
    (Inr (emitted_event
        \<lparr>em_operation_id = ''convert-7'', em_model_id = Some ''qwen'', em_stream = [], em_revision = 0\<rparr>
        5 ''downloading'' ''two lines'' (Some (Fin 50)) (Some 1) None),
     \<lparr>em_operation_id = ''convert-7'', em_model_id = Some ''qwen'', em_stream = [''line''], em_revision = 1\<rparr>)"
proof -
  let ?em = "\<lparr>em_operation_id = ''convert-7'', em_model_id = Some ''qwen'', em_stream = [], em_revision = 0\<rparr>"
  have "new_emitter (Some ''convert-7'') (Some ''qwen'') [] = Inr ?em" by code_simp
  moreover have "?em = ?em\<lparr>em_revision := int 0, em_stream := []\<rparr>" by simp
  moreover have "case Some ''qwen'' of None \<Rightarrow> True | Some m \<Rightarrow> py_strip m \<noteq> []" by code_simp
  moreover have "''downloading'' \<in> set valid_phases" by code_simp
  moreover have "normalize_emitted_message
      [CHR ''t'', CHR ''w'', CHR ''o'', CHR 0x0A, CHR ''l'', CHR ''i'', CHR ''n'', CHR ''e'', CHR ''s''] = Inr ''two lines''"
    by code_simp
  moreover have "arguments_ok (Some (Fin 50)) (Some 1) None" by code_simp
  ultimately show ?thesis
    using emitted_line_decodes [of "Some ''convert-7''" "Some ''qwen''" "[]" ?em ?em "[]" 0 "''downloading''"
        "[CHR ''t'', CHR ''w'', CHR ''o'', CHR 0x0A, CHR ''l'', CHR ''i'', CHR ''n'', CHR ''e'', CHR ''s'']" "''two lines''"
        "Some (Fin 50)" "Some 1" None 5 "\<lambda>_. Some ''line''" "''line''"] by simp
qed

section \<open>Sequences of events\<close>

record emission =
  em_now :: rat
  em_phase :: string
  em_message :: string
  em_percent :: "pyfloat option"
  em_completed :: "int option"
  em_total :: "int option"

text \<open>The events returned by a sequence of calls; a call that raises returns none.\<close>

fun emit_run ::
  "(json \<Rightarrow> string option) \<Rightarrow> (string \<Rightarrow> loaded) \<Rightarrow> emitter \<Rightarrow> emission list \<Rightarrow> progress_event list \<times> emitter" where
  "emit_run dumps loads em [] = ([], em)"
| "emit_run dumps loads em (x # xs) =
     (case emit dumps loads (em_now x) em (em_phase x) (em_message x) (em_percent x) (em_completed x) (em_total x) of
        (Inl _, em1) \<Rightarrow> emit_run dumps loads em1 xs
      | (Inr ev, em1) \<Rightarrow> (let (evs, em2) = emit_run dumps loads em1 xs in (ev # evs, em2)))"

lemma emit_cases:
  "emit dumps loads now em ph msg pc c t = (r, em') \<Longrightarrow>
     (\<exists>e. r = Inl e) \<and> em' = em \<or>
     (\<exists>ev line e. r = Inr ev \<and> dumps (as_dict ev) = Some line \<and> decode_progress_event loads line = Inr e \<and>
        revision ev = em_revision em + 1 \<and>
        em' = em\<lparr>em_stream := em_stream em @ [line], em_revision := em_revision em + 1\<rparr>)"
  by (auto simp: emit_def emitted_event_def Let_def split: sum.splits option.splits)

lemma emit_run_spec:
  assumes "emit_run dumps loads em xs = (evs, em')"
  shows "map revision evs = map (\<lambda>i. em_revision em + int i) [1..<Suc (length evs)] \<and>
     em_revision em' = em_revision em + int (length evs) \<and>
     map (\<lambda>ev. dumps (as_dict ev)) evs = map Some (drop (length (em_stream em)) (em_stream em')) \<and>
     (\<exists>ls. em_stream em' = em_stream em @ ls \<and> (\<forall>l \<in> set ls. \<exists>e. decode_progress_event loads l = Inr e))"
  using assms
proof (induction dumps loads em xs arbitrary: evs rule: emit_run.induct)
  case (2 dumps loads em x xs)
  obtain r em1 where e: "emit dumps loads (em_now x) em (em_phase x) (em_message x) (em_percent x)
      (em_completed x) (em_total x) = (r, em1)" by fastforce
  show ?case
  proof (cases r)
    case (Inl err)
    with e have "em1 = em" using emit_cases [OF e] by auto
    with 2 e Inl show ?thesis by simp
  next
    case (Inr ev)
    obtain evs1 where evs: "emit_run dumps loads em1 xs = (evs1, em')" "evs = ev # evs1"
      using 2(3) e Inr by (auto split: prod.splits)
    from emit_cases [OF e] Inr obtain line d where ev: "dumps (as_dict ev) = Some line"
      "decode_progress_event loads line = Inr d" "revision ev = em_revision em + 1"
      "em1 = em\<lparr>em_stream := em_stream em @ [line], em_revision := em_revision em + 1\<rparr>" by auto
    note IH = 2(2) [OF e [symmetric] Inr evs(1)]
    from IH obtain ls where ls: "em_stream em' = em_stream em @ line # ls"
      "\<forall>l \<in> set ls. \<exists>e. decode_progress_event loads l = Inr e" by (auto simp: ev(4))
    have "map (\<lambda>i. em_revision em + int i) [1..<Suc (length evs)] =
        (em_revision em + 1) # map (\<lambda>i. em_revision em + 1 + int i) [1..<Suc (length evs1)]"
      by (simp add: evs(2) upt_conv_Cons map_Suc_upt [symmetric] del: upt_Suc)
    with IH ev ls show ?thesis by (auto simp: evs(2))
  qed
qed simp

text \<open>An emitter numbers what it publishes 1, 2, 3, ... without gaps, whatever calls fail in
  between; the stream holds exactly the encodings of the returned events, in that order, and
  every line of it passed the decoder before it was written.\<close>

lemma published_events_numbered:
  assumes "new_emitter oid mid fresh = Inr em" and "emit_run dumps loads em xs = (evs, em')"
  shows "map revision evs = map int [1..<Suc (length evs)] \<and>
     map (\<lambda>ev. dumps (as_dict ev)) evs = map Some (em_stream em') \<and>
     (\<forall>l \<in> set (em_stream em'). \<exists>e. decode_progress_event loads l = Inr e)"
proof -
  have "em_revision em = 0" "em_stream em = []"
    using assms(1) by (auto simp: new_emitter_def Let_def split: if_splits option.splits)
  with emit_run_spec [OF assms(2)] show ?thesis by auto
qed

definition demo_emitter :: emitter where
  "demo_emitter = \<lparr>em_operation_id = ''convert-7'', em_model_id = None, em_stream = [], em_revision = 0\<rparr>"

definition demo_calls :: "emission list" where
  "demo_calls = map (\<lambda>(t, m). \<lparr>em_now = t, em_phase = ''queued'', em_message = m, em_percent = None,
     em_completed = None, em_total = None\<rparr>) [(1, ''a''), (2, '' ''), (3, ''b'')]"

lemma published_events_numbered_witness:
  "map revision (fst (emit_run (\<lambda>_. Some ''line'') (\<lambda>_. NotJson) demo_emitter demo_calls)) = [1, 2]"
proof -
  let ?r = "emit_run (\<lambda>_. Some ''line'') (\<lambda>_. NotJson) demo_emitter demo_calls"
  have "new_emitter (Some ''convert-7'') None [] = Inr demo_emitter" by code_simp
  from published_events_numbered [OF this surjective_pairing [of ?r]]
  have "map revision (fst ?r) = map int [1..<Suc (length (fst ?r))]" by blast
  moreover have "length (fst ?r) = 2" by code_simp
  moreover have "map int [1..<Suc 2] = [1, 2]" by code_simp
  ultimately show ?thesis by simp
qed

end
