(* ===== verification/ProgressText.thy ===== *)
theory ProgressText
  imports PyValue
begin

text \<open>
  The text half of model preparation in \<open>app/model_manager_core.py\<close>: sanitising a line of
  converter output (control characters, secrets, machine paths, length) and guessing a phase and
  a percentage from it. Each regular expression is a matcher that gives the length of the match at
  the head of a text; \<open>re.sub\<close> replaces from left to right. The ellipsis U+2026 lies outside the 8-bit
  characters and is the parameter \<open>ell\<close>.
\<close>

section \<open>Substitution\<close>

type_synonym matcher = "string \<Rightarrow> nat option"

function py_sub :: "matcher \<Rightarrow> string \<Rightarrow> string \<Rightarrow> string" where
  "py_sub m rep [] = []"
| "py_sub m rep (c # cs) =
     (case m (c # cs) of
        Some n \<Rightarrow> rep @ py_sub m rep (drop (n - 1) cs)
      | None \<Rightarrow> c # py_sub m rep cs)"
  by pat_completeness auto
termination by (relation "measure (\<lambda>(m, rep, s). length s)") auto

section \<open>The patterns\<close>

definition code :: "char \<Rightarrow> nat" where "code c = of_char c"

definition alnum :: "char \<Rightarrow> bool" where
  "alnum c \<longleftrightarrow> (let n = code c in (48 \<le> n \<and> n \<le> 57) \<or> (65 \<le> n \<and> n \<le> 90) \<or> (97 \<le> n \<and> n \<le> 122))"

definition control_char :: "char \<Rightarrow> bool" where
  "control_char c \<longleftrightarrow> (let n = code c in n \<le> 8 \<or> n = 11 \<or> n = 12 \<or> (14 \<le> n \<and> n \<le> 31) \<or> n = 127)"

definition hf_char :: "char \<Rightarrow> bool" where
  "hf_char c \<longleftrightarrow> alnum c \<or> c \<in> {CHR ''_'', CHR ''='', CHR ''-''}"

definition secret_char :: "char \<Rightarrow> bool" where
  "secret_char c \<longleftrightarrow> alnum c \<or> c \<in> {CHR ''.'', CHR ''_'', CHR ''~'', CHR ''+'', CHR ''/'', CHR ''='', CHR ''-''}"

definition run_length :: "(char \<Rightarrow> bool) \<Rightarrow> string \<Rightarrow> nat" where
  "run_length p s = length (takeWhile p s)"

text \<open>\<open>hf_[A-Za-z0-9_=-]{8,}\<close>, ignoring case\<close>

definition hf_match :: matcher where
  "hf_match s =
     (if py_lower (take 3 s) = ''hf_'' \<and> run_length hf_char (drop 3 s) \<ge> 8
      then Some (3 + run_length hf_char (drop 3 s)) else None)"

text \<open>\<open>Bearer\s+[A-Za-z0-9._~+/=-]+\<close>\<close>

definition bearer_match :: matcher where
  "bearer_match s =
     (let ws = run_length py_space (drop 6 s); n = run_length secret_char (drop (6 + ws) s)
      in if py_lower (take 6 s) = ''bearer'' \<and> 0 < ws \<and> 0 < n then Some (6 + ws + n) else None)"

text \<open>\<open>token\s*[:=]\s*[A-Za-z0-9._~+/=-]+\<close>\<close>

definition token_match :: matcher where
  "token_match s =
     (let ws = run_length py_space (drop 5 s); sep = drop (5 + ws) s;
          ws2 = run_length py_space (tl sep); n = run_length secret_char (drop ws2 (tl sep))
      in if py_lower (take 5 s) = ''token'' \<and> sep \<noteq> [] \<and> hd sep \<in> {CHR '':'', CHR ''=''} \<and> 0 < n
         then Some (5 + ws + 1 + ws2 + n) else None)"

definition secret_match :: matcher where
  "secret_match s =
     (case hf_match s of Some n \<Rightarrow> Some n
      | None \<Rightarrow> (case bearer_match s of Some n \<Rightarrow> Some n | None \<Rightarrow> token_match s))"

text \<open>
  Path segments: characters for which \<open>p\<close> holds, at least one, and the separator. The number of
  segments at the head of a text and their length.
\<close>

function segments :: "(char \<Rightarrow> bool) \<Rightarrow> char \<Rightarrow> string \<Rightarrow> nat \<times> nat" where
  "segments p sep s =
     (let n = run_length p s
      in if 0 < n \<and> n < length s \<and> s ! n = sep
         then (let (k, l) = segments p sep (drop (Suc n) s) in (Suc k, Suc n + l))
         else (0, 0))"
  by pat_completeness auto
termination by (relation "measure (\<lambda>(p, sep, s). length s)") auto

declare segments.simps [simp del]

text \<open>\<open>[A-Za-z]:\\(?:[^\\\s]+\\)+\<close> and \<open>/(?:[^/\s]+/){2,}\<close>\<close>

definition letter :: "char \<Rightarrow> bool" where
  "letter c \<longleftrightarrow> (let n = code c in (65 \<le> n \<and> n \<le> 90) \<or> (97 \<le> n \<and> n \<le> 122))"

abbreviation backslash :: char where "backslash \<equiv> CHR 0x5C"

definition windows_path_match :: matcher where
  "windows_path_match s =
     (let (k, l) = segments (\<lambda>c. c \<noteq> backslash \<and> \<not> py_space c) backslash (drop 3 s)
      in if s \<noteq> [] \<and> letter (hd s) \<and> take 2 (drop 1 s) = [CHR '':'', backslash] \<and> 1 \<le> k
         then Some (3 + l) else None)"

definition unix_path_match :: matcher where
  "unix_path_match s =
     (let (k, l) = segments (\<lambda>c. c \<noteq> CHR ''/'' \<and> \<not> py_space c) (CHR ''/'') (drop 1 s)
      in if s \<noteq> [] \<and> hd s = CHR ''/'' \<and> 2 \<le> k then Some (1 + l) else None)"

section \<open>Sanitising\<close>

definition redact_line :: "string \<Rightarrow> string" where
  "redact_line s =
     py_sub unix_path_match ''.../'' (py_sub windows_path_match (''...'' @ [backslash])
       (py_sub secret_match ''[redacted]'' s))"

definition sanitize_progress_line :: "char \<Rightarrow> nat \<Rightarrow> string \<Rightarrow> string" where
  "sanitize_progress_line ell limit text =
     (let line = py_strip (filter (\<lambda>c. \<not> control_char c) text)
      in if line = [] then []
         else let line2 = redact_line line
              in if limit < length line2 then py_rstrip (take (limit - 1) line2) @ [ell] else line2)"

section \<open>Guessing progress from a line\<close>

text \<open>\<open>(100(?:\.0+)?|[1-9]?\d(?:\.\d+)?)\s*%\<close> at the head of a text: the digits before and after the point.\<close>

definition percent_at :: "string \<Rightarrow> (string \<times> string) option" where
  "percent_at s =
     (let ds = takeWhile is_digit s; r = drop (length ds) s;
          fr = (if r \<noteq> [] \<and> hd r = CHR ''.'' then takeWhile is_digit (tl r) else []);
          r2 = (if fr = [] then r else drop (Suc (length fr)) r);
          r3 = dropWhile py_space r2
      in if r3 \<noteq> [] \<and> hd r3 = CHR ''%'' \<and>
            (ds = ''100'' \<and> list_all (\<lambda>c. c = CHR ''0'') fr \<or> length ds = 1 \<or> length ds = 2 \<and> hd ds \<noteq> CHR ''0'')
         then Some (ds, fr) else None)"

fun percent_search :: "bool \<Rightarrow> string \<Rightarrow> (string \<times> string) option" where
  "percent_search after_digit [] = None"
| "percent_search after_digit (c # cs) =
     (case (if after_digit then None else percent_at (c # cs)) of
        Some r \<Rightarrow> Some r
      | None \<Rightarrow> percent_search (is_digit c) cs)"

definition percent_value :: "string \<times> string \<Rightarrow> pyfloat" where
  "percent_value p = Fin (of_nat (digits_val (fst p @ snd p)) / 10 ^ length (snd p))"

definition any_in :: "string list \<Rightarrow> string \<Rightarrow> bool" where
  "any_in toks text \<longleftrightarrow> list_ex (\<lambda>t. py_in t text) toks"

definition progress_from_converter_line ::
  "char \<Rightarrow> string \<Rightarrow> string \<Rightarrow> string \<times> string \<times> pyfloat option" where
  "progress_from_converter_line ell line name =
     (let text = py_lower line; percent = map_option percent_value (percent_search False line)
      in if any_in [''download'', ''fetch'', ''snapshot'', ''cache'', ''resolve''] text
         then (''downloading'', ''Downloading model weights for '' @ name @ [ell], percent)
         else if any_in [''quant'', ''compress'', ''int4'', ''int8''] text
         then (''converting'', ''Quantizing '' @ name @ '' for OpenVINO'' @ [ell], percent)
         else if any_in [''save'', ''write'', ''serializ''] text
         then (''converting'', ''Saving OpenVINO IR for '' @ name @ [ell], percent)
         else if any_in [''export'', ''openvino'', ''convert'', ''compile''] text
         then (''converting'', ''Converting '' @ name @ '' to OpenVINO IR'' @ [ell], percent)
         else (''converting'', ''Preparing '' @ name @ [ell], percent))"

section \<open>Secrets do not survive\<close>

text \<open>No Hugging Face access token starts anywhere in the text.\<close>

definition token_free :: "string \<Rightarrow> bool" where
  "token_free s \<longleftrightarrow> list_all (\<lambda>t. hf_match t = None) (suffixes s)"

lemma token_free_iff: "token_free s \<longleftrightarrow> (\<forall>t. suffix t s \<longrightarrow> hf_match t = None)"
  by (auto simp: token_free_def list_all_iff in_set_suffixes)

lemma hf_lower: "py_lower t = ''hf_'' \<Longrightarrow> list_all hf_char t"
proof -
  have "hf_char c" if "lower_char c = d" "hf_char d" for c d
    using that by (auto simp: lower_char_def hf_char_def alnum_def code_def Let_def of_char_of split: if_splits)
  moreover have "list_all hf_char ''hf_''" by code_simp
  moreover assume low: "py_lower t = ''hf_''"
  have "lower_char c \<in> set ''hf_''" if "c \<in> set t" for c
    using that unfolding low [symmetric] py_lower_def by simp
  ultimately show "list_all hf_char t" by (metis list_all_iff)
qed

lemma hf_match_region:
  assumes "hf_match t \<noteq> None"
  shows "11 \<le> length (takeWhile hf_char t)"
proof -
  from assms have t: "py_lower (take 3 t) = ''hf_''" "8 \<le> length (takeWhile hf_char (drop 3 t))"
    by (auto simp: hf_match_def run_length_def split: if_splits)
  have "length (take 3 t) = 3" using arg_cong [OF t(1), of length] by (simp add: py_lower_def)
  moreover have "takeWhile hf_char t = take 3 t @ takeWhile hf_char (drop 3 t)"
    using hf_lower [OF t(1)] takeWhile_append2 [of "take 3 t" hf_char "drop 3 t"] by (simp add: list_all_iff)
  ultimately show ?thesis using t(2) by simp
qed

lemma hf_match_transfer:
  assumes "hf_match t \<noteq> None" and "prefix (takeWhile hf_char t) t'"
  shows "hf_match t' \<noteq> None"
proof -
  let ?w = "takeWhile hf_char t"
  obtain z where z: "t' = ?w @ z" using assms(2) by (auto simp: prefix_def)
  have len: "11 \<le> length ?w" by (rule hf_match_region [OF assms(1)])
  have "take 3 t = take 3 ?w"
    using len arg_cong [OF takeWhile_eq_take [of hf_char t], of "take 3"] by simp
  then have "py_lower (take 3 t') = ''hf_''" using assms(1) len z by (auto simp: hf_match_def split: if_splits)
  moreover have "length ?w - 3 \<le> length (takeWhile hf_char (drop 3 t'))"
  proof -
    have "takeWhile hf_char (drop 3 t') = drop 3 ?w @ takeWhile hf_char z"
      using z len set_takeWhileD [of _ hf_char t]
      by (simp add: takeWhile_append2 in_set_dropD)
    then show ?thesis by simp
  qed
  ultimately show ?thesis using len by (simp add: hf_match_def run_length_def)
qed

definition seals :: "string \<Rightarrow> bool" where
  "seals rep \<longleftrightarrow> rep \<noteq> [] \<and> \<not> hf_char (hd rep) \<and> \<not> hf_char (last rep) \<and> length rep \<le> 11"

lemma py_sub_region:
  assumes "seals rep"
  shows "prefix (takeWhile hf_char (py_sub m rep s)) s"
  using assms
proof (induction m rep s rule: py_sub.induct)
  case (2 m rep c cs)
  obtain d ds where rep: "rep = d # ds" "\<not> hf_char d"
    using 2(3) by (cases rep) (auto simp: seals_def)
  show ?case
  proof (cases "m (c # cs)")
    case None
    with 2 show ?thesis by simp
  qed (simp add: rep)
qed simp

lemma sealed_suffix:
  assumes "seals rep" and "suffix t rep" and "t \<noteq> []"
  shows "hf_match (t @ s) = None"
proof (rule ccontr)
  assume "hf_match (t @ s) \<noteq> None"
  from hf_match_region [OF this] have len: "11 \<le> length (takeWhile hf_char (t @ s))" .
  have "last t = last rep" using assms(2,3) by (metis last_append suffix_def)
  then have l: "\<not> hf_char (last t)" "length t \<le> 11" "last t \<in> set t"
    using assms suffix_length_le [OF assms(2)] last_in_set [OF assms(3)] by (simp_all add: seals_def)
  then have "takeWhile hf_char (t @ s) = takeWhile hf_char t" by (rule_tac takeWhile_append1)
  moreover have "takeWhile hf_char t \<noteq> t" using l(1,3) set_takeWhileD by metis
  then have "length (takeWhile hf_char t) < length t"
    by (metis length_takeWhile_le nat_less_le takeWhile_eq_take take_all_iff)
  ultimately show False using len l(2) by simp
qed

lemma py_sub_token_free:
  assumes "seals rep" and "\<forall>t. suffix t s \<longrightarrow> m t = None \<longrightarrow> hf_match t = None"
  shows "token_free (py_sub m rep s)"
  using assms
proof (induction m rep s rule: py_sub.induct)
  case (1 m rep)
  then show ?case by (simp add: token_free_def hf_match_def py_lower_def)
next
  case (2 m rep c cs)
  show ?case
  proof (cases "m (c # cs)")
    case (Some n)
    have "suffix t (c # cs)" if "suffix t (drop (n - 1) cs)" for t
      using that suffix_drop [of "n - 1" cs] by (meson suffix_ConsI suffix_order.trans)
    with 2(2) [OF Some 2(3)] 2(4) have IH: "token_free (py_sub m rep (drop (n - 1) cs))" by simp
    show ?thesis unfolding token_free_iff
    proof (intro allI impI)
      fix t assume "suffix t (py_sub m rep (c # cs))"
      then have "suffix t (rep @ py_sub m rep (drop (n - 1) cs))" using Some by simp
      then have "suffix t (py_sub m rep (drop (n - 1) cs)) \<or>
          (\<exists>u. t = u @ py_sub m rep (drop (n - 1) cs) \<and> suffix u rep)" by (simp only: suffix_append)
      then show "hf_match t = None"
      proof (elim disjE exE conjE)
        fix u assume u: "t = u @ py_sub m rep (drop (n - 1) cs)" "suffix u rep"
        show ?thesis
        proof (cases "u = []")
          case True
          with u IH show ?thesis by (simp add: token_free_iff)
        next
          case False
          then show ?thesis unfolding u(1) by (rule sealed_suffix [OF 2(3) u(2)])
        qed
      qed (use IH in \<open>simp add: token_free_iff\<close>)
    qed
  next
    case None
    have "hf_match (c # cs) = None" using 2(4) None by simp
    moreover have "prefix (takeWhile hf_char (c # py_sub m rep cs)) (c # cs)"
      using py_sub_region [OF 2(3), of m cs] by simp
    ultimately have "hf_match (c # py_sub m rep cs) = None"
      using hf_match_transfer by blast
    moreover have "token_free (py_sub m rep cs)"
      using 2(1) [OF None 2(3)] 2(4) by (simp add: suffix_ConsI)
    ultimately show ?thesis using None by (auto simp: token_free_iff suffix_Cons)
  qed
qed

lemma redact_token_free: "token_free (redact_line s)"
proof -
  have hf: "hf_match t = None" if "secret_match t = None" for t
    using that by (simp add: secret_match_def split: option.splits)
  have seals: "seals ''[redacted]''" "seals (''...'' @ [backslash])" "seals ''.../''" by code_simp+
  have "token_free (py_sub secret_match ''[redacted]'' s)"
    using hf by (intro py_sub_token_free seals) blast
  then have "token_free (py_sub windows_path_match (''...'' @ [backslash]) (py_sub secret_match ''[redacted]'' s))"
    by (intro py_sub_token_free seals) (auto simp: token_free_iff)
  then show ?thesis unfolding redact_line_def
    by (intro py_sub_token_free seals) (auto simp: token_free_iff)
qed

lemma token_free_cut:
  assumes "token_free s" and "prefix p s" and "\<not> hf_char ell"
  shows "token_free (p @ [ell])"
  unfolding token_free_iff
proof (intro allI impI)
  fix t assume "suffix t (p @ [ell])"
  then have "t = [] \<or> (\<exists>u. t = u @ [ell] \<and> suffix u p)" by (simp add: suffix_append) (auto simp: suffix_Cons)
  then show "hf_match t = None"
  proof (elim disjE exE conjE)
    fix u assume u: "t = u @ [ell]" "suffix u p"
    obtain ws r where p: "p = ws @ u" "s = p @ r" using u(2) assms(2) by (auto simp: suffix_def prefix_def)
    then have "hf_match (u @ r) = None" using assms(1) by (simp add: token_free_iff suffix_def)
    moreover have "prefix (takeWhile hf_char t) (u @ r)"
      using assms(3) takeWhile_eq_take [of hf_char u]
      by (metis append_assoc prefixI takeWhile_dropWhile_id takeWhile_tail u(1))
    ultimately show ?thesis using hf_match_transfer by blast
  qed (simp add: hf_match_def py_lower_def)
qed

lemma py_sub_chars: "set (py_sub m rep s) \<subseteq> set rep \<union> set s"
proof (induction m rep s rule: py_sub.induct)
  case (2 m rep c cs)
  then show ?case using set_drop_subset [of _ cs] by (fastforce split: option.splits)
qed simp

lemma redact_chars: "c \<in> set (redact_line s) \<Longrightarrow> c \<in> set s \<or> \<not> control_char c"
proof -
  have reps: "\<forall>c \<in> set ''[redacted]'' \<union> set (''...'' @ [backslash]) \<union> set ''.../''. \<not> control_char c" by code_simp
  assume "c \<in> set (redact_line s)"
  then have "c \<in> set ''.../'' \<union> (set (''...'' @ [backslash]) \<union> (set ''[redacted]'' \<union> set s))"
    unfolding redact_line_def using py_sub_chars by blast
  with reps show ?thesis by blast
qed

lemma sanitized_safe:
  assumes "\<not> hf_char ell" and "\<not> control_char ell" and "1 \<le> limit"
  shows "token_free (sanitize_progress_line ell limit text) \<and>
     list_all (\<lambda>c. \<not> control_char c) (sanitize_progress_line ell limit text) \<and>
     length (sanitize_progress_line ell limit text) \<le> limit"
proof -
  define line where "line = py_strip (filter (\<lambda>c. \<not> control_char c) text)"
  define r where "r = redact_line line"
  define cut where "cut = py_rstrip (take (limit - 1) r)"
  obtain ws where ws: "take (limit - 1) r = cut @ ws" using py_rstrip_prefix unfolding cut_def by blast
  have pre: "prefix cut r" using ws by (metis append_take_drop_id append_assoc prefixI)
  have free: "token_free r" unfolding r_def by (rule redact_token_free)
  have "set line \<subseteq> set (filter (\<lambda>c. \<not> control_char c) text)" unfolding line_def by (rule py_strip_chars)
  then have "\<forall>c \<in> set r. \<not> control_char c" unfolding r_def using redact_chars by fastforce
  then have chars: "list_all (\<lambda>c. \<not> control_char c) r" "list_all (\<lambda>c. \<not> control_char c) (cut @ [ell])"
    using set_mono_prefix [OF pre] assms(2) by (auto simp: list_all_iff)
  have len: "length (cut @ [ell]) \<le> limit" using arg_cong [OF ws, of length] assms(3) by simp
  have "sanitize_progress_line ell limit text =
      (if line = [] then [] else if limit < length r then cut @ [ell] else r)"
    by (simp add: sanitize_progress_line_def Let_def line_def r_def cut_def)
  then consider "sanitize_progress_line ell limit text = []"
    | "sanitize_progress_line ell limit text = cut @ [ell]"
    | "sanitize_progress_line ell limit text = r" "length r \<le> limit"
    by (cases "line = []"; cases "limit < length r") auto
  then show ?thesis
  proof cases
    case 1
    then show ?thesis by (simp add: token_free_def hf_match_def py_lower_def)
  next
    case 2
    then show ?thesis using token_free_cut [OF free pre assms(1)] chars(2) len by simp
  next
    case 3
    then show ?thesis using free chars(1) by simp
  qed
qed

text \<open>Every text shown as preparation progress is safe to show: whatever a converter prints,
  the sanitised line holds no Hugging Face access token, not even one that cutting or joining the
  pieces could have formed, no control character, and at most \<open>limit\<close> characters.\<close>

lemma progress_text_is_safe:
  assumes "\<not> hf_char ell" and "\<not> control_char ell" and "1 \<le> limit"
  shows "token_free (sanitize_progress_line ell limit text) \<and>
     list_all (\<lambda>c. \<not> control_char c) (sanitize_progress_line ell limit text) \<and>
     length (sanitize_progress_line ell limit text) \<le> limit"
  using assms by (rule sanitized_safe)

lemma progress_text_is_safe_witness:
  "token_free (sanitize_progress_line (CHR ''~'') 9 ''token=hf_aaaaaaaa hf_bbbbbbbb done'') \<and>
   list_all (\<lambda>c. \<not> control_char c) (sanitize_progress_line (CHR ''~'') 9 ''token=hf_aaaaaaaa hf_bbbbbbbb done'') \<and>
   length (sanitize_progress_line (CHR ''~'') 9 ''token=hf_aaaaaaaa hf_bbbbbbbb done'') \<le> 9"
  by (rule progress_text_is_safe) code_simp+

end
