(* ===== verification/StructuredProgress.thy ===== *)
theory StructuredProgress
  imports ProgressProtocol ProgressText
begin

text \<open>
  Progress of model preparations as the API shows it: the status and progress operations of
  \<open>app/model_manager_core.py\<close> with the operation identity and revisions that
  \<open>app/structured_progress.py\<close> puts around them, and the reader of the converter's output. The state
  holds one entry per model; two readers and the manager's own calls interleave at the awaits of the
  readers, one line at a time.
\<close>

section \<open>State\<close>

record status_override =
  st_status :: string
  st_error :: "string option"
  st_updated :: int

record progress_entry =
  pr_phase :: string
  pr_message :: string
  pr_percent :: "pyfloat option"
  pr_started :: int
  pr_updated :: int
  pr_log :: "string list"
  pr_operation :: string
  pr_type :: string
  pr_revision :: int
  pr_completed :: "int option"
  pr_total :: "int option"

record prep =
  statuses :: "string \<Rightarrow> status_override option"
  progress :: "string \<Rightarrow> progress_entry option"
  op_meta :: "string \<Rightarrow> (string \<times> string) option"
  revisions :: "string \<Rightarrow> int option"
  producers :: "string \<times> string \<Rightarrow> int option"
  structured :: "string list"
  op_draws :: nat

text \<open>The ellipsis, the hexadecimal digits of the n-th \<open>uuid4\<close>, and \<open>json.loads\<close>.\<close>

record prep_env =
  ellipsis :: char
  op_hex :: "nat \<Rightarrow> string"
  loads :: "string \<Rightarrow> loaded"

definition empty_prep :: prep where
  "empty_prep = \<lparr>statuses = Map.empty, progress = Map.empty, op_meta = Map.empty, revisions = Map.empty,
     producers = Map.empty, structured = [], op_draws = 0\<rparr>"

section \<open>Statuses and progress\<close>

definition set_status :: "int \<Rightarrow> string \<Rightarrow> string \<Rightarrow> string option \<Rightarrow> prep \<Rightarrow> prep" where
  "set_status now mid st err s =
     s\<lparr>statuses := (statuses s)(mid \<mapsto> \<lparr>st_status = st, st_error = err, st_updated = now\<rparr>)\<rparr>"

definition clear_status :: "string \<Rightarrow> prep \<Rightarrow> prep" where
  "clear_status mid s = s\<lparr>statuses := (statuses s)(mid := None)\<rparr>"

definition status_of :: "prep \<Rightarrow> string \<Rightarrow> string option" where
  "status_of s mid = map_option st_status (statuses s mid)"

definition conversion_phases :: "string list" where
  "conversion_phases = [''downloading'', ''converting'', ''finalizing'']"

definition operation_type :: "prep \<Rightarrow> string \<Rightarrow> string \<Rightarrow> string" where
  "operation_type s mid ph =
     (if status_of s mid \<in> {Some ''queued_convert'', Some ''converting''} \<or> ph \<in> set conversion_phases
      then ''convert'' else ''load'')"

definition new_operation :: "prep_env \<Rightarrow> string \<Rightarrow> string \<Rightarrow> prep \<Rightarrow> (string \<times> string) \<times> prep" where
  "new_operation env mid ph s =
     (let ty = operation_type s mid ph; op = (ty @ ''-'' @ op_hex env (op_draws s), ty)
      in (op, s\<lparr>op_meta := (op_meta s)(mid \<mapsto> op), op_draws := Suc (op_draws s)\<rparr>))"

definition counter :: "prep \<Rightarrow> string \<Rightarrow> int" where
  "counter s mid = (case revisions s mid of Some r \<Rightarrow> r | None \<Rightarrow> 0)"

definition next_revision :: "string \<Rightarrow> prep \<Rightarrow> int \<times> prep" where
  "next_revision mid s =
     (let r = counter s mid + 1 in (r, s\<lparr>revisions := (revisions s)(mid \<mapsto> r)\<rparr>))"

text \<open>\<open>phase.replace("_", " ").title()\<close>\<close>

fun title_from :: "bool \<Rightarrow> string \<Rightarrow> string" where
  "title_from in_word [] = []"
| "title_from in_word (c # cs) = (if in_word then lower_char c else upper_char c) # title_from (letter c) cs"

definition phase_title :: "string \<Rightarrow> string" where
  "phase_title ph = title_from False (map (\<lambda>c. if c = CHR ''_'' then CHR '' '' else c) ph)"

text \<open>\<open>max(0.0, min(float(percent), 100.0))\<close>; a NaN compares false and ends as 0.\<close>

definition clamp_percent :: "pyfloat \<Rightarrow> pyfloat" where
  "clamp_percent p = (case p of Fin r \<Rightarrow> Fin (max 0 (min r 100)) | PosInf \<Rightarrow> Fin 100 | _ \<Rightarrow> Fin 0)"

text \<open>The log tail after \<open>append_log\<close>.\<close>

definition log_tail :: "prep_env \<Rightarrow> string option \<Rightarrow> string list \<Rightarrow> string list" where
  "log_tail env extra tail =
     (case extra of
        None \<Rightarrow> tail
      | Some x \<Rightarrow>
          if x = [] then tail
          else let safe = sanitize_progress_line (ellipsis env) 240 x
               in if safe = [] then tail else last_n 10 (tail @ [safe]))"

definition safe_message :: "prep_env \<Rightarrow> string \<Rightarrow> string \<Rightarrow> string" where
  "safe_message env ph msg =
     (let m = sanitize_progress_line (ellipsis env) 180 msg in if m = [] then phase_title ph else m)"

definition set_progress ::
  "prep_env \<Rightarrow> int \<Rightarrow> string \<Rightarrow> string \<Rightarrow> string \<Rightarrow> pyfloat option \<Rightarrow> string option \<Rightarrow> prep \<Rightarrow> prep" where
  "set_progress env now mid ph msg pc extra s =
     (let (op, s1) = (case op_meta s mid of Some op \<Rightarrow> (op, s) | None \<Rightarrow> new_operation env mid ph s);
          previous = progress s1 mid;
          started = (case previous of Some p \<Rightarrow> if pr_started p \<noteq> 0 then pr_started p else now | None \<Rightarrow> now);
          (rev_no, s2) = next_revision mid s1;
          entry = \<lparr>pr_phase = ph, pr_message = safe_message env ph msg, pr_percent = map_option clamp_percent pc,
            pr_started = started, pr_updated = now,
            pr_log = log_tail env extra (case previous of Some p \<Rightarrow> pr_log p | None \<Rightarrow> []),
            pr_operation = fst op, pr_type = snd op, pr_revision = rev_no,
            pr_completed = Option.bind previous pr_completed, pr_total = Option.bind previous pr_total\<rparr>
      in s2\<lparr>progress := (progress s2)(mid \<mapsto> entry)\<rparr>)"

definition clear_progress :: "string \<Rightarrow> prep \<Rightarrow> prep" where
  "clear_progress mid s =
     s\<lparr>progress := (progress s)(mid := None), op_meta := (op_meta s)(mid := None),
       structured := removeAll mid (structured s),
       producers := (\<lambda>k. if fst k = mid then None else producers s k)\<rparr>"

section \<open>Reading converter output\<close>

datatype raw_line = Overlong | Raw string

definition terminal_states :: "string list" where "terminal_states = [''cancelled'', ''error'']"

definition terminal :: "prep \<Rightarrow> string \<Rightarrow> bool" where
  "terminal s mid \<longleftrightarrow>
     (case status_of s mid of Some st \<Rightarrow> st \<in> set terminal_states | None \<Rightarrow> False) \<or>
     (case progress s mid of Some p \<Rightarrow> pr_phase p \<in> set terminal_states | None \<Rightarrow> False)"

definition accept_event ::
  "prep_env \<Rightarrow> int \<Rightarrow> string \<Rightarrow> progress_event \<Rightarrow> prep \<Rightarrow> prep \<times> string list" where
  "accept_event env now mid ev s =
     (let key = (mid, operation_id ev);
          previous = (case producers s key of Some r \<Rightarrow> r | None \<Rightarrow> 0)
      in if (model_id ev \<noteq> None \<and> model_id ev \<noteq> Some mid) \<or> revision ev \<le> previous then (s, [])
         else
           let s1 = s\<lparr>producers := (producers s)(key \<mapsto> revision ev), structured := List.insert mid (structured s)\<rparr>;
               safe = safe_message env (phase ev) (message ev);
               s2 = set_progress env now mid (phase ev) safe (percent ev) (Some safe) s1
           in (s2\<lparr>progress := (progress s2)(mid := map_option
                 (\<lambda>p. p\<lparr>pr_completed := completed ev, pr_total := progress_event.total ev\<rparr>) (progress s2 mid))\<rparr>,
               [safe]))"

definition or_word :: "string \<Rightarrow> string \<Rightarrow> string" where
  "or_word a b = (if a = [] then b else a)"

definition accept_text :: "prep_env \<Rightarrow> int \<Rightarrow> string \<Rightarrow> string \<Rightarrow> string \<Rightarrow> prep \<Rightarrow> prep" where
  "accept_text env now mid name line s =
     (let preparing = ''Preparing '' @ name @ [ellipsis env]
      in if mid \<in> set (structured s)
         then (case progress s mid of
             Some p \<Rightarrow> set_progress env now mid (or_word (pr_phase p) ''converting'')
                         (or_word (pr_message p) preparing) (pr_percent p) (Some line) s
           | None \<Rightarrow> set_progress env now mid ''converting'' preparing None (Some line) s)
         else (let (ph, msg, pc) = progress_from_converter_line (ellipsis env) line name
               in set_progress env now mid ph msg pc (Some line) s))"

definition read_line ::
  "prep_env \<Rightarrow> int \<Rightarrow> string \<Rightarrow> string \<Rightarrow> raw_line \<Rightarrow> prep \<Rightarrow> (wire_error, prep \<times> string list) result" where
  "read_line env now mid name raw s =
     (case raw of
        Overlong \<Rightarrow> Inr (s, [''Ignored overlong converter diagnostic.''])
      | Raw decoded \<Rightarrow>
          let line = sanitize_progress_line (ellipsis env) 240 decoded
          in if line = [] then Inr (s, [])
             else (case decode_progress_event (loads env) (py_strip decoded) of
                 Inl e \<Rightarrow> if is_value_error e then Inr (s, [''Ignored malformed structured progress event.''])
                          else Inl e
               | Inr found \<Rightarrow>
                   if terminal s mid then Inr (s, [])
                   else (case found of
                       Some ev \<Rightarrow> Inr (accept_event env now mid ev s)
                     | None \<Rightarrow> Inr (accept_text env now mid name line s, [line]))))"

text \<open>A whole stream, nothing else running; the diagnostics are a deque of 200 lines.\<close>

definition diagnostic_lines :: nat where "diagnostic_lines = 200"

fun read_stream ::
  "prep_env \<Rightarrow> string \<Rightarrow> string \<Rightarrow> (int \<times> raw_line) list \<Rightarrow> string list \<Rightarrow> prep \<Rightarrow>
     (wire_error, string list) result \<times> prep" where
  "read_stream env mid name [] kept s = (Inr kept, s)"
| "read_stream env mid name ((now, raw) # more_lines) kept s =
     (case read_line env now mid name raw s of
        Inl e \<Rightarrow> (Inl e, s)
      | Inr (s1, new) \<Rightarrow> read_stream env mid name more_lines (last_n diagnostic_lines (kept @ new)) s1)"

section \<open>Interleavings\<close>

datatype prep_event =
    SetStatus string string "string option"
  | ClearStatus string
  | SetProgress string string string "pyfloat option" "string option"
  | ClearProgress string
  | ReadLine string string raw_line

fun prep_step :: "prep_env \<Rightarrow> prep \<Rightarrow> int \<times> prep_event \<Rightarrow> prep" where
  "prep_step env s (now, SetStatus mid st err) = set_status now mid st err s"
| "prep_step env s (now, ClearStatus mid) = clear_status mid s"
| "prep_step env s (now, SetProgress mid ph msg pc extra) = set_progress env now mid ph msg pc extra s"
| "prep_step env s (now, ClearProgress mid) = clear_progress mid s"
| "prep_step env s (now, ReadLine mid name raw) =
     (case read_line env now mid name raw s of Inl _ \<Rightarrow> s | Inr (s1, _) \<Rightarrow> s1)"

definition prep_run :: "prep_env \<Rightarrow> (int \<times> prep_event) list \<Rightarrow> prep" where
  "prep_run env es = foldl (prep_step env) empty_prep es"

section \<open>What one operation does\<close>

lemma set_progress_fields [simp]:
  "statuses (set_progress env now mid ph msg pc extra s) = statuses s"
  "structured (set_progress env now mid ph msg pc extra s) = structured s"
  "producers (set_progress env now mid ph msg pc extra s) = producers s"
  "revisions (set_progress env now mid ph msg pc extra s) = (revisions s)(mid \<mapsto> counter s mid + 1)"
  "m \<noteq> mid \<Longrightarrow> progress (set_progress env now mid ph msg pc extra s) m = progress s m"
  "m \<noteq> mid \<Longrightarrow> op_meta (set_progress env now mid ph msg pc extra s) m = op_meta s m"
  by (simp_all add: set_progress_def new_operation_def next_revision_def counter_def Let_def
      split: option.splits prod.splits)

lemma set_progress_entry:
  "\<exists>e. progress (set_progress env now mid ph msg pc extra s) mid = Some e \<and>
     pr_phase e = ph \<and> pr_message e = safe_message env ph msg \<and> pr_percent e = map_option clamp_percent pc \<and>
     pr_log e = log_tail env extra (case progress s mid of Some p \<Rightarrow> pr_log p | None \<Rightarrow> []) \<and>
     pr_revision e = counter s mid + 1 \<and>
     op_meta (set_progress env now mid ph msg pc extra s) mid = Some (pr_operation e, pr_type e) \<and>
     (\<forall>op. op_meta s mid = Some op \<longrightarrow> (pr_operation e, pr_type e) = op)"
  by (simp add: set_progress_def new_operation_def next_revision_def counter_def Let_def
      split: option.splits prod.splits)

lemma counter_simps [simp]:
  "counter (set_progress env now mid ph msg pc extra s) m = (if m = mid then counter s mid + 1 else counter s m)"
  "counter (clear_progress mid s) m = counter s m"
  "counter (set_status now mid st err s) m = counter s m"
  "counter (clear_status mid s) m = counter s m"
  "counter (s\<lparr>progress := pr\<rparr>) m = counter s m"
  "counter (s\<lparr>producers := q, structured := l\<rparr>) m = counter s m"
  by (simp_all add: counter_def clear_progress_def set_status_def clear_status_def)

lemma terminal_reads_nothing:
  assumes "terminal s mid" and "read_line env now mid name raw s = Inr (s1, new)"
  shows "s1 = s"
  using assms by (auto simp: read_line_def Let_def split: raw_line.splits if_splits sum.splits)

lemma decode_some: "map_sum id Some r = Inr (Some x) \<Longrightarrow> r = Inr x"
  by (cases r) auto

lemma read_line_cases:
  assumes "read_line env now mid name raw s = Inr (s1, new)"
  obtains "s1 = s"
  | line where "s1 = accept_text env now mid name line s" "\<not> terminal s mid"
  | ev where "s1 = fst (accept_event env now mid ev s)" "event_ok ev" "\<not> terminal s mid"
proof (cases raw)
  case Overlong
  with assms have "s1 = s" by (simp add: read_line_def)
  then show ?thesis by (rule that(1))
next
  case (Raw decoded)
  let ?line = "sanitize_progress_line (ellipsis env) 240 decoded"
  show ?thesis
  proof (cases "decode_progress_event (loads env) (py_strip decoded)")
    case (Inl e)
    with assms Raw have "s1 = s" by (auto simp: read_line_def Let_def split: if_splits)
    then show ?thesis by (rule that(1))
  next
    case (Inr found)
    show ?thesis
    proof (cases "?line = [] \<or> terminal s mid")
      case True
      with assms Raw Inr have "s1 = s" by (auto simp: read_line_def Let_def split: if_splits)
      then show ?thesis by (rule that(1))
    next
      case False
      show ?thesis
      proof (cases found)
        case None
        with False assms Raw Inr have "s1 = accept_text env now mid name ?line s"
          by (simp add: read_line_def Let_def)
        with False show ?thesis by (intro that(2)) auto
      next
        case (Some ev)
        with False assms Raw Inr have "s1 = fst (accept_event env now mid ev s)"
          by (auto simp: read_line_def Let_def)
        moreover have "event_ok ev" using Inr Some
          by (auto simp: decode_progress_event_def split: loaded.splits if_splits
              dest!: decode_some decode_payload_ok)
        ultimately show ?thesis using False by (intro that(3)) auto
      qed
    qed
  qed
qed

lemma converter_phase:
  "fst (progress_from_converter_line ell line name) = ''downloading'' \<or>
   fst (progress_from_converter_line ell line name) = ''converting''"
  by (simp add: progress_from_converter_line_def Let_def)

lemma accept_text_sets:
  "\<exists>ph msg pc. accept_text env now mid name line s = set_progress env now mid ph msg pc (Some line) s \<and>
     (ph = ''downloading'' \<or> ph = ''converting'' \<or> (\<exists>p. progress s mid = Some p \<and> ph = or_word (pr_phase p) ''converting''))"
proof (cases "mid \<in> set (structured s)")
  case True
  then show ?thesis by (cases "progress s mid") (auto simp: accept_text_def Let_def)
next
  case False
  obtain ph msg pc where g: "progress_from_converter_line (ellipsis env) line name = (ph, msg, pc)"
    by (metis prod_cases3)
  with False have "accept_text env now mid name line s = set_progress env now mid ph msg pc (Some line) s"
    by (simp add: accept_text_def Let_def)
  moreover have "ph = ''downloading'' \<or> ph = ''converting''"
    using converter_phase [of "ellipsis env" line name] g by simp
  ultimately show ?thesis by blast
qed

section \<open>Revisions\<close>

definition prep_ok :: "prep \<Rightarrow> bool" where
  "prep_ok s \<longleftrightarrow> (\<forall>m. 0 \<le> counter s m \<and>
     (\<forall>p. progress s m = Some p \<longrightarrow> 1 \<le> pr_revision p \<and> pr_revision p \<le> counter s m \<and>
        op_meta s m = Some (pr_operation p, pr_type p)))"

text \<open>
  What a step may do to one model: its counter does not fall, and a visible entry is the one that was
  there, or has a revision above the counter.
\<close>

definition later :: "string \<Rightarrow> prep \<Rightarrow> prep \<Rightarrow> bool" where
  "later m s s' \<longleftrightarrow> counter s m \<le> counter s' m \<and>
     (\<forall>q. progress s' m = Some q \<longrightarrow> progress s m = Some q \<or> counter s m < pr_revision q)"

lemma later_refl [simp]: "later m s s"
  by (simp add: later_def)

lemma later_trans: "later m s s' \<Longrightarrow> later m s' s'' \<Longrightarrow> later m s s''"
  unfolding later_def by (meson less_le_trans order_trans not_le)

lemma set_progress_later: "later m s (set_progress env now mid ph msg pc extra s)"
  using set_progress_entry [of env now mid ph msg pc extra s]
  by (cases "m = mid") (auto simp: later_def)

lemma set_progress_ok:
  assumes "prep_ok s"
  shows "prep_ok (set_progress env now mid ph msg pc extra s)"
  unfolding prep_ok_def
proof
  fix m
  show "0 \<le> counter (set_progress env now mid ph msg pc extra s) m \<and>
     (\<forall>p. progress (set_progress env now mid ph msg pc extra s) m = Some p \<longrightarrow>
        1 \<le> pr_revision p \<and> pr_revision p \<le> counter (set_progress env now mid ph msg pc extra s) m \<and>
        op_meta (set_progress env now mid ph msg pc extra s) m = Some (pr_operation p, pr_type p))"
    using assms set_progress_entry [of env now mid ph msg pc extra s]
    by (cases "m = mid") (auto simp: prep_ok_def)
qed

definition update_counts :: "string \<Rightarrow> int option \<Rightarrow> int option \<Rightarrow> prep \<Rightarrow> prep" where
  "update_counts mid c t s = s\<lparr>progress := (progress s)(mid := map_option
     (\<lambda>p. p\<lparr>pr_completed := c, pr_total := t\<rparr>) (progress s mid))\<rparr>"

lemma accept_event_eq:
  "fst (accept_event env now mid ev s) = s \<or>
   (\<exists>q l. fst (accept_event env now mid ev s) =
      update_counts mid (completed ev) (progress_event.total ev)
        (set_progress env now mid (phase ev) (safe_message env (phase ev) (message ev)) (percent ev)
          (Some (safe_message env (phase ev) (message ev))) (s\<lparr>producers := q, structured := l\<rparr>)))"
  by (simp add: accept_event_def update_counts_def Let_def) blast

lemma update_counts_fields [simp]:
  "counter (update_counts mid c t s) m = counter s m" "op_meta (update_counts mid c t s) = op_meta s"
  "m \<noteq> mid \<Longrightarrow> progress (update_counts mid c t s) m = progress s m"
  "progress (update_counts mid c t s) mid =
     map_option (\<lambda>p. p\<lparr>pr_completed := c, pr_total := t\<rparr>) (progress s mid)"
  by (simp_all add: update_counts_def)

lemma prep_ok_fields [simp]: "prep_ok (s\<lparr>producers := q, structured := l\<rparr>) = prep_ok s"
  by (simp add: prep_ok_def)

lemma update_counts_ok:
  assumes "prep_ok s"
  shows "prep_ok (update_counts mid c t s)"
  unfolding prep_ok_def
proof
  fix m
  show "0 \<le> counter (update_counts mid c t s) m \<and>
     (\<forall>p. progress (update_counts mid c t s) m = Some p \<longrightarrow>
        1 \<le> pr_revision p \<and> pr_revision p \<le> counter (update_counts mid c t s) m \<and>
        op_meta (update_counts mid c t s) m = Some (pr_operation p, pr_type p))"
    using assms by (cases "m = mid") (auto simp: prep_ok_def)
qed

lemma accept_event_ok: "prep_ok s \<Longrightarrow> prep_ok (fst (accept_event env now mid ev s))"
  using accept_event_eq [of env now mid ev s]
  by (auto intro!: update_counts_ok set_progress_ok)

lemma accept_event_later: "later m s (fst (accept_event env now mid ev s))"
proof -
  have "later m s (update_counts mid c t (set_progress env now mid ph msg pc extra (s\<lparr>producers := q, structured := l\<rparr>)))"
    for c t ph msg pc extra q l
    using set_progress_entry [of env now mid ph msg pc extra "s\<lparr>producers := q, structured := l\<rparr>"]
    by (cases "m = mid") (auto simp: later_def)
  then show ?thesis using accept_event_eq [of env now mid ev s] by fastforce
qed

lemma clear_progress_keeps:
  "later m s (clear_progress mid s)" "prep_ok s \<Longrightarrow> prep_ok (clear_progress mid s)"
  by (auto simp: later_def prep_ok_def) (auto simp: clear_progress_def split: if_splits)

lemma set_status_keeps:
  "later m s (set_status now mid st err s)" "prep_ok s \<Longrightarrow> prep_ok (set_status now mid st err s)"
  "later m s (clear_status mid s)" "prep_ok s \<Longrightarrow> prep_ok (clear_status mid s)"
  by (auto simp: later_def prep_ok_def) (auto simp: set_status_def clear_status_def)

lemma read_line_keeps:
  assumes "read_line env now mid name raw s = Inr (s1, new)"
  shows "later m s s1" "prep_ok s \<Longrightarrow> prep_ok s1"
proof -
  have "later m s s1 \<and> (prep_ok s \<longrightarrow> prep_ok s1)"
    using assms
  proof (rule read_line_cases)
    fix line assume "s1 = accept_text env now mid name line s"
    then show ?thesis
      using accept_text_sets [of env now mid name line s] set_progress_later set_progress_ok by metis
  qed (auto intro: accept_event_ok accept_event_later)
  then show "later m s s1" "prep_ok s \<Longrightarrow> prep_ok s1" by blast+
qed

lemma prep_step_keeps:
  "later m s (prep_step env s e)" "prep_ok s \<Longrightarrow> prep_ok (prep_step env s e)"
  by (induction env s e rule: prep_step.induct)
    (auto intro: set_progress_later set_progress_ok clear_progress_keeps set_status_keeps
      read_line_keeps split: sum.splits)

interpretation preparations: invariant_machine prep_ok "prep_step env" for env
  by unfold_locales (rule prep_step_keeps)

lemma prep_run_later: "later m s (foldl (prep_step env) s es)"
  by (induction es rule: rev_induct) (auto intro: later_trans prep_step_keeps)

lemma empty_prep_ok: "prep_ok empty_prep"
  by (simp add: prep_ok_def empty_prep_def counter_def)

text \<open>Revisions identify what a client has seen. Whatever the manager and the readers do in
  between, including clearing and starting over, a later snapshot of a model has a revision at
  least as high, and one with the same revision is the same snapshot.\<close>

lemma revisions_identify_snapshots:
  assumes "progress (prep_run env before) m = Some p"
    and "progress (prep_run env (before @ after)) m = Some q"
  shows "pr_revision p \<le> pr_revision q \<and> (pr_revision p = pr_revision q \<longrightarrow> p = q)"
proof -
  have "prep_ok (prep_run env before)"
    unfolding prep_run_def by (rule preparations.run_ok [OF empty_prep_ok])
  then have "pr_revision p \<le> counter (prep_run env before) m" using assms(1) by (auto simp: prep_ok_def)
  moreover have "later m (prep_run env before) (prep_run env (before @ after))"
    unfolding prep_run_def foldl_append by (rule prep_run_later)
  ultimately show ?thesis using assms by (auto simp: later_def)
qed

definition demo_env :: prep_env where
  "demo_env = \<lparr>ellipsis = CHR ''~'', op_hex = (\<lambda>_. ''ab''), loads = (\<lambda>_. NotJson)\<rparr>"

definition seen_before :: "(int \<times> prep_event) list" where
  "seen_before = [(1, SetProgress ''m'' ''queued'' ''waiting'' None None)]"

definition seen_after :: "(int \<times> prep_event) list" where
  "seen_after = [(2, ClearProgress ''m''), (3, ReadLine ''m'' ''M'' (Raw ''40%''))]"

lemma revisions_identify_snapshots_witness:
  "\<exists>p q. progress (prep_run demo_env seen_before) ''m'' = Some p \<and>
     progress (prep_run demo_env (seen_before @ seen_after)) ''m'' = Some q \<and>
     pr_revision p = 1 \<and> pr_revision q = 2 \<and> pr_percent q = Some (Fin 40) \<and> pr_revision p \<le> pr_revision q"
proof -
  have "map_option pr_revision (progress (prep_run demo_env seen_before) ''m'') = Some 1" by code_simp
  then obtain p where p: "progress (prep_run demo_env seen_before) ''m'' = Some p" "pr_revision p = 1" by auto
  have "map_option (\<lambda>q. (pr_revision q, pr_percent q)) (progress (prep_run demo_env (seen_before @ seen_after)) ''m'')
      = Some (2, Some (Fin 40))" by code_simp
  then obtain q where q: "progress (prep_run demo_env (seen_before @ seen_after)) ''m'' = Some q"
    "pr_revision q = 2" "pr_percent q = Some (Fin 40)" by auto
  from revisions_identify_snapshots [OF p(1) q(1)] p q show ?thesis by blast
qed

section \<open>Terminal states\<close>

lemma read_line_frame:
  assumes "read_line env now mid name raw s = Inr (s1, new)"
  shows "statuses s1 = statuses s" "m \<noteq> mid \<Longrightarrow> progress s1 m = progress s m"
proof -
  have "statuses s1 = statuses s \<and> (m \<noteq> mid \<longrightarrow> progress s1 m = progress s m)"
    using assms
  proof (rule read_line_cases)
    fix line assume "s1 = accept_text env now mid name line s"
    then show ?thesis using accept_text_sets [of env now mid name line s] by auto
  next
    fix ev assume "s1 = fst (accept_event env now mid ev s)"
    then show ?thesis using accept_event_eq [of env now mid ev s] by (auto simp: update_counts_def)
  qed simp
  then show "statuses s1 = statuses s" "m \<noteq> mid \<Longrightarrow> progress s1 m = progress s m" by blast+
qed

definition is_read :: "prep_event \<Rightarrow> bool" where
  "is_read e = (case e of ReadLine _ _ _ \<Rightarrow> True | _ \<Rightarrow> False)"

lemma terminal_step:
  assumes "terminal s m" and "is_read e"
  shows "progress (prep_step env s (now, e)) m = progress s m \<and>
    statuses (prep_step env s (now, e)) = statuses s"
proof -
  obtain mid name raw where e: "e = ReadLine mid name raw"
    using assms(2) by (cases e) (auto simp: is_read_def)
  show ?thesis
  proof (cases "read_line env now mid name raw s")
    case (Inr r)
    obtain s1 new where r: "r = (s1, new)" by (cases r)
    have read: "read_line env now mid name raw s = Inr (s1, new)" using Inr r by simp
    have step: "prep_step env s (now, e) = s1" by (simp add: e read)
    show ?thesis
    proof (cases "m = mid")
      case True
      with terminal_reads_nothing [OF _ read] assms(1) have "s1 = s" by blast
      then show ?thesis by (simp add: step)
    next
      case False
      then show ?thesis using read_line_frame [OF read] by (simp add: step)
    qed
  qed (simp add: e)
qed

text \<open>C15: late output never revives a finished preparation: once a model is cancelled or in error,
  by its status or its phase, whatever the readers of any converter still deliver, in any number and order,
  changes neither its progress nor any status.\<close>

theorem terminal_state_survives_output:
  assumes "terminal s m" and "list_all (\<lambda>(now, e). is_read e) es"
  shows "progress (foldl (prep_step env) s es) m = progress s m \<and>
    statuses (foldl (prep_step env) s es) = statuses s"
  using assms(2)
proof (induction es rule: rev_induct)
  case (snoc x es)
  obtain now e where x: "x = (now, e)" by (cases x)
  let ?s = "foldl (prep_step env) s es"
  from snoc have IH: "progress ?s m = progress s m" "statuses ?s = statuses s" "is_read e" by (auto simp: x)
  then have "terminal ?s m" using assms(1) by (simp add: terminal_def status_of_def)
  from terminal_step [OF this IH(3), of env now] IH show ?case by (simp add: x)
qed simp

definition cancelled_demo :: prep where
  "cancelled_demo = prep_run demo_env [(1, SetProgress ''m'' ''downloading'' ''x'' None None),
     (2, SetStatus ''m'' ''cancelled'' None), (2, SetProgress ''m'' ''cancelled'' ''Conversion cancelled'' None None)]"

theorem terminal_state_survives_output_witness:
  "progress (foldl (prep_step demo_env) cancelled_demo
      [(3, ReadLine ''m'' ''M'' (Raw ''9%'')), (4, ReadLine ''n'' ''N'' Overlong)]) ''m''
     = progress cancelled_demo ''m'' \<and> progress cancelled_demo ''m'' \<noteq> None"
proof -
  have t: "terminal cancelled_demo ''m''" by code_simp
  have "progress cancelled_demo ''m'' \<noteq> None" by code_simp
  with terminal_state_survives_output [OF t, where es = "[(3, ReadLine ''m'' ''M'' (Raw ''9%'')), (4, ReadLine ''n'' ''N'' Overlong)]" and env = demo_env]
  show ?thesis by (simp add: is_read_def)
qed

section \<open>What is shown\<close>

definition entry_ok :: "progress_entry \<Rightarrow> bool" where
  "entry_ok p \<longleftrightarrow> pr_phase p \<in> set valid_phases \<and>
     token_free (pr_message p) \<and> pr_message p \<noteq> [] \<and> length (pr_message p) \<le> 180 \<and>
     length (pr_log p) \<le> 10 \<and> list_all (\<lambda>l. token_free l \<and> length l \<le> 240) (pr_log p) \<and>
     percent_ok (pr_percent p)"

definition shown_ok :: "prep \<Rightarrow> bool" where
  "shown_ok s \<longleftrightarrow> (\<forall>m p. progress s m = Some p \<longrightarrow> entry_ok p)"

definition plain_ellipsis :: "prep_env \<Rightarrow> bool" where
  "plain_ellipsis env \<longleftrightarrow> \<not> hf_char (ellipsis env) \<and> \<not> control_char (ellipsis env)"

lemma safe_text:
  assumes "plain_ellipsis env" and "1 \<le> limit"
  shows "token_free (sanitize_progress_line (ellipsis env) limit t)"
    "length (sanitize_progress_line (ellipsis env) limit t) \<le> limit"
  using sanitized_safe [of "ellipsis env" limit t] assms by (auto simp: plain_ellipsis_def)

lemma title_ok:
  assumes "ph \<in> set valid_phases"
  shows "token_free (phase_title ph) \<and> phase_title ph \<noteq> [] \<and> length (phase_title ph) \<le> 180"
proof -
  have "list_all (\<lambda>ph. token_free (phase_title ph) \<and> phase_title ph \<noteq> [] \<and> length (phase_title ph) \<le> 180) valid_phases"
    by code_simp
  with assms show ?thesis by (auto simp: list_all_iff)
qed

lemma safe_message_ok:
  assumes "plain_ellipsis env" and "ph \<in> set valid_phases"
  shows "token_free (safe_message env ph msg) \<and> safe_message env ph msg \<noteq> [] \<and> length (safe_message env ph msg) \<le> 180"
  using safe_text [OF assms(1), of 180 msg] title_ok [OF assms(2)] by (simp add: safe_message_def Let_def)

lemma log_tail_ok:
  assumes "plain_ellipsis env" and "length l \<le> 10" and "list_all (\<lambda>l. token_free l \<and> length l \<le> 240) l"
  shows "length (log_tail env extra l) \<le> 10 \<and> list_all (\<lambda>l. token_free l \<and> length l \<le> 240) (log_tail env extra l)"
proof -
  have "set (last_n 10 (l @ [x])) \<subseteq> set l \<union> {x}" for x :: string
    using set_drop_subset [of "length l + 1 - 10" "l @ [x]"] by (auto simp: last_n_def)
  then show ?thesis using assms(2,3) safe_text [OF assms(1), of 240]
    by (fastforce simp: log_tail_def Let_def list_all_iff last_n_def split: option.splits)
qed

lemma clamp_ok: "percent_ok (map_option clamp_percent pc)"
  by (cases pc) (auto simp: percent_ok_def clamp_percent_def split: pyfloat.splits)

lemma set_progress_shown:
  assumes "plain_ellipsis env" and "ph \<in> set valid_phases" and "shown_ok s"
  shows "shown_ok (set_progress env now mid ph msg pc extra s)"
  unfolding shown_ok_def
proof (intro allI impI)
  fix m p assume p: "progress (set_progress env now mid ph msg pc extra s) m = Some p"
  show "entry_ok p"
  proof (cases "m = mid")
    case True
    let ?old = "case progress s mid of Some p \<Rightarrow> pr_log p | None \<Rightarrow> []"
    have "length ?old \<le> 10 \<and> list_all (\<lambda>l. token_free l \<and> length l \<le> 240) ?old"
      using assms(3) by (auto simp: shown_ok_def entry_ok_def split: option.splits)
    then show ?thesis
      using set_progress_entry [of env now mid ph msg pc extra s] p True safe_message_ok [OF assms(1,2), of msg]
        log_tail_ok [OF assms(1), of ?old extra] assms(2) clamp_ok [of pc]
      by (auto simp: entry_ok_def)
  qed (use p assms(3) in \<open>simp add: shown_ok_def\<close>)
qed

lemma update_counts_shown: "shown_ok s \<Longrightarrow> shown_ok (update_counts mid c t s)"
  by (auto simp: shown_ok_def update_counts_def entry_ok_def split: if_splits)

lemma shown_ok_fields [simp]: "shown_ok (s\<lparr>producers := q, structured := l\<rparr>) = shown_ok s"
  by (simp add: shown_ok_def)

lemma accept_event_shown:
  assumes "plain_ellipsis env" and "event_ok ev" and "shown_ok s"
  shows "shown_ok (fst (accept_event env now mid ev s))"
proof -
  have "phase ev \<in> set valid_phases" using assms(2) by (simp add: event_ok_def)
  with assms show ?thesis using accept_event_eq [of env now mid ev s]
    by (auto intro!: update_counts_shown set_progress_shown)
qed

lemma accept_text_shown:
  assumes "plain_ellipsis env" and "shown_ok s"
  shows "shown_ok (accept_text env now mid name line s)"
proof -
  obtain ph msg pc where eq: "accept_text env now mid name line s = set_progress env now mid ph msg pc (Some line) s"
    and ph: "ph = ''downloading'' \<or> ph = ''converting'' \<or>
      (\<exists>p. progress s mid = Some p \<and> ph = or_word (pr_phase p) ''converting'')"
    using accept_text_sets [of env now mid name line s] by blast
  have known: "''downloading'' \<in> set valid_phases" "''converting'' \<in> set valid_phases" by code_simp+
  have "or_word (pr_phase p) ''converting'' \<in> set valid_phases" if "progress s mid = Some p" for p
    using that assms(2) known by (auto simp: shown_ok_def entry_ok_def or_word_def)
  then have "ph \<in> set valid_phases" using ph known by auto
  then show ?thesis unfolding eq by (rule set_progress_shown [OF assms(1) _ assms(2)])
qed

definition known_phase :: "prep_event \<Rightarrow> bool" where
  "known_phase e = (case e of SetProgress _ ph _ _ _ \<Rightarrow> ph \<in> set valid_phases | _ \<Rightarrow> True)"

lemma read_line_shown:
  assumes "read_line env now mid name raw s = Inr (s1, new)" and "plain_ellipsis env" and "shown_ok s"
  shows "shown_ok s1"
  using assms(1)
  by (rule read_line_cases) (use assms(2,3) in \<open>auto intro: accept_event_shown accept_text_shown\<close>)

lemma prep_step_shown:
  assumes "plain_ellipsis env" and "shown_ok s" and "known_phase e"
  shows "shown_ok (prep_step env s (now, e))"
proof (cases e)
  case (SetProgress mid ph msg pc extra)
  with assms show ?thesis by (simp add: set_progress_shown known_phase_def)
next
  case (ReadLine mid name raw)
  then show ?thesis using assms read_line_shown [OF _ assms(1,2)] by (auto split: sum.splits)
next
  case (ClearProgress mid)
  with assms(2) show ?thesis by (auto simp: shown_ok_def clear_progress_def split: if_splits)
qed (use assms(2) in \<open>simp_all add: shown_ok_def set_status_def clear_status_def\<close>)

text \<open>What the API shows of a preparation is always presentable: in every run of the manager
  and of its readers each entry has a known phase, a message that is not empty and has at most 180 characters, at most ten log
  lines of at most 240, a percentage between 0 and 100, and no access token anywhere.\<close>

lemma shown_progress_is_presentable:
  assumes "plain_ellipsis env" and "list_all (\<lambda>(now, e). known_phase e) es"
    and "progress (prep_run env es) m = Some p"
  shows "entry_ok p"
proof -
  have "shown_ok (prep_run env es)"
    using assms(2)
  proof (induction es rule: rev_induct)
    case Nil
    then show ?case by (simp add: shown_ok_def prep_run_def empty_prep_def)
  next
    case (snoc x es)
    then show ?case by (cases x) (auto simp: prep_run_def intro: prep_step_shown [OF assms(1)])
  qed
  with assms(3) show ?thesis by (simp add: shown_ok_def)
qed

lemma shown_progress_is_presentable_witness:
  "\<exists>p. progress (prep_run demo_env [(1, SetProgress ''m'' ''queued'' ''use hf_abcdefgh1'' (Some PosInf) None)]) ''m'' = Some p \<and>
     pr_message p = ''use [redacted]'' \<and> pr_percent p = Some (Fin 100) \<and> entry_ok p"
proof -
  have "map_option (\<lambda>p. (pr_message p, pr_percent p))
      (progress (prep_run demo_env [(1, SetProgress ''m'' ''queued'' ''use hf_abcdefgh1'' (Some PosInf) None)]) ''m'')
    = Some (''use [redacted]'', Some (Fin 100))" by code_simp
  then obtain p where p: "progress (prep_run demo_env [(1, SetProgress ''m'' ''queued'' ''use hf_abcdefgh1'' (Some PosInf) None)]) ''m'' = Some p"
    "pr_message p = ''use [redacted]''" "pr_percent p = Some (Fin 100)" by auto
  have "plain_ellipsis demo_env" by code_simp
  moreover have "list_all (\<lambda>(now, e). known_phase e) [(1, SetProgress ''m'' ''queued'' ''use hf_abcdefgh1'' (Some PosInf) None)]"
    by code_simp
  ultimately have "entry_ok p" using shown_progress_is_presentable p(1) by blast
  with p show ?thesis by blast
qed

section \<open>A number no float can hold\<close>

definition huge_percent :: json where
  "huge_percent = JObj
     [(''type'', JStr event_type), (''schema_version'', JInt 1), (''operation_id'', JStr ''c1''), (''revision'', JInt 1),
      (''phase'', JStr ''converting''), (''message'', JStr ''half''), (''percent'', JInt (10 ^ 309)), (''timestamp'', JInt 1)]"

text \<open>Malformed events are skipped, but not all: a line whose percentage is an integer beyond the floats raises
  OverflowError, which the reader does not catch, so the stream is abandoned and the lines behind it are never
  read.\<close>

lemma huge_percent_ends_the_reader:
  "read_stream (demo_env\<lparr>loads := (\<lambda>l. if l = ''huge'' then Loaded huge_percent else NotJson)\<rparr>) ''m'' ''M''
     ((1, Raw ''huge'') # later_lines) [] empty_prep = (Inl FloatOverflow, empty_prep)"
proof -
  let ?env = "demo_env\<lparr>loads := (\<lambda>l. if l = ''huge'' then Loaded huge_percent else NotJson)\<rparr>"
  have "(case read_line ?env 1 ''m'' ''M'' (Raw ''huge'') empty_prep of Inl e \<Rightarrow> Some e | Inr _ \<Rightarrow> None) = Some FloatOverflow"
    by code_simp
  then have "read_line ?env 1 ''m'' ''M'' (Raw ''huge'') empty_prep = Inl FloatOverflow"
    by (auto split: sum.splits)
  then show ?thesis by simp
qed

end
