(* ===== verification/DeviceCheck.thy ===== *)
theory DeviceCheck
  imports PyValue
begin

text \<open>
  \<open>runtime/device_check.py\<close>: the parser of OpenVINO device expressions such as
  \<open>GPU.1\<close> or \<open>AUTO:NPU,GPU,CPU\<close>, and the discovery cache. What OpenVINO reports
  (the \<open>openvino.Core\<close> object) is a parameter.
\<close>

section \<open>Device expressions\<close>

definition default_device :: string where "default_device = ''NPU''"
definition physical_bases :: "string list" where "physical_bases = [''CPU'', ''GPU'', ''NPU'']"
definition meta_devices :: "string list" where "meta_devices = [''AUTO'', ''MULTI'', ''HETERO'']"

datatype device_error =
    DeviceRequired | DeviceEmpty | NeedsPriorities string | UnsupportedDevice string
  | UnsupportedMode string | NoPriorities string | EmptyPriority string
  | UnsupportedPhysical string string | DuplicatePriority string | NotAvailable string

record device_expression =
  kind :: string
  devices :: "string list"

definition normalized :: "device_expression \<Rightarrow> string" where
  "normalized e = (if devices e \<noteq> [] then kind e @ '':'' @ py_join '','' (devices e) else kind e)"

definition is_composite :: "device_expression \<Rightarrow> bool" where
  "is_composite e \<longleftrightarrow> devices e \<noteq> []"

text \<open>\<open>^(CPU|GPU|NPU)(?:\.\d+)?$\<close>, matched in full.\<close>

definition is_physical_token :: "string \<Rightarrow> bool" where
  "is_physical_token t \<longleftrightarrow>
     take 3 t \<in> set physical_bases \<and>
     (drop 3 t = [] \<or> (hd (drop 3 t) = CHR ''.'' \<and> drop 4 t \<noteq> [] \<and> list_all is_digit (drop 4 t)))"

fun check_tokens :: "string \<Rightarrow> string list \<Rightarrow> (device_error, unit) result" where
  "check_tokens raw [] = Inr ()"
| "check_tokens raw (t # ts) =
     (if is_physical_token t then check_tokens raw ts else Inl (UnsupportedPhysical t raw))"

definition parse_device_expression ::
  "string option \<Rightarrow> string option \<Rightarrow> (device_error, device_expression) result" where
  "parse_device_expression device dflt =
     bindr (case device of Some d \<Rightarrow> Inr d
            | None \<Rightarrow> (case dflt of None \<Rightarrow> Inl DeviceRequired | Some d \<Rightarrow> Inr d)) (\<lambda>device.
     bindr (if py_strip device = [] then (case dflt of None \<Rightarrow> Inl DeviceEmpty | Some d \<Rightarrow> Inr d)
            else Inr (py_strip device)) (\<lambda>raw.
       let t = py_upper raw in
       case map py_strip (py_split1 (CHR '':'') t) of
         [meta, priorities] \<Rightarrow>
           if meta \<notin> set meta_devices then Inl (UnsupportedMode (if meta = [] then raw else meta))
           else if priorities = [] then Inl (NoPriorities meta)
           else let ds = map py_strip (py_split (CHR '','') priorities) in
             if [] \<in> set ds then Inl (EmptyPriority raw)
             else bindr (check_tokens raw ds) (\<lambda>_.
               if distinct ds then Inr \<lparr>kind = meta, devices = ds\<rparr> else Inl (DuplicatePriority raw))
       | _ \<Rightarrow>
           if t = ''AUTO'' then Inr \<lparr>kind = ''AUTO'', devices = []\<rparr>
           else if is_physical_token t then Inr \<lparr>kind = t, devices = []\<rparr>
           else if t = ''MULTI'' \<or> t = ''HETERO'' then Inl (NeedsPriorities t)
           else Inl (UnsupportedDevice raw)))"

definition normalize_device :: "string option \<Rightarrow> (device_error, string) result" where
  "normalize_device device =
     bindr (parse_device_expression device (Some default_device)) (\<lambda>e. Inr (normalized e))"

section \<open>Availability\<close>

definition physical_device_available :: "string \<Rightarrow> string list \<Rightarrow> bool" where
  "physical_device_available device available =
     (let requested = py_upper (py_strip device);
          normalized_available = map (\<lambda>a. py_upper (py_strip a)) (filter (\<lambda>a. py_strip a \<noteq> []) available)
      in if CHR ''.'' \<in> set requested then requested \<in> set normalized_available
         else (let base = hd (py_split (CHR ''.'') requested)
               in \<exists>a \<in> set normalized_available. a = base \<or> starts_with a (base @ ''.'')))"

text \<open>\<open>discovered\<close> is the answer of \<open>available_devices()\<close>, used when no list is given.\<close>

definition is_device_available :: "string list \<Rightarrow> string \<Rightarrow> string list option \<Rightarrow> bool" where
  "is_device_available discovered device available =
     (case parse_device_expression (Some device) None of
        Inl _ \<Rightarrow> False
      | Inr e \<Rightarrow>
          if kind e = ''AUTO'' \<and> devices e = [] then True
          else let av = (case available of None \<Rightarrow> discovered | Some a \<Rightarrow> a) in
            if av = [] then kind e = ''CPU''
            else (let tokens = (if devices e \<noteq> [] then devices e else [kind e])
                  in \<forall>t \<in> set tokens. physical_device_available t av))"

definition validate_device_expression ::
  "string list \<Rightarrow> string option \<Rightarrow> string list option \<Rightarrow> (device_error, string) result" where
  "validate_device_expression discovered device available =
     bindr (parse_device_expression device None) (\<lambda>e.
       case available of
         None \<Rightarrow> Inr (normalized e)
       | Some av \<Rightarrow> if is_device_available discovered (normalized e) (Some av) then Inr (normalized e)
                    else Inl (NotAvailable (normalized e)))"

definition available_bases :: "string list \<Rightarrow> string set" where
  "available_bases available =
     set (filter (\<lambda>b. b \<in> set physical_bases)
       (map (\<lambda>d. hd (py_split (CHR ''.'') d))
         (filter (\<lambda>d. d \<noteq> []) (map (\<lambda>d. py_upper (py_strip d)) available))))"

definition suggested_device_targets :: "string list \<Rightarrow> string list option \<Rightarrow> (string \<times> bool) list" where
  "suggested_device_targets discovered available =
     (let av = (case available of None \<Rightarrow> discovered | Some a \<Rightarrow> a);
          bases = available_bases av;
          candidates =
            (if {''NPU'', ''GPU'', ''CPU''} \<subseteq> bases
             then [(''AUTO:NPU,GPU,CPU'', False), (''AUTO:GPU,NPU,CPU'', False),
                   (''MULTI:NPU,GPU,CPU'', True), (''HETERO:NPU,GPU,CPU'', True)]
             else if {''GPU'', ''CPU''} \<subseteq> bases
             then [(''AUTO:GPU,CPU'', False), (''MULTI:GPU,CPU'', True), (''HETERO:GPU,CPU'', True)]
             else if {''NPU'', ''CPU''} \<subseteq> bases
             then [(''AUTO:NPU,CPU'', False), (''MULTI:NPU,CPU'', True)]
             else [])
      in filter (\<lambda>(d, _). is_device_available discovered d (Some av)) candidates)"

section \<open>The discovery cache\<close>

text \<open>What importing OpenVINO and asking its Core gives: the device names, and each full name.\<close>

record openvino_env =
  installed :: bool
  core_devices :: "string list option"
  full_device_name :: "string \<Rightarrow> string option"

record device_cache =
  cached_devices :: "string list option"
  cached_details :: "(string \<times> string) list option"

definition empty_cache :: device_cache where
  "empty_cache = \<lparr>cached_devices = None, cached_details = None\<rparr>"

definition cleanup_cached_core :: "device_cache \<Rightarrow> device_cache" where
  "cleanup_cached_core c = \<lparr>cached_devices = None, cached_details = None\<rparr>"

definition available_devices :: "openvino_env \<Rightarrow> device_cache \<Rightarrow> string list \<times> device_cache" where
  "available_devices env c =
     (case cached_devices c of
        Some ds \<Rightarrow> (ds, c)
      | None \<Rightarrow>
          if \<not> installed env then ([], c)
          else (case core_devices env of
                  None \<Rightarrow> ([], c)
                | Some ds \<Rightarrow> (ds, c\<lparr>cached_devices := Some ds\<rparr>)))"

definition device_details :: "openvino_env \<Rightarrow> device_cache \<Rightarrow> (string \<times> string) list \<times> device_cache" where
  "device_details env c =
     (case cached_details c of
        Some ds \<Rightarrow> (ds, c)
      | None \<Rightarrow>
          if \<not> installed env then ([], c)
          else (case core_devices env of
                  None \<Rightarrow> ([], c)
                | Some ds \<Rightarrow>
                    let details = map (\<lambda>d. (d, case full_device_name env d of Some n \<Rightarrow> n | None \<Rightarrow> d)) ds
                    in (details, c\<lparr>cached_details := Some details\<rparr>)))"

section \<open>Normal forms\<close>

definition device_char :: "char \<Rightarrow> bool" where
  "device_char c \<longleftrightarrow> c \<in> set ''ACEGHIMLNOPRTU.'' \<or> is_digit c"

lemma digit_device_char:
  assumes "is_digit c"
  shows "upper_char c = c" and "lower_char c = c" and "\<not> py_space c" and "c \<noteq> CHR '',''" and "c \<noteq> CHR '':''"
  using assms by (auto simp: is_digit_def upper_char_def lower_char_def py_space_def Let_def)

lemma device_char_props:
  assumes "device_char c"
  shows "upper_char c = c" and "\<not> py_space c" and "c \<noteq> CHR '',''" and "c \<noteq> CHR '':''"
proof -
  have "upper_char c = c \<and> \<not> py_space c \<and> c \<noteq> CHR '','' \<and> c \<noteq> CHR '':''"
  proof (cases "is_digit c")
    case True
    from digit_device_char [OF this] show ?thesis by blast
  next
    case False
    with assms have "c \<in> set ''ACEGHIMLNOPRTU.''" by (simp add: device_char_def)
    then show ?thesis by (auto simp: upper_char_def py_space_def)
  qed
  then show "upper_char c = c" "\<not> py_space c" "c \<noteq> CHR '',''" "c \<noteq> CHR '':''" by simp_all
qed

lemma physical_token_chars:
  assumes "is_physical_token t"
  shows "t \<noteq> []" and "list_all device_char t"
proof -
  have t: "t = take 3 t @ drop 3 t" by simp
  have head: "take 3 t \<in> {''CPU'', ''GPU'', ''NPU''}"
    using assms by (simp add: is_physical_token_def physical_bases_def)
  then show "t \<noteq> []" by auto
  have "list_all device_char (take 3 t)" using head by (auto simp: device_char_def)
  moreover have "list_all device_char (drop 3 t)"
  proof (cases "drop 3 t")
    case (Cons c cs)
    have "drop 1 (drop 3 t) = drop 4 t" by (simp only: drop_drop) simp
    with Cons have "drop 4 t = cs" by simp
    with Cons assms show ?thesis by (auto simp: is_physical_token_def device_char_def list_all_iff)
  qed simp
  ultimately show "list_all device_char t" using t by (metis list_all_append)
qed

lemma plain_strip: "list_all (\<lambda>c. \<not> py_space c) s \<Longrightarrow> py_strip s = s"
  by (simp add: py_strip_def py_lstrip_def py_rstrip_def dropWhile_none list_all_iff)

lemma physical_token_fixed:
  assumes "is_physical_token t"
  shows "py_upper t = t" and "py_strip t = t" and "CHR '','' \<notin> set t" and "CHR '':'' \<notin> set t"
proof -
  have all: "device_char c" if "c \<in> set t" for c
    using physical_token_chars(2) [OF assms] that by (simp add: list_all_iff)
  show "py_upper t = t" unfolding py_upper_def by (rule map_idI) (rule device_char_props [OF all])
  show "py_strip t = t" by (rule plain_strip) (auto simp: list_all_iff dest: all device_char_props(2))
  show "CHR '','' \<notin> set t" "CHR '':'' \<notin> set t"
    using all device_char_props(3,4) by blast+
qed

text \<open>The expressions the parser returns.\<close>

definition device_ok :: "device_expression \<Rightarrow> bool" where
  "device_ok e \<longleftrightarrow>
     (if devices e = [] then kind e = ''AUTO'' \<or> is_physical_token (kind e)
      else kind e \<in> set meta_devices \<and> list_all is_physical_token (devices e) \<and> distinct (devices e))"

lemma check_tokens_Inr: "check_tokens raw ts = Inr u \<longleftrightarrow> list_all is_physical_token ts"
  by (induction ts) auto

lemma parse_device_ok:
  assumes "parse_device_expression device dflt = Inr e"
  shows "device_ok e"
proof -
  from assms obtain raw where
    "(case map py_strip (py_split1 (CHR '':'') (py_upper raw)) of
         [meta, priorities] \<Rightarrow>
           if meta \<notin> set meta_devices then Inl (UnsupportedMode (if meta = [] then raw else meta))
           else if priorities = [] then Inl (NoPriorities meta)
           else let ds = map py_strip (py_split (CHR '','') priorities) in
             if [] \<in> set ds then Inl (EmptyPriority raw)
             else bindr (check_tokens raw ds) (\<lambda>_.
               if distinct ds then Inr \<lparr>kind = meta, devices = ds\<rparr> else Inl (DuplicatePriority raw))
       | _ \<Rightarrow>
           if py_upper raw = ''AUTO'' then Inr \<lparr>kind = ''AUTO'', devices = []\<rparr>
           else if is_physical_token (py_upper raw) then Inr \<lparr>kind = py_upper raw, devices = []\<rparr>
           else if py_upper raw = ''MULTI'' \<or> py_upper raw = ''HETERO'' then Inl (NeedsPriorities (py_upper raw))
           else Inl (UnsupportedDevice raw)) = Inr e"
    unfolding parse_device_expression_def bindr_eq_Inr Let_def by blast
  then show ?thesis
    by (auto simp: device_ok_def bindr_eq_Inr check_tokens_Inr Let_def split: list.splits if_splits)
qed

lemma meta_fixed:
  assumes "meta \<in> set meta_devices"
  shows "py_upper meta = meta" "py_strip meta = meta" "CHR '':'' \<notin> set meta" "meta \<noteq> []"
    "list_all (\<lambda>c. \<not> py_space c) meta"
proof -
  have "\<forall>m \<in> set meta_devices. py_upper m = m \<and> py_strip m = m \<and> CHR '':'' \<notin> set m \<and> m \<noteq> [] \<and>
    list_all (\<lambda>c. \<not> py_space c) m" by code_simp
  with assms show "py_upper meta = meta" "py_strip meta = meta" "CHR '':'' \<notin> set meta" "meta \<noteq> []"
    "list_all (\<lambda>c. \<not> py_space c) meta"
    by blast+
qed

lemma set_py_join: "set (py_join sep ps) \<subseteq> set sep \<union> \<Union> (set ` set ps)"
  by (induction sep ps rule: py_join.induct) auto

lemma upper_comma: "upper_char (CHR '','') = CHR '',''" and space_comma: "\<not> py_space (CHR '','')"
  by code_simp+

lemma parse_normalized:
  assumes "device_ok e"
  shows "parse_device_expression (Some (normalized e)) dflt = Inr e"
proof (cases "devices e = []")
  case True
  then have k: "kind e = ''AUTO'' \<or> is_physical_token (kind e)" and n: "normalized e = kind e"
    using assms by (simp_all add: device_ok_def normalized_def)
  obtain kd where e: "e = \<lparr>kind = kd, devices = []\<rparr>" using True by (cases e) auto
  have auto: "py_upper ''AUTO'' = ''AUTO''" "py_strip ''AUTO'' = ''AUTO''" "CHR '':'' \<notin> set ''AUTO''" "''AUTO'' \<noteq> []"
    using meta_fixed [of "''AUTO''"] by (simp_all add: meta_devices_def)
  have k': "kd = ''AUTO'' \<or> is_physical_token kd" using k e by simp
  then have fixed: "py_upper kd = kd" "py_strip kd = kd" "CHR '':'' \<notin> set kd" "kd \<noteq> []"
    using auto physical_token_fixed [of kd] physical_token_chars(1) [of kd] by blast+
  have "py_split1 (CHR '':'') kd = [kd]" using fixed(3) by (simp add: py_split1_def)
  with n e have n': "normalized e = kd" "py_split1 (CHR '':'') kd = [kd]" by simp_all
  show ?thesis
  proof (cases "kd = ''AUTO''")
    case True
    then show ?thesis unfolding n'(1) unfolding e using auto n'(2) by (simp add: parse_device_expression_def Let_def)
  next
    case False
    then show ?thesis
      unfolding n'(1) unfolding e using fixed k' n'(2) by (simp add: parse_device_expression_def Let_def)
  qed
next
  case False
  let ?js = "py_join '','' (devices e)"
  have ok: "kind e \<in> set meta_devices" "list_all is_physical_token (devices e)" "distinct (devices e)"
    and n: "normalized e = kind e @ CHR '':'' # ?js"
    using assms False by (simp_all add: device_ok_def normalized_def)
  have tok: "is_physical_token d" if "d \<in> set (devices e)" for d using ok(2) that by (simp add: list_all_iff)
  note fixed = meta_fixed [OF ok(1)]
  have chars: "c = CHR '','' \<or> device_char c" if "c \<in> set ?js" for c
    using set_py_join [of "'',''" "devices e"] that tok physical_token_chars(2)
    by (fastforce simp: list_all_iff)
  then have up: "py_upper ?js = ?js"
    unfolding py_upper_def by (intro map_idI) (use device_char_props(1) upper_comma in metis)
  have "list_all (\<lambda>c. \<not> py_space c) ?js"
    using chars device_char_props(2) space_comma unfolding list_all_iff by metis
  then have strip: "py_strip ?js = ?js" and stripn: "py_strip (normalized e) = normalized e"
    using fixed(5) by (auto simp: n py_space_def intro!: plain_strip)
  have ne: "?js \<noteq> []"
  proof (cases "devices e")
    case (Cons d ds)
    with tok have "d \<noteq> []" using physical_token_chars(1) by simp
    with Cons show ?thesis by (cases ds) auto
  qed (use False in simp)
  have split: "py_split (CHR '','') ?js = devices e"
    using False tok physical_token_fixed(3) by (intro py_split_join) auto
  have strips: "map py_strip (devices e) = devices e"
    using tok physical_token_fixed(2) by (intro map_idI) auto
  have upn: "py_upper (normalized e) = normalized e"
    using fixed(1) up by (simp add: n py_upper_def upper_char_def)
  have split1: "py_split1 (CHR '':'') (normalized e) = [kind e, ?js]"
    unfolding n using fixed(3) by (rule py_split1_append)
  have "[] \<notin> set (devices e)" using tok physical_token_chars(1) by blast
  then show ?thesis
    using stripn upn split1 split strips ne ok fixed strip
    by (simp add: parse_device_expression_def n bindr_eq_Inr check_tokens_Inr Let_def)
qed

section \<open>Properties\<close>

text \<open>Device expressions have a normal form: whatever text the parser accepts, parsing the
  normalized text again gives the same expression.\<close>

lemma device_expression_roundtrip:
  assumes "parse_device_expression device dflt = Inr e"
  shows "parse_device_expression (Some (normalized e)) dflt' = Inr e"
  by (rule parse_normalized [OF parse_device_ok [OF assms]])

definition suggestion_names :: "string list" where
  "suggestion_names = [''AUTO:NPU,GPU,CPU'', ''AUTO:GPU,NPU,CPU'', ''MULTI:NPU,GPU,CPU'', ''HETERO:NPU,GPU,CPU'',
     ''AUTO:GPU,CPU'', ''MULTI:GPU,CPU'', ''HETERO:GPU,CPU'', ''AUTO:NPU,CPU'', ''MULTI:NPU,CPU'']"

lemma suggestion_names_parse:
  assumes "d \<in> set suggestion_names"
  shows "\<exists>e. parse_device_expression (Some d) None = Inr e \<and> normalized e = d"
proof -
  have "\<forall>d \<in> set suggestion_names.
      (case parse_device_expression (Some d) None of Inl _ \<Rightarrow> False | Inr e \<Rightarrow> normalized e = d)" by code_simp
  with assms have "case parse_device_expression (Some d) None of Inl _ \<Rightarrow> False | Inr e \<Rightarrow> normalized e = d" by blast
  then show ?thesis by (auto split: sum.splits)
qed

lemma suggested_in:
  assumes "(d, x) \<in> set (suggested_device_targets discovered available)"
  shows "d \<in> set suggestion_names"
    and "is_device_available discovered d (Some (case available of None \<Rightarrow> discovered | Some a \<Rightarrow> a))"
  using assms
  by (auto simp: suggested_device_targets_def suggestion_names_def Let_def simp del: is_device_available_def
      split: if_splits)

text \<open>Every suggested target is in normal form and usable: validation against the same
  devices returns it unchanged.\<close>

lemma suggested_targets_usable:
  "list_all (\<lambda>(d, experimental).
      validate_device_expression discovered (Some d)
        (Some (case available of None \<Rightarrow> discovered | Some a \<Rightarrow> a)) = Inr d)
     (suggested_device_targets discovered available)"
proof -
  have "validate_device_expression discovered (Some d)
        (Some (case available of None \<Rightarrow> discovered | Some a \<Rightarrow> a)) = Inr d"
    if "(d, x) \<in> set (suggested_device_targets discovered available)" for d x
    using suggestion_names_parse [OF suggested_in(1) [OF that]] suggested_in(2) [OF that]
    by (auto simp: validate_device_expression_def)
  then show ?thesis by (auto simp: list_all_iff)
qed

end
