(* ===== verification/Multimodal.thy ===== *)
theory Multimodal
  imports PyValue
begin

text \<open>
  \<open>app/multimodal.py\<close>: validated, request-local image transport. Message content is a
  JSON value, or text fragments and validated images once normalised. Base64 decoding
  (whose treatment of surplus padding differs between the supported Python versions) and
  the Pillow image library are parameters. The module-level store of image contexts is
  the state of the second half.
\<close>

section \<open>Limits and errors\<close>

definition max_image_bytes :: int where "max_image_bytes = 10 * 1024 * 1024"
definition max_image_pixels :: int where "max_image_pixels = 25000000"
definition max_image_dimension :: int where "max_image_dimension = 16384"
definition max_images_per_request :: int where "max_images_per_request = 4"
definition max_request_image_bytes :: int where "max_request_image_bytes = 24 * 1024 * 1024"
definition max_request_image_pixels :: int where "max_request_image_pixels = 40000000"
definition max_request_text_chars :: int where "max_request_text_chars = 2000000"
definition max_content_parts :: int where "max_content_parts = 1024"
definition context_ttl :: rat where "context_ttl = 30 * 60"
definition context_limit :: int where "context_limit = 64"
definition context_bytes_limit :: int where "context_bytes_limit = 512 * 1024 * 1024"
definition image_token_reserve :: int where "image_token_reserve = 512"

lemmas limits = max_image_bytes_def max_image_pixels_def max_image_dimension_def
  max_images_per_request_def max_request_image_bytes_def max_request_image_pixels_def
  max_request_text_chars_def max_content_parts_def context_limit_def context_bytes_limit_def
  image_token_reserve_def

datatype vision_error =
    NotDataUrl | MalformedUrl | MetadataTooLong | UnsupportedImageType string | NotBase64
  | ImageTooLarge | MissingImageUrl string | MissingText string | BadContent | BadPart
  | UnsupportedPart string | TooManyImages | ImagesTooLarge | TooManyPixels | TextTooLong
  | TooManyParts | ImageNotFromUser | RoleMismatch | BadBase64 | EmptyImage | AnimatedImage
  | NonPositiveDimensions | DimensionTooLarge | ImageTooManyPixels | DecoderLimit
  | UndecodableImage | MimeMismatch | DecoderValueError
  | TooManyContexts | ContextMemoryLimit | ContextExpired

record image_payload =
  mime_type :: string
  image_data :: string
  image_width :: int
  image_height :: int

definition byte_size :: "image_payload \<Rightarrow> int" where
  "byte_size p = int (length (image_data p))"

definition pixel_count :: "image_payload \<Rightarrow> int" where
  "pixel_count p = image_width p * image_height p"

datatype part = PText string | PImage image_payload
datatype content = Plain json | Multi "part list"

definition supported_mimes :: "string list" where
  "supported_mimes = [''image/jpeg'', ''image/png'', ''image/webp'']"

definition text_part_types :: "string list" where
  "text_part_types = [''text'', ''input_text'', ''output_text'']"

definition image_part_types :: "string list" where
  "image_part_types = [''image_url'', ''input_image'']"

section \<open>Reading one content part\<close>

definition contains_text :: "string \<Rightarrow> string \<Rightarrow> bool" where
  "contains_text t sub \<longleftrightarrow> py_find t sub \<noteq> None"

definition backend_supports_vision :: "string option \<Rightarrow> bool" where
  "backend_supports_vision backend =
     (let value = py_lower (case backend of None \<Rightarrow> '''' | Some b \<Rightarrow> b)
      in contains_text value ''vlm'' \<or> contains_text value ''vision'')"

definition capabilities_for_backend :: "string option \<Rightarrow> string list" where
  "capabilities_for_backend backend =
     (let value = py_lower (case backend of None \<Rightarrow> '''' | Some b \<Rightarrow> b)
      in if contains_text value ''embedding'' then [''embeddings'']
         else if backend_supports_vision (Some value) then [''chat'', ''vision'']
         else [''chat''])"

definition part_type :: "json \<Rightarrow> string" where
  "part_type p = py_lower (py_strip (py_str (py_or (get p ''type'') (JStr ''''))))"

definition image_url_from_part :: "json \<Rightarrow> (vision_error, string) result" where
  "image_url_from_part p =
     (let c0 = get p ''image_url'';
          c1 = (if is_obj c0 then get c0 ''url'' else c0);
          c2 = (if \<not> truthy c1 \<and> part_type p = ''input_image''
                then py_or (get p ''file_data'') (get p ''data'') else c1)
      in case c2 of
           JStr s \<Rightarrow> if s = [] then Inl (MissingImageUrl (part_type p)) else Inr s
         | _ \<Rightarrow> Inl (MissingImageUrl (part_type p)))"

fun first_text :: "json \<Rightarrow> string list \<Rightarrow> string option" where
  "first_text p [] = None"
| "first_text p (k # ks) = (case get p k of JStr s \<Rightarrow> Some s | _ \<Rightarrow> first_text p ks)"

definition text_from_part :: "json \<Rightarrow> (vision_error, string) result" where
  "text_from_part p = (case first_text p [''text'', ''content'', ''value''] of
       Some s \<Rightarrow> Inr s
     | None \<Rightarrow> Inl (MissingText (if part_type p = [] then ''text'' else part_type p)))"

text \<open>\<open>_preflight_data_url\<close>: estimated size, media type and the position of the comma.\<close>

definition preflight_data_url :: "string \<Rightarrow> (vision_error, int \<times> string \<times> nat) result" where
  "preflight_data_url url =
     (if py_lower (take 5 url) \<noteq> ''data:'' then Inl NotDataUrl
      else case py_find (drop 5 url) '','' of
        None \<Rightarrow> Inl MalformedUrl
      | Some i \<Rightarrow>
          let comma = 5 + i in
          if comma > 256 then Inl MetadataTooLong
          else
            let header = take i (drop 5 url);
                pieces = filter (\<lambda>s. s \<noteq> []) (map py_strip (py_split (CHR '';'') (py_lower header)));
                mime = (case pieces of [] \<Rightarrow> [] | m # _ \<Rightarrow> m)
            in if mime \<notin> set supported_mimes
               then Inl (UnsupportedImageType (if mime = [] then ''unknown'' else mime))
               else if ''base64'' \<notin> set (tl pieces) then Inl NotBase64
               else let est = ((int (length url) - int comma - 1) * 3) div 4 in
                 if est > max_image_bytes + 3 then Inl ImageTooLarge
                 else Inr (est, mime, comma))"

section \<open>Checking a whole request before decoding\<close>

record tally =
  n_images :: int
  n_bytes :: int
  n_pixels :: int
  n_chars :: int
  n_parts :: int

definition empty_tally :: tally where
  "empty_tally = \<lparr>n_images = 0, n_bytes = 0, n_pixels = 0, n_chars = 0, n_parts = 0\<rparr>"

definition account_text :: "string \<Rightarrow> tally \<Rightarrow> (vision_error, tally) result" where
  "account_text s t =
     (let t' = t\<lparr>n_chars := n_chars t + int (length s)\<rparr>
      in if n_chars t' > max_request_text_chars then Inl TextTooLong else Inr t')"

definition account_part :: "tally \<Rightarrow> (vision_error, tally) result" where
  "account_part t =
     (let t' = t\<lparr>n_parts := n_parts t + 1\<rparr>
      in if n_parts t' > max_content_parts then Inl TooManyParts else Inr t')"

fun foldr_result :: "('a \<Rightarrow> 's \<Rightarrow> ('e, 's) result) \<Rightarrow> 'a list \<Rightarrow> 's \<Rightarrow> ('e, 's) result" where
  "foldr_result f [] s = Inr s"
| "foldr_result f (x # xs) s = bindr (f x s) (foldr_result f xs)"

definition preflight_json_part :: "string \<Rightarrow> json \<Rightarrow> tally \<Rightarrow> (vision_error, tally) result" where
  "preflight_json_part role p t0 =
     bindr (account_part t0) (\<lambda>t.
       case p of
         JStr s \<Rightarrow> account_text s t
       | JObj _ \<Rightarrow>
           let ty = part_type p in
           if ty \<in> set image_part_types then
             if py_lower role \<noteq> ''user'' then Inl ImageNotFromUser
             else bindr (image_url_from_part p) (\<lambda>url.
               bindr (preflight_data_url url) (\<lambda>(size, _, _).
                 let t' = t\<lparr>n_images := n_images t + 1, n_bytes := n_bytes t + size\<rparr> in
                 if n_images t' > max_images_per_request then Inl TooManyImages
                 else if n_bytes t' > max_request_image_bytes + 3 * n_images t'
                 then Inl ImagesTooLarge else Inr t'))
           else if ty \<in> set text_part_types \<or> ty = [] then
             bindr (text_from_part p) (\<lambda>s. account_text s t)
           else Inl (UnsupportedPart ty)
       | _ \<Rightarrow> Inl BadPart)"

text \<open>\<open>iter_image_payloads\<close>.\<close>

fun part_images :: "part list \<Rightarrow> image_payload list" where
  "part_images [] = []"
| "part_images (PText s # ps) = part_images ps"
| "part_images (PImage i # ps) = i # part_images ps"

definition images_of :: "content \<Rightarrow> image_payload list" where
  "images_of c = (case c of Plain _ \<Rightarrow> [] | Multi ps \<Rightarrow> part_images ps)"

definition preflight_multi_part :: "part \<Rightarrow> tally \<Rightarrow> (vision_error, tally) result" where
  "preflight_multi_part p t0 =
     bindr (account_part t0) (\<lambda>t. case p of PText s \<Rightarrow> account_text s t | PImage _ \<Rightarrow> Inr t)"

definition preflight_content ::
  "string \<times> content \<Rightarrow> tally \<Rightarrow> (vision_error, tally) result" where
  "preflight_content rc t = (case rc of (role, c) \<Rightarrow>
     (case c of
        Plain JNull \<Rightarrow> Inr t
      | Plain (JStr s) \<Rightarrow> account_text s t
      | Multi ps \<Rightarrow>
          bindr (foldr_result preflight_multi_part ps t) (\<lambda>t'.
            if images_of c \<noteq> [] \<and> py_lower role \<noteq> ''user'' then Inl ImageNotFromUser
            else Inr (t'\<lparr>n_images := n_images t' + int (length (images_of c)),
                         n_bytes := n_bytes t' + sum_list (map byte_size (images_of c)),
                         n_pixels := n_pixels t' + sum_list (map pixel_count (images_of c))\<rparr>))
      | Plain (JList ps) \<Rightarrow> foldr_result (preflight_json_part role) ps t
      | Plain _ \<Rightarrow> Inl BadContent))"

definition pair_roles ::
  "content list \<Rightarrow> string list option \<Rightarrow> (vision_error, (string \<times> content) list) result" where
  "pair_roles contents roles =
     (let rl = (case roles of None \<Rightarrow> replicate (length contents) ''user'' | Some r \<Rightarrow> r)
      in if length rl \<noteq> length contents then Inl RoleMismatch else Inr (zip rl contents))"

definition preflight_request_contents ::
  "content list \<Rightarrow> string list option \<Rightarrow> (vision_error, unit) result" where
  "preflight_request_contents contents roles =
     bindr (pair_roles contents roles) (\<lambda>rcs.
       bindr (foldr_result preflight_content rcs empty_tally) (\<lambda>t.
         if n_images t > max_images_per_request then Inl TooManyImages
         else if n_bytes t > max_request_image_bytes then Inl ImagesTooLarge
         else if n_pixels t > max_request_image_pixels then Inl TooManyPixels
         else Inr ()))"

section \<open>Decoding one image\<close>

datatype pil_load = LoadOk | LoadBomb | LoadFailed | LoadValueError

datatype pil_result =
    PilFailed
  | PilBomb
  | PilImage string bool int int pil_load  \<comment> \<open>format, animated, width, height, \<open>load()\<close>\<close>

record decoders =
  b64decode :: "string \<Rightarrow> string option"
  pil_open :: "string \<Rightarrow> pil_result"

definition format_to_mime :: "string \<Rightarrow> string option" where
  "format_to_mime = map_of [(''JPEG'', ''image/jpeg''), (''PNG'', ''image/png''),
                            (''WEBP'', ''image/webp'')]"

text \<open>The checks on the opened image, inside the \<open>with Image.open(...)\<close> block and after it.\<close>

definition image_from_pil ::
  "string \<Rightarrow> string \<Rightarrow> pil_result \<Rightarrow> (vision_error, image_payload) result" where
  "image_from_pil mime d opened =
     (case opened of
        PilFailed \<Rightarrow> Inl UndecodableImage
      | PilBomb \<Rightarrow> Inl DecoderLimit
      | PilImage fmt animated w h ld \<Rightarrow>
          if animated then Inl AnimatedImage
          else if w \<le> 0 \<or> h \<le> 0 then Inl NonPositiveDimensions
          else if w > max_image_dimension \<or> h > max_image_dimension then Inl DimensionTooLarge
          else if w * h > max_image_pixels then Inl ImageTooManyPixels
          else if ld = LoadBomb then Inl DecoderLimit
          else if ld = LoadFailed then Inl UndecodableImage
          else if ld = LoadValueError then Inl DecoderValueError
          else if format_to_mime (py_upper fmt) \<noteq> Some mime then Inl MimeMismatch
          else Inr \<lparr>mime_type = mime, image_data = d, image_width = w, image_height = h\<rparr>)"

definition decode_data_url :: "decoders \<Rightarrow> string \<Rightarrow> (vision_error, image_payload) result" where
  "decode_data_url dec url =
     bindr (preflight_data_url url) (\<lambda>(_, mime, comma).
       case b64decode dec (drop (comma + 1) url) of
         None \<Rightarrow> Inl BadBase64
       | Some d \<Rightarrow>
           if d = [] then Inl EmptyImage
           else if int (length d) > max_image_bytes then Inl ImageTooLarge
           else image_from_pil mime d (pil_open dec d))"

section \<open>Normalising content\<close>

definition validate_request_contents ::
  "content list \<Rightarrow> string list option \<Rightarrow> (vision_error, unit) result" where
  "validate_request_contents contents roles =
     bindr (pair_roles contents roles) (\<lambda>rcs.
       if \<exists>(role, c) \<in> set rcs. images_of c \<noteq> [] \<and> py_lower role \<noteq> ''user''
       then Inl ImageNotFromUser
       else let payloads = concat (map (images_of \<circ> snd) rcs) in
         if int (length payloads) > max_images_per_request then Inl TooManyImages
         else if sum_list (map byte_size payloads) > max_request_image_bytes then Inl ImagesTooLarge
         else if sum_list (map pixel_count payloads) > max_request_image_pixels then Inl TooManyPixels
         else Inr ())"

text \<open>The loop of \<open>validate_content\<close>: the parts so far and the running image totals.\<close>

definition normalize_part ::
  "decoders \<Rightarrow> json \<Rightarrow> part list \<times> int \<times> int \<times> int \<Rightarrow>
     (vision_error, part list \<times> int \<times> int \<times> int) result" where
  "normalize_part dec p st = (case st of (acc, k, b, px) \<Rightarrow>
     (case p of
        JStr s \<Rightarrow> Inr (acc @ [PText s], k, b, px)
      | JObj _ \<Rightarrow>
          let ty = part_type p in
          if ty \<in> set image_part_types then
            bindr (image_url_from_part p) (\<lambda>url.
              bindr (decode_data_url dec url) (\<lambda>img.
                if k + 1 > max_images_per_request then Inl TooManyImages
                else if b + byte_size img > max_request_image_bytes then Inl ImagesTooLarge
                else if px + pixel_count img > max_request_image_pixels then Inl TooManyPixels
                else Inr (acc @ [PImage img], k + 1, b + byte_size img, px + pixel_count img)))
          else if ty \<in> set text_part_types \<or> ty = [] then
            bindr (text_from_part p) (\<lambda>s. Inr (acc @ [PText s], k, b, px))
          else Inl (UnsupportedPart ty)
      | _ \<Rightarrow> Inl BadPart))"

fun texts_of :: "part list \<Rightarrow> string list" where
  "texts_of [] = []"
| "texts_of (PText s # ps) = s # texts_of ps"
| "texts_of (PImage i # ps) = texts_of ps"

definition validate_content :: "decoders \<Rightarrow> content \<Rightarrow> (vision_error, content) result" where
  "validate_content dec c =
     (case c of
        Plain JNull \<Rightarrow> Inr c
      | Plain (JStr _) \<Rightarrow> Inr c
      | Multi _ \<Rightarrow> Inr c
      | Plain (JList ps) \<Rightarrow>
          bindr (preflight_request_contents [c] None) (\<lambda>_.
            bindr (foldr_result (normalize_part dec) ps ([], 0, 0, 0)) (\<lambda>(acc, k, _, _).
              if k > 0 then bindr (validate_request_contents [Multi acc] None) (\<lambda>_. Inr (Multi acc))
              else Inr (Plain (JStr (py_join [CHR 0x0A] (texts_of acc))))))
      | Plain _ \<Rightarrow> Inl BadContent)"

definition content_has_images :: "content \<Rightarrow> bool" where
  "content_has_images c =
     (case c of
        Multi ps \<Rightarrow> (\<exists>p \<in> set ps. case p of PImage _ \<Rightarrow> True | PText _ \<Rightarrow> False)
      | Plain (JList ps) \<Rightarrow> (\<exists>p \<in> set ps. is_obj p \<and> part_type p \<in> set image_part_types)
      | Plain _ \<Rightarrow> False)"

definition contents_have_images :: "content list \<Rightarrow> bool" where
  "contents_have_images cs = (\<exists>c \<in> set cs. content_has_images c)"

text \<open>\<open>content_to_transport_text\<close>; the \<open>TypeError\<close> branch is unreachable.\<close>

definition content_to_transport_text :: "decoders \<Rightarrow> content \<Rightarrow> (vision_error, content) result" where
  "content_to_transport_text dec c =
     bindr (validate_content dec c) (\<lambda>n. if n = Plain JNull then Inr (Plain (JStr [])) else Inr n)"

definition multi_text :: "string \<Rightarrow> part list \<Rightarrow> string" where
  "multi_text placeholder ps =
     py_join [CHR 0x0A] (filter (\<lambda>f. f \<noteq> [])
       (map (\<lambda>p. case p of PText s \<Rightarrow> s | PImage _ \<Rightarrow> placeholder) ps))"

definition plain_text :: "decoders \<Rightarrow> string \<Rightarrow> content \<Rightarrow> (vision_error, string) result" where
  "plain_text dec placeholder c =
     (case c of
        Plain JNull \<Rightarrow> Inr []
      | Plain (JStr s) \<Rightarrow> Inr s
      | Plain (JList ps) \<Rightarrow>
          bindr (validate_content dec c) (\<lambda>n.
            case n of Multi qs \<Rightarrow> Inr (multi_text placeholder qs) | Plain v \<Rightarrow> Inr (py_str v))
      | Multi qs \<Rightarrow> Inr (multi_text placeholder qs)
      | Plain v \<Rightarrow> Inr (py_str v))"

section \<open>Lemmas\<close>

lemma foldr_result_inv:
  assumes "foldr_result f xs s = Inr s'" and "P s"
    and "\<And>x s s'. P s \<Longrightarrow> f x s = Inr s' \<Longrightarrow> P s'"
  shows "P s'"
  using assms(1,2) by (induction xs arbitrary: s) (auto simp: bindr_eq_Inr intro: assms(3))

lemma part_images_append [simp]: "part_images (xs @ ys) = part_images xs @ part_images ys"
  by (induction xs rule: part_images.induct) auto

lemma preflight_data_url_Inr:
  "preflight_data_url url = Inr (est, mime, comma) \<Longrightarrow>
     mime \<in> set supported_mimes \<and> py_lower (take 5 url) = ''data:'' \<and> est \<le> max_image_bytes + 3"
  by (auto simp: preflight_data_url_def Let_def split: if_splits option.splits)

definition image_ok :: "image_payload \<Rightarrow> bool" where
  "image_ok i \<longleftrightarrow> mime_type i \<in> set supported_mimes \<and>
     0 < byte_size i \<and> byte_size i \<le> max_image_bytes \<and>
     0 < image_width i \<and> image_width i \<le> max_image_dimension \<and>
     0 < image_height i \<and> image_height i \<le> max_image_dimension \<and>
     pixel_count i \<le> max_image_pixels"

lemma image_from_pil_Inr:
  assumes "image_from_pil mime d r = Inr i"
  shows "mime_type i = mime \<and> image_data i = d \<and> 0 < image_width i \<and> image_width i \<le> max_image_dimension \<and>
     0 < image_height i \<and> image_height i \<le> max_image_dimension \<and> pixel_count i \<le> max_image_pixels"
  using assms by (cases r) (auto simp: image_from_pil_def pixel_count_def split: if_splits)

lemma decode_data_url_ok:
  assumes "decode_data_url dec url = Inr i"
  shows "image_ok i"
proof -
  from assms obtain est mime comma d where pre: "preflight_data_url url = Inr (est, mime, comma)"
    and d: "d \<noteq> []" "int (length d) \<le> max_image_bytes"
    and im: "image_from_pil mime d (pil_open dec d) = Inr i"
    by (auto simp: decode_data_url_def bindr_eq_Inr split: option.splits if_splits)
  from preflight_data_url_Inr [OF pre] d image_from_pil_Inr [OF im] show ?thesis
    by (simp add: image_ok_def byte_size_def)
qed

definition images_within :: "image_payload list \<Rightarrow> bool" where
  "images_within is \<longleftrightarrow> int (length is) \<le> max_images_per_request \<and>
     sum_list (map byte_size is) \<le> max_request_image_bytes \<and>
     sum_list (map pixel_count is) \<le> max_request_image_pixels"

definition progress_ok :: "part list \<times> int \<times> int \<times> int \<Rightarrow> bool" where
  "progress_ok st = (case st of (acc, k, b, px) \<Rightarrow>
     k = int (length (part_images acc)) \<and> b = sum_list (map byte_size (part_images acc)) \<and>
     px = sum_list (map pixel_count (part_images acc)) \<and>
     (\<forall>i \<in> set (part_images acc). image_ok i) \<and> images_within (part_images acc))"

lemma normalize_part_ok:
  assumes "progress_ok st" and "normalize_part dec p st = Inr st'"
  shows "progress_ok st'"
proof -
  obtain acc k b px where st: "st = (acc, k, b, px)" by (cases st)
  from assms(2) st consider s where "st' = (acc @ [PText s], k, b, px)"
    | url img where "decode_data_url dec url = Inr img"
        "st' = (acc @ [PImage img], k + 1, b + byte_size img, px + pixel_count img)"
        "k + 1 \<le> max_images_per_request" "b + byte_size img \<le> max_request_image_bytes"
        "px + pixel_count img \<le> max_request_image_pixels"
    by (auto simp: normalize_part_def bindr_eq_Inr Let_def split: json.splits if_splits)
  then show ?thesis
  proof cases
    case 1
    with assms(1) st show ?thesis by (simp add: progress_ok_def)
  next
    case 2
    with assms(1) st decode_data_url_ok [OF 2(1)] show ?thesis
      by (auto simp: progress_ok_def images_within_def)
  qed
qed

lemma progress_ok_start: "progress_ok ([], 0, 0, 0)"
  by (simp add: progress_ok_def images_within_def max_images_per_request_def
      max_request_image_bytes_def max_request_image_pixels_def)

lemma validate_content_cases:
  assumes "validate_content dec c = Inr n"
  obtains (same) "n = c" "c = Plain JNull \<or> (\<exists>s. c = Plain (JStr s)) \<or> (\<exists>ps. c = Multi ps)"
  | (texts) s where "n = Plain (JStr s)"
  | (images) acc k b px where "n = Multi acc" "progress_ok (acc, k, b, px)" "0 < k"
proof (cases "\<exists>ps. c = Plain (JList ps)")
  case False
  with assms show ?thesis
    by (cases c) (auto simp: validate_content_def intro: same split: json.splits)
next
  case True
  then obtain ps where c: "c = Plain (JList ps)" by blast
  with assms obtain acc k b px where
    fold: "foldr_result (normalize_part dec) ps ([], 0, 0, 0) = Inr (acc, k, b, px)"
    and n: "(if k > 0 then bindr (validate_request_contents [Multi acc] None) (\<lambda>_. Inr (Multi acc))
         else Inr (Plain (JStr (py_join [CHR 0x0A] (texts_of acc))))) = Inr n"
    by (auto simp: validate_content_def bindr_eq_Inr)
  have "progress_ok (acc, k, b, px)"
    using foldr_result_inv [where P = progress_ok, OF fold progress_ok_start] normalize_part_ok
    by blast
  with n show ?thesis by (auto simp: bindr_eq_Inr intro: texts images split: if_splits)
qed

section \<open>Properties\<close>

text \<open>Every image that content normalisation accepts is a supported, non-empty, bounded
  image, and the images of one content value respect the request limits.\<close>

lemma validated_images_within_limits:
  assumes "validate_content dec (Plain v) = Inr n"
  shows "list_all image_ok (images_of n) \<and> images_within (images_of n)"
  using assms
proof (cases rule: validate_content_cases)
  case (images acc k b px)
  then show ?thesis by (simp add: images_of_def progress_ok_def list_all_iff)
qed (auto simp: images_of_def images_within_def max_images_per_request_def
    max_request_image_bytes_def max_request_image_pixels_def)

abbreviation png_decoders :: decoders where
  "png_decoders \<equiv> \<lparr>b64decode = (\<lambda>_. Some ''PNG''), pil_open = (\<lambda>_. PilImage ''PNG'' False 2 3 LoadOk)\<rparr>"

abbreviation png_part :: json where
  "png_part \<equiv> JObj [(''type'', JStr ''input_image''),
     (''image_url'', JStr ''data:image/png;base64,UE5H'')]"

lemma validated_images_within_limits_witness:
  "\<exists>n. validate_content png_decoders (Plain (JList [png_part])) = Inr n \<and>
     length (images_of n) = 1 \<and> list_all image_ok (images_of n)"
proof -
  let ?n = "Multi [PImage \<lparr>mime_type = ''image/png'', image_data = ''PNG'', image_width = 2, image_height = 3\<rparr>]"
  have n: "validate_content png_decoders (Plain (JList [png_part])) = Inr ?n" by code_simp
  with validated_images_within_limits [OF n] show ?thesis by (auto simp: images_of_def)
qed

text \<open>Normalised content is a fixed point: validating it again decodes nothing, whatever
  the decoders would answer, and returns it unchanged.\<close>

lemma validate_content_once:
  assumes "validate_content dec c = Inr n"
  shows "validate_content dec' n = Inr n"
  using assms by (cases rule: validate_content_cases) (auto simp: validate_content_def)

lemma validate_content_once_witness:
  "\<exists>n. validate_content png_decoders (Plain (JList [png_part, JStr ''hi''])) = Inr n \<and>
     validate_content \<lparr>b64decode = (\<lambda>_. None), pil_open = (\<lambda>_. PilFailed)\<rparr> n = Inr n"
proof -
  let ?n = "Multi [PImage \<lparr>mime_type = ''image/png'', image_data = ''PNG'', image_width = 2, image_height = 3\<rparr>,
    PText ''hi'']"
  have n: "validate_content png_decoders (Plain (JList [png_part, JStr ''hi''])) = Inr ?n" by code_simp
  from n validate_content_once [OF n] show ?thesis by blast
qed

end
