(* ===== verification/ModelRegistry.thy ===== *)
theory ModelRegistry
  imports DeviceCheck Multimodal
begin

text \<open>
  \<open>app/model_registry.py\<close>: reading \<open>models.json\<close> into validated model configurations,
  writing it back, and the status entry of one model. The file is the JSON value it
  parses to (\<open>None\<close> when it is missing, unreadable or not JSON). Texts shown to the user
  are not modelled.
\<close>

section \<open>Configurations\<close>

record model_config =
  model_id :: string
  model_name :: string
  description :: string
  backend :: string
  model_path :: string
  source_model :: string
  weight_format :: string
  recommended_device :: string
  max_context_len :: int
  max_output_tokens :: int
  trust_remote_code :: bool
  recommended_context_len :: "int option"
  kv_cache_precision :: "string option"

definition max_prompt_len :: "model_config \<Rightarrow> int" where
  "max_prompt_len cfg = max (max_context_len cfg - max_output_tokens cfg) 64"

definition capabilities :: "model_config \<Rightarrow> string list" where
  "capabilities cfg = capabilities_for_backend (Some (backend cfg))"

definition supports_vision :: "model_config \<Rightarrow> bool" where
  "supports_vision cfg = backend_supports_vision (Some (backend cfg))"

definition supported_backends :: "string list" where
  "supported_backends = [''openvino-genai'', ''openvino-embeddings'', ''openvino-vlm'']"

definition supported_weight_formats :: "string list" where
  "supported_weight_formats = [''int4'', ''int8'', ''fp16'']"

definition kv_precisions :: "string list" where
  "kv_precisions = [''f16'', ''u8'', ''u4'']"

definition max_context_limit :: int where "max_context_limit = 262144"
definition max_output_limit :: int where "max_output_limit = 65536"

definition ascii_alnum :: "char \<Rightarrow> bool" where
  "ascii_alnum c \<longleftrightarrow> is_digit c \<or>
     (let n = of_char c :: nat in (65 \<le> n \<and> n \<le> 90) \<or> (97 \<le> n \<and> n \<le> 122))"

definition valid_model_id :: "string \<Rightarrow> bool" where
  "valid_model_id s \<longleftrightarrow> s \<noteq> [] \<and> ascii_alnum (hd s) \<and> length s \<le> 128 \<and>
     list_all (\<lambda>c. ascii_alnum c \<or> c \<in> set ''_.-'') (tl s)"

datatype field_error =
    NotString string | EmptyField string | NotInteger string | OutOfRange string
  | BadModelId | BadTrustFlag | BadBackend | BadWeightFormat | BadDevice device_error
  | EmbeddingOutput | NoOutputBudget

definition string_field :: "json \<Rightarrow> string \<Rightarrow> string \<Rightarrow> bool \<Rightarrow> (field_error, string) result" where
  "string_field raw key dflt allow_empty =
     (case get_or raw key (JStr dflt) of
        JStr s \<Rightarrow> if py_strip s = [] \<and> \<not> allow_empty then Inl (EmptyField key) else Inr (py_strip s)
      | v \<Rightarrow> if v = JNull \<and> allow_empty then Inr [] else Inl (NotString key))"

definition integer_field :: "json \<Rightarrow> string \<Rightarrow> int \<Rightarrow> int \<Rightarrow> int \<Rightarrow> (field_error, int) result" where
  "integer_field raw key dflt minimum maximum =
     (case get_or raw key (JInt dflt) of
        JInt i \<Rightarrow> if i < minimum \<or> i > maximum then Inl (OutOfRange key) else Inr i
      | _ \<Rightarrow> Inl (NotInteger key))"

definition recommended_field :: "json \<Rightarrow> string \<Rightarrow> int \<Rightarrow> int \<Rightarrow> int option" where
  "recommended_field raw be ctx out =
     (if \<not> has_key raw ''recommended_context_len'' then None
      else case integer_field raw ''recommended_context_len'' ctx 128 max_context_limit of
        Inl _ \<Rightarrow> None
      | Inr i \<Rightarrow> if be \<noteq> ''openvino-embeddings'' \<and> i \<le> out then None else Some i)"

definition kv_field :: "json \<Rightarrow> string option" where
  "kv_field raw = (case get raw ''kv_cache_precision'' of
       JStr s \<Rightarrow> if py_lower (py_strip s) \<in> set kv_precisions then Some (py_lower (py_strip s)) else None
     | _ \<Rightarrow> None)"

definition coerce_entry :: "string \<Rightarrow> json \<Rightarrow> (field_error, model_config) result" where
  "coerce_entry mid raw =
     bindr (ensure (valid_model_id mid) BadModelId) (\<lambda>_.
     bindr (case get_or raw ''trust_remote_code'' (JBool False) of JBool b \<Rightarrow> Inr b | _ \<Rightarrow> Inl BadTrustFlag) (\<lambda>trust.
     bindr (string_field raw ''backend'' ''openvino-genai'' False) (\<lambda>be0.
     let be = py_lower be0 in
     bindr (ensure (be \<in> set supported_backends) BadBackend) (\<lambda>_.
     bindr (string_field raw ''weight_format'' ''int4'' False) (\<lambda>wf0.
     let wf = py_lower wf0 in
     bindr (ensure (wf \<in> set supported_weight_formats) BadWeightFormat) (\<lambda>_.
     bindr (string_field raw ''recommended_device'' ''NPU'' False) (\<lambda>dev0.
     bindr (case parse_device_expression (Some dev0) None of Inl e \<Rightarrow> Inl (BadDevice e) | Inr e \<Rightarrow> Inr (normalized e)) (\<lambda>dev.
     bindr (integer_field raw ''max_context_len'' 2048 128 max_context_limit) (\<lambda>ctx.
     bindr (integer_field raw ''max_output_tokens'' 512 0 max_output_limit) (\<lambda>out.
     bindr (if be = ''openvino-embeddings'' then ensure (out = 0) EmbeddingOutput
            else ensure (1 \<le> out \<and> out < ctx) NoOutputBudget) (\<lambda>_.
     bindr (string_field raw ''name'' mid False) (\<lambda>name.
     bindr (string_field raw ''description'' [] True) (\<lambda>desc.
     bindr (string_field raw ''model_path'' (''models/openvino/'' @ mid) False) (\<lambda>path.
     bindr (string_field raw ''source_model'' [] True) (\<lambda>src.
     Inr \<lparr>model_id = mid, model_name = name, description = desc, backend = be, model_path = path,
          source_model = src, weight_format = wf, recommended_device = dev,
          max_context_len = ctx, max_output_tokens = out, trust_remote_code = trust,
          recommended_context_len = recommended_field raw be ctx out,
          kv_cache_precision = kv_field raw\<rparr>)))))))))))))))"

text \<open>\<open>load_catalog\<close>: entries that are no object or do not validate are skipped.\<close>

definition load_catalog :: "json option \<Rightarrow> (string \<times> model_config) list" where
  "load_catalog file =
     (case file of
        Some (JObj entries) \<Rightarrow>
          List.map_filter (\<lambda>(mid, raw).
            if \<not> is_obj raw then None
            else (case coerce_entry mid raw of Inl _ \<Rightarrow> None | Inr cfg \<Rightarrow> Some (mid, cfg))) entries
      | _ \<Rightarrow> [])"

definition entry_json :: "model_config \<Rightarrow> json" where
  "entry_json cfg = JObj (
     [(''name'', JStr (model_name cfg)), (''description'', JStr (description cfg)),
      (''backend'', JStr (backend cfg)), (''model_path'', JStr (model_path cfg)),
      (''source_model'', JStr (source_model cfg)), (''weight_format'', JStr (weight_format cfg)),
      (''recommended_device'', JStr (recommended_device cfg)),
      (''max_context_len'', JInt (max_context_len cfg))] @
     (case recommended_context_len cfg of None \<Rightarrow> [] | Some i \<Rightarrow> [(''recommended_context_len'', JInt i)]) @
     [(''max_output_tokens'', JInt (max_output_tokens cfg)),
      (''trust_remote_code'', JBool (trust_remote_code cfg))] @
     (case kv_cache_precision cfg of None \<Rightarrow> [] | Some k \<Rightarrow> [(''kv_cache_precision'', JStr k)]))"

definition save_catalog :: "(string \<times> model_config) list \<Rightarrow> json" where
  "save_catalog catalog = JObj (map (\<lambda>(mid, cfg). (mid, entry_json cfg)) catalog)"

section \<open>The status entry\<close>

record model_flags =
  f_loaded :: bool
  f_queued :: bool
  f_loading :: bool
  f_downloaded :: bool
  f_converting :: bool
  f_cancelled :: bool
  f_busy :: bool
  f_error :: "string option"

record catalog_entry =
  entry_status :: string
  is_loading :: bool
  can_load :: bool
  can_convert :: bool
  can_unload :: bool
  can_delete :: bool

definition entry_status_of :: "model_flags \<Rightarrow> string" where
  "entry_status_of f =
     (if f_loaded f then ''loaded''
      else if f_error f \<noteq> None \<and> f_error f \<noteq> Some [] then ''error''
      else if f_cancelled f then ''cancelled''
      else if f_converting f then ''converting''
      else if f_queued f then ''queued''
      else if f_loading f then ''loading''
      else if f_downloaded f then ''ready_to_load''
      else ''not_downloaded'')"

definition make_catalog_entry :: "model_config \<Rightarrow> model_flags \<Rightarrow> catalog_entry" where
  "make_catalog_entry cfg f =
     (let status = entry_status_of f;
          busy_state = (status \<in> set [''queued'', ''loading'', ''queued_convert'', ''converting''])
      in \<lparr>entry_status = status, is_loading = busy_state,
          can_load = (\<not> f_loaded f \<and> f_downloaded f \<and> \<not> busy_state),
          can_convert = (\<not> f_loaded f \<and> \<not> f_downloaded f \<and> source_model cfg \<noteq> [] \<and> \<not> busy_state),
          can_unload = (f_loaded f \<and> \<not> f_busy f),
          can_delete = (\<not> f_loaded f \<and> f_downloaded f \<and> \<not> busy_state)\<rparr>)"

section \<open>Validated configurations\<close>

text \<open>What every configuration of a loaded catalog satisfies.\<close>

definition config_ok :: "model_config \<Rightarrow> bool" where
  "config_ok cfg \<longleftrightarrow> valid_model_id (model_id cfg) \<and>
     backend cfg \<in> set supported_backends \<and> weight_format cfg \<in> set supported_weight_formats \<and>
     (\<exists>e. device_ok e \<and> recommended_device cfg = normalized e) \<and>
     128 \<le> max_context_len cfg \<and> max_context_len cfg \<le> max_context_limit \<and>
     0 \<le> max_output_tokens cfg \<and> max_output_tokens cfg \<le> max_output_limit \<and>
     (if backend cfg = ''openvino-embeddings'' then max_output_tokens cfg = 0
      else 1 \<le> max_output_tokens cfg \<and> max_output_tokens cfg < max_context_len cfg) \<and>
     (\<forall>i. recommended_context_len cfg = Some i \<longrightarrow> 128 \<le> i \<and> i \<le> max_context_limit \<and>
        (backend cfg \<noteq> ''openvino-embeddings'' \<longrightarrow> max_output_tokens cfg < i)) \<and>
     (\<forall>k. kv_cache_precision cfg = Some k \<longrightarrow> k \<in> set kv_precisions) \<and>
     model_name cfg \<noteq> [] \<and> model_path cfg \<noteq> [] \<and>
     py_strip (model_name cfg) = model_name cfg \<and> py_strip (description cfg) = description cfg \<and>
     py_strip (model_path cfg) = model_path cfg \<and> py_strip (source_model cfg) = source_model cfg"

lemma string_field_Inr:
  "string_field raw key dflt allow = Inr s \<Longrightarrow> py_strip s = s \<and> (allow \<or> s \<noteq> [])"
  unfolding string_field_def by (auto split: json.splits if_splits) (simp_all add: py_strip_def py_lstrip_def)

lemma integer_field_Inr:
  "integer_field raw key dflt lo hi = Inr i \<Longrightarrow> lo \<le> i \<and> i \<le> hi"
  by (auto simp: integer_field_def split: json.splits if_splits)

lemma recommended_field_Some:
  "recommended_field raw be ctx out = Some i \<Longrightarrow>
     128 \<le> i \<and> i \<le> max_context_limit \<and> (be \<noteq> ''openvino-embeddings'' \<longrightarrow> out < i)"
  by (auto simp: recommended_field_def dest: integer_field_Inr split: if_splits sum.splits)

lemma kv_field_Some: "kv_field raw = Some k \<Longrightarrow> k \<in> set kv_precisions"
  by (auto simp: kv_field_def split: json.splits if_splits)

lemma coerce_entry_ok:
  assumes "coerce_entry mid raw = Inr cfg"
  shows "config_ok cfg" and "model_id cfg = mid"
proof -
  from assms obtain be0 wf0 dev0 e name desc path src where
    mid: "valid_model_id mid" "model_id cfg = mid"
    and be: "string_field raw ''backend'' ''openvino-genai'' False = Inr be0"
      "backend cfg = py_lower be0" "py_lower be0 \<in> set supported_backends"
    and wf: "weight_format cfg = py_lower wf0" "py_lower wf0 \<in> set supported_weight_formats"
    and dev: "parse_device_expression (Some dev0) None = Inr e" "recommended_device cfg = normalized e"
    and ctx: "integer_field raw ''max_context_len'' 2048 128 max_context_limit = Inr (max_context_len cfg)"
    and out: "integer_field raw ''max_output_tokens'' 512 0 max_output_limit = Inr (max_output_tokens cfg)"
    and budget: "if backend cfg = ''openvino-embeddings'' then max_output_tokens cfg = 0
      else 1 \<le> max_output_tokens cfg \<and> max_output_tokens cfg < max_context_len cfg"
    and rest: "recommended_context_len cfg = recommended_field raw (backend cfg) (max_context_len cfg) (max_output_tokens cfg)"
      "kv_cache_precision cfg = kv_field raw"
    and name: "string_field raw ''name'' mid False = Inr (model_name cfg)"
    and desc: "string_field raw ''description'' [] True = Inr (description cfg)"
    and path: "string_field raw ''model_path'' (''models/openvino/'' @ mid) False = Inr (model_path cfg)"
    and src: "string_field raw ''source_model'' [] True = Inr (source_model cfg)"
    unfolding coerce_entry_def Let_def bindr_eq_Inr
    by (elim exE conjE) (auto split: if_splits sum.splits)
  show "model_id cfg = mid" by (rule mid)
  show "config_ok cfg"
    unfolding config_ok_def
    using mid be wf dev budget rest integer_field_Inr [OF ctx] integer_field_Inr [OF out]
      string_field_Inr [OF name] string_field_Inr [OF desc] string_field_Inr [OF path] string_field_Inr [OF src]
      parse_device_ok [OF dev(1)] recommended_field_Some kv_field_Some
    by auto
qed

section \<open>Writing and reading back\<close>

lemma lower_fixed:
  "b \<in> set supported_backends \<Longrightarrow> py_lower b = b \<and> py_strip b = b \<and> b \<noteq> []"
  "w \<in> set supported_weight_formats \<Longrightarrow> py_lower w = w \<and> py_strip w = w \<and> w \<noteq> []"
  "k \<in> set kv_precisions \<Longrightarrow> py_lower k = k \<and> py_strip k = k \<and> k \<noteq> []"
proof -
  have "\<forall>b \<in> set supported_backends. py_lower b = b \<and> py_strip b = b \<and> b \<noteq> []"
    "\<forall>w \<in> set supported_weight_formats. py_lower w = w \<and> py_strip w = w \<and> w \<noteq> []"
    "\<forall>k \<in> set kv_precisions. py_lower k = k \<and> py_strip k = k \<and> k \<noteq> []" by code_simp+
  then show "b \<in> set supported_backends \<Longrightarrow> py_lower b = b \<and> py_strip b = b \<and> b \<noteq> []"
    "w \<in> set supported_weight_formats \<Longrightarrow> py_lower w = w \<and> py_strip w = w \<and> w \<noteq> []"
    "k \<in> set kv_precisions \<Longrightarrow> py_lower k = k \<and> py_strip k = k \<and> k \<noteq> []" by blast+
qed

lemma entry_json_fields:
  "get_or (entry_json cfg) ''name'' d = JStr (model_name cfg)"
  "get_or (entry_json cfg) ''description'' d = JStr (description cfg)"
  "get_or (entry_json cfg) ''backend'' d = JStr (backend cfg)"
  "get_or (entry_json cfg) ''model_path'' d = JStr (model_path cfg)"
  "get_or (entry_json cfg) ''source_model'' d = JStr (source_model cfg)"
  "get_or (entry_json cfg) ''weight_format'' d = JStr (weight_format cfg)"
  "get_or (entry_json cfg) ''recommended_device'' d = JStr (recommended_device cfg)"
  "get_or (entry_json cfg) ''max_context_len'' d = JInt (max_context_len cfg)"
  "get_or (entry_json cfg) ''max_output_tokens'' d = JInt (max_output_tokens cfg)"
  "get_or (entry_json cfg) ''trust_remote_code'' d = JBool (trust_remote_code cfg)"
  "has_key (entry_json cfg) ''recommended_context_len'' = (recommended_context_len cfg \<noteq> None)"
  "recommended_context_len cfg = Some i \<Longrightarrow> get_or (entry_json cfg) ''recommended_context_len'' d = JInt i"
  "get (entry_json cfg) ''kv_cache_precision'' = (case kv_cache_precision cfg of None \<Rightarrow> JNull | Some k \<Rightarrow> JStr k)"
  by (simp_all add: entry_json_def get_or_def map_add_def split: option.split)

lemma coerce_entry_json:
  assumes "config_ok cfg"
  shows "coerce_entry (model_id cfg) (entry_json cfg) = Inr cfg"
proof -
  obtain e where e: "device_ok e" "recommended_device cfg = normalized e"
    using assms by (auto simp: config_ok_def)
  have parse: "parse_device_expression (Some (normalized e)) None = Inr e" by (rule parse_normalized [OF e(1)])
  then have dev: "parse_device_expression (Some (py_strip (normalized e))) None = Inr e"
    "py_strip (normalized e) \<noteq> []"
    by (auto simp: parse_device_expression_def)
  have fields: "string_field (entry_json cfg) ''name'' d1 False = Inr (model_name cfg)"
    "string_field (entry_json cfg) ''description'' d2 True = Inr (description cfg)"
    "string_field (entry_json cfg) ''backend'' d3 False = Inr (backend cfg)"
    "string_field (entry_json cfg) ''model_path'' d4 False = Inr (model_path cfg)"
    "string_field (entry_json cfg) ''source_model'' d5 True = Inr (source_model cfg)"
    "string_field (entry_json cfg) ''weight_format'' d6 False = Inr (weight_format cfg)"
    "string_field (entry_json cfg) ''recommended_device'' d7 False = Inr (py_strip (normalized e))"
    "integer_field (entry_json cfg) ''max_context_len'' d8 128 max_context_limit = Inr (max_context_len cfg)"
    "integer_field (entry_json cfg) ''max_output_tokens'' d9 0 max_output_limit = Inr (max_output_tokens cfg)"
    for d1 d2 d3 d4 d5 d6 d7 d8 d9
    using assms e(2) dev(2) lower_fixed
    by (simp_all add: string_field_def integer_field_def entry_json_fields config_ok_def)
  have rec: "recommended_field (entry_json cfg) (backend cfg) (max_context_len cfg) (max_output_tokens cfg) =
      recommended_context_len cfg"
    using assms
    by (cases "recommended_context_len cfg")
      (auto simp: recommended_field_def entry_json_fields integer_field_def config_ok_def)
  have kv: "kv_field (entry_json cfg) = kv_cache_precision cfg"
    using assms lower_fixed(3)
    by (cases "kv_cache_precision cfg") (auto simp: kv_field_def entry_json_fields config_ok_def)
  have budget: "(if backend cfg = ''openvino-embeddings'' then ensure (max_output_tokens cfg = 0) EmbeddingOutput
      else ensure (1 \<le> max_output_tokens cfg \<and> max_output_tokens cfg < max_context_len cfg) NoOutputBudget) = Inr ()"
    using assms by (auto simp: config_ok_def)
  have low: "py_lower (backend cfg) = backend cfg" "py_lower (weight_format cfg) = weight_format cfg"
    and ok: "valid_model_id (model_id cfg)" "backend cfg \<in> set supported_backends"
      "weight_format cfg \<in> set supported_weight_formats"
    using assms lower_fixed by (auto simp: config_ok_def)
  show ?thesis
    unfolding coerce_entry_def Let_def
    using ok e(2) by (simp add: ensure_def fields low dev(1) rec kv entry_json_fields)
      (use budget in \<open>simp add: ensure_def split: if_splits\<close>)
qed

lemma load_catalog_ok:
  "(mid, cfg) \<in> set (load_catalog file) \<Longrightarrow> config_ok cfg \<and> model_id cfg = mid"
  by (auto simp: load_catalog_def List.map_filter_def dest: coerce_entry_ok
      split: option.splits json.splits sum.splits if_splits)

lemma load_save:
  assumes "\<And>mid cfg. (mid, cfg) \<in> set catalog \<Longrightarrow> config_ok cfg \<and> model_id cfg = mid"
  shows "load_catalog (Some (save_catalog catalog)) = catalog"
  using assms
proof (induction catalog)
  case (Cons entry rest)
  obtain mid cfg where entry: "entry = (mid, cfg)" by (cases entry)
  then have "coerce_entry mid (entry_json cfg) = Inr cfg"
    using Cons.prems coerce_entry_json [of cfg] by auto
  moreover have "is_obj (entry_json cfg)" by (simp add: entry_json_def is_obj_def)
  ultimately have "load_catalog (Some (save_catalog (entry # rest))) = entry # load_catalog (Some (save_catalog rest))"
    by (simp add: entry load_catalog_def save_catalog_def List.map_filter_simps)
  moreover have "load_catalog (Some (save_catalog rest)) = rest"
    by (rule Cons.IH) (rule Cons.prems, simp)
  ultimately show ?case by simp
qed (simp add: load_catalog_def save_catalog_def List.map_filter_def)

section \<open>Properties\<close>

text \<open>Every model of a loaded catalog is valid, whatever the file held: known backend,
  weight format and device, context and output sizes in range with room for a prompt, and
  a KV-cache precision the plugins know.\<close>

lemma loaded_catalog_valid:
  "list_all (\<lambda>(mid, cfg). config_ok cfg \<and> model_id cfg = mid) (load_catalog file)"
  using load_catalog_ok by (auto simp: list_all_iff)

text \<open>Saving a loaded catalog and loading it again changes nothing.\<close>

lemma catalog_roundtrip:
  "load_catalog (Some (save_catalog (load_catalog file))) = load_catalog file"
  by (rule load_save) (rule load_catalog_ok)

text \<open>The actions the status entry offers exclude each other: a loaded model can only be
  unloaded, a downloaded one only loaded or deleted, one that is neither only converted, and
  nothing is offered while the model is queued, loading or converting.\<close>

lemma entry_actions_exclusive:
  fixes cfg f
  defines "entry \<equiv> make_catalog_entry cfg f"
  shows "can_load entry = can_delete entry \<and>
    (can_unload entry \<longrightarrow> \<not> can_load entry \<and> \<not> can_convert entry) \<and>
    (can_load entry \<longrightarrow> \<not> can_convert entry) \<and>
    (is_loading entry \<longrightarrow> \<not> can_load entry \<and> \<not> can_convert entry \<and> \<not> can_unload entry \<and> \<not> can_delete entry)"
  by (auto simp: entry_def make_catalog_entry_def entry_status_of_def Let_def)

end
