(* ===== verification/Recovery.thy ===== *)
theory Recovery
  imports ManagedTree StructuredProgress ModelRegistry
begin

text \<open>
  Recovery of interrupted preparations: \<open>app/model_recovery.py\<close>, with the tolerant reading of records of
  \<open>app/model_recovery_status.py\<close> and the file operations of \<open>app/model_recovery_cleanup.py\<close>. A record is a JSON
  object, in memory and in a file of its own per model. The files of a model are three slots beside
  each other, so two models are taken to have different directories; the source cache is shared by name.
\<close>

section \<open>Disk\<close>

record model_slot =
  out_dir :: "fs_node option"
  staging_dir :: "fs_node option"
  backup_dir :: "fs_node option"

record store =
  slots :: "string \<Rightarrow> model_slot"
  caches :: "string \<Rightarrow> fs_node option"

text \<open>
  What the code asks of the system and of libraries: the parsers of \<open>ModelArtifacts\<close>; does the resolved
  directory of a model (and of its staging sibling) lie in the models directory, is it that directory itself; does
  a source cache resolve to a place below the hub; \<open>str\<close> of a value that is no string.
\<close>

record recovery_env =
  part :: prep_env
  artifact_parsers :: parsers
  model_entry :: "string \<Rightarrow> model_config option"
  within_models :: "string \<Rightarrow> bool"
  staging_within :: "string \<Rightarrow> bool"
  is_models_root :: "string \<Rightarrow> bool"
  cache_inside :: "string \<Rightarrow> bool"
  text_of :: "json \<Rightarrow> string"

fun follow :: "fs_node \<Rightarrow> fs_node option" where
  "follow (Linked None) = None"
| "follow (Linked (Some t)) = follow t"
| "follow n = Some n"

fun put_resolved :: "fs_node \<Rightarrow> fs_node option \<Rightarrow> fs_node option" where
  "put_resolved (Linked (Some t)) m = Some (Linked (put_resolved t m))"
| "put_resolved n m = m"

definition source_char :: "char \<Rightarrow> bool" where
  "source_char c \<longleftrightarrow> alnum c \<or> c \<in> {CHR ''.'', CHR ''_'', CHR ''-''}"

definition source_pattern :: "string \<Rightarrow> bool" where
  "source_pattern s =
     (case py_split (CHR ''/'') s of
        [a, b] \<Rightarrow> a \<noteq> [] \<and> b \<noteq> [] \<and> list_all source_char (a @ b)
      | _ \<Rightarrow> False)"

text \<open>\<open>"models--" + source.replace("/", "--")\<close>\<close>

definition cache_name :: "string \<Rightarrow> string" where
  "cache_name s = ''models--'' @ concat (map (\<lambda>c. if c = CHR ''/'' then ''--'' else [c]) s)"

definition source_cache_path :: "recovery_env \<Rightarrow> string \<Rightarrow> string option" where
  "source_cache_path env source_name =
     (let s = py_strip source_name
      in if source_pattern s \<and> cache_inside env (cache_name s) then Some (cache_name s) else None)"

definition child :: "fs_node \<Rightarrow> string \<Rightarrow> fs_node option" where
  "child n k = (case follow n of Some (Directory listed es) \<Rightarrow> map_of es k | _ \<Rightarrow> None)"

definition directory_has_entries :: "fs_node option \<Rightarrow> bool" where
  "directory_has_entries n = (case Option.bind n follow of Some (Directory True es) \<Rightarrow> es \<noteq> [] | _ \<Rightarrow> False)"

datatype download = CacheUnknown | Reusable | NotFound

definition download_state :: "recovery_env \<Rightarrow> store \<Rightarrow> model_config \<Rightarrow> download" where
  "download_state env d cfg =
     (case source_cache_path env (source_model cfg) of
        None \<Rightarrow> CacheUnknown
      | Some k \<Rightarrow>
          if directory_has_entries (Option.bind (caches d k) (\<lambda>n. child n ''snapshots''))
             \<or> directory_has_entries (Option.bind (caches d k) (\<lambda>n. child n ''blobs''))
          then Reusable else NotFound)"

datatype converted_output = Complete | IncompleteOutput | MissingOutput

definition output_state :: "recovery_env \<Rightarrow> store \<Rightarrow> string \<Rightarrow> converted_output" where
  "output_state env d mid =
     (let f = slots d mid
      in if holds_model (artifact_parsers env) (out_dir f) then Complete
         else if path_exists (out_dir f) \<or> lexists (staging_dir f) then IncompleteOutput
         else MissingOutput)"

section \<open>Classification\<close>

definition failed_stage :: "string \<Rightarrow> string option \<Rightarrow> string" where
  "failed_stage previous op_type =
     (let ph = py_lower previous
      in if ph = ''loading'' then ''load''
         else if ph \<in> {''converting'', ''finalizing''} then ''conversion''
         else if ph \<in> {''resolving'', ''downloading'', ''queued''} then ''download''
         else if op_type = Some ''convert'' then ''conversion'' else ''load'')"

definition last_completed_stage :: "string \<Rightarrow> download \<Rightarrow> converted_output \<Rightarrow> string" where
  "last_completed_stage previous dl out =
     (if out = Complete then ''conversion''
      else if py_lower previous = ''finalizing'' then ''conversion''
      else if py_lower previous \<in> {''converting'', ''loading''} \<or> dl = Reusable then ''download''
      else ''none'')"

datatype recovery_action = Resume | RetryFailedStage | RestartDownload | RemoveIncomplete

definition recommended_action :: "string \<Rightarrow> download \<Rightarrow> converted_output \<Rightarrow> recovery_action" where
  "recommended_action stage dl out =
     (if stage = ''load'' \<and> out = Complete then RetryFailedStage
      else if dl = Reusable then Resume else RestartDownload)"

definition action_capability :: "recovery_env \<Rightarrow> model_config \<Rightarrow> string \<Rightarrow> converted_output \<Rightarrow> recovery_action \<Rightarrow> bool" where
  "action_capability env cfg stage out action =
     (let can_prepare = source_model cfg \<noteq> [] \<and> out \<noteq> Complete; reload = stage = ''load'' \<and> out = Complete
      in case action of
           Resume \<Rightarrow> can_prepare \<or> reload
         | RetryFailedStage \<Rightarrow> can_prepare \<or> reload
         | RestartDownload \<Rightarrow> can_prepare \<and> source_cache_path env (source_model cfg) \<noteq> None
         | RemoveIncomplete \<Rightarrow> out = IncompleteOutput)"

text \<open>\<open>str(record.get(k) or d)\<close>\<close>

definition text_or :: "recovery_env \<Rightarrow> json \<Rightarrow> string \<Rightarrow> string" where
  "text_or env v d = (if truthy v then (case v of JStr s \<Rightarrow> s | _ \<Rightarrow> text_of env v) else d)"

text \<open>The non-empty strings of \<open>record.get("log_tail", [])\<close>; what is not iterable raises.\<close>

definition tail_lines :: "json \<Rightarrow> (num_error, string list) result" where
  "tail_lines r =
     (if \<not> has_key r ''log_tail'' then Inr []
      else case get r ''log_tail'' of
        JList xs \<Rightarrow> Inr (List.map_filter (\<lambda>v. case v of JStr s \<Rightarrow> if s = [] then None else Some s | _ \<Rightarrow> None) xs)
      | JStr s \<Rightarrow> Inr (map (\<lambda>c. [c]) s)
      | JObj kvs \<Rightarrow> Inr (filter (\<lambda>k. k \<noteq> []) (map fst kvs))
      | _ \<Rightarrow> Inl NumType)"

record summary =
  sm_id :: string
  sm_model :: string
  sm_at :: int
  sm_terminal :: string
  sm_download :: download
  sm_output :: converted_output
  sm_stage :: string
  sm_completed :: string
  sm_recommended :: recovery_action
  sm_actions :: "recovery_action \<Rightarrow> bool"
  sm_details :: "(string \<times> string list) option"

definition summary_from_record ::
  "recovery_env \<Rightarrow> store \<Rightarrow> string \<Rightarrow> model_config \<Rightarrow> json \<Rightarrow> bool \<Rightarrow> (num_error, summary) result" where
  "summary_from_record env d mid cfg r with_details =
     (let dl = download_state env d cfg; out = output_state env d mid;
          stage = text_or env (get r ''failed_stage'') ''conversion''
      in bindr (json_int (py_or (get r ''interrupted_at'') (JInt 0))) (\<lambda>interrupted.
         bindr (if with_details then tail_lines r else Inr []) (\<lambda>lines.
         Inr \<lparr>sm_id = text_or env (get r ''recovery_id'') '''', sm_model = mid, sm_at = interrupted,
           sm_terminal = text_or env (get r ''terminal_state'') ''error'',
           sm_download = dl, sm_output = out, sm_stage = stage,
           sm_completed = text_or env (get r ''last_completed_stage'') ''none'',
           sm_recommended = recommended_action stage dl out,
           sm_actions = action_capability env cfg stage out,
           sm_details = (if with_details
             then Some (text_or env (get r ''message'') ''Model preparation was interrupted.'', last_n 10 lines)
             else None)\<rparr>)))"

section \<open>Records\<close>

record recovery_record =
  rr_id :: string
  rr_operation :: "string option"
  rr_type :: "string option"
  rr_terminal :: string
  rr_at :: int
  rr_stage :: string
  rr_completed :: string
  rr_message :: string
  rr_log :: "string list"

definition opt_text :: "string option \<Rightarrow> json" where
  "opt_text v = (case v of None \<Rightarrow> JNull | Some s \<Rightarrow> JStr s)"

definition record_json :: "string \<Rightarrow> recovery_record \<Rightarrow> json" where
  "record_json mid r =
     JObj [(''schema_version'', JInt 1), (''recovery_id'', JStr (rr_id r)), (''model_id'', JStr mid),
       (''operation_id'', opt_text (rr_operation r)), (''operation_type'', opt_text (rr_type r)),
       (''terminal_state'', JStr (rr_terminal r)), (''interrupted_at'', JInt (rr_at r)),
       (''failed_stage'', JStr (rr_stage r)), (''last_completed_stage'', JStr (rr_completed r)),
       (''message'', JStr (rr_message r)), (''log_tail'', JList (map JStr (rr_log r)))]"

text \<open>\<open>str.isprintable\<close> of one character below 256\<close>

definition printable :: "char \<Rightarrow> bool" where
  "printable c \<longleftrightarrow> 32 \<le> code c \<and> code c \<le> 126 \<or> 161 \<le> code c \<and> code c \<noteq> 173"

definition clean_id :: "string \<Rightarrow> string" where
  "clean_id s = take 128 (py_strip (filter printable s))"

definition safe_record_text :: "recovery_env \<Rightarrow> json \<Rightarrow> string \<Rightarrow> string" where
  "safe_record_text env v fallback =
     (let s = sanitize_progress_line (ellipsis (part env)) 240 (text_or env v '''')
      in if s = [] then fallback else s)"

definition terminal_names :: "string set" where "terminal_names = {''error'', ''cancelled''}"
definition stage_names :: "string set" where "stage_names = {''download'', ''conversion'', ''load''}"
definition completed_names :: "string set" where "completed_names = {''none'', ''download'', ''conversion''}"

definition type_names :: "string set" where "type_names = {''load'', ''convert''}"

definition one_of :: "string set \<Rightarrow> string \<Rightarrow> json \<Rightarrow> string" where
  "one_of allowed d v = (case v of JStr s \<Rightarrow> if s \<in> allowed then s else d | _ \<Rightarrow> d)"

definition normalize_recovery_record :: "recovery_env \<Rightarrow> string \<Rightarrow> json \<Rightarrow> recovery_record option" where
  "normalize_recovery_record env mid r =
     (if \<not> is_obj r then None
      else
        let own_id = take 128 (''recovery-'' @ mid)
        in Some \<lparr>
          rr_id = (case get r ''recovery_id'' of
              JStr s \<Rightarrow> if py_strip s = [] then own_id else if clean_id s = [] then own_id else clean_id s
            | _ \<Rightarrow> own_id),
          rr_operation = (case get r ''operation_id'' of
              JStr s \<Rightarrow> if s = [] then Some [] else if clean_id s = [] then None else Some (clean_id s)
            | _ \<Rightarrow> None),
          rr_type = (case get r ''operation_type'' of
              JStr s \<Rightarrow> if s \<in> type_names then Some s else None | _ \<Rightarrow> None),
          rr_terminal = one_of terminal_names ''error'' (get r ''terminal_state''),
          rr_at = (case get r ''interrupted_at'' of JInt i \<Rightarrow> max i 0 | _ \<Rightarrow> 0),
          rr_stage = one_of stage_names ''conversion'' (get r ''failed_stage''),
          rr_completed = one_of completed_names ''none'' (get r ''last_completed_stage''),
          rr_message = safe_record_text env (get r ''message'') ''Model preparation was interrupted.'',
          rr_log = (case get r ''log_tail'' of
              JList xs \<Rightarrow> List.map_filter (\<lambda>v. case v of
                  JStr s \<Rightarrow> (let t = safe_record_text env v '''' in if t = [] then None else Some t)
                | _ \<Rightarrow> None) (last_n 10 xs)
            | _ \<Rightarrow> [])\<rparr>)"

text \<open>The manager's part of the state; the files as the list of their names and contents.\<close>

record recovery =
  tables :: prep
  records :: "string \<Rightarrow> json option"
  record_files :: "(string \<times> json) list"
  id_draws :: nat
  load_running :: "string \<Rightarrow> bool"
  convert_running :: "string \<Rightarrow> bool"
  engines_loaded :: "string \<Rightarrow> bool"

definition load_records :: "(string \<Rightarrow> bool) \<Rightarrow> (string \<times> json) list \<Rightarrow> string \<Rightarrow> json option" where
  "load_records in_catalog found =
     fold (\<lambda>(k, payload) m.
       case get payload ''model_id'' of
         JStr s \<Rightarrow> if valid_model_id s \<and> in_catalog s then m(s \<mapsto> payload) else m
       | _ \<Rightarrow> m) found Map.empty"

fun put_file :: "string \<Rightarrow> json \<Rightarrow> (string \<times> json) list \<Rightarrow> (string \<times> json) list" where
  "put_file k v [] = [(k, v)]"
| "put_file k v ((k', v') # rest) = (if k' = k then (k, v) # rest else (k', v') # put_file k v rest)"

text \<open>When the write fails the record is kept in memory only.\<close>

definition write_record :: "bool \<Rightarrow> string \<Rightarrow> json \<Rightarrow> recovery \<Rightarrow> recovery" where
  "write_record writable mid r s =
     s\<lparr>records := (records s)(mid \<mapsto> r),
       record_files := (if writable then put_file mid r (record_files s) else record_files s)\<rparr>"

definition clear_record :: "bool \<Rightarrow> string \<Rightarrow> recovery \<Rightarrow> recovery" where
  "clear_record removable mid s =
     s\<lparr>records := (records s)(mid := None),
       record_files := (if removable then filter (\<lambda>f. fst f \<noteq> mid) (record_files s) else record_files s)\<rparr>"

definition fresh_recovery_id :: "recovery_env \<Rightarrow> string \<Rightarrow> recovery \<Rightarrow> string \<times> recovery" where
  "fresh_recovery_id env stem s = (stem @ op_hex (part env) (id_draws s), s\<lparr>id_draws := Suc (id_draws s)\<rparr>)"

section \<open>Reports and status\<close>

text \<open>\<open>set_progress_with_recovery\<close>: a final report leaves a record, \<open>ready\<close> removes it.\<close>

definition record_of_report ::
  "recovery_env \<Rightarrow> store \<Rightarrow> int \<Rightarrow> string \<Rightarrow> string \<Rightarrow> string \<Rightarrow> model_config \<Rightarrow> progress_entry option \<Rightarrow> progress_entry
     \<Rightarrow> json \<Rightarrow> json" where
  "record_of_report env d now mid ph msg cfg previous current rid =
     (let previous_phase = (case previous of Some p \<Rightarrow> or_word (pr_phase p) (or_word (pr_type current) ''conversion'')
            | None \<Rightarrow> or_word (pr_type current) ''conversion'');
          safe = (\<lambda>t. sanitize_progress_line (ellipsis (part env)) 240 t)
      in JObj [(''schema_version'', JInt 1), (''recovery_id'', rid), (''model_id'', JStr mid),
           (''operation_id'', JStr (pr_operation current)),
           (''operation_type'', if pr_type current \<in> {''load'', ''convert''} then JStr (pr_type current) else JNull),
           (''terminal_state'', JStr ph), (''interrupted_at'', JInt now),
           (''failed_stage'', JStr (failed_stage previous_phase (Some (pr_type current)))),
           (''last_completed_stage'', JStr (last_completed_stage previous_phase (download_state env d cfg) (output_state env d mid))),
           (''message'', JStr (or_word (safe (or_word (pr_message current) msg)) ''Model preparation was interrupted.'')),
           (''log_tail'', JList (map JStr (last_n 10 (filter (\<lambda>l. l \<noteq> []) (map safe (pr_log current))))))])"

definition set_progress_with_recovery ::
  "recovery_env \<Rightarrow> store \<Rightarrow> bool \<Rightarrow> int \<Rightarrow> string \<Rightarrow> string \<Rightarrow> string \<Rightarrow> pyfloat option \<Rightarrow> string option
     \<Rightarrow> recovery \<Rightarrow> recovery" where
  "set_progress_with_recovery env d disk_works now mid ph msg pc extra s =
     (let previous = progress (tables s) mid;
          s1 = s\<lparr>tables := set_progress (part env) now mid ph msg pc extra (tables s)\<rparr>
      in if ph = ''ready'' then clear_record disk_works mid s1
         else case (model_entry env mid, progress (tables s1) mid) of
           (Some cfg, Some current) \<Rightarrow>
             (if ph \<notin> {''cancelled'', ''error''} then s1
              else
                let existing = (case records s1 mid of Some r \<Rightarrow> r | None \<Rightarrow> JObj []);
                    same = pr_operation current \<noteq> [] \<and> get existing ''operation_id'' = JStr (pr_operation current);
                    (rid, s2) = (if same then (get existing ''recovery_id'', s1)
                      else let (new_id, s') = fresh_recovery_id env ''recovery-'' s1 in (JStr new_id, s'))
                in write_record disk_works mid (record_of_report env d now mid ph msg cfg previous current rid) s2)
         | _ \<Rightarrow> s1)"

definition active_states :: "string set" where
  "active_states = {''queued'', ''loading'', ''queued_convert'', ''converting''}"

definition model_is_active :: "recovery \<Rightarrow> string \<Rightarrow> bool" where
  "model_is_active s mid \<longleftrightarrow>
     (case status_of (tables s) mid of Some st \<Rightarrow> st \<in> active_states | None \<Rightarrow> False)
     \<or> load_running s mid \<or> convert_running s mid"

definition inferred_record ::
  "recovery_env \<Rightarrow> store \<Rightarrow> int \<Rightarrow> string \<Rightarrow> model_config \<Rightarrow> recovery \<Rightarrow> (json \<times> recovery) option" where
  "inferred_record env d now mid cfg s =
     (if output_state env d mid \<noteq> IncompleteOutput then None
      else
        let (rid, s1) = fresh_recovery_id env ''inferred-'' s
        in Some (JObj [(''schema_version'', JInt 1), (''recovery_id'', JStr rid), (''model_id'', JStr mid),
             (''operation_id'', JNull), (''operation_type'', JStr ''convert''), (''terminal_state'', JStr ''error''),
             (''interrupted_at'', JInt now), (''failed_stage'', JStr ''conversion''),
             (''last_completed_stage'', JStr (if download_state env d cfg = Reusable then ''download'' else ''none'')),
             (''message'', JStr ''An incomplete OpenVINO conversion directory was found.''), (''log_tail'', JList [])], s1))"

text \<open>\<open>model_recovery\<close> as the manager's catalogue entries call it, before any normalisation.\<close>

definition model_recovery ::
  "recovery_env \<Rightarrow> store \<Rightarrow> bool \<Rightarrow> int \<Rightarrow> string \<Rightarrow> bool \<Rightarrow> recovery \<Rightarrow> (num_error, summary option) result \<times> recovery" where
  "model_recovery env d disk_works now mid with_details s =
     (case model_entry env mid of
        None \<Rightarrow> (Inr None, s)
      | Some cfg \<Rightarrow>
          if model_is_active s mid then (Inr None, s)
          else case records s mid of
            Some r \<Rightarrow> (bindr (summary_from_record env d mid cfg r with_details) (\<lambda>x. Inr (Some x)), s)
          | None \<Rightarrow>
              (case inferred_record env d now mid cfg s of
                 None \<Rightarrow> (Inr None, s)
               | Some (r, s1) \<Rightarrow>
                   (bindr (summary_from_record env d mid cfg r with_details) (\<lambda>x. Inr (Some x)),
                    write_record disk_works mid r s1)))"

definition normalize_current_record :: "recovery_env \<Rightarrow> string \<Rightarrow> recovery \<Rightarrow> recovery" where
  "normalize_current_record env mid s =
     (case records s mid of
        None \<Rightarrow> s
      | Some r \<Rightarrow> s\<lparr>records := (records s)(mid := map_option (record_json mid) (normalize_recovery_record env mid r))\<rparr>)"

definition model_recovery_safely ::
  "recovery_env \<Rightarrow> store \<Rightarrow> bool \<Rightarrow> int \<Rightarrow> string \<Rightarrow> bool \<Rightarrow> recovery \<Rightarrow> (num_error, summary option) result \<times> recovery" where
  "model_recovery_safely env d disk_works now mid with_details s =
     (let s1 = normalize_current_record env mid s
      in case model_recovery env d disk_works now mid with_details s1 of
           (Inr x, s2) \<Rightarrow> (Inr x, s2)
         | (Inl e, s2) \<Rightarrow> model_recovery env d disk_works now mid with_details (s2\<lparr>records := (records s2)(mid := None)\<rparr>))"

text \<open>\<open>lifecycle_entry_with_recovery\<close>: what polling adds to the entry of a model.\<close>

definition lifecycle_recovery ::
  "recovery_env \<Rightarrow> store \<Rightarrow> int \<Rightarrow> string \<Rightarrow> recovery \<Rightarrow> (num_error, summary option) result \<times> recovery" where
  "lifecycle_recovery env d now mid s =
     (case model_entry env mid of
        None \<Rightarrow> (Inr None, s)
      | Some cfg \<Rightarrow>
          if model_is_active s mid then (Inr None, s)
          else
            let s1 = normalize_current_record env mid s
            in case records s1 mid of
                 Some r \<Rightarrow> (bindr (summary_from_record env d mid cfg r False) (\<lambda>x. Inr (Some x)), s1)
               | None \<Rightarrow>
                   (case inferred_record env d now mid cfg s1 of
                      None \<Rightarrow> (Inr None, s1)
                    | Some (r, s2) \<Rightarrow>
                        (bindr (summary_from_record env d mid cfg r False) (\<lambda>x. Inr (Some x)),
                         s2\<lparr>records := (records s2)(mid \<mapsto> r)\<rparr>)))"

section \<open>Actions\<close>

definition remove_incomplete_output ::
  "recovery_env \<Rightarrow> string \<Rightarrow> model_slot \<Rightarrow> attempt list \<Rightarrow> (storage_conflict, bool) result \<times> model_slot \<times> attempt list" where
  "remove_incomplete_output env mid f as =
     (if is_reparse_point (out_dir f) then (Inl UnsafeOutputPath, f, as)
      else if holds_model (artifact_parsers env) (out_dir f) then (Inl CompleteOutput, f, as)
      else if \<not> within_models env mid \<or> \<not> staging_within env mid then (Inl UnsafeOutputPath, f, as)
      else if is_reparse_point (staging_dir f) \<or> (\<exists>t. staging_dir f = Some t \<and> \<not> is_directory t)
      then (Inl UnsafeOutputPath, f, as)
      else case remove_directory (staging_dir f) as of
        (Inl e, n, rest) \<Rightarrow> (Inl e, f\<lparr>staging_dir := n\<rparr>, rest)
      | (Inr removed_staging, n, rest) \<Rightarrow>
          (case remove_directory (out_dir f) rest of
             (Inl e, m, rest') \<Rightarrow> (Inl e, f\<lparr>staging_dir := n, out_dir := m\<rparr>, rest')
           | (Inr removed_output, m, rest') \<Rightarrow>
               (Inr (removed_staging \<or> removed_output), f\<lparr>staging_dir := n, out_dir := m\<rparr>, rest')))"

definition remove_download_cache ::
  "recovery_env \<Rightarrow> model_config \<Rightarrow> store \<Rightarrow> attempt list \<Rightarrow> (storage_conflict, bool) result \<times> store \<times> attempt list" where
  "remove_download_cache env cfg d as =
     (case source_cache_path env (source_model cfg) of
        None \<Rightarrow> (Inl CacheUnavailable, d, as)
      | Some k \<Rightarrow>
          (case caches d k of
             None \<Rightarrow> (Inr False, d, as)
           | Some n \<Rightarrow>
               (case remove_directory (follow n) as of
                  (r, m, rest) \<Rightarrow> (r, d\<lparr>caches := (caches d)(k := put_resolved n m)\<rparr>, rest))))"

text \<open>What \<open>schedule_load\<close> and \<open>schedule_convert\<close> answer; they belong to \<open>LoadTarget\<close> and \<open>Lifecycle\<close>.\<close>

datatype scheduling = TaskStarted | NoTask | ScheduleRaises

datatype started = RetryLoad | RestartedDownload | RetryConversion | ResumeConversion

datatype recovery_conflict =
    NoRecovery | StaleRecovery string | ActionUnavailable | LoadedModelFiles | FilesRefused storage_conflict
  | NotStarted | RecoveryFailed | RootDirectory

datatype recovered = Cleaned bool | Started started

definition begin_recovery_work ::
  "recovery_env \<Rightarrow> string \<Rightarrow> model_config \<Rightarrow> recovery_action \<Rightarrow> bool \<Rightarrow> store \<Rightarrow> attempt list
     \<Rightarrow> (storage_conflict, started) result \<times> store \<times> attempt list" where
  "begin_recovery_work env mid cfg action reload d as =
     (if action \<noteq> RestartDownload \<and> reload then (Inr RetryLoad, d, as)
      else case remove_incomplete_output env mid (slots d mid) as of
        (Inl e, f, rest) \<Rightarrow> (Inl e, d\<lparr>slots := (slots d)(mid := f)\<rparr>, rest)
      | (Inr b, f, rest) \<Rightarrow>
          let d1 = d\<lparr>slots := (slots d)(mid := f)\<rparr>
          in if action = RestartDownload then
               (case remove_download_cache env cfg d1 rest of
                  (Inl e, d2, rest') \<Rightarrow> (Inl e, d2, rest')
                | (Inr c, d2, rest') \<Rightarrow> (Inr RestartedDownload, d2, rest'))
             else (Inr (if action = RetryFailedStage then RetryConversion else ResumeConversion), d1, rest))"

definition recover_model ::
  "recovery_env \<Rightarrow> bool \<Rightarrow> int \<Rightarrow> string \<Rightarrow> string \<Rightarrow> recovery_action \<Rightarrow> scheduling \<Rightarrow> attempt list \<Rightarrow> store \<times> recovery
     \<Rightarrow> (recovery_conflict, recovered) result \<times> store \<times> recovery" where
  "recover_model env disk_works now mid rid action sched as st =
     (case st of (d, s0) \<Rightarrow>
      let s1 = normalize_current_record env mid s0
      in case model_entry env mid of
           None \<Rightarrow> (Inl RecoveryFailed, d, s1)
         | Some cfg \<Rightarrow>
             if is_models_root env mid then (Inl RootDirectory, d, s1)
             else case model_recovery env d disk_works now mid True s1 of
               (Inl e, s2) \<Rightarrow> (Inl RecoveryFailed, d, s2)
             | (Inr None, s2) \<Rightarrow> (Inl NoRecovery, d, s2)
             | (Inr (Some sm), s2) \<Rightarrow>
                 if sm_id sm \<noteq> rid then (Inl (StaleRecovery (sm_id sm)), d, s2)
                 else if \<not> sm_actions sm action then (Inl ActionUnavailable, d, s2)
                 else if engines_loaded s2 mid \<and> action \<in> {RestartDownload, RemoveIncomplete}
                 then (Inl LoadedModelFiles, d, s2)
                 else if action = RemoveIncomplete then
                   (case remove_incomplete_output env mid (slots d mid) as of
                      (Inl e, f, rest) \<Rightarrow> (Inl (FilesRefused e), d\<lparr>slots := (slots d)(mid := f)\<rparr>, s2)
                    | (Inr removed, f, rest) \<Rightarrow>
                        (Inr (Cleaned removed), d\<lparr>slots := (slots d)(mid := f)\<rparr>, clear_record disk_works mid s2))
                 else (case begin_recovery_work env mid cfg action (sm_stage sm = ''load'' \<and> output_state env d mid = Complete) d as of
                      (Inl e, d1, rest) \<Rightarrow> (Inl (FilesRefused e), d1, s2)
                    | (Inr started, d1, rest) \<Rightarrow>
                        (case sched of
                           ScheduleRaises \<Rightarrow> (Inl RecoveryFailed, d1, s2)
                         | NoTask \<Rightarrow> if \<not> engines_loaded s2 mid then (Inl NotStarted, d1, s2)
                                     else (Inr (Started started), d1, clear_record disk_works mid s2)
                         | TaskStarted \<Rightarrow> (Inr (Started started), d1, clear_record disk_works mid s2))))"

section \<open>Records are contained\<close>

lemma rstrip_length: "length (py_rstrip t) \<le> length t"
  using py_rstrip_prefix [of t] by (metis length_append le_add1)

lemma sanitized_length: "1 \<le> limit \<Longrightarrow> length (sanitize_progress_line ell limit t) \<le> limit"
proof -
  assume "1 \<le> limit"
  then obtain k where k: "limit = Suc k" by (cases limit) auto
  have "length (py_rstrip (take k r)) \<le> k" for r
    using rstrip_length [of "take k r"] by simp
  then show ?thesis by (simp add: sanitize_progress_line_def Let_def k)
qed

lemma safe_record_text_length:
  "length fallback \<le> 240 \<Longrightarrow> length (safe_record_text env v fallback) \<le> 240"
  "fallback \<noteq> [] \<Longrightarrow> safe_record_text env v fallback \<noteq> []"
  by (auto simp: safe_record_text_def Let_def sanitized_length)

definition record_ok :: "recovery_record \<Rightarrow> bool" where
  "record_ok r \<longleftrightarrow>
     rr_id r \<noteq> [] \<and> length (rr_id r) \<le> 128 \<and> (\<forall>t. rr_type r = Some t \<longrightarrow> t \<in> type_names)
     \<and> rr_terminal r \<in> terminal_names \<and> 0 \<le> rr_at r
     \<and> rr_stage r \<in> stage_names \<and> rr_completed r \<in> completed_names
     \<and> rr_message r \<noteq> [] \<and> length (rr_message r) \<le> 240
     \<and> length (rr_log r) \<le> 10 \<and> (\<forall>l \<in> set (rr_log r). l \<noteq> [] \<and> length l \<le> 240)"

lemma known_names [simp]:
  "''error'' \<in> terminal_names" "''cancelled'' \<in> terminal_names" "[] \<notin> terminal_names"
  "''conversion'' \<in> stage_names" "''download'' \<in> stage_names" "''load'' \<in> stage_names" "[] \<notin> stage_names"
  "''none'' \<in> completed_names" "''download'' \<in> completed_names" "''conversion'' \<in> completed_names" "[] \<notin> completed_names"
  by (simp_all add: terminal_names_def stage_names_def completed_names_def)

lemma one_of_in: "d \<in> allowed \<Longrightarrow> one_of allowed d v \<in> allowed"
  by (auto simp: one_of_def split: json.splits)

lemma map_filter_length: "length (List.map_filter f xs) \<le> length xs"
  by (induction xs) (auto simp: map_filter_simps split: option.splits)

lemma map_filter_members: "y \<in> set (List.map_filter f xs) \<Longrightarrow> \<exists>x \<in> set xs. f x = Some y"
  by (induction xs) (auto simp: map_filter_simps split: option.splits)

lemma normalized_record_ok:
  assumes "normalize_recovery_record env mid j = Some r"
  shows "record_ok r"
proof -
  have r: "r = the (normalize_recovery_record env mid j)" and o: "is_obj j"
    using assms by (auto simp: normalize_recovery_record_def Let_def split: if_splits)
  have i: "rr_id r \<noteq> [] \<and> length (rr_id r) \<le> 128"
    unfolding r using o by (auto simp: normalize_recovery_record_def Let_def clean_id_def split: json.splits)
  have t: "(\<forall>t. rr_type r = Some t \<longrightarrow> t \<in> type_names) \<and> 0 \<le> rr_at r"
    unfolding r using o by (auto simp: normalize_recovery_record_def Let_def split: json.splits)
  have w: "rr_terminal r \<in> terminal_names" "rr_stage r \<in> stage_names"
    "rr_completed r \<in> completed_names"
    unfolding r using o by (simp_all add: normalize_recovery_record_def Let_def one_of_in)
  have m: "rr_message r \<noteq> [] \<and> length (rr_message r) \<le> 240"
    unfolding r using o by (simp add: normalize_recovery_record_def Let_def safe_record_text_length)
  have l: "length (rr_log r) \<le> 10 \<and> (\<forall>l \<in> set (rr_log r). l \<noteq> [] \<and> length l \<le> 240)"
  proof (cases "get j ''log_tail''")
    case (JList xs)
    define pick where "pick = (\<lambda>v. case v of JStr s \<Rightarrow> (let t = safe_record_text env v [] in if t = [] then None else Some t) | _ \<Rightarrow> None)"
    have log: "rr_log r = List.map_filter pick (last_n 10 xs)"
      unfolding r pick_def using o JList by (simp add: normalize_recovery_record_def Let_def)
    have "pick v = Some t \<Longrightarrow> t \<noteq> [] \<and> length t \<le> 240" for v t
      by (auto simp: pick_def Let_def safe_record_text_length split: json.splits if_splits)
    moreover have "length (last_n 10 xs) \<le> 10" by (simp add: last_n_def)
    ultimately show ?thesis
      unfolding log using map_filter_length [of pick "last_n 10 xs"] map_filter_members [of _ pick "last_n 10 xs"]
      by (meson order_trans)
  qed (use o in \<open>simp_all add: r normalize_recovery_record_def Let_def\<close>)
  from i t w m l show ?thesis unfolding record_ok_def by blast
qed

definition presentable :: "summary \<Rightarrow> bool" where
  "presentable sm \<longleftrightarrow>
     sm_terminal sm \<in> terminal_names \<and> sm_stage sm \<in> stage_names
     \<and> sm_completed sm \<in> completed_names
     \<and> (case sm_details sm of None \<Rightarrow> True | Some (m, ls) \<Rightarrow> m \<noteq> [] \<and> length m \<le> 240 \<and> length ls \<le> 10)"

lemma record_json_fields:
  "get (record_json mid r) ''recovery_id'' = JStr (rr_id r)" "get (record_json mid r) ''interrupted_at'' = JInt (rr_at r)"
  "get (record_json mid r) ''terminal_state'' = JStr (rr_terminal r)" "get (record_json mid r) ''failed_stage'' = JStr (rr_stage r)"
  "get (record_json mid r) ''last_completed_stage'' = JStr (rr_completed r)" "get (record_json mid r) ''message'' = JStr (rr_message r)"
  "get (record_json mid r) ''log_tail'' = JList (map JStr (rr_log r))" "has_key (record_json mid r) ''log_tail''"
  "get (record_json mid r) ''operation_id'' = opt_text (rr_operation r)" "is_obj (record_json mid r)"
  by (simp_all add: record_json_def is_obj_def)

lemma summary_of_normalized:
  assumes "record_ok r"
  shows "\<exists>sm. summary_from_record env d mid cfg (record_json mid r) b = Inr sm \<and> presentable sm
     \<and> sm_id sm = rr_id r \<and> sm_at sm = rr_at r \<and> sm_stage sm = rr_stage r \<and> sm_terminal sm = rr_terminal r"
proof -
  have words: "rr_terminal r \<noteq> []" "rr_stage r \<noteq> []" "rr_completed r \<noteq> []" "rr_id r \<noteq> []" "rr_message r \<noteq> []"
    using assms by (auto simp: record_ok_def)
  have w: "text_or env (JStr s) e = s" if "s \<noteq> []" for s e using that by (simp add: text_or_def)
  have at: "json_int (py_or (JInt i) (JInt 0)) = Inr i" for i by (simp add: py_or_def json_int_def)
  obtain ls where ls: "tail_lines (record_json mid r) = Inr ls"
    by (auto simp: tail_lines_def record_json_fields)
  have n: "length (last_n 10 ls) \<le> 10" by (simp add: last_n_def)
  show ?thesis
    using assms n by (cases b) (simp_all add: summary_from_record_def Let_def record_json_fields w words at ls
        presentable_def record_ok_def)
qed

lemma inferred_normal:
  assumes "inferred_record env d now mid cfg s = Some (r, s')"
  shows "\<exists>sm. summary_from_record env d mid cfg r b = Inr sm \<and> presentable sm"
proof -
  define note_text where "note_text = ''An incomplete OpenVINO conversion directory was found.''"
  have note_text: "note_text \<noteq> [] \<and> length note_text \<le> 240" by (simp add: note_text_def)
  define last where "last = (if download_state env d cfg = Reusable then ''download'' else ''none'')"
  have last: "last \<in> completed_names \<and> last \<noteq> []" by (simp add: last_def)
  obtain rid tm where r: "r = JObj [(''schema_version'', JInt 1), (''recovery_id'', JStr rid), (''model_id'', JStr mid),
      (''operation_id'', JNull), (''operation_type'', JStr ''convert''), (''terminal_state'', JStr ''error''),
      (''interrupted_at'', JInt tm), (''failed_stage'', JStr ''conversion''),
      (''last_completed_stage'', JStr last), (''message'', JStr note_text), (''log_tail'', JList [])]"
    using assms unfolding note_text_def last_def
    by (auto simp: inferred_record_def Let_def fresh_recovery_id_def split: if_splits)
  have "get r ''interrupted_at'' = JInt tm" "get r ''failed_stage'' = JStr ''conversion''"
    "get r ''terminal_state'' = JStr ''error''" "get r ''last_completed_stage'' = JStr last"
    "get r ''message'' = JStr note_text" "tail_lines r = Inr []"
    by (simp_all add: r tail_lines_def map_filter_simps)
  moreover have "json_int (py_or (JInt tm) (JInt 0)) = Inr tm" by (simp add: py_or_def json_int_def)
  moreover have "text_or env (JStr s) e = s" if "s \<noteq> []" for s e using that by (simp add: text_or_def)
  ultimately show ?thesis
    using note_text last
    by (cases b) (simp_all add: summary_from_record_def Let_def presentable_def last_n_def)
qed

lemma normalize_cases:
  "records (normalize_current_record env mid s) mid = None
     \<or> (\<exists>r. record_ok r \<and> records (normalize_current_record env mid s) mid = Some (record_json mid r))"
  using normalized_record_ok
  by (auto simp: normalize_current_record_def map_option_case split: option.splits) blast

text \<open>Whatever a recovery file or an older version left in a record, asking for the state of a
  model never raises, and what is shown is one of the known stages and states with a bounded message and log.\<close>

lemma recovery_status_never_fails:
  "case fst (model_recovery_safely env d disk_works now mid with_details s) of
     Inl e \<Rightarrow> False | Inr None \<Rightarrow> True | Inr (Some sm) \<Rightarrow> presentable sm"
proof -
  define s1 where "s1 = normalize_current_record env mid s"
  have "\<exists>x s2. model_recovery env d disk_works now mid with_details s1 = (Inr x, s2)
      \<and> (case x of None \<Rightarrow> True | Some sm \<Rightarrow> presentable sm)"
  proof (cases "model_entry env mid = None \<or> model_is_active s1 mid")
    case True
    then show ?thesis by (auto simp: model_recovery_def split: option.splits)
  next
    case False
    then obtain cfg where cfg: "model_entry env mid = Some cfg" and idle: "\<not> model_is_active s1 mid" by auto
    consider "records s1 mid = None" | r where "record_ok r" "records s1 mid = Some (record_json mid r)"
      using normalize_cases [of env mid s] unfolding s1_def by metis
    then show ?thesis
    proof cases
      case 1
      then show ?thesis
        using cfg idle inferred_normal [of env d now mid cfg s1 _ _ with_details]
        by (cases "inferred_record env d now mid cfg s1") (force simp: model_recovery_def)+
    next
      case 2
      then show ?thesis
        using cfg idle summary_of_normalized [OF 2(1), of env d mid cfg with_details] by (auto simp: model_recovery_def)
    qed
  qed
  then show ?thesis
    by (auto simp: model_recovery_safely_def Let_def simp flip: s1_def split: option.splits)
qed

section \<open>Records survive a restart\<close>

definition files_named :: "recovery \<Rightarrow> bool" where
  "files_named s \<longleftrightarrow> distinct (map fst (record_files s))
     \<and> (\<forall>f \<in> set (record_files s). is_obj (snd f) \<and> get (snd f) ''model_id'' = JStr (fst f))"

text \<open>The process ends; the next one reads the files and knows of no task.\<close>

definition restarted :: "recovery_env \<Rightarrow> recovery \<Rightarrow> recovery" where
  "restarted env s =
     \<lparr>tables = empty_prep, records = load_records (\<lambda>m. model_entry env m \<noteq> None) (record_files s),
      record_files = record_files s, id_draws = id_draws s,
      load_running = (\<lambda>_. False), convert_running = (\<lambda>_. False), engines_loaded = (\<lambda>_. False)\<rparr>"

lemma map_of_put_file [simp]: "map_of (put_file k v xs) k' = (if k' = k then Some v else map_of xs k')"
  by (induction k v xs rule: put_file.induct) auto

lemma set_put_file: "set (put_file k v xs) \<subseteq> insert (k, v) (set xs)"
  by (induction k v xs rule: put_file.induct) auto

lemma keys_put_file: "fst ` set (put_file k v xs) = insert k (fst ` set xs)"
  by (induction k v xs rule: put_file.induct) auto

lemma distinct_put_file: "distinct (map fst xs) \<Longrightarrow> distinct (map fst (put_file k v xs))"
  by (induction k v xs rule: put_file.induct) (auto simp: keys_put_file)

lemma write_record_named:
  assumes "files_named s" and "is_obj r" and "get r ''model_id'' = JStr mid"
  shows "files_named (write_record w mid r s)"
  using assms set_put_file [of mid r "record_files s"]
  by (auto simp: files_named_def write_record_def distinct_put_file)

lemma clear_record_named: "files_named s \<Longrightarrow> files_named (clear_record w mid s)"
  by (auto simp: files_named_def clear_record_def distinct_map_filter)

lemma load_records_named:
  assumes "distinct (map fst fs)" and "\<And>f. f \<in> set fs \<Longrightarrow> get (snd f) ''model_id'' = JStr (fst f)"
  shows "load_records in_catalog fs m = (if valid_model_id m \<and> in_catalog m then map_of fs m else None)"
proof -
  define step :: "string \<times> json \<Rightarrow> _" where "step = (\<lambda>(k, payload) acc. case get payload ''model_id'' of
      JStr s \<Rightarrow> if valid_model_id s \<and> in_catalog s then acc(s \<mapsto> payload) else acc | _ \<Rightarrow> acc)"
  have "fold step fs acc m = (case map_of fs m of Some v \<Rightarrow> if valid_model_id m \<and> in_catalog m then Some v else acc m | None \<Rightarrow> acc m)" for acc
    using assms
  proof (induction fs arbitrary: acc)
    case (Cons f fs)
    obtain k v where f: "f = (k, v)" by (cases f)
    have "get v ''model_id'' = JStr k" and "map_of fs k = None"
      using Cons.prems f by (force simp: map_of_eq_None_iff)+
    then show ?case
      using Cons f by (auto simp: step_def split: option.splits)
  qed simp
  then show ?thesis unfolding load_records_def step_def by (simp split: option.splits)
qed

lemma report_object: "is_obj (record_of_report env d now mid ph msg cfg previous current rid)"
  "get (record_of_report env d now mid ph msg cfg previous current rid) ''model_id'' = JStr mid"
  "get (record_of_report env d now mid ph msg cfg previous current rid) ''terminal_state'' = JStr ph"
  "get (record_of_report env d now mid ph msg cfg previous current rid) ''interrupted_at'' = JInt now"
  by (simp_all add: record_of_report_def Let_def is_obj_def)

lemma terminal_report_written:
  assumes "model_entry env mid = Some cfg" and "ph \<in> {''cancelled'', ''error''}"
  shows "\<exists>previous current rid s2.
      set_progress_with_recovery env d w now mid ph msg pc extra s
        = write_record w mid (record_of_report env d now mid ph msg cfg previous current rid) s2
      \<and> record_files s2 = record_files s"
proof -
  define t where "t = set_progress (part env) now mid ph msg pc extra (tables s)"
  obtain e where e: "progress t mid = Some e" using set_progress_entry t_def by blast
  define s1 where "s1 = s\<lparr>tables := t\<rparr>"
  define existing where "existing = (case records s1 mid of Some r \<Rightarrow> r | None \<Rightarrow> JObj [])"
  define same where "same = (pr_operation e \<noteq> [] \<and> get existing ''operation_id'' = JStr (pr_operation e))"
  define drawn where "drawn = (if same then (get existing ''recovery_id'', s1)
      else let (new_id, s') = fresh_recovery_id env ''recovery-'' s1 in (JStr new_id, s'))"
  have ph: "(ph = ''ready'') = False" "(ph \<notin> {''cancelled'', ''error''}) = False" using assms(2) by auto
  have "set_progress_with_recovery env d w now mid ph msg pc extra s
      = write_record w mid (record_of_report env d now mid ph msg cfg (progress (tables s) mid) e (fst drawn)) (snd drawn)"
    using assms(1) e unfolding set_progress_with_recovery_def Let_def ph drawn_def same_def existing_def s1_def t_def
    by (simp add: case_prod_beta Let_def)
  moreover have "record_files (snd drawn) = record_files s"
    by (simp add: drawn_def fresh_recovery_id_def s1_def)
  ultimately show ?thesis by blast
qed

lemma normalized_of_object:
  assumes "is_obj r"
  shows "\<exists>n. normalize_recovery_record env mid r = Some n \<and> record_ok n
     \<and> (\<forall>ph. get r ''terminal_state'' = JStr ph \<and> ph \<in> terminal_names \<longrightarrow> rr_terminal n = ph)
     \<and> (\<forall>i. get r ''interrupted_at'' = JInt i \<longrightarrow> rr_at n = max i 0)"
proof -
  obtain n where n: "normalize_recovery_record env mid r = Some n"
    using assms by (simp add: normalize_recovery_record_def Let_def)
  have t: "rr_terminal n = one_of terminal_names ''error'' (get r ''terminal_state'')"
    "rr_at n = (case get r ''interrupted_at'' of JInt i \<Rightarrow> max i 0 | _ \<Rightarrow> 0)"
    using n assms by (auto simp: normalize_recovery_record_def Let_def)
  show ?thesis using n normalized_record_ok [OF n] t by (auto simp: one_of_def)
qed

lemma recovery_of_record:
  assumes "model_entry env mid = Some cfg" and "\<not> model_is_active s mid" and "records s mid = Some r"
    and n: "normalize_recovery_record env mid r = Some n"
  shows "fst (model_recovery_safely env d w now mid b s)
    = bindr (summary_from_record env d mid cfg (record_json mid n) b) (\<lambda>x. Inr (Some x))"
proof -
  have ok: "record_ok n" using normalized_record_ok [OF n] .
  have "\<not> model_is_active (normalize_current_record env mid s) mid"
    using assms by (simp add: model_is_active_def normalize_current_record_def)
  moreover have "records (normalize_current_record env mid s) mid = Some (record_json mid n)"
    using assms by (simp add: normalize_current_record_def)
  ultimately show ?thesis
    using assms(1) summary_of_normalized [OF ok, of env d mid cfg b]
    by (auto simp: model_recovery_safely_def Let_def model_recovery_def)
qed

text \<open>C33: when the final report of a preparation could be written, a restarted process shows the recovery
  the running one shows once the model is idle: same identity, stage, time and actions, and the final state of the report.\<close>

theorem recovery_survives_restart:
  assumes "files_named s" and cfg: "model_entry env mid = Some cfg" and "valid_model_id mid"
    and ph: "ph \<in> {''cancelled'', ''error''}"
    and s': "s' = set_progress_with_recovery env d True now mid ph msg pc extra s"
  shows "\<exists>sm. fst (model_recovery_safely env d' w now1 mid b (restarted env s')) = Inr (Some sm)
      \<and> sm_terminal sm = ph \<and> sm_at sm = max now 0
      \<and> (\<not> model_is_active s' mid \<longrightarrow> fst (model_recovery_safely env d' w' now2 mid b s') = Inr (Some sm))"
proof -
  obtain previous current rid s2 where w: "s' = write_record True mid (record_of_report env d now mid ph msg cfg previous current rid) s2"
    and f: "record_files s2 = record_files s"
    using terminal_report_written [OF cfg ph, of d True now msg pc extra s] s' by blast
  define r where "r = record_of_report env d now mid ph msg cfg previous current rid"
  have named: "files_named s2" using assms(1) f by (simp add: files_named_def)
  have "files_named s'" unfolding w by (rule write_record_named [OF named]) (simp_all add: report_object)
  then have "records (restarted env s') mid = map_of (record_files s') mid"
    using assms(3) cfg unfolding restarted_def by (simp add: load_records_named files_named_def)
  then have there: "records (restarted env s') mid = Some r" "records s' mid = Some r"
    by (simp_all add: w write_record_def r_def)
  obtain n where n: "normalize_recovery_record env mid r = Some n" and ok: "record_ok n"
    and t: "ph \<in> terminal_names \<longrightarrow> rr_terminal n = ph" and a: "rr_at n = max now 0"
    using normalized_of_object [of r env mid] by (auto simp: r_def report_object)
  have "\<not> model_is_active (restarted env s') mid"
    by (simp add: model_is_active_def restarted_def status_of_def empty_prep_def)
  note new = recovery_of_record [OF cfg this there(1) n] and old = recovery_of_record [OF cfg _ there(2) n]
  have "ph \<in> terminal_names" using ph by auto
  then show ?thesis
    using new old summary_of_normalized [OF ok, of env d' mid cfg b] t a by auto
qed

section \<open>What an action may touch\<close>

lemma remove_incomplete_frame:
  assumes "remove_incomplete_output env mid f as = (r, f', rest)"
  shows "backup_dir f' = backup_dir f"
    and "holds_model (artifact_parsers env) (out_dir f) \<or> is_reparse_point (out_dir f) \<or> \<not> within_models env mid \<Longrightarrow> f' = f"
  using assms by (auto simp: remove_incomplete_output_def split: if_splits prod.splits sum.splits)

lemma download_cache_frame: "remove_download_cache env cfg d as = (r, d', rest) \<Longrightarrow> slots d' = slots d"
  by (auto simp: remove_download_cache_def split: option.splits prod.splits)

definition spared :: "recovery_env \<Rightarrow> string \<Rightarrow> store \<Rightarrow> store \<Rightarrow> bool" where
  "spared env mid d d' \<longleftrightarrow>
     (\<forall>m. m \<noteq> mid \<longrightarrow> slots d' m = slots d m) \<and> backup_dir (slots d' mid) = backup_dir (slots d mid)
     \<and> (holds_model (artifact_parsers env) (out_dir (slots d mid)) \<or> is_reparse_point (out_dir (slots d mid))
        \<or> \<not> within_models env mid \<longrightarrow> slots d' mid = slots d mid)"

lemma spared_same: "spared env mid d d"
  by (simp add: spared_def)

lemma spared_removed:
  "remove_incomplete_output env mid (slots d mid) as = (r, f, rest) \<Longrightarrow> spared env mid d (d\<lparr>slots := (slots d)(mid := f)\<rparr>)"
  using remove_incomplete_frame [of env mid "slots d mid" as r f rest] by (auto simp: spared_def)

lemma begin_work_spares:
  assumes "begin_recovery_work env mid cfg action reload d as = (r, d', rest)"
  shows "spared env mid d d'"
proof (cases "action \<noteq> RestartDownload \<and> reload")
  case True
  with assms show ?thesis by (simp add: begin_recovery_work_def spared_same)
next
  case False
  obtain q f rest' where q: "remove_incomplete_output env mid (slots d mid) as = (q, f, rest')" by (metis prod_cases3)
  have "slots d' = (slots d)(mid := f)"
    using assms False q download_cache_frame
    by (auto simp: begin_recovery_work_def Let_def split: sum.splits if_splits prod.splits)
  then show ?thesis using spared_removed [OF q] by (simp add: spared_def)
qed

text \<open>Whatever action a client asks for and however the removals end, the files of other models and every
  transaction backup stay as they are; so do the files of this model when they are a complete model, are reached
  through a link or lie outside the models directory. A request with an outdated identity changes no file.\<close>

lemma recovery_spares_other_files:
  assumes "recover_model env disk_works now mid rid action sched as (d, s) = (r, d', s')"
  shows "(\<forall>m. m \<noteq> mid \<longrightarrow> slots d' m = slots d m)
    \<and> backup_dir (slots d' mid) = backup_dir (slots d mid)
    \<and> (holds_model (artifact_parsers env) (out_dir (slots d mid)) \<or> is_reparse_point (out_dir (slots d mid))
        \<or> \<not> within_models env mid \<longrightarrow> slots d' mid = slots d mid)
    \<and> (\<forall>current. r = Inl (StaleRecovery current) \<longrightarrow> d' = d \<and> current \<noteq> rid)"
proof -
  have "spared env mid d d' \<and> (\<forall>current. r = Inl (StaleRecovery current) \<longrightarrow> d' = d \<and> current \<noteq> rid)"
    using assms unfolding recover_model_def Let_def
    by (auto split: option.splits prod.splits sum.splits if_splits scheduling.splits
        intro: spared_same spared_removed begin_work_spares)
  then show ?thesis by (auto simp: spared_def)
qed

text \<open>The action that is recommended for a complete model whose failure was no load is not offered: such a record is
  left when a queued load of a converted model is cancelled.\<close>

lemma recommended_action_unavailable:
  assumes "stage \<noteq> ''load''"
  shows "\<not> action_capability env cfg stage Complete (recommended_action stage dl Complete)"
    and "failed_stage ''queued'' (Some ''load'') = ''download''"
  using assms by (simp_all add: recommended_action_def action_capability_def Let_def failed_stage_def py_lower_def lower_char_def)

text \<open>The entries of the catalogue read the record before it is normalised, and raise on one the status accepts.\<close>

lemma catalog_entry_raises:
  assumes "model_entry env mid = Some cfg" and "\<not> model_is_active s mid"
    and "records s mid = Some (JObj [(''model_id'', JStr mid), (''interrupted_at'', JFloat PosInf)])"
  shows "fst (model_recovery env d w now mid False s) = Inl NumOverflow"
  using assms by (simp add: model_recovery_def summary_from_record_def Let_def py_or_def json_int_def truthy_def)

section \<open>Examples\<close>

definition demo_entry :: model_config where
  "demo_entry = \<lparr>model_id = ''m'', model_name = ''Demo'', description = [], backend = ''openvino-genai'', model_path = ''m'',
     source_model = ''org/m'', weight_format = ''int4'', recommended_device = ''CPU'', max_context_len = 4096,
     max_output_tokens = 512, trust_remote_code = False, recommended_context_len = None, kv_cache_precision = None\<rparr>"

definition demo_recovery :: recovery_env where
  "demo_recovery = \<lparr>part = demo_env, artifact_parsers = \<lparr>xml_root = (\<lambda>_. None), json_text = (\<lambda>_. None)\<rparr>,
     model_entry = (\<lambda>m. if m = ''m'' then Some demo_entry else None), within_models = (\<lambda>_. True),
     staging_within = (\<lambda>_. True), is_models_root = (\<lambda>_. False), cache_inside = (\<lambda>_. True), text_of = (\<lambda>_. ''?'')\<rparr>"

definition demo_files :: store where
  "demo_files = \<lparr>slots = (\<lambda>_. \<lparr>out_dir = Some (Directory True [(''part.bin'', Document ''x'')]), staging_dir = None,
     backup_dir = None\<rparr>), caches = (\<lambda>_. None)\<rparr>"

definition idle_recovery :: recovery where
  "idle_recovery = \<lparr>tables = empty_prep, records = Map.empty, record_files = [], id_draws = 0,
     load_running = (\<lambda>_. False), convert_running = (\<lambda>_. False), engines_loaded = (\<lambda>_. False)\<rparr>"

theorem recovery_survives_restart_witness:
  "\<exists>sm. fst (model_recovery_safely demo_recovery demo_files True 9 ''m'' True (restarted demo_recovery
        (set_progress_with_recovery demo_recovery demo_files True 5 ''m'' ''error'' ''Boom'' None None idle_recovery)))
      = Inr (Some sm) \<and> sm_terminal sm = ''error'' \<and> sm_at sm = 5"
proof -
  have "files_named idle_recovery" "model_entry demo_recovery ''m'' = Some demo_entry" "valid_model_id ''m''"
    "''error'' \<in> {''cancelled'', ''error''}"
    by (simp_all add: files_named_def idle_recovery_def demo_recovery_def valid_model_id_def ascii_alnum_def)
  from recovery_survives_restart [OF this refl, where d = demo_files and now = 5 and msg = "''Boom''" and pc = None
      and extra = None and d' = demo_files and w = True and ?now1.0 = 9 and b = True]
  show ?thesis by auto
qed

lemma recovery_spares_other_files_witness:
  "slots (fst (snd (recover_model demo_recovery True 9 ''m'' ''inferred-0'' RemoveIncomplete NoTask []
      (demo_files, idle_recovery)))) ''n'' = slots demo_files ''n''"
proof -
  obtain r d' s' where run: "recover_model demo_recovery True 9 ''m'' ''inferred-0'' RemoveIncomplete NoTask []
      (demo_files, idle_recovery) = (r, d', s')" by (metis prod_cases3)
  from recovery_spares_other_files [OF this] show ?thesis by (simp add: run)
qed

end
