(* ===== verification/StorageGuard.thy ===== *)
theory StorageGuard
  imports ManagedTree "HOL-Library.AList" "HOL-Library.List_Lexorder" "HOL-Library.Char_ord"
begin

text \<open>
  \<open>app/storage_state.py\<close>: who may touch the files of a model. Cleanups, deletions and recoveries, and engines
  built for a benchmark each hold a scope; the guard keeps no list of scopes but three tables
  and a flag, and its operations are shown to behave as if it kept the list. The second part is the record of when
  a model was last used.
\<close>

section \<open>The guard\<close>

record guard =
  cleaning :: "string set"
  mutating :: "string set"
  temporary :: "(string \<times> nat) list"  \<comment> \<open>engines built for one caller, per model\<close>
  globally :: bool

definition open_guard :: guard where
  "open_guard = \<lparr>cleaning = {}, mutating = {}, temporary = [], globally = False\<rparr>"

definition temporary_count :: "guard \<Rightarrow> string \<Rightarrow> nat" where
  "temporary_count g m = (case map_of (temporary g) m of None \<Rightarrow> 0 | Some n \<Rightarrow> n)"

definition cleanup_blocks :: "string option \<Rightarrow> guard \<Rightarrow> bool" where
  "cleanup_blocks m g \<longleftrightarrow> globally g \<or> (case m of None \<Rightarrow> False | Some k \<Rightarrow> k \<in> cleaning g)"

text \<open>\<open>_begin_temporary_model\<close> and \<open>_end_temporary_model\<close>\<close>

definition begin_temporary_model :: "string \<Rightarrow> guard \<Rightarrow> guard option" where
  "begin_temporary_model m g =
     (if globally g \<or> m \<in> cleaning g \<or> m \<in> mutating g then None
      else Some (g\<lparr>temporary := AList.update m (temporary_count g m + 1) (temporary g)\<rparr>))"

definition end_temporary_model :: "string \<Rightarrow> guard \<Rightarrow> guard" where
  "end_temporary_model m g =
     (let remaining = (case map_of (temporary g) m of None \<Rightarrow> 1 | Some n \<Rightarrow> n) - 1
      in g\<lparr>temporary := (if remaining > 0 then AList.update m remaining (temporary g) else AList.delete m (temporary g))\<rparr>)"

text \<open>\<open>_external_mutation\<close>: deletions block the lifecycle of the model, recoveries do not.\<close>

definition begin_mutation :: "string \<Rightarrow> bool \<Rightarrow> guard \<Rightarrow> guard option" where
  "begin_mutation m block g =
     (if globally g \<or> m \<in> cleaning g then None
      else if m \<in> mutating g \<or> map_of (temporary g) m \<noteq> None then None
      else Some (g\<lparr>mutating := insert m (mutating g), cleaning := (if block then insert m (cleaning g) else cleaning g)\<rparr>))"

definition end_mutation :: "string \<Rightarrow> bool \<Rightarrow> guard \<Rightarrow> guard" where
  "end_mutation m block g =
     g\<lparr>cleaning := (if block then cleaning g - {m} else cleaning g), mutating := mutating g - {m}\<rparr>"

text \<open>\<open>cleanup_scope\<close>\<close>

definition begin_cleanup :: "string list \<Rightarrow> bool \<Rightarrow> guard \<Rightarrow> guard option" where
  "begin_cleanup ms everything g =
     (if globally g \<or> (\<exists>m \<in> set ms. m \<in> cleaning g \<or> m \<in> mutating g \<or> map_of (temporary g) m \<noteq> None) then None
      else if everything \<and> (cleaning g \<noteq> {} \<or> mutating g \<noteq> {} \<or> temporary g \<noteq> []) then None
      else Some (g\<lparr>globally := everything, cleaning := cleaning g \<union> set ms\<rparr>))"

definition end_cleanup :: "string list \<Rightarrow> bool \<Rightarrow> guard \<Rightarrow> guard" where
  "end_cleanup ms everything g =
     g\<lparr>cleaning := cleaning g - set ms, globally := (if everything then False else globally g)\<rparr>"

text \<open>
  The end of \<open>build_temporary_engine\<close>: the native build failed, or gave an engine with or without a callable
  \<open>close\<close> that can or cannot be replaced. Then the caller's \<open>close\<close>, which may be called any number of times.
\<close>

datatype built_engine = BuildRaises | Engine bool bool

definition temporary_built :: "string \<Rightarrow> built_engine \<Rightarrow> guard \<Rightarrow> bool \<times> guard" where
  "temporary_built m b g =
     (case b of
        BuildRaises \<Rightarrow> (False, end_temporary_model m g)
      | Engine closeable replaceable \<Rightarrow>
          if closeable \<and> replaceable then (True, g) else (False, end_temporary_model m g))"

definition close_and_release :: "string \<Rightarrow> bool \<times> guard \<Rightarrow> bool \<times> guard" where
  "close_and_release m st = (case st of (released, g) \<Rightarrow> if released then st else (True, end_temporary_model m g))"

text \<open>The guarded requests.\<close>

definition admits_lifecycle :: "string \<Rightarrow> guard \<Rightarrow> bool" where
  "admits_lifecycle m g \<longleftrightarrow> \<not> cleanup_blocks (Some m) g"

section \<open>Scopes: what the guard stands for\<close>

datatype scope = Cleanup "string list" bool | Mutation string bool | Temporary string

fun begin_scope :: "scope \<Rightarrow> guard \<Rightarrow> guard option" where
  "begin_scope (Cleanup ms everything) g = begin_cleanup ms everything g"
| "begin_scope (Mutation m block) g = begin_mutation m block g"
| "begin_scope (Temporary m) g = begin_temporary_model m g"

fun end_scope :: "scope \<Rightarrow> guard \<Rightarrow> guard" where
  "end_scope (Cleanup ms everything) g = end_cleanup ms everything g"
| "end_scope (Mutation m block) g = end_mutation m block g"
| "end_scope (Temporary m) g = end_temporary_model m g"

fun cleans :: "scope \<Rightarrow> string set" where
  "cleans (Cleanup ms everything) = set ms"
| "cleans (Mutation m block) = (if block then {m} else {})"
| "cleans (Temporary m) = {}"

fun mutates :: "scope \<Rightarrow> string set" where
  "mutates (Mutation m block) = {m}"
| "mutates sc = {}"

fun everywhere :: "scope \<Rightarrow> bool" where
  "everywhere (Cleanup ms everything) = everything"
| "everywhere sc = False"

text \<open>Does a scope that asks for entry collide with one that is open?\<close>

definition engine_of :: "scope \<Rightarrow> string option" where
  "engine_of sc = (case sc of Temporary m \<Rightarrow> Some m | _ \<Rightarrow> None)"

definition touches :: "string \<Rightarrow> scope \<Rightarrow> bool" where
  "touches m sc \<longleftrightarrow> m \<in> cleans sc \<or> m \<in> mutates sc"

fun collides :: "scope \<Rightarrow> scope \<Rightarrow> bool" where
  "collides (Temporary m) old = (everywhere old \<or> touches m old)"
| "collides (Mutation m block) old = (everywhere old \<or> touches m old \<or> engine_of old = Some m)"
| "collides (Cleanup ms everything) old =
     (everywhere old \<or> everything \<and> (cleans old \<noteq> {} \<or> mutates old \<noteq> {} \<or> engine_of old \<noteq> None)
      \<or> (\<exists>m \<in> set ms. touches m old \<or> engine_of old = Some m))"

datatype guard_event = Enter scope | Leave scope

fun guard_step :: "guard \<times> scope list \<Rightarrow> guard_event \<Rightarrow> guard \<times> scope list" where
  "guard_step (g, held) (Enter sc) =
     (case begin_scope sc g of None \<Rightarrow> (g, held) | Some g' \<Rightarrow> (g', sc # held))"
| "guard_step (g, held) (Leave sc) =
     (if sc \<in> set held then (end_scope sc g, remove1 sc held) else (g, held))"

definition guard_run :: "guard_event list \<Rightarrow> guard \<times> scope list" where
  "guard_run = foldl guard_step (open_guard, [])"

text \<open>The abstraction: the tables of the guard, from the scopes that are open.\<close>

definition engines_of :: "scope list \<Rightarrow> string \<Rightarrow> nat" where
  "engines_of held m = count_list held (Temporary m)"

definition stands_for :: "guard \<Rightarrow> scope list \<Rightarrow> bool" where
  "stands_for g held \<longleftrightarrow>
     cleaning g = \<Union> (cleans ` set held) \<and> mutating g = \<Union> (mutates ` set held)
     \<and> globally g = list_ex everywhere held
     \<and> distinct (map fst (temporary g))
     \<and> (\<forall>m. map_of (temporary g) m = (if engines_of held m = 0 then None else Some (engines_of held m)))"

fun apart :: "scope list \<Rightarrow> bool" where
  "apart [] = True"
| "apart (sc # held) = ((\<forall>old \<in> set held. \<not> collides sc old) \<and> apart held)"

section \<open>The guard is exact\<close>

lemma map_of_updates [simp]:
  "map_of (AList.update k v xs) k' = (if k' = k then Some v else map_of xs k')"
  "map_of (AList.delete k xs) k' = (if k' = k then None else map_of xs k')"
  by (auto simp: update_conv' delete_conv')

lemma engine_of_Some [simp]: "engine_of sc = Some m \<longleftrightarrow> sc = Temporary m"
  by (cases sc) (auto simp: engine_of_def)

lemma engines_of_simps [simp]:
  "engines_of [] m = 0"
  "engines_of (sc # held) m = (if sc = Temporary m then Suc (engines_of held m) else engines_of held m)"
  by (auto simp: engines_of_def)

lemma engines_of_positive: "0 < engines_of held m \<longleftrightarrow> Temporary m \<in> set held"
  by (auto simp: engines_of_def count_list_0_iff zero_less_iff_neq_zero)

lemma standsD:
  assumes "stands_for g held"
  shows "m \<in> cleaning g \<longleftrightarrow> (\<exists>old \<in> set held. m \<in> cleans old)"
    and "m \<in> mutating g \<longleftrightarrow> (\<exists>old \<in> set held. m \<in> mutates old)"
    and "globally g \<longleftrightarrow> (\<exists>old \<in> set held. everywhere old)"
    and "map_of (temporary g) m = (if engines_of held m = 0 then None else Some (engines_of held m))"
    and "(\<exists>n. map_of (temporary g) m = Some n) \<longleftrightarrow> Temporary m \<in> set held"
    and "cleaning g \<noteq> {} \<longleftrightarrow> (\<exists>old \<in> set held. cleans old \<noteq> {})"
    and "mutating g \<noteq> {} \<longleftrightarrow> (\<exists>old \<in> set held. mutates old \<noteq> {})"
    and "temporary g \<noteq> [] \<longleftrightarrow> (\<exists>old \<in> set held. engine_of old \<noteq> None)"
    and "distinct (map fst (temporary g))"
proof -
  show m: "\<And>m. map_of (temporary g) m = (if engines_of held m = 0 then None else Some (engines_of held m))"
    using assms by (simp add: stands_for_def)
  then show e: "\<And>m. (\<exists>n. map_of (temporary g) m = Some n) \<longleftrightarrow> Temporary m \<in> set held"
    by (auto simp flip: engines_of_positive)
  show "temporary g \<noteq> [] \<longleftrightarrow> (\<exists>old \<in> set held. engine_of old \<noteq> None)"
  proof -
    have "temporary g \<noteq> [] \<longleftrightarrow> (\<exists>m n. map_of (temporary g) m = Some n)"
      by (cases "temporary g") (force split: if_splits)+
    also have "\<dots> \<longleftrightarrow> (\<exists>m. Temporary m \<in> set held)" using e by blast
    finally show ?thesis by (metis engine_of_Some not_None_eq)
  qed
qed (use assms in \<open>auto simp: stands_for_def list_ex_iff\<close>)

lemma begin_scope_iff:
  assumes "stands_for g held"
  shows "begin_scope sc g = None \<longleftrightarrow> (\<exists>old \<in> set held. collides sc old)"
proof (cases sc)
  case (Cleanup ms everything)
  then show ?thesis
    using standsD [OF assms] by (auto simp: begin_cleanup_def touches_def)
next
  case (Mutation m block)
  then show ?thesis
    using standsD [OF assms] by (auto simp: begin_mutation_def touches_def)
next
  case (Temporary m)
  then show ?thesis
    using standsD [OF assms] by (auto simp: begin_temporary_model_def touches_def)
qed

lemma begin_scope_stands:
  assumes "stands_for g held" and "begin_scope sc g = Some g'"
  shows "stands_for g' (sc # held)"
proof -
  have old: "cleaning g = \<Union> (cleans ` set held)" "mutating g = \<Union> (mutates ` set held)"
    "globally g = list_ex everywhere held" "distinct (map fst (temporary g))"
    and t: "map_of (temporary g) k = (if engines_of held k = 0 then None else Some (engines_of held k))" for k
    using assms(1) by (simp_all add: stands_for_def)
  have parts: "cleaning g' = cleans sc \<union> cleaning g \<and> mutating g' = mutates sc \<union> mutating g
      \<and> globally g' = (everywhere sc \<or> globally g)"
    using assms(2) by (cases sc)
      (auto simp: begin_cleanup_def begin_mutation_def begin_temporary_model_def split: if_splits)
  have tables: "distinct (map fst (temporary g'))
      \<and> (\<forall>k. map_of (temporary g') k
          = (if engines_of (sc # held) k = 0 then None else Some (engines_of (sc # held) k)))"
  proof (cases sc)
    case (Temporary k)
    with assms(2) have "g' = g\<lparr>temporary := AList.update k (temporary_count g k + 1) (temporary g)\<rparr>"
      by (simp add: begin_temporary_model_def split: if_splits)
    with Temporary old(4) t show ?thesis
      by (simp add: temporary_count_def distinct_update)
  next
    case (Cleanup ms everything)
    with assms(2) have "temporary g' = temporary g" by (auto simp: begin_cleanup_def split: if_splits)
    with Cleanup old(4) t show ?thesis by simp
  next
    case (Mutation k block)
    with assms(2) have "temporary g' = temporary g" by (auto simp: begin_mutation_def split: if_splits)
    with Mutation old(4) t show ?thesis by simp
  qed
  show ?thesis
    unfolding stands_for_def using parts tables old by simp
qed

text \<open>A scope holds nothing another open scope holds, so leaving it takes away its own marks only.\<close>

lemma apart_remove: "apart held \<Longrightarrow> apart (remove1 sc held)"
  by (induction held) (auto dest: notin_set_remove1)

lemma set_split_remove1: "sc \<in> set held \<Longrightarrow> set held = insert sc (set (remove1 sc held))"
  by (induction held) auto

lemma engines_of_remove1: "engines_of (remove1 sc held) m = engines_of held m - (if sc = Temporary m \<and> sc \<in> set held then 1 else 0)"
  by (induction held) auto

text \<open>What an open scope touches, no other open one does.\<close>

lemma apart_alone:
  assumes "apart held" and "sc \<in> set held" and "old \<in> set (remove1 sc held)"
  shows "m \<in> cleans sc \<Longrightarrow> m \<notin> cleans old" and "m \<in> mutates sc \<Longrightarrow> m \<notin> mutates old"
    and "everywhere sc \<Longrightarrow> \<not> everywhere old"
proof -
  have "(m \<in> cleans sc \<longrightarrow> m \<notin> cleans old) \<and> (m \<in> mutates sc \<longrightarrow> m \<notin> mutates old)
      \<and> (everywhere sc \<longrightarrow> \<not> everywhere old)"
    using assms
  proof (induction held)
    case (Cons a held)
    have c: "\<not> collides x y \<Longrightarrow> m \<in> cleans x \<longrightarrow> m \<notin> cleans y" "\<not> collides x y \<Longrightarrow> m \<in> mutates x \<longrightarrow> m \<notin> mutates y"
       "\<not> collides x y \<Longrightarrow> \<not> everywhere y" for x y
      by (cases x; auto simp: touches_def split: if_splits)+
    show ?case
    proof (cases "a = sc")
      case True
      with Cons.prems have "\<not> collides sc old" by simp
      then show ?thesis using c [of sc old] by blast
    next
      case False
      then consider "old = a" "\<not> collides a sc" | "old \<in> set (remove1 sc held)" "apart held" "sc \<in> set held"
        using Cons.prems by auto
      then show ?thesis using c [of a sc] Cons.IH by cases blast+
    qed
  qed simp
  then show "m \<in> cleans sc \<Longrightarrow> m \<notin> cleans old" "m \<in> mutates sc \<Longrightarrow> m \<notin> mutates old"
    "everywhere sc \<Longrightarrow> \<not> everywhere old" by blast+
qed

lemma end_scope_stands:
  assumes "stands_for g held" and "apart held" and sc: "sc \<in> set held"
  shows "stands_for (end_scope sc g) (remove1 sc held)"
proof -
  note alone = apart_alone [OF assms(2) sc]
  have split_set: "set held = insert sc (set (remove1 sc held))"
    using sc by (rule set_split_remove1)
  have pos: "sc = Temporary m \<Longrightarrow> 0 < engines_of held m" for m using sc by (simp add: engines_of_positive)
  have c: "\<Union> (cleans ` set held) - cleans sc = \<Union> (cleans ` set (remove1 sc held))"
    and m: "\<Union> (mutates ` set held) - mutates sc = \<Union> (mutates ` set (remove1 sc held))"
    unfolding split_set using alone by auto
  have e: "list_ex everywhere (remove1 sc held) = (\<not> everywhere sc \<and> list_ex everywhere held)"
    unfolding list_ex_iff split_set using alone(3) by auto
  have old: "cleaning g = \<Union> (cleans ` set held)" "mutating g = \<Union> (mutates ` set held)"
    "globally g = list_ex everywhere held" "distinct (map fst (temporary g))"
    and t: "map_of (temporary g) k = (if engines_of held k = 0 then None else Some (engines_of held k))" for k
    using assms(1) by (simp_all add: stands_for_def)
  have parts: "cleaning (end_scope sc g) = cleaning g - cleans sc \<and> mutating (end_scope sc g) = mutating g - mutates sc
      \<and> globally (end_scope sc g) = (\<not> everywhere sc \<and> globally g)"
    by (cases sc) (auto simp: end_cleanup_def end_mutation_def end_temporary_model_def Let_def)
  have tables: "distinct (map fst (temporary (end_scope sc g)))
      \<and> (\<forall>k. map_of (temporary (end_scope sc g)) k
          = (if engines_of (remove1 sc held) k = 0 then None else Some (engines_of (remove1 sc held) k)))"
  proof (cases sc)
    case (Temporary k)
    with old(4) t pos [of k] sc show ?thesis
      by (auto simp: end_temporary_model_def Let_def engines_of_remove1 distinct_update distinct_delete
          simp del: map_of_eq_None_iff map_of_eq_Some_iff)
  qed (use old(4) t in \<open>simp_all add: end_cleanup_def end_mutation_def engines_of_remove1\<close>)
  show ?thesis
    unfolding stands_for_def using parts tables by (simp only: old c m e simp_thms)
qed

definition guarded :: "guard \<times> scope list \<Rightarrow> bool" where
  "guarded s \<longleftrightarrow> stands_for (fst s) (snd s) \<and> apart (snd s)"

lemma guard_step_guarded: "guarded s \<Longrightarrow> guarded (guard_step s e)"
proof (cases s; cases e)
  fix g held sc assume s: "s = (g, held)" and e: "e = Enter sc" and ok: "guarded s"
  then show ?thesis
    using begin_scope_iff [of g held sc] begin_scope_stands [of g held sc]
    by (auto simp: guarded_def split: option.splits)
next
  fix g held sc assume s: "s = (g, held)" and e: "e = Leave sc" and ok: "guarded s"
  then show ?thesis
    using end_scope_stands [of g held sc] apart_remove by (auto simp: guarded_def)
qed

interpretation storage: invariant_machine guarded guard_step
  by unfold_locales (rule guard_step_guarded)

lemma guard_run_guarded: "guarded (guard_run es)"
  unfolding guard_run_def
  by (rule storage.run_ok) (simp add: guarded_def stands_for_def open_guard_def)

text \<open>C30: after any sequence of cleanups, deletions, recoveries and temporary engines that enter and leave in any
  order, the three tables and the flag are exactly the marks of the scopes still open: a request is let in if
  and only if it collides with none of them, no two open scopes collide, and a load or conversion of a model is
  admitted if and only if no open cleanup or deletion covers it.\<close>

theorem guard_tracks_open_scopes:
  assumes "guard_run es = (g, held)"
  shows "(\<forall>sc. begin_scope sc g \<noteq> None \<longleftrightarrow> \<not> (\<exists>old \<in> set held. collides sc old))
    \<and> apart held
    \<and> (\<forall>m. admits_lifecycle m g \<longleftrightarrow> \<not> (\<exists>old \<in> set held. everywhere old \<or> m \<in> cleans old))
    \<and> (held = [] \<longrightarrow> cleaning g = {} \<and> mutating g = {} \<and> temporary g = [] \<and> \<not> globally g)"
proof -
  have s: "stands_for g held" and a: "apart held"
    using guard_run_guarded [of es] assms by (simp_all add: guarded_def)
  have "held = [] \<Longrightarrow> cleaning g = {} \<and> mutating g = {} \<and> temporary g = [] \<and> \<not> globally g"
    using standsD(3,6,7,8) [OF s] by simp
  moreover have "admits_lifecycle m g \<longleftrightarrow> \<not> (\<exists>old \<in> set held. everywhere old \<or> m \<in> cleans old)" for m
    using standsD(1,3) [OF s] by (auto simp: admits_lifecycle_def cleanup_blocks_def)
  ultimately show ?thesis using begin_scope_iff [OF s] a by simp
qed

theorem guard_tracks_open_scopes_witness:
  "guard_run [Enter (Temporary ''a''), Enter (Cleanup [''a''] False), Enter (Mutation ''b'' True), Leave (Temporary ''a'')]
     = (\<lparr>cleaning = {''b''}, mutating = {''b''}, temporary = [], globally = False\<rparr>, [Mutation ''b'' True])
   \<and> \<not> admits_lifecycle ''b'' \<lparr>cleaning = {''b''}, mutating = {''b''}, temporary = [], globally = False\<rparr>"
proof -
  have r: "guard_run [Enter (Temporary ''a''), Enter (Cleanup [''a''] False), Enter (Mutation ''b'' True), Leave (Temporary ''a'')]
     = (\<lparr>cleaning = {''b''}, mutating = {''b''}, temporary = [], globally = False\<rparr>, [Mutation ''b'' True])"
    by (simp add: guard_run_def open_guard_def begin_temporary_model_def begin_cleanup_def begin_mutation_def
        end_temporary_model_def temporary_count_def Let_def)
  from guard_tracks_open_scopes [OF r] have "\<not> admits_lifecycle ''b'' \<lparr>cleaning = {''b''}, mutating = {''b''}, temporary = [], globally = False\<rparr>"
    by auto
  with r show ?thesis by blast
qed

text \<open>A recovery, which removes files too, does not keep a load of the same model out.\<close>

lemma recovery_admits_load:
  "guard_run [Enter (Mutation ''m'' False)] = (g, held) \<Longrightarrow> admits_lifecycle ''m'' g \<and> held = [Mutation ''m'' False]"
  by (auto simp: guard_run_def begin_mutation_def open_guard_def admits_lifecycle_def cleanup_blocks_def)

text \<open>However often the caller closes its engine, the guard is released once.\<close>

lemma released_once: "close_and_release m (close_and_release m st) = close_and_release m st"
  by (auto simp: close_and_release_def split: prod.splits)

section \<open>When a model was last used\<close>

record usage =
  used :: "(string \<times> int) list"
  flushed :: "(string \<times> int) list"
  usage_file :: "json option"  \<comment> \<open>\<open>None\<close>: absent or unreadable\<close>

text \<open>\<open>== 1\<close> for a JSON value\<close>

definition equals_one :: "json \<Rightarrow> bool" where
  "equals_one v \<longleftrightarrow> v \<in> {JInt 1, JBool True, JFloat (Fin 1)}"

definition usage_item :: "(string \<Rightarrow> bool) \<Rightarrow> string \<times> json \<Rightarrow> (string \<times> int) option" where
  "usage_item in_catalog item =
     (case item of (m, raw) \<Rightarrow>
        if \<not> in_catalog m \<or> (\<exists>b. raw = JBool b) then None
        else case json_int raw of
          Inl e \<Rightarrow> None
        | Inr timestamp \<Rightarrow> if timestamp > 0 then Some (m, timestamp) else None)"

definition load_usage :: "(string \<Rightarrow> bool) \<Rightarrow> json option \<Rightarrow> (string \<times> int) list" where
  "load_usage in_catalog content =
     (case content of
        None \<Rightarrow> []
      | Some payload \<Rightarrow>
          if \<not> is_obj payload \<or> \<not> equals_one (get payload ''schema_version'') then []
          else case get payload ''models'' of
            JObj items \<Rightarrow> List.map_filter (usage_item in_catalog) items
          | _ \<Rightarrow> [])"

definition usage_json :: "(string \<times> int) list \<Rightarrow> json" where
  "usage_json us = JObj [(''schema_version'', JInt 1), (''models'', JObj (map (map_prod id JInt) (sort_key fst us)))]"

definition start_usage :: "(string \<Rightarrow> bool) \<Rightarrow> json option \<Rightarrow> usage" where
  "start_usage in_catalog content =
     \<lparr>used = load_usage in_catalog content, flushed = load_usage in_catalog content, usage_file = content\<rparr>"

text \<open>The file is written at most once a minute and model; \<open>writable\<close> is the fate of the write.\<close>

definition mark_model_used :: "(string \<Rightarrow> bool) \<Rightarrow> int \<Rightarrow> bool \<Rightarrow> string \<Rightarrow> usage \<Rightarrow> usage" where
  "mark_model_used in_catalog now writable m u =
     (if \<not> in_catalog m then u
      else
        let u1 = u\<lparr>used := AList.update m now (used u)\<rparr>
        in if now - (case map_of (flushed u1) m of None \<Rightarrow> 0 | Some t \<Rightarrow> t) < 60 \<or> \<not> writable then u1
           else u1\<lparr>usage_file := Some (usage_json (used u1)), flushed := AList.update m now (flushed u1)\<rparr>)"

definition clear_model_usage :: "bool \<Rightarrow> string \<Rightarrow> usage \<Rightarrow> usage" where
  "clear_model_usage writable m u =
     (let u1 = u\<lparr>used := AList.delete m (used u), flushed := AList.delete m (flushed u)\<rparr>
      in if map_of (used u) m \<noteq> None \<and> writable then u1\<lparr>usage_file := Some (usage_json (used u1))\<rparr> else u1)"

datatype last_use = LoadedNow "int option" | Recorded int | NeverRecorded

definition last_used :: "usage \<Rightarrow> string \<Rightarrow> bool \<Rightarrow> last_use" where
  "last_used u m is_loaded =
     (if is_loaded then LoadedNow (map_of (used u) m)
      else case map_of (used u) m of
        Some t \<Rightarrow> if t \<noteq> 0 then Recorded t else NeverRecorded
      | None \<Rightarrow> NeverRecorded)"

lemma map_of_map_filter:
  assumes "\<And>k v. P (k, v) = map_option (Pair k) (Q k v)" and "distinct (map fst xs)"
  shows "map_of (List.map_filter P xs) k = Option.bind (map_of xs k) (Q k)"
  using assms(2)
proof (induction xs)
  case (Cons x xs)
  obtain a b where x: "x = (a, b)" by (cases x)
  have "k = a \<Longrightarrow> map_of xs k = None" using Cons.prems x by (simp add: map_of_eq_None_iff)
  then show ?case using Cons x by (cases "Q a b") (auto simp: map_filter_simps assms(1))
qed (simp add: map_filter_simps)

lemma distinct_sort_key: "distinct (map fst us) \<Longrightarrow> distinct (map fst (sort_key fst us))"
  by (simp add: distinct_map)

lemma map_of_sort_key: "distinct (map fst us) \<Longrightarrow> map_of (sort_key fst us) = map_of us"
  using distinct_sort_key [of us] by (simp add: map_of_inject_set)

text \<open>What was written is read back after a restart, for the models still in the catalogue.\<close>

lemma usage_survives_restart:
  assumes "distinct (map fst us)"
  shows "map_of (load_usage in_catalog (Some (usage_json us))) m
    = (case map_of us m of Some t \<Rightarrow> if in_catalog m \<and> t > 0 then Some t else None | None \<Rightarrow> None)"
proof -
  have d: "distinct (map fst (map (map_prod id JInt) (sort_key fst us)))"
    using distinct_sort_key [OF assms] by (simp add: comp_def)
  have item: "usage_item in_catalog (k, v) = map_option (Pair k)
      (if \<not> in_catalog k \<or> (\<exists>b. v = JBool b) then None
       else case json_int v of Inl e \<Rightarrow> None | Inr t \<Rightarrow> if t > 0 then Some t else None)" for k v
    by (auto simp: usage_item_def split: sum.splits)
  have "map_of (map (map_prod id JInt) (sort_key fst us)) m = map_option JInt (map_of (sort_key fst us) m)"
    by (simp add: map_of_map map_prod_def)
  then show ?thesis
    using map_of_sort_key [OF assms]
    by (auto simp: load_usage_def usage_json_def is_obj_def equals_one_def map_of_map_filter [OF item d] json_int_def
        split: option.splits)
qed

end
