(* ===== verification/ConversionHealth.thy ===== *)
theory ConversionHealth
  imports Recovery StorageGuard
begin

text \<open>
  \<open>app/model_library_conversion.py\<close>: the marker a finished conversion leaves in the model directory, and what it
  says later about the directory, the catalogue entry and the installed runtime.
\<close>

datatype decoded = Decoded json | DecodeJsonError | DecodeOtherError

text \<open>Library versions as installed, the application's version, a time stamp, and \<open>json\<close>.\<close>

record health_env =
  health_parsers :: parsers
  encode_json :: "json \<Rightarrow> char list"
  decode_json :: "char list \<Rightarrow> decoded"
  str_of :: "json \<Rightarrow> string"
  openvino_installed :: "string option"
  genai_installed :: "string option"
  application_version :: string
  utc_now :: string

definition conversion_marker :: string where "conversion_marker = ''.ovllm-conversion.json''"

text \<open>\<open>^(\d+)\.(\d+)\<close>\<close>

definition major_minor :: "string \<Rightarrow> (nat \<times> nat) option" where
  "major_minor v =
     (let a = takeWhile is_digit v; rest = dropWhile is_digit v; b = takeWhile is_digit (tl rest)
      in if a \<noteq> [] \<and> rest \<noteq> [] \<and> hd rest = CHR ''.'' \<and> b \<noteq> [] then Some (digits_val a, digits_val b) else None)"

definition marker_json :: "health_env \<Rightarrow> model_config \<Rightarrow> json" where
  "marker_json env cfg =
     JObj [(''schema_version'', JInt 1), (''model_id'', JStr (model_id cfg)), (''source_model'', JStr (source_model cfg)),
       (''backend'', JStr (backend cfg)), (''weight_format'', JStr (weight_format cfg)),
       (''application_version'', JStr (application_version env)),
       (''openvino_version'', opt_text (openvino_installed env)),
       (''openvino_genai_version'', opt_text (genai_installed env)), (''recorded_at'', JStr (utc_now env))]"

fun put_child :: "string \<Rightarrow> fs_node \<Rightarrow> fs_node \<Rightarrow> fs_node" where
  "put_child k n (Directory listed es) = Directory listed (AList.update k n es)"
| "put_child k n (Linked (Some t)) = Linked (Some (put_child k n t))"
| "put_child k n t = t"

definition record_conversion_metadata :: "health_env \<Rightarrow> model_config \<Rightarrow> fs_node option \<Rightarrow> fs_node option" where
  "record_conversion_metadata env cfg dir =
     (if \<not> holds_model (health_parsers env) dir then dir
      else map_option (put_child conversion_marker (Document (encode_json env (marker_json env cfg)))) dir)"

datatype metadata_fault = MarkerUnreadable | MarkerNoObject | MarkerSchema | MarkerMissing "string list"

datatype health =
    NotConverted | IncompleteConversion | LegacyUntracked | InvalidMetadata metadata_fault
  | IncompatibleDefinition "string list" | StaleRuntime "string list" | Compatible

definition required_fields :: "string list" where
  "required_fields = [''model_id'', ''source_model'', ''backend'', ''weight_format'', ''application_version'',
     ''openvino_version'', ''openvino_genai_version'', ''recorded_at'']"

definition expected_fields :: "model_config \<Rightarrow> (string \<times> string) list" where
  "expected_fields cfg = [(''model_id'', model_id cfg), (''source_model'', source_model cfg), (''backend'', backend cfg),
     (''weight_format'', weight_format cfg)]"

definition json_text_of :: "health_env \<Rightarrow> json \<Rightarrow> string" where
  "json_text_of env v = (case v of JStr s \<Rightarrow> s | _ \<Rightarrow> str_of env v)"

definition runtime_changed :: "health_env \<Rightarrow> json \<Rightarrow> string \<Rightarrow> string option \<Rightarrow> bool" where
  "runtime_changed env marker field current =
     (let recorded = (let v = get marker field in if truthy v then json_text_of env v else [])
      in case (major_minor recorded, Option.bind current major_minor) of
           (Some a, Some b) \<Rightarrow> a \<noteq> b
         | _ \<Rightarrow> False)"

definition judge_marker :: "health_env \<Rightarrow> model_config \<Rightarrow> json \<Rightarrow> health" where
  "judge_marker env cfg marker =
     (if \<not> is_obj marker then InvalidMetadata MarkerNoObject
      else if \<not> equals_one (get marker ''schema_version'') then InvalidMetadata MarkerSchema
      else
        let missing = filter (\<lambda>k. \<not> has_key marker k) required_fields;
            mismatches = map fst (filter (\<lambda>(k, v). json_text_of env (get marker k) \<noteq> v) (expected_fields cfg));
            changes = map fst (filter (\<lambda>(label, field, current). runtime_changed env marker field current)
              [(''OpenVINO'', ''openvino_version'', openvino_installed env),
               (''OpenVINO GenAI'', ''openvino_genai_version'', genai_installed env)])
        in if missing \<noteq> [] then InvalidMetadata (MarkerMissing missing)
           else if mismatches \<noteq> [] then IncompatibleDefinition mismatches
           else if changes \<noteq> [] then StaleRuntime changes
           else Compatible)"

text \<open>\<open>None\<close> when reading the marker raises an error that is not caught.\<close>

definition conversion_health :: "health_env \<Rightarrow> model_config \<Rightarrow> fs_node option \<Rightarrow> health option" where
  "conversion_health env cfg dir =
     (if \<not> path_exists dir then Some NotConverted
      else if \<not> holds_model (health_parsers env) dir then Some IncompleteConversion
      else case Option.bind (Option.bind dir (\<lambda>n. child n conversion_marker)) follow of
        Some (Document b) \<Rightarrow>
          (case decode_json env b of
             Decoded marker \<Rightarrow> Some (judge_marker env cfg marker)
           | DecodeJsonError \<Rightarrow> Some (InvalidMetadata MarkerUnreadable)
           | DecodeOtherError \<Rightarrow> None)
      | Some Locked \<Rightarrow> Some (InvalidMetadata MarkerUnreadable)
      | _ \<Rightarrow> Some LegacyUntracked)"

text \<open>\<open>directory_size_bytes\<close> of an imported directory: a link or an unreadable file raises.\<close>

definition directory_size_bytes :: "fs_node \<Rightarrow> nat option" where
  "directory_size_bytes n = (case walk_below [([], n)] 0 of WalkTotal t \<Rightarrow> Some t | _ \<Rightarrow> None)"

section \<open>What a marker shows later\<close>

lemma dir_files_put_child:
  "dir_files (put_child k n t) = map_option (\<lambda>f. f(k := entry_of n)) (dir_files t)"
  by (induction k n t rule: put_child.induct) (auto simp: fun_eq_iff)

lemma holds_model_put_child:
  assumes "holds_model ps (Some t)"
  shows "holds_model ps (Some (put_child conversion_marker n t))"
proof -
  have names: "conversion_marker \<notin> set ir_markers" "conversion_marker \<noteq> ''config.json''"
    "\<And>m. m \<in> set ir_markers \<Longrightarrow> conversion_marker \<noteq> bin_name m"
    by (auto simp: conversion_marker_def ir_markers_def bin_name_def)
  from assms obtain d m where d: "dir_files t = Some d" and m: "m \<in> set ir_markers" "d m \<noteq> None"
    "marker_failure ps False d m = None"
    by (auto simp: holds_model_def is_openvino_model_dir_def validate_ready)
  have "marker_failure ps False (d(conversion_marker := entry_of n)) m = None"
    using m(3) names(2) names(3) [OF m(1)] names(1) m(1) by (auto simp: marker_failure_None)
  moreover have "(d(conversion_marker := entry_of n)) m \<noteq> None" using m names(1) by auto
  ultimately have "\<exists>m \<in> set ir_markers. (d(conversion_marker := entry_of n)) m \<noteq> None
      \<and> marker_failure ps False (d(conversion_marker := entry_of n)) m = None"
    using m(1) by blast
  then show ?thesis
    unfolding holds_model_def is_openvino_model_dir_def validate_ready by (simp add: dir_files_put_child d)
qed

lemma child_put_child:
  "dir_files t \<noteq> None \<Longrightarrow> child (put_child k n t) k = Some n"
  by (induction k n t rule: put_child.induct) (auto simp: child_def)

lemma follow_exists: "dir_files t \<noteq> None \<Longrightarrow> leads_somewhere t"
  by (induction t rule: dir_files.induct) auto

lemma leads_put_child: "leads_somewhere (put_child k n t) = leads_somewhere t"
  by (induction k n t rule: put_child.induct) auto

definition definition_changes :: "model_config \<Rightarrow> model_config \<Rightarrow> string list" where
  "definition_changes old new =
     map fst (filter (\<lambda>(k, a, b). a \<noteq> b)
       [(''model_id'', model_id old, model_id new), (''source_model'', source_model old, source_model new),
        (''backend'', backend old, backend new), (''weight_format'', weight_format old, weight_format new)])"

definition version_moved :: "string option \<Rightarrow> string option \<Rightarrow> bool" where
  "version_moved old new =
     (case (Option.bind old major_minor, Option.bind new major_minor) of (Some a, Some b) \<Rightarrow> a \<noteq> b | _ \<Rightarrow> False)"

lemma runtime_changed_marker:
  "runtime_changed env (marker_json env0 cfg) ''openvino_version'' v = version_moved (openvino_installed env0) v"
  "runtime_changed env (marker_json env0 cfg) ''openvino_genai_version'' v = version_moved (genai_installed env0) v"
  by (auto simp: runtime_changed_def Let_def marker_json_def opt_text_def version_moved_def json_text_of_def major_minor_def
      split: option.splits)

lemma judge_own_marker:
  "judge_marker env cfg (marker_json env0 cfg0) =
     (if definition_changes cfg0 cfg \<noteq> [] then IncompatibleDefinition (definition_changes cfg0 cfg)
      else if version_moved (openvino_installed env0) (openvino_installed env)
        \<or> version_moved (genai_installed env0) (genai_installed env)
      then StaleRuntime ((if version_moved (openvino_installed env0) (openvino_installed env) then [''OpenVINO''] else [])
        @ (if version_moved (genai_installed env0) (genai_installed env) then [''OpenVINO GenAI''] else []))
      else Compatible)"
proof -
  define m where "m = marker_json env0 cfg0"
  have o: "is_obj m" "get m ''schema_version'' = JInt 1" by (simp_all add: m_def marker_json_def is_obj_def)
  have k: "filter (\<lambda>k. \<not> has_key m k) required_fields = []"
    by (simp add: m_def marker_json_def required_fields_def)
  have g: "get m ''model_id'' = JStr (model_id cfg0)" "get m ''source_model'' = JStr (source_model cfg0)"
    "get m ''backend'' = JStr (backend cfg0)" "get m ''weight_format'' = JStr (weight_format cfg0)"
    by (simp_all add: m_def marker_json_def)
  have f: "map fst (filter (\<lambda>(k, v). json_text_of env (get m k) \<noteq> v) (expected_fields cfg)) = definition_changes cfg0 cfg"
    unfolding expected_fields_def definition_changes_def by (simp add: g json_text_of_def)
  show ?thesis
    unfolding judge_marker_def Let_def m_def [symmetric] k f o equals_one_def
    using runtime_changed_marker [of env env0 cfg0, folded m_def] o by simp
qed

text \<open>C39: after a conversion was recorded, the health of the directory tells exactly what has changed since: the
  fields of the definition that differ, else the runtimes of another major or minor version, else that it still fits.\<close>

theorem recorded_conversion_tells_changes:
  assumes json: "decode_json env (encode_json env0 (marker_json env0 cfg0)) = Decoded (marker_json env0 cfg0)"
    and "holds_model (health_parsers env0) dir" and "health_parsers env = health_parsers env0"
  shows "conversion_health env cfg (record_conversion_metadata env0 cfg0 dir) = Some
     (if definition_changes cfg0 cfg \<noteq> [] then IncompatibleDefinition (definition_changes cfg0 cfg)
      else if version_moved (openvino_installed env0) (openvino_installed env)
        \<or> version_moved (genai_installed env0) (genai_installed env)
      then StaleRuntime ((if version_moved (openvino_installed env0) (openvino_installed env) then [''OpenVINO''] else [])
        @ (if version_moved (genai_installed env0) (genai_installed env) then [''OpenVINO GenAI''] else []))
      else Compatible)"
proof -
  obtain t where t: "dir = Some t" and d: "dir_files t \<noteq> None"
    using assms(2) by (cases dir) (auto simp: holds_model_def is_openvino_model_dir_def validate_ready)
  let ?t = "put_child conversion_marker (Document (encode_json env0 (marker_json env0 cfg0))) t"
  have r: "record_conversion_metadata env0 cfg0 dir = Some ?t"
    using assms(2) t by (simp add: record_conversion_metadata_def)
  have e: "path_exists (Some ?t)" using follow_exists [OF d] by (simp add: path_exists_def leads_put_child)
  have h: "holds_model (health_parsers env) (Some ?t)"
    using holds_model_put_child assms(2,3) t by simp
  show ?thesis
    unfolding r conversion_health_def using e h child_put_child [OF d] json
    by (simp add: judge_own_marker del: if_split)
qed

definition plain_health :: health_env where
  "plain_health = \<lparr>health_parsers = \<lparr>xml_root = (\<lambda>_. None), json_text = (\<lambda>_. Some (JObj []))\<rparr>,
     encode_json = (\<lambda>_. ''marker''), decode_json = (\<lambda>_. DecodeJsonError), str_of = (\<lambda>_. ''?''),
     openvino_installed = Some ''2025.1.0'', genai_installed = None, application_version = ''1.0.0'', utc_now = ''now''\<rparr>"

definition reading_health :: health_env where
  "reading_health = plain_health\<lparr>decode_json := (\<lambda>_. Decoded (marker_json plain_health demo_entry)),
     openvino_installed := Some ''2026.0.1''\<rparr>"

definition converted_tree :: fs_node where
  "converted_tree = Directory True [(''openvino_model.xml'', Document ''<net></net>''), (''openvino_model.bin'', Document ''x''),
     (''config.json'', Document ''{}'')]"

theorem recorded_conversion_tells_changes_witness:
  "conversion_health reading_health demo_entry (record_conversion_metadata plain_health demo_entry (Some converted_tree))
     = Some (StaleRuntime [''OpenVINO''])"
proof -
  have j: "decode_json reading_health (encode_json plain_health (marker_json plain_health demo_entry))
      = Decoded (marker_json plain_health demo_entry)"
    by (simp add: reading_health_def)
  have probe: "valid_ir_xml_probe (Some (File ''<net></net>''))"
    by (simp add: valid_ir_xml_probe_def has_bytes_def xml_probe_bytes_def)
  have bin: "bin_name ''openvino_model.xml'' = ''openvino_model.bin''" by (simp add: bin_name_def)
  have h: "holds_model (health_parsers plain_health) (Some converted_tree)"
    unfolding holds_model_def is_openvino_model_dir_def validate_ready ir_markers_def
    by (simp add: converted_tree_def marker_failure_None probe bin nonempty_file_def valid_config_def max_config_bytes_def
        plain_health_def)
  have p: "health_parsers reading_health = health_parsers plain_health" by (simp add: reading_health_def)
  have "definition_changes demo_entry demo_entry = []" by (simp add: definition_changes_def)
  moreover have "version_moved (openvino_installed plain_health) (openvino_installed reading_health)"
    "\<not> version_moved (genai_installed plain_health) (genai_installed reading_health)" by code_simp+
  ultimately show ?thesis using recorded_conversion_tells_changes [OF j h p, of demo_entry] by simp
qed

text \<open>A marker that is no UTF-8 text makes the health check raise instead of reporting damaged metadata.\<close>

lemma undecodable_marker_raises:
  assumes "decode_json env b = DecodeOtherError" and "holds_model (health_parsers env) (Some t)"
  shows "conversion_health env cfg (Some (put_child conversion_marker (Document b) t)) = None"
proof -
  have d: "dir_files t \<noteq> None"
    using assms(2) by (auto simp: holds_model_def is_openvino_model_dir_def validate_ready)
  show ?thesis
    using assms holds_model_put_child [OF assms(2)] follow_exists [OF d] child_put_child [OF d]
    by (simp add: conversion_health_def path_exists_def leads_put_child)
qed

end
