(* ===== verification/VisionStore.thy ===== *)
theory VisionStore
  imports Multimodal "HOL-Library.AList" "HOL-Library.Word"
begin

text \<open>
  The image-context store of \<open>app/multimodal.py\<close>: validated payloads wait under a
  random key until the rendered prompt that carries the key is generated or discarded.
  The ambient sources the code draws from, \<open>uuid4\<close> and \<open>time.monotonic\<close>, are
  parameters indexed by the number of draws made so far (a UUID is its 128-bit value); the
  namespace is one UUID fixed per process.
\<close>

type_synonym message = "string \<times> content"
type_synonym text_message = "string \<times> string"

record ambient =
  namespace_id :: "128 word"
  uuid4 :: "nat \<Rightarrow> 128 word"
  monotonic :: "nat \<Rightarrow> rat"

text \<open>\<open>UUID.hex\<close>: the 32 lower-case hexadecimal digits of the value.\<close>

definition hex_digit :: "nat \<Rightarrow> char" where
  "hex_digit d = (if d < 10 then char_of (48 + d) else char_of (87 + d))"

definition uuid_hex :: "128 word \<Rightarrow> string" where
  "uuid_hex w = map (\<lambda>i. hex_digit (unat (drop_bit (124 - 4 * i) w) mod 16)) [0..<32]"

abbreviation uuid :: "ambient \<Rightarrow> nat \<Rightarrow> string" where
  "uuid amb n \<equiv> uuid_hex (uuid4 amb n)"

abbreviation namespace :: "ambient \<Rightarrow> string" where
  "namespace amb \<equiv> uuid_hex (namespace_id amb)"

record image_store =
  contexts :: "(string \<times> rat \<times> image_payload list) list"
  context_bytes :: int
  draws :: nat

definition empty_store :: image_store where
  "empty_store = \<lparr>contexts = [], context_bytes = 0, draws = 0\<rparr>"

definition payload_bytes :: "image_payload list \<Rightarrow> int" where
  "payload_bytes ps = sum_list (map byte_size ps)"

section \<open>Operations\<close>

text \<open>\<open>_contexts.pop(key, None)\<close> with the byte count adjusted.\<close>

definition pop_context :: "string \<Rightarrow> image_store \<Rightarrow> image_payload list option \<times> image_store" where
  "pop_context key st =
     (case map_of (contexts st) key of
        None \<Rightarrow> (None, st)
      | Some (_, ps) \<Rightarrow> (Some ps, st\<lparr>contexts := AList.delete key (contexts st),
                                       context_bytes := context_bytes st - payload_bytes ps\<rparr>))"

definition purge_contexts :: "rat \<Rightarrow> image_store \<Rightarrow> image_store" where
  "purge_contexts now st =
     fold (\<lambda>key s. snd (pop_context key s))
       (map fst (filter (\<lambda>(_, created, _). now - created > context_ttl) (contexts st))) st"

definition store_context ::
  "ambient \<Rightarrow> image_payload list \<Rightarrow> image_store \<Rightarrow> (vision_error, string) result \<times> image_store" where
  "store_context amb ps st0 =
     (let key = uuid amb (draws st0); now = monotonic amb (draws st0);
          st = purge_contexts now (st0\<lparr>draws := Suc (draws st0)\<rparr>)
      in if int (length (contexts st)) \<ge> context_limit then (Inl TooManyContexts, st)
         else if context_bytes st + payload_bytes ps > context_bytes_limit
         then (Inl ContextMemoryLimit, st)
         else (Inr key, st\<lparr>contexts := AList.update key (now, ps) (contexts st),
                           context_bytes := context_bytes st + payload_bytes ps\<rparr>))"

text \<open>The image tags of one message; the index runs over the whole request.\<close>

definition image_tag :: "nat \<Rightarrow> string" where
  "image_tag k = ''<ov_genai_image_'' @ show_nat k @ ''>''"

fun vision_fragments :: "nat \<Rightarrow> part list \<Rightarrow> string list \<times> image_payload list" where
  "vision_fragments k [] = ([], [])"
| "vision_fragments k (PText s # ps) =
     (let (fs, is) = vision_fragments k ps in (if s = [] then fs else s # fs, is))"
| "vision_fragments k (PImage i # ps) =
     (let (fs, is) = vision_fragments (Suc k) ps in (image_tag k # fs, i # is))"

definition default_placeholder :: string where
  "default_placeholder = ''[Image]''"

fun vision_messages ::
  "decoders \<Rightarrow> nat \<Rightarrow> message list \<Rightarrow> (vision_error, text_message list \<times> image_payload list) result" where
  "vision_messages dec k [] = Inr ([], [])"
| "vision_messages dec k ((role, c) # ms) =
     (case c of
        Multi ps \<Rightarrow>
          (let (fs, is) = vision_fragments k ps in
           bindr (vision_messages dec (k + length is) ms) (\<lambda>(out, rest).
             Inr ((role, py_join [CHR 0x0A] fs) # out, is @ rest)))
      | Plain v \<Rightarrow>
          bindr (plain_text dec default_placeholder c) (\<lambda>t.
            bindr (vision_messages dec k ms) (\<lambda>(out, rest). Inr ((role, t) # out, rest))))"

definition prepare_vision_messages ::
  "ambient \<Rightarrow> decoders \<Rightarrow> message list \<Rightarrow> image_store \<Rightarrow>
     (vision_error, text_message list \<times> string option) result \<times> image_store" where
  "prepare_vision_messages amb dec ms st =
     (case vision_messages dec 0 ms of
        Inl e \<Rightarrow> (Inl e, st)
      | Inr (out, payloads) \<Rightarrow>
          (case validate_request_contents (map snd ms) (Some (map fst ms)) of
             Inl e \<Rightarrow> (Inl e, st)
           | Inr _ \<Rightarrow>
               if payloads = [] then (Inr (out, None), st)
               else (case store_context amb payloads st of
                       (Inl e, st') \<Rightarrow> (Inl e, st')
                     | (Inr key, st') \<Rightarrow> (Inr (out, Some key), st'))))"

definition marker_head :: "ambient \<Rightarrow> string" where
  "marker_head amb = ''<ovllm-image-context:'' @ namespace amb @ '':''"

definition append_prompt_context :: "ambient \<Rightarrow> string \<Rightarrow> string option \<Rightarrow> string" where
  "append_prompt_context amb prompt key =
     (case key of
        None \<Rightarrow> prompt
      | Some k \<Rightarrow> if k = [] then prompt else prompt @ [CHR 0x0A] @ marker_head amb @ k @ ''>'')"

definition hex_char :: "char \<Rightarrow> bool" where
  "hex_char c \<longleftrightarrow> is_digit c \<or> (let n = of_char c :: nat in (65 \<le> n \<and> n \<le> 70) \<or> (97 \<le> n \<and> n \<le> 102))"

text \<open>\<open>_CONTEXT_MARKER_RE.search\<close>: the text before the match and the key.\<close>

definition find_marker :: "ambient \<Rightarrow> string \<Rightarrow> (string \<times> string) option" where
  "find_marker amb prompt =
     (let s = py_rstrip prompt; h = marker_head amb; n = length h + 33;
          pre = take (length s - n) s; tail = drop (length s - n) s;
          key = take 32 (drop (length h) tail)
      in if n \<le> length s \<and> starts_with tail h \<and> list_all hex_char key \<and> last tail = CHR ''>''
         then Some (py_rstrip pre, key) else None)"

definition strip_prompt_context :: "ambient \<Rightarrow> string \<Rightarrow> string" where
  "strip_prompt_context amb prompt =
     (case find_marker amb prompt of None \<Rightarrow> prompt | Some (clean, _) \<Rightarrow> clean)"

definition prompt_image_count :: "ambient \<Rightarrow> image_store \<Rightarrow> string \<Rightarrow> nat" where
  "prompt_image_count amb st prompt =
     (case find_marker amb prompt of None \<Rightarrow> 0
      | Some (_, key) \<Rightarrow> (case map_of (contexts st) key of None \<Rightarrow> 0 | Some (_, ps) \<Rightarrow> length ps))"

definition prompt_image_token_reserve :: "ambient \<Rightarrow> image_store \<Rightarrow> string \<Rightarrow> int" where
  "prompt_image_token_reserve amb st prompt = int (prompt_image_count amb st prompt) * image_token_reserve"

definition discard_prompt_context :: "ambient \<Rightarrow> string \<Rightarrow> image_store \<Rightarrow> image_store" where
  "discard_prompt_context amb prompt st =
     (case find_marker amb prompt of None \<Rightarrow> st | Some (_, key) \<Rightarrow> snd (pop_context key st))"

definition consume_prompt_context ::
  "ambient \<Rightarrow> string \<Rightarrow> image_store \<Rightarrow> (vision_error, string \<times> image_payload list) result \<times> image_store" where
  "consume_prompt_context amb prompt st =
     (case find_marker amb prompt of
        None \<Rightarrow> (Inr (prompt, []), st)
      | Some (clean, key) \<Rightarrow>
          (case pop_context key st of
             (None, st') \<Rightarrow> (Inl ContextExpired, st')
           | (Some ps, st') \<Rightarrow> (Inr (clean, ps), st')))"

definition text_omission :: string where
  "text_omission = ''[Image omitted: selected model is not vision-capable.]''"

fun prepare_text_messages :: "decoders \<Rightarrow> message list \<Rightarrow> (vision_error, text_message list) result" where
  "prepare_text_messages dec [] = Inr []"
| "prepare_text_messages dec ((role, c) # ms) =
     bindr (plain_text dec text_omission c) (\<lambda>t.
       bindr (prepare_text_messages dec ms) (\<lambda>out. Inr ((role, t) # out)))"

section \<open>Accounting\<close>

definition stored_bytes :: "(string \<times> rat \<times> image_payload list) list \<Rightarrow> int" where
  "stored_bytes cs = sum_list (map (\<lambda>(_, _, ps). payload_bytes ps) cs)"

definition held_keys :: "image_store \<Rightarrow> string set" where
  "held_keys st = fst ` set (contexts st)"

definition store_ok :: "image_store \<Rightarrow> bool" where
  "store_ok st \<longleftrightarrow> distinct (map fst (contexts st)) \<and> int (length (contexts st)) \<le> context_limit \<and>
     stored_bytes (contexts st) \<le> context_bytes st \<and> context_bytes st \<le> context_bytes_limit"

lemma stored_bytes_simps [simp]:
  "stored_bytes [] = 0" "stored_bytes ((k, t, ps) # cs) = payload_bytes ps + stored_bytes cs"
  by (simp_all add: stored_bytes_def)

lemma payload_bytes_nonneg [simp]: "0 \<le> payload_bytes ps"
  unfolding payload_bytes_def by (rule sum_list_nonneg) (auto simp: byte_size_def)

lemma stored_bytes_delete:
  "distinct (map fst cs) \<Longrightarrow> map_of cs k = Some (t, ps) \<Longrightarrow>
     stored_bytes (AList.delete k cs) = stored_bytes cs - payload_bytes ps"
proof (induction cs)
  case (Cons c cs)
  obtain k' t' ps' where c: "c = (k', t', ps')" by (cases c)
  show ?case
  proof (cases "k' = k")
    case True
    with Cons.prems c have "AList.delete k cs = cs" "ps' = ps"
      by (force intro: delete_id)+
    with True c show ?thesis by simp
  next
    case False
    with Cons c show ?thesis by simp
  qed
qed simp

lemma stored_bytes_update:
  "stored_bytes (AList.update k (t, ps) cs) \<le> stored_bytes cs + payload_bytes ps"
  by (induction cs) auto

lemma stored_bytes_update_fresh:
  "k \<notin> fst ` set cs \<Longrightarrow>
     stored_bytes (AList.update k (t, ps) cs) = stored_bytes cs + payload_bytes ps"
  by (induction cs) auto

lemma length_update_le: "length (AList.update k v cs) \<le> Suc (length cs)"
  by (induction cs) auto

lemma fold_invariant:
  "P s \<Longrightarrow> (\<And>x s. P s \<Longrightarrow> P (f x s)) \<Longrightarrow> P (fold f xs s)"
  by (induction xs arbitrary: s) auto

section \<open>Every operation keeps the store in bounds\<close>

lemma pop_context_cases:
  obtains (absent) "map_of (contexts st) k = None" "pop_context k st = (None, st)"
  | (present) t ps where "map_of (contexts st) k = Some (t, ps)"
      "pop_context k st = (Some ps, st\<lparr>contexts := AList.delete k (contexts st),
                                     context_bytes := context_bytes st - payload_bytes ps\<rparr>)"
  by (cases "map_of (contexts st) k") (auto simp: pop_context_def)

lemma pop_context_ok [run_inv]:
  assumes "store_ok st"
  shows "store_ok (snd (pop_context k st))"
proof (cases rule: pop_context_cases [of st k])
  case absent
  with assms show ?thesis by simp
next
  case (present t ps)
  have "context_bytes st - payload_bytes ps \<le> context_bytes_limit"
    using assms payload_bytes_nonneg [of ps] unfolding store_ok_def by linarith
  moreover have "length (AList.delete k (contexts st)) \<le> length (contexts st)"
    by (rule length_delete_le)
  ultimately show ?thesis
    using present assms by (simp add: store_ok_def distinct_delete stored_bytes_delete)
qed

lemma pop_context_held: "held_keys (snd (pop_context k st)) = held_keys st - {k}"
proof (cases "map_of (contexts st) k")
  case None
  then have "k \<notin> held_keys st" by (simp add: held_keys_def map_of_eq_None_iff)
  with None show ?thesis by (simp add: pop_context_def)
next
  case (Some v)
  have "fst ` set (AList.delete k (contexts st)) = fst ` set (contexts st) - {k}"
    using arg_cong [OF delete_keys [of k "contexts st"], of set] by simp
  with Some show ?thesis by (auto simp: pop_context_def held_keys_def split: prod.splits)
qed

lemma pop_context_draws [simp]: "draws (snd (pop_context k st)) = draws st"
  by (auto simp: pop_context_def split: option.splits)

lemma purge_contexts_ok [run_inv]: "store_ok st \<Longrightarrow> store_ok (purge_contexts now st)"
  unfolding purge_contexts_def by (rule fold_invariant) (auto intro: pop_context_ok)

lemma purge_contexts_held: "held_keys (purge_contexts now st) \<subseteq> held_keys st"
  unfolding purge_contexts_def
  by (rule fold_invariant [where P = "\<lambda>s. held_keys s \<subseteq> held_keys st"]) (auto simp: pop_context_held)

lemma store_ok_draws [simp]: "store_ok (st\<lparr>draws := n\<rparr>) = store_ok st"
  by (simp add: store_ok_def)

lemma held_keys_draws [simp]: "held_keys (st\<lparr>draws := n\<rparr>) = held_keys st"
  by (simp add: held_keys_def)

lemma store_context_ok [run_inv]: "store_ok st \<Longrightarrow> store_ok (snd (store_context amb ps st))"
proof -
  assume ok: "store_ok st"
  define st' where "st' = purge_contexts (monotonic amb (draws st)) (st\<lparr>draws := Suc (draws st)\<rparr>)"
  have ok': "store_ok st'" unfolding st'_def by (rule purge_contexts_ok) (simp add: ok)
  show ?thesis
    using ok' stored_bytes_update [of "uuid amb (draws st)" "monotonic amb (draws st)" ps "contexts st'"]
      length_update_le [of "uuid amb (draws st)" "(monotonic amb (draws st), ps)" "contexts st'"]
    unfolding store_context_def Let_def st'_def [symmetric]
    by (auto simp: store_ok_def distinct_update)
qed

lemma store_context_held:
  assumes "store_context amb ps st = (r, st')"
  shows "held_keys st' \<subseteq> held_keys st \<union> (case r of Inl _ \<Rightarrow> {} | Inr k \<Rightarrow> {k})"
    and "r = Inr k \<Longrightarrow> map_of (contexts st') k = Some (monotonic amb (draws st), ps)"
    and "r = Inr k \<Longrightarrow> k = uuid amb (draws st)"
proof -
  define st1 where "st1 = purge_contexts (monotonic amb (draws st)) (st\<lparr>draws := Suc (draws st)\<rparr>)"
  have sub: "held_keys st1 \<subseteq> held_keys st"
    unfolding st1_def using purge_contexts_held by (metis held_keys_draws)
  note eq = assms [unfolded store_context_def Let_def, folded st1_def]
  show "held_keys st' \<subseteq> held_keys st \<union> (case r of Inl _ \<Rightarrow> {} | Inr k \<Rightarrow> {k})"
  proof (cases r)
    case (Inr k)
    with eq have "fst ` set (contexts st') = insert k (held_keys st1)"
      by (clarsimp simp: held_keys_def dom_update split: if_splits)
    with sub Inr show ?thesis by (auto simp: held_keys_def)
  next
    case (Inl e)
    with eq sub show ?thesis by (auto split: if_splits)
  qed
  show "r = Inr k \<Longrightarrow> map_of (contexts st') k = Some (monotonic amb (draws st), ps)"
    using eq by (auto simp: update_conv' split: if_splits)
  show "r = Inr k \<Longrightarrow> k = uuid amb (draws st)"
    using eq by (auto split: if_splits)
qed

lemma prepare_vision_messages_ok [run_inv]:
  "store_ok st \<Longrightarrow> store_ok (snd (prepare_vision_messages amb dec ms st))"
  using store_context_ok [of st amb]
  by (auto simp: prepare_vision_messages_def split: sum.splits prod.splits)
    (metis snd_conv)+

lemma discard_prompt_context_ok [run_inv]:
  "store_ok st \<Longrightarrow> store_ok (discard_prompt_context amb p st)"
  by (auto simp: discard_prompt_context_def pop_context_ok split: option.splits)

lemma consume_prompt_context_ok [run_inv]:
  "store_ok st \<Longrightarrow> store_ok (snd (consume_prompt_context amb p st))"
  using pop_context_ok [of st]
  by (auto simp: consume_prompt_context_def split: option.splits prod.splits) (metis snd_conv)+

datatype store_op =
    PrepareMessages "message list"
  | DiscardPrompt string
  | ConsumePrompt string

fun store_step :: "ambient \<Rightarrow> decoders \<Rightarrow> image_store \<Rightarrow> store_op \<Rightarrow> image_store" where
  "store_step amb dec st (PrepareMessages ms) = snd (prepare_vision_messages amb dec ms st)"
| "store_step amb dec st (DiscardPrompt p) = discard_prompt_context amb p st"
| "store_step amb dec st (ConsumePrompt p) = snd (consume_prompt_context amb p st)"

interpretation image_contexts: invariant_machine store_ok "store_step amb dec" for amb dec
proof
  fix s e assume "store_ok s"
  then show "store_ok (store_step amb dec s e)" by (cases e) (auto intro: run_inv)
qed

lemma empty_store_ok: "store_ok empty_store"
  by (simp add: store_ok_def empty_store_def context_limit_def context_bytes_limit_def)

section \<open>The marker round trip\<close>

definition hex32 :: "string \<Rightarrow> bool" where
  "hex32 k \<longleftrightarrow> length k = 32 \<and> list_all hex_char k"

lemma hex_digit_hex: "d < 16 \<Longrightarrow> hex_char (hex_digit d)"
  by (auto simp: hex_digit_def hex_char_def is_digit_def Let_def of_char_of)

lemma hex32_uuid: "hex32 (uuid_hex w)"
  by (auto simp: hex32_def uuid_hex_def list_all_iff intro: hex_digit_hex)

lemma find_marker_append:
  assumes "hex32 k"
  shows "find_marker amb (append_prompt_context amb p (Some k)) = Some (py_rstrip p, k)"
proof -
  let ?h = "marker_head amb"
  let ?s = "(p @ [CHR 0x0A]) @ ?h @ k @ ''>''"
  have k: "length k = 32" "list_all hex_char k" "k \<noteq> []"
    using assms by (auto simp: hex32_def)
  have full: "append_prompt_context amb p (Some k) = ?s"
    using k by (simp add: append_prompt_context_def)
  have "py_rstrip (((p @ [CHR 0x0A]) @ ?h @ k) @ [CHR ''>'']) = ((p @ [CHR 0x0A]) @ ?h @ k) @ [CHR ''>'']"
    by (subst py_rstrip_snoc) (simp add: py_space_def)
  then have rs: "py_rstrip ?s = ?s" by simp
  have len: "length ?s - (length ?h + 33) = length (p @ [CHR 0x0A])" using k by simp
  have "drop (length (p @ [CHR 0x0A])) ?s = ?h @ k @ ''>''" "take (length (p @ [CHR 0x0A])) ?s = p @ [CHR 0x0A]"
    by simp_all
  with k rs len show ?thesis
    unfolding full find_marker_def Let_def by (simp add: py_rstrip_snoc)
qed

text \<open>The payloads that go into the store are the images of the request, in order.\<close>

lemma vision_fragments_images: "snd (vision_fragments k ps) = part_images ps"
  by (induction k ps rule: vision_fragments.induct) (simp_all add: split_def Let_def)

lemma vision_messages_images:
  "vision_messages dec k ms = Inr (out, is) \<Longrightarrow> is = concat (map (images_of \<circ> snd) ms)"
proof (induction dec k ms arbitrary: out "is" rule: vision_messages.induct)
  case (2 dec k role c ms)
  show ?case
  proof (cases c)
    case (Multi ps)
    obtain fs i0 where fr: "vision_fragments k ps = (fs, i0)" by (cases "vision_fragments k ps")
    with 2 Multi vision_fragments_images [of k ps] show ?thesis
      by (auto simp: bindr_eq_Inr images_of_def)
  next
    case (Plain v)
    with 2 show ?thesis by (auto simp: bindr_eq_Inr images_of_def)
  qed
qed simp

definition request_images :: "message list \<Rightarrow> image_payload list" where
  "request_images ms = concat (map (images_of \<circ> snd) ms)"

lemma prepare_vision_messages_Some:
  assumes "prepare_vision_messages amb dec ms st = (Inr (out, Some key), st')"
  shows "store_context amb (request_images ms) st = (Inr key, st')"
  using assms vision_messages_images [of dec 0 ms]
  by (auto simp: prepare_vision_messages_def request_images_def split: sum.splits prod.splits if_splits)

section \<open>Properties\<close>

text \<open>C7: whatever sequence of requests is prepared, discarded and consumed, the image store
  never holds more than 64 contexts nor more than 512 MiB of image bytes.\<close>

theorem image_store_bounded:
  "length (contexts (foldl (store_step amb dec) empty_store ops)) \<le> 64 \<and>
   stored_bytes (contexts (foldl (store_step amb dec) empty_store ops)) \<le> 512 * 1024 * 1024"
  using image_contexts.run_ok [OF empty_store_ok, of amb dec ops]
  unfolding store_ok_def by (simp add: context_limit_def context_bytes_limit_def)

text \<open>C8: the images of a request reach generation exactly once and in order: consuming the
  rendered prompt returns them, and a second consumption raises the expiry error.\<close>

theorem prompt_images_consumed_once:
  assumes "prepare_vision_messages amb dec ms st = (Inr (out, Some key), st')"
  shows "\<exists>st''. consume_prompt_context amb (append_prompt_context amb prompt (Some key)) st' =
           (Inr (py_rstrip prompt, request_images ms), st'') \<and>
         key \<notin> held_keys st'' \<and>
         consume_prompt_context amb (append_prompt_context amb prompt (Some key)) st'' =
           (Inl ContextExpired, st'')"
proof -
  note store = prepare_vision_messages_Some [OF assms]
  have "hex32 key" using store_context_held(3) [OF store refl] hex32_uuid by simp
  have "map_of (contexts st') key = Some (monotonic amb (draws st), request_images ms)"
    by (rule store_context_held(2) [OF store refl])
  then obtain st'' where pop: "pop_context key st' = (Some (request_images ms), st'')"
    by (auto simp: pop_context_def)
  have gone: "key \<notin> held_keys st''" using pop_context_held [of key st'] pop by simp
  then have "pop_context key st'' = (None, st'')"
    by (simp add: pop_context_def held_keys_def map_of_eq_None_iff [symmetric])
  with pop gone show ?thesis
    by (auto simp: consume_prompt_context_def find_marker_append [OF \<open>hex32 key\<close>])
qed

abbreviation sample_image :: image_payload where
  "sample_image \<equiv> \<lparr>mime_type = ''image/png'', image_data = ''PNG'', image_width = 2, image_height = 3\<rparr>"

abbreviation sample_ambient :: ambient where
  "sample_ambient \<equiv> \<lparr>namespace_id = 7, uuid4 = (\<lambda>n. of_nat n + 10), monotonic = (\<lambda>_. 0)\<rparr>"

abbreviation no_decoders :: decoders where
  "no_decoders \<equiv> \<lparr>b64decode = (\<lambda>_. None), pil_open = (\<lambda>_. PilFailed)\<rparr>"

theorem prompt_images_consumed_once_witness:
  "\<exists>st' st'' key. consume_prompt_context sample_ambient
      (append_prompt_context sample_ambient ''hi'' (Some key)) st' =
      (Inr (''hi'', [sample_image]), st'')"
proof -
  let ?ms = "[(''user'', Multi [PText ''look'', PImage sample_image])]"
  let ?k = "uuid sample_ambient 0"
  have "fst (prepare_vision_messages sample_ambient no_decoders ?ms empty_store) =
      Inr ([(''user'', ''look'' @ [CHR 0x0A] @ image_tag 0)], Some ?k)"
    by code_simp
  then obtain st' where prep: "prepare_vision_messages sample_ambient no_decoders ?ms empty_store =
      (Inr ([(''user'', ''look'' @ [CHR 0x0A] @ image_tag 0)], Some ?k), st')"
    by (metis prod.collapse)
  have "py_rstrip ''hi'' = ''hi''" by code_simp
  moreover have "request_images ?ms = [sample_image]" by code_simp
  ultimately show ?thesis
    using prompt_images_consumed_once [OF prep, of "''hi''"] by metis
qed

end
