(* ===== verification/ChatFormat.thy ===== *)
theory ChatFormat
  imports VisionStore
begin

text \<open>
  The message half of \<open>app/chat_format.py\<close>: OpenAI chat messages and Responses input
  items become \<open>(role, content)\<close> pairs, and the fallback ChatML renderer turns those into
  a prompt. \<open>json.dumps\<close> and the \<open>repr\<close> of a content object are written out;
  only the decimal text of a finite float, Python's shortest round-trip form, is a
  parameter.
\<close>

section \<open>\<open>json.dumps\<close> and \<open>repr\<close>\<close>

definition hex_byte :: "char \<Rightarrow> string" where
  "hex_byte c = [hex_digit (of_char c div 16), hex_digit (of_char c mod 16)]"

definition json_char :: "char \<Rightarrow> string" where
  "json_char c =
     (if c = CHR 0x22 then [CHR 0x5C, CHR 0x22]
      else if c = CHR 0x5C then [CHR 0x5C, CHR 0x5C]
      else if c = CHR 0x0A then [CHR 0x5C, CHR ''n'']
      else if c = CHR 0x0D then [CHR 0x5C, CHR ''r'']
      else if c = CHR 0x09 then [CHR 0x5C, CHR ''t'']
      else if c = CHR 0x08 then [CHR 0x5C, CHR ''b'']
      else if c = CHR 0x0C then [CHR 0x5C, CHR ''f'']
      else if of_char c < (32 :: nat) \<or> 126 < (of_char c :: nat)
      then [CHR 0x5C, CHR ''u'', CHR ''0'', CHR ''0''] @ hex_byte c
      else [c])"

definition json_string :: "string \<Rightarrow> string" where
  "json_string s = [CHR 0x22] @ concat (map json_char s) @ [CHR 0x22]"

fun json_dumps :: "(rat \<Rightarrow> string) \<Rightarrow> string \<Rightarrow> string \<Rightarrow> json \<Rightarrow> string" where
  "json_dumps fr isep ksep JNull = ''null''"
| "json_dumps fr isep ksep (JBool b) = (if b then ''true'' else ''false'')"
| "json_dumps fr isep ksep (JInt i) = show_int i"
| "json_dumps fr isep ksep (JFloat f) =
     (case f of Fin r \<Rightarrow> fr r | PosInf \<Rightarrow> ''Infinity'' | NegInf \<Rightarrow> ''-Infinity'' | NaN \<Rightarrow> ''NaN'')"
| "json_dumps fr isep ksep (JStr s) = json_string s"
| "json_dumps fr isep ksep (JList xs) = ''['' @ py_join isep (map (json_dumps fr isep ksep) xs) @ '']''"
| "json_dumps fr isep ksep (JObj kvs) =
     ''{'' @ py_join isep (map (\<lambda>kv. json_string (fst kv) @ ksep @ json_dumps fr isep ksep (snd kv)) kvs) @ ''}''"

definition repr_char :: "char \<Rightarrow> char \<Rightarrow> string" where
  "repr_char q c =
     (if c = q \<or> c = CHR 0x5C then [CHR 0x5C, c]
      else if c = CHR 0x0A then [CHR 0x5C, CHR ''n'']
      else if c = CHR 0x0D then [CHR 0x5C, CHR ''r'']
      else if c = CHR 0x09 then [CHR 0x5C, CHR ''t'']
      else if of_char c < (32 :: nat) \<or> (127 \<le> (of_char c :: nat) \<and> of_char c \<le> (160 :: nat)) \<or> c = CHR 0xAD
      then [CHR 0x5C, CHR ''x''] @ hex_byte c
      else [c])"

definition repr_string :: "string \<Rightarrow> string" where
  "repr_string s =
     (let q = (if CHR 0x27 \<in> set s \<and> CHR 0x22 \<notin> set s then CHR 0x22 else CHR 0x27)
      in [q] @ concat (map (repr_char q) s) @ [q])"

text \<open>The dataclass \<open>repr\<close>; the image bytes are declared with \<open>repr=False\<close>.\<close>

definition repr_part :: "part \<Rightarrow> string" where
  "repr_part p = (case p of
       PText s \<Rightarrow> repr_string s
     | PImage i \<Rightarrow> ''ImagePayload(mime_type='' @ repr_string (mime_type i) @
         '', width='' @ show_int (image_width i) @ '', height='' @ show_int (image_height i) @ '')'')"

definition repr_multi :: "part list \<Rightarrow> string" where
  "repr_multi ps = ''MultimodalContent(parts=('' @ py_join '', '' (map repr_part ps) @
     (if length ps = 1 then '','' else '''') @ ''))''"

text \<open>\<open>f"{content}"\<close> of normalised content.\<close>

definition format_content :: "content \<Rightarrow> string" where
  "format_content c = (case c of Plain (JStr s) \<Rightarrow> s | Plain v \<Rightarrow> py_str v | Multi ps \<Rightarrow> repr_multi ps)"

section \<open>Chat messages\<close>

record chat_message =
  msg_role :: string
  msg_content :: content
  msg_tool_calls :: "json list option"
  msg_tool_call_id :: "string option"

datatype chat_error = Vision vision_error | TypeErr | AttributeErr | BadInput

definition vision :: "(vision_error, 'a) result \<Rightarrow> (chat_error, 'a) result" where
  "vision r = (case r of Inl e \<Rightarrow> Inl (Vision e) | Inr a \<Rightarrow> Inr a)"

lemma vision_eq [simp]:
  "vision r = Inr a \<longleftrightarrow> r = Inr a" "vision (Inr a) = Inr a" "vision (Inl e) = Inl (Vision e)"
  by (cases r; simp add: vision_def)+

definition tool_result_text :: "string \<Rightarrow> content \<Rightarrow> string" where
  "tool_result_text call_id c =
     ''[tool result'' @ (if call_id = [] then '''' else '' (call '' @ call_id @ '')'') @ '']'' @
     [CHR 0x0A] @ format_content c"

text \<open>One entry of the \<open>calls\<close> list; \<open>.get\<close> on something that is no dict fails.\<close>

definition call_summary :: "json \<Rightarrow> (chat_error, json) result" where
  "call_summary call =
     (let f = get_or call ''function'' (JObj [])
      in if is_obj call \<and> is_obj f
         then Inr (JObj [(''name'', get_or f ''name'' (JStr '''')),
                         (''arguments'', get_or f ''arguments'' (JStr ''{}''))])
         else Inl AttributeErr)"

fun map_result :: "('a \<Rightarrow> ('e, 'b) result) \<Rightarrow> 'a list \<Rightarrow> ('e, 'b list) result" where
  "map_result f [] = Inr []"
| "map_result f (x # xs) = bindr (f x) (\<lambda>y. bindr (map_result f xs) (\<lambda>ys. Inr (y # ys)))"

definition merge_calls :: "(rat \<Rightarrow> string) \<Rightarrow> content \<Rightarrow> json list \<Rightarrow> (chat_error, content) result" where
  "merge_calls fr c calls =
     (let dumped = json_dumps fr '', '' '': '' (JList calls)
      in case c of
           Plain (JStr s) \<Rightarrow> Inr (Plain (JStr ((if s = [] then '''' else s @ [CHR 0x0A]) @ dumped)))
         | _ \<Rightarrow> Inl TypeErr)"

definition normalize_message ::
  "(rat \<Rightarrow> string) \<Rightarrow> decoders \<Rightarrow> chat_message \<Rightarrow> (chat_error, message) result" where
  "normalize_message fr dec m =
     bindr (vision (content_to_transport_text dec (msg_content m))) (\<lambda>c.
       if msg_role m = ''tool''
       then Inr (''user'', Plain (JStr (tool_result_text
              (case msg_tool_call_id m of None \<Rightarrow> [] | Some i \<Rightarrow> i) c)))
       else (case (msg_role m = ''assistant'', msg_tool_calls m) of
               (True, Some (call # calls)) \<Rightarrow>
                 bindr (map_result call_summary (call # calls)) (\<lambda>cs.
                   bindr (merge_calls fr c cs) (\<lambda>merged. Inr (''assistant'', merged)))
             | _ \<Rightarrow> Inr (msg_role m, c)))"

definition normalize_messages ::
  "(rat \<Rightarrow> string) \<Rightarrow> decoders \<Rightarrow> chat_message list \<Rightarrow> string \<Rightarrow> (chat_error, message list) result" where
  "normalize_messages fr dec ms override =
     (if override = [] then map_result (normalize_message fr dec) ms
      else case ms of
        m # rest \<Rightarrow>
          if msg_role m = ''system'' then
            bindr (vision (content_to_transport_text dec (msg_content m))) (\<lambda>c.
            bindr (vision (plain_text dec default_placeholder c)) (\<lambda>t.
            bindr (map_result (normalize_message fr dec) rest) (\<lambda>out.
              let original = py_strip t;
                  combined = (if original = [] then py_strip override
                    else original @ [CHR 0x0A, CHR 0x0A] @ py_strip override)
              in Inr ((''system'', Plain (JStr combined)) # out))))
          else bindr (map_result (normalize_message fr dec) ms) (\<lambda>out.
                 Inr ((''system'', Plain (JStr override)) # out))
      | [] \<Rightarrow> Inr [(''system'', Plain (JStr override))])"

definition render_chatml :: "text_message list \<Rightarrow> bool \<Rightarrow> string" where
  "render_chatml ms add_generation_prompt =
     concat (map (\<lambda>(role, t). ''<|im_start|>'' @ role @ [CHR 0x0A] @ t @ ''<|im_end|>'' @ [CHR 0x0A]) ms) @
     (if add_generation_prompt then ''<|im_start|>assistant'' @ [CHR 0x0A] else [])"

section \<open>Responses input\<close>

definition response_item ::
  "(rat \<Rightarrow> string) \<Rightarrow> decoders \<Rightarrow> json \<Rightarrow> (chat_error, message) result" where
  "response_item fr dec item =
     (let ty = py_str (py_or (get item ''type'') (JStr ''''))
      in if ty = ''function_call_output'' then
           let call_id = py_strip (py_str (py_or (py_or (get item ''call_id'') (get item ''id'')) (JStr '''')))
           in bindr (vision (content_to_transport_text dec (Plain (get_or item ''output'' (JStr ''''))))) (\<lambda>c.
                Inr (''user'', Plain (JStr (tool_result_text call_id c))))
         else if ty = ''function_call'' then
           let name = py_str (py_or (get item ''name'') (JStr ''''));
               args = get_or item ''arguments'' (JStr ''{}'');
               args' = (if is_str args then args else JStr (json_dumps fr '', '' '': '' args))
           in Inr (''assistant'', Plain (JStr (json_dumps fr '','' '':''
                (JList [JObj [(''name'', JStr name), (''arguments'', args')]]))))
         else
           let role = py_str (get_or item ''role'' (JStr ''user''))
           in bindr (vision (content_to_transport_text dec (Plain (get_or item ''content'' (JStr ''''))))) (\<lambda>c.
                Inr (if role = ''developer'' then ''system'' else role, c)))"

definition responses_input_to_messages ::
  "(rat \<Rightarrow> string) \<Rightarrow> decoders \<Rightarrow> json \<Rightarrow> string option \<Rightarrow> (chat_error, message list) result" where
  "responses_input_to_messages fr dec input instructions =
     (let lead = (case instructions of
          Some s \<Rightarrow> if s = [] then [] else [(''system'', Plain (JStr s))] | None \<Rightarrow> [])
      in case input of
           JStr s \<Rightarrow> Inr (lead @ [(''user'', Plain (JStr s))])
         | JList items \<Rightarrow> bindr (map_result (response_item fr dec) (filter is_obj items)) (\<lambda>out. Inr (lead @ out))
         | _ \<Rightarrow> Inl BadInput)"

section \<open>What normalisation guarantees\<close>

definition transportable :: "content \<Rightarrow> bool" where
  "transportable c = (case c of Plain (JStr _) \<Rightarrow> True | Plain _ \<Rightarrow> False | Multi ps \<Rightarrow> True)"

lemma transport_text_transportable:
  assumes "content_to_transport_text dec c = Inr n"
  shows "transportable n"
proof -
  obtain v where v: "validate_content dec c = Inr v"
    and "(if v = Plain JNull then Inr (Plain (JStr [])) else Inr v) = (Inr n :: (vision_error, content) result)"
    using assms unfolding content_to_transport_text_def bindr_eq_Inr by blast
  then have n: "n = (if v = Plain JNull then Plain (JStr []) else v)" by (simp split: if_splits)
  from v show ?thesis
    by (cases rule: validate_content_cases) (auto simp: n transportable_def)
qed

lemma map_result_Inr:
  "map_result f xs = Inr ys \<longleftrightarrow> list_all2 (\<lambda>x y. f x = Inr y) xs ys"
proof (induction xs arbitrary: ys)
  case (Cons x xs)
  then show ?case by (cases ys) (auto simp: bindr_eq_Inr)
qed auto

lemma normalize_message_ready:
  assumes "normalize_message fr dec m = Inr (role, c)"
  shows "role \<noteq> ''tool'' \<and> transportable c \<and>
    (role = msg_role m \<or> msg_role m = ''tool'' \<and> role = ''user'')"
proof -
  obtain n where n: "content_to_transport_text dec (msg_content m) = Inr n"
    using assms by (auto simp: normalize_message_def bindr_eq_Inr)
  have rest: "(if msg_role m = ''tool''
       then Inr (''user'', Plain (JStr (tool_result_text
              (case msg_tool_call_id m of None \<Rightarrow> [] | Some i \<Rightarrow> i) n)))
       else (case (msg_role m = ''assistant'', msg_tool_calls m) of
               (True, Some (call # calls)) \<Rightarrow>
                 bindr (map_result call_summary (call # calls)) (\<lambda>cs.
                   bindr (merge_calls fr n cs) (\<lambda>merged. Inr (''assistant'', merged)))
             | _ \<Rightarrow> Inr (msg_role m, n))) = Inr (role, c)"
    using assms by (simp only: normalize_message_def n vision_eq bindr_simps)
  show ?thesis
  proof (cases "msg_role m = ''tool''")
    case True
    with rest show ?thesis by (auto simp: transportable_def)
  next
    case False
    show ?thesis
    proof (cases "msg_role m = ''assistant'' \<and> (\<exists>call calls. msg_tool_calls m = Some (call # calls))")
      case True
      with rest obtain cs where "merge_calls fr n cs = Inr c" "role = ''assistant''"
        by (auto simp: bindr_eq_Inr)
      with True show ?thesis by (auto simp: merge_calls_def transportable_def split: content.splits json.splits)
    next
      case noncall: False
      have "role = msg_role m \<and> c = n"
        using False noncall rest by (auto split: bool.splits option.splits list.splits)
      with transport_text_transportable [OF n] False show ?thesis by simp
    qed
  qed
qed

definition ready :: "message \<Rightarrow> bool" where
  "ready rc \<longleftrightarrow> fst rc \<noteq> ''tool'' \<and> transportable (snd rc)"

lemma normalize_map_ready:
  assumes "map_result (normalize_message fr dec) ms = Inr out"
  shows "list_all ready out \<and> length out = length ms"
proof -
  from assms have all2: "list_all2 (\<lambda>m y. normalize_message fr dec m = Inr y) ms out"
    by (simp add: map_result_Inr)
  then have "length out = length ms" by (simp add: list_all2_lengthD)
  moreover have "list_all ready out"
    using all2
  proof (induction rule: list_all2_induct)
    case (Cons m ms y ys)
    then show ?case using normalize_message_ready [of fr dec m "fst y" "snd y"] by (simp add: ready_def)
  qed simp
  ultimately show ?thesis by simp
qed

definition leads_with_system :: "chat_message list \<Rightarrow> bool" where
  "leads_with_system ms \<longleftrightarrow> (case ms of [] \<Rightarrow> False | m # _ \<Rightarrow> msg_role m = ''system'')"

text \<open>What normalisation hands to a template: no message keeps the \<open>tool\<close> role, every
  content is text or validated multimodal parts, and messages are neither dropped nor added
  but for one leading system message when the tool instructions need one.\<close>

lemma normalized_messages_ready:
  assumes "normalize_messages fr dec ms override = Inr out"
  shows "list_all ready out \<and>
    length out = length ms + (if override \<noteq> [] \<and> \<not> leads_with_system ms then 1 else 0)"
proof (cases ms)
  case Nil
  with assms show ?thesis
    by (auto simp: normalize_messages_def leads_with_system_def ready_def transportable_def split: if_splits)
next
  case (Cons m rest)
  have added: "ready (''system'', Plain (JStr t))" for t by (simp add: ready_def transportable_def)
  from assms Cons consider
      "override = []" "map_result (normalize_message fr dec) ms = Inr out"
    | t out' where "override \<noteq> []" "msg_role m = ''system''" "out = (''system'', Plain (JStr t)) # out'"
        "map_result (normalize_message fr dec) rest = Inr out'"
    | out' where "override \<noteq> []" "msg_role m \<noteq> ''system''" "out = (''system'', Plain (JStr override)) # out'"
        "map_result (normalize_message fr dec) ms = Inr out'"
    unfolding normalize_messages_def by (auto simp: bindr_eq_Inr Let_def simp del: map_result.simps split: if_splits)
  then show ?thesis
    by cases (use Cons added in \<open>auto simp: leads_with_system_def simp del: map_result.simps dest!: normalize_map_ready\<close>)
qed

lemma normalized_messages_ready_witness:
  "\<exists>out. normalize_messages (\<lambda>_. '''') no_decoders
     [\<lparr>msg_role = ''user'', msg_content = Plain (JStr ''hi''), msg_tool_calls = None, msg_tool_call_id = None\<rparr>,
      \<lparr>msg_role = ''tool'', msg_content = Plain (JStr ''42''), msg_tool_calls = None, msg_tool_call_id = Some ''c1''\<rparr>]
     ''use tools'' = Inr out \<and> list_all ready out \<and> length out = 3"
proof -
  let ?ms = "[\<lparr>msg_role = ''user'', msg_content = Plain (JStr ''hi''), msg_tool_calls = None, msg_tool_call_id = None\<rparr>,
      \<lparr>msg_role = ''tool'', msg_content = Plain (JStr ''42''), msg_tool_calls = None, msg_tool_call_id = Some ''c1''\<rparr>]"
  let ?out = "[(''system'', Plain (JStr ''use tools'')), (''user'', Plain (JStr ''hi'')),
      (''user'', Plain (JStr (''[tool result (call c1)]'' @ [CHR 0x0A] @ ''42'')))]"
  have out: "normalize_messages (\<lambda>_. '''') no_decoders ?ms ''use tools'' = Inr ?out" by code_simp
  from out normalized_messages_ready [OF out] show ?thesis by (auto simp: leads_with_system_def)
qed

lemma sublist_py_strip: "sublist (py_strip s) s"
proof -
  have "prefix (py_strip s) (py_lstrip s)"
    using py_rstrip_prefix [of "py_lstrip s"] by (auto simp: py_strip_def prefix_def)
  moreover have "suffix (py_lstrip s) s" by (simp add: py_lstrip_def suffix_dropWhile)
  ultimately show ?thesis
    by (meson prefix_imp_sublist sublist_order.order.trans suffix_imp_sublist)
qed

lemma plain_text_transport:
  assumes c: "content_to_transport_text dec c0 = Inr c" and t: "plain_text dec ph c = Inr t"
  shows "plain_text dec ph c0 = Inr t"
proof -
  obtain v where v: "validate_content dec c0 = Inr v"
    and c_v: "c = (if v = Plain JNull then Plain (JStr []) else v)"
    using c unfolding content_to_transport_text_def bindr_eq_Inr by (metis sum.inject(2))
  show ?thesis
  proof (cases "\<exists>ps. c0 = Plain (JList ps)")
    case True
    then obtain ps where ps: "c0 = Plain (JList ps)" by blast
    from v show ?thesis
      by (cases rule: validate_content_cases) (use v ps c_v t in \<open>auto simp: plain_text_def py_str_def\<close>)
  next
    case False
    with v c_v t show ?thesis
      by (auto simp: validate_content_def plain_text_def split: content.splits json.splits)
  qed
qed

text \<open>The tool instructions always end up in the first message, whose role is
  \<open>system\<close>, and no caller message is lost for them: an original system text stays in front.\<close>

lemma override_in_first_system_message:
  assumes "normalize_messages fr dec ms override = Inr out" and "override \<noteq> []"
  shows "\<exists>t rest. out = (''system'', Plain (JStr t)) # rest \<and> sublist (py_strip override) t \<and>
    (leads_with_system ms \<longrightarrow>
      (\<exists>original. plain_text dec default_placeholder (msg_content (hd ms)) = Inr original \<and>
        prefix (py_strip original) t))"
proof (cases "leads_with_system ms")
  case False
  with assms show ?thesis
    by (cases ms) (auto simp: normalize_messages_def leads_with_system_def bindr_eq_Inr sublist_py_strip)
next
  case True
  then obtain m ms' where ms: "ms = m # ms'" "msg_role m = ''system''"
    by (auto simp: leads_with_system_def split: list.splits)
  with assms obtain c t rest where c: "content_to_transport_text dec (msg_content m) = Inr c"
    and t: "plain_text dec default_placeholder c = Inr t"
    and out: "out = (''system'', Plain (JStr (if py_strip t = [] then py_strip override
        else py_strip t @ [CHR 0x0A, CHR 0x0A] @ py_strip override))) # rest"
    by (auto simp: normalize_messages_def bindr_eq_Inr Let_def)
  have "plain_text dec default_placeholder (msg_content m) = Inr t"
    by (rule plain_text_transport [OF c t])
  moreover have "sublist (py_strip override) ((py_strip t @ [CHR 0x0A, CHR 0x0A]) @ py_strip override)"
    by (rule suffix_imp_sublist) (rule suffixI, rule refl)
  ultimately show ?thesis using ms out by auto
qed

lemma override_in_first_system_message_witness:
  "\<exists>t rest. normalize_messages (\<lambda>_. '''') no_decoders
     [\<lparr>msg_role = ''system'', msg_content = Plain (JStr '' be kind ''), msg_tool_calls = None, msg_tool_call_id = None\<rparr>]
     ''use tools'' = Inr ((''system'', Plain (JStr t)) # rest) \<and> sublist ''use tools'' t \<and> prefix ''be kind'' t"
proof -
  let ?ms = "[\<lparr>msg_role = ''system'', msg_content = Plain (JStr '' be kind ''), msg_tool_calls = None, msg_tool_call_id = None\<rparr>]"
  let ?out = "[(''system'', Plain (JStr (''be kind'' @ [CHR 0x0A, CHR 0x0A] @ ''use tools'')))]"
  have out: "normalize_messages (\<lambda>_. '''') no_decoders ?ms ''use tools'' = Inr ?out" by code_simp
  have strip: "py_strip ''use tools'' = ''use tools''" "py_strip '' be kind '' = ''be kind''" by code_simp+
  from override_in_first_system_message [OF out] out strip show ?thesis
    by (auto simp: leads_with_system_def plain_text_def)
qed

end
