(* ===== verification/LibrarySchema.thy ===== *)
theory LibrarySchema
  imports ModelRegistry StorageGuard ChatFormat
begin

text \<open>
  \<open>app/model_library_schema.py\<close> with \<open>ModelRegisterRequest\<close> of \<open>app/openai_api.py\<close>: what a
  model definition must satisfy to be registered, and how a manifest of curated models is checked and normalised.
  How Pydantic reads a JSON value as \<open>str\<close>, \<open>int\<close> or \<open>bool\<close>, the text of a value and the checksum of
  a catalogue come from outside.
\<close>

section \<open>Registration requests\<close>

record pydantic =
  as_text :: "json \<Rightarrow> string option"
  as_number :: "json \<Rightarrow> int option"
  as_flag :: "json \<Rightarrow> bool option"

record register_request =
  rg_model_id :: string
  rg_name :: string
  rg_source_model :: string
  rg_backend :: string
  rg_weight_format :: string
  rg_device :: string
  rg_context_len :: int
  rg_output_tokens :: int
  rg_description :: "string option"
  rg_trust :: bool

definition limited :: "nat \<Rightarrow> string \<Rightarrow> bool" where
  "limited hi s \<longleftrightarrow> s \<noteq> [] \<and> length s \<le> hi"

text \<open>A value that satisfies the constraints of its field; a field that is absent keeps its default unchecked.\<close>

definition checked :: "('a \<Rightarrow> bool) \<Rightarrow> 'a option \<Rightarrow> 'a option" where
  "checked ok v = Option.bind v (\<lambda>x. if ok x then Some x else None)"

definition required :: "(json \<Rightarrow> 'a option) \<Rightarrow> ('a \<Rightarrow> bool) \<Rightarrow> json \<Rightarrow> string \<Rightarrow> 'a option" where
  "required conv ok raw key = (if has_key raw key then checked ok (conv (get raw key)) else None)"

definition defaulted :: "(json \<Rightarrow> 'a option) \<Rightarrow> ('a \<Rightarrow> bool) \<Rightarrow> json \<Rightarrow> string \<Rightarrow> 'a \<Rightarrow> 'a option" where
  "defaulted conv ok raw key d = (if has_key raw key then checked ok (conv (get raw key)) else Some d)"

definition device_of :: "string \<Rightarrow> string option" where
  "device_of d = (case validate_device_expression [] (Some d) None of Inl e \<Rightarrow> None | Inr t \<Rightarrow> Some t)"

definition request_device :: "pydantic \<Rightarrow> json \<Rightarrow> string option" where
  "request_device env raw =
     (if \<not> has_key raw ''recommended_device'' then Some ''NPU''
      else Option.bind (required (as_text env) (limited 64) raw ''recommended_device'') device_of)"

definition optional_text :: "pydantic \<Rightarrow> json \<Rightarrow> string option option" where
  "optional_text env v = (case v of JNull \<Rightarrow> Some None | _ \<Rightarrow> map_option Some (as_text env v))"

definition token_budget_ok :: "string \<Rightarrow> int \<Rightarrow> int \<Rightarrow> bool" where
  "token_budget_ok be ctx out \<longleftrightarrow>
     (if be = ''openvino-embeddings'' then out = 0 else \<not> (out < 1 \<or> out \<ge> ctx))"

definition model_validate :: "pydantic \<Rightarrow> json \<Rightarrow> register_request option" where
  "model_validate env raw =
     Option.bind (required (as_text env) valid_model_id raw ''model_id'') (\<lambda>mid.
     Option.bind (required (as_text env) (limited 160) raw ''name'') (\<lambda>name.
     Option.bind (required (as_text env) (limited 240) raw ''source_model'') (\<lambda>src.
     Option.bind (defaulted (as_text env) (\<lambda>b. b \<in> set supported_backends) raw ''backend'' ''openvino-genai'') (\<lambda>be.
     Option.bind (defaulted (as_text env) (\<lambda>f. f \<in> set supported_weight_formats) raw ''weight_format'' ''int4'') (\<lambda>fmt.
     Option.bind (request_device env raw) (\<lambda>dev.
     Option.bind (defaulted (as_number env) (\<lambda>i. 128 \<le> i \<and> i \<le> 262144) raw ''max_context_len'' 2048) (\<lambda>ctx.
     Option.bind (defaulted (as_number env) (\<lambda>i. 0 \<le> i \<and> i \<le> 65536) raw ''max_output_tokens'' 512) (\<lambda>out.
     Option.bind (defaulted (optional_text env) (\<lambda>_. True) raw ''description'' None) (\<lambda>desc.
     Option.bind (defaulted (as_flag env) (\<lambda>_. True) raw ''trust_remote_code'' False) (\<lambda>trust.
     if \<not> token_budget_ok be ctx out then None
     else Some \<lparr>rg_model_id = mid, rg_name = name, rg_source_model = src, rg_backend = be, rg_weight_format = fmt,
       rg_device = dev, rg_context_len = ctx, rg_output_tokens = out, rg_description = desc, rg_trust = trust\<rparr>))))))))))"

definition description_json :: "string option \<Rightarrow> json" where
  "description_json v = (case v of None \<Rightarrow> JNull | Some s \<Rightarrow> JStr s)"

definition model_dump :: "register_request \<Rightarrow> json" where
  "model_dump r = JObj
     [(''model_id'', JStr (rg_model_id r)), (''name'', JStr (rg_name r)), (''source_model'', JStr (rg_source_model r)),
      (''backend'', JStr (rg_backend r)), (''weight_format'', JStr (rg_weight_format r)),
      (''recommended_device'', JStr (rg_device r)), (''max_context_len'', JInt (rg_context_len r)),
      (''max_output_tokens'', JInt (rg_output_tokens r)), (''description'', description_json (rg_description r)),
      (''trust_remote_code'', JBool (rg_trust r))]"

text \<open>What every validated request satisfies.\<close>

definition request_ok :: "register_request \<Rightarrow> bool" where
  "request_ok r \<longleftrightarrow> valid_model_id (rg_model_id r) \<and> limited 160 (rg_name r) \<and> limited 240 (rg_source_model r) \<and>
     rg_backend r \<in> set supported_backends \<and> rg_weight_format r \<in> set supported_weight_formats \<and>
     (limited 64 (rg_device r) \<and> (\<exists>e. device_ok e \<and> rg_device r = normalized e)) \<and>
     128 \<le> rg_context_len r \<and> rg_context_len r \<le> 262144 \<and>
     0 \<le> rg_output_tokens r \<and> rg_output_tokens r \<le> 65536 \<and>
     token_budget_ok (rg_backend r) (rg_context_len r) (rg_output_tokens r)"

text \<open>Pydantic takes a value of the declared type as it is.\<close>

definition reads_exactly :: "pydantic \<Rightarrow> bool" where
  "reads_exactly env \<longleftrightarrow> (\<forall>s. as_text env (JStr s) = Some s) \<and> (\<forall>i. as_number env (JInt i) = Some i) \<and>
     (\<forall>b. as_flag env (JBool b) = Some b)"

lemma checked_Some [simp]: "checked ok v = Some x \<longleftrightarrow> v = Some x \<and> ok x"
  by (auto simp: checked_def bind_eq_Some_conv)

lemma required_Some: "required conv ok raw key = Some x \<Longrightarrow> ok x"
  by (auto simp: required_def split: if_splits)

lemma defaulted_Some: "defaulted conv ok raw key d = Some x \<Longrightarrow> ok x \<or> x = d"
  by (auto simp: defaulted_def split: if_splits)

text \<open>Normalising a device expression never makes it longer.\<close>

lemma length_py_strip: "length (py_strip s) \<le> length s"
  unfolding py_strip_def py_rstrip_def py_lstrip_def
  by (metis length_dropWhile_le length_rev le_trans)

lemma length_join_map:
  assumes "\<And>p. length (f p) \<le> length p"
  shows "length (py_join sep (map f ps)) \<le> length (py_join sep ps)"
proof (induction sep ps rule: py_join.induct)
  case (2 sep p)
  then show ?case using assms by simp
next
  case (3 sep p q ps)
  then show ?case using add_mono [OF assms [of p] "3.IH"] by simp
qed simp

lemma length_split1:
  assumes "py_split1 c t = [a, b]"
  shows "length a + 1 + length b = length t"
proof -
  have a: "a = takeWhile (\<lambda>x. x \<noteq> c) t" and b: "b = tl (dropWhile (\<lambda>x. x \<noteq> c) t)" and c: "c \<in> set t"
    using assms by (auto simp: py_split1_def split: if_splits)
  have "dropWhile (\<lambda>x. x \<noteq> c) t \<noteq> []" using c by (simp add: dropWhile_eq_Nil_conv)
  then have "length (dropWhile (\<lambda>x. x \<noteq> c) t) = 1 + length b" unfolding b by simp
  then show ?thesis using takeWhile_dropWhile_id [of "\<lambda>x. x \<noteq> c" t] unfolding a
    by (metis add.assoc length_append)
qed

lemma length_normalized:
  assumes "parse_device_expression (Some d) None = Inr e"
  shows "length (normalized e) \<le> length d"
proof -
  define t where "t = py_upper (py_strip d)"
  have t: "length t \<le> length d" by (simp add: t_def py_upper_def length_py_strip)
  have "length (normalized e) \<le> length t"
  proof (cases "py_split1 (CHR '':'') t")
    case Nil
    then show ?thesis by (simp add: py_split1_def split: if_splits)
  next
    case (Cons a rest)
    show ?thesis
    proof (cases rest)
      case Nil
      then show ?thesis using assms Cons
        by (auto simp: parse_device_expression_def t_def [symmetric] Let_def normalized_def split: if_splits)
    next
      case (Cons b more)
      then have split: "py_split1 (CHR '':'') t = [a, b]"
        using \<open>py_split1 (CHR '':'') t = a # rest\<close> by (auto simp: py_split1_def split: if_splits)
      let ?ds = "map py_strip (py_split (CHR '','') (py_strip b))"
      have e: "e = \<lparr>kind = py_strip a, devices = ?ds\<rparr>"
        using assms split by (auto simp: parse_device_expression_def t_def [symmetric] Let_def bindr_eq_Inr split: if_splits)
      have "length (py_join '','' ?ds) \<le> length (py_join '','' (py_split (CHR '','') (py_strip b)))"
        by (rule length_join_map) (rule length_py_strip)
      also have "\<dots> = length (py_strip b)" by (simp add: py_join_split)
      also have "\<dots> \<le> length b" by (rule length_py_strip)
      finally show ?thesis
        using length_split1 [OF split] length_py_strip [of a] e by (simp add: normalized_def)
    qed
  qed
  then show ?thesis using t by simp
qed

lemma device_of_Some:
  assumes "device_of d = Some t" and "limited 64 d"
  shows "limited 64 t \<and> (\<exists>e. device_ok e \<and> t = normalized e)"
proof -
  from assms(1) obtain e where e: "parse_device_expression (Some d) None = Inr e" "t = normalized e"
    by (auto simp: device_of_def validate_device_expression_def bindr_eq_Inr split: sum.splits)
  have "parse_device_expression (Some t) None = Inr e"
    unfolding e(2) by (rule parse_normalized [OF parse_device_ok [OF e(1)]])
  then have "t \<noteq> []" by (auto simp: parse_device_expression_def py_strip_def py_lstrip_def py_rstrip_def)
  then show ?thesis
    using e assms(2) length_normalized [OF e(1)] parse_device_ok [OF e(1)] by (auto simp: limited_def)
qed

lemma npu_device: "device_ok \<lparr>kind = ''NPU'', devices = []\<rparr> \<and> normalized \<lparr>kind = ''NPU'', devices = []\<rparr> = ''NPU''"
  by (simp add: device_ok_def normalized_def is_physical_token_def physical_bases_def)

lemma request_device_Some:
  "request_device env raw = Some t \<Longrightarrow> limited 64 t \<and> (\<exists>e. device_ok e \<and> t = normalized e)"
  using npu_device
  by (auto simp: request_device_def bind_eq_Some_conv limited_def split: if_splits
      dest!: required_Some device_of_Some intro: exI [of _ "\<lparr>kind = ''NPU'', devices = []\<rparr>"])

lemma model_validate_ok:
  assumes "model_validate env raw = Some r"
  shows "request_ok r"
proof -
  from assms obtain mid name src be fmt dev ctx out desc trust where
    mid: "required (as_text env) valid_model_id raw ''model_id'' = Some mid"
    and name: "required (as_text env) (limited 160) raw ''name'' = Some name"
    and src: "required (as_text env) (limited 240) raw ''source_model'' = Some src"
    and be: "defaulted (as_text env) (\<lambda>b. b \<in> set supported_backends) raw ''backend'' ''openvino-genai'' = Some be"
    and fmt: "defaulted (as_text env) (\<lambda>f. f \<in> set supported_weight_formats) raw ''weight_format'' ''int4'' = Some fmt"
    and dev: "request_device env raw = Some dev"
    and ctx: "defaulted (as_number env) (\<lambda>i. 128 \<le> i \<and> i \<le> 262144) raw ''max_context_len'' 2048 = Some ctx"
    and out: "defaulted (as_number env) (\<lambda>i. 0 \<le> i \<and> i \<le> 65536) raw ''max_output_tokens'' 512 = Some out"
    and desc: "defaulted (optional_text env) (\<lambda>_. True) raw ''description'' None = Some desc"
    and trust: "defaulted (as_flag env) (\<lambda>_. True) raw ''trust_remote_code'' False = Some trust"
    and budget: "token_budget_ok be ctx out"
    and r: "r = \<lparr>rg_model_id = mid, rg_name = name, rg_source_model = src, rg_backend = be, rg_weight_format = fmt,
       rg_device = dev, rg_context_len = ctx, rg_output_tokens = out, rg_description = desc, rg_trust = trust\<rparr>"
    unfolding model_validate_def bind_eq_Some_conv by (elim exE conjE) (rule that, assumption+, (simp split: if_splits)+)
  have dflt: "''openvino-genai'' \<in> set supported_backends" "''int4'' \<in> set supported_weight_formats"
    by (simp_all add: supported_backends_def supported_weight_formats_def)
  have "be \<in> set supported_backends" "fmt \<in> set supported_weight_formats"
    using defaulted_Some [OF be] defaulted_Some [OF fmt] dflt by blast+
  moreover have "128 \<le> ctx \<and> ctx \<le> 262144" "0 \<le> out \<and> out \<le> 65536"
    using defaulted_Some [OF ctx] defaulted_Some [OF out] by auto
  ultimately show ?thesis
    using required_Some [OF mid] required_Some [OF name] required_Some [OF src] request_device_Some [OF dev] budget
    unfolding request_ok_def r by simp
qed

lemma device_of_normalized: "device_ok e \<Longrightarrow> device_of (normalized e) = Some (normalized e)"
  by (simp add: device_of_def validate_device_expression_def parse_normalized)

lemma model_dump_fields:
  "get (model_dump r) ''model_id'' = JStr (rg_model_id r)" "has_key (model_dump r) ''model_id''"
  "get (model_dump r) ''name'' = JStr (rg_name r)" "has_key (model_dump r) ''name''"
  "get (model_dump r) ''source_model'' = JStr (rg_source_model r)" "has_key (model_dump r) ''source_model''"
  "get (model_dump r) ''backend'' = JStr (rg_backend r)" "has_key (model_dump r) ''backend''"
  "get (model_dump r) ''weight_format'' = JStr (rg_weight_format r)" "has_key (model_dump r) ''weight_format''"
  "get (model_dump r) ''recommended_device'' = JStr (rg_device r)" "has_key (model_dump r) ''recommended_device''"
  "get (model_dump r) ''max_context_len'' = JInt (rg_context_len r)" "has_key (model_dump r) ''max_context_len''"
  "get (model_dump r) ''max_output_tokens'' = JInt (rg_output_tokens r)" "has_key (model_dump r) ''max_output_tokens''"
  "get (model_dump r) ''description'' = description_json (rg_description r)" "has_key (model_dump r) ''description''"
  "get (model_dump r) ''trust_remote_code'' = JBool (rg_trust r)" "has_key (model_dump r) ''trust_remote_code''"
  by (simp_all add: model_dump_def)

text \<open>A validated request that is dumped is validated again, unchanged.\<close>

lemma model_validate_dump:
  assumes "request_ok r" and "reads_exactly env"
  shows "model_validate env (model_dump r) = Some r"
proof -
  obtain e where e: "device_ok e" "rg_device r = normalized e" "limited 64 (rg_device r)"
    using assms(1) by (auto simp: request_ok_def)
  have dev: "request_device env (model_dump r) = Some (rg_device r)"
    using e assms(2) device_of_normalized [OF e(1)]
    by (simp add: request_device_def required_def model_dump_fields reads_exactly_def checked_def)
  have desc: "optional_text env (description_json (rg_description r)) = Some (rg_description r)"
    using assms(2) by (cases "rg_description r") (simp_all add: optional_text_def description_json_def reads_exactly_def)
  show ?thesis
    using assms unfolding model_validate_def dev required_def defaulted_def checked_def
    by (simp add: model_dump_fields desc request_ok_def reads_exactly_def)
qed

section \<open>Numbers and certifications\<close>

definition safe_float :: "json \<Rightarrow> rat \<Rightarrow> rat" where
  "safe_float v d = (case v of JBool b \<Rightarrow> d | _ \<Rightarrow> (case json_float v of Inr (Fin r) \<Rightarrow> r | _ \<Rightarrow> d))"

definition safe_int :: "json \<Rightarrow> int \<Rightarrow> int" where
  "safe_int v d = (case v of JBool b \<Rightarrow> d | _ \<Rightarrow> (case json_int v of Inr i \<Rightarrow> i | _ \<Rightarrow> d))"

definition unstated :: "json \<Rightarrow> bool" where
  "unstated v = (case v of JNull \<Rightarrow> True | JStr s \<Rightarrow> s = [] | JBool b \<Rightarrow> True | _ \<Rightarrow> False)"

definition optional_nonnegative_float :: "json \<Rightarrow> rat option" where
  "optional_nonnegative_float v =
     (if unstated v then None else case json_float v of Inr (Fin r) \<Rightarrow> Some (max r 0) | _ \<Rightarrow> None)"

definition optional_nonnegative_int :: "json \<Rightarrow> int option" where
  "optional_nonnegative_int v =
     (if unstated v then None else case json_int v of Inr i \<Rightarrow> Some (max i 0) | _ \<Rightarrow> None)"

definition allowed_devices :: "string list" where "allowed_devices = [''CPU'', ''GPU'', ''NPU'']"
definition allowed_profiles :: "string list" where
  "allowed_profiles = [''fastest'', ''balanced'', ''best_quality'', ''lowest_memory'']"

definition hex_lower :: "char \<Rightarrow> bool" where
  "hex_lower c \<longleftrightarrow> is_digit c \<or> (let n = of_char c :: nat in 97 \<le> n \<and> n \<le> 102)"

text \<open>\<open>[0-9a-f]{64}\<close>, matched in full.\<close>

definition is_digest :: "string \<Rightarrow> bool" where
  "is_digest s \<longleftrightarrow> length s = 64 \<and> list_all hex_lower s"

record certification =
  certified_at :: string
  cert_openvino :: string
  cert_genai :: string
  cert_driver :: "string option"
  cert_context :: int
  report_reference :: string
  report_sha256 :: string
  cert_load_ms :: "rat option"
  cert_tokens_sec :: "rat option"
  cert_first_token_ms :: "rat option"

text \<open>\<open>str(v or "")[:n]\<close>\<close>

definition cut_text :: "(json \<Rightarrow> string) \<Rightarrow> json \<Rightarrow> nat \<Rightarrow> string" where
  "cut_text str v n = take n (str (py_or v (JStr [])))"

definition driver_text :: "(json \<Rightarrow> string) \<Rightarrow> json \<Rightarrow> string option" where
  "driver_text str v = (if v = JNull \<or> v = JStr [] then None else Some (take 128 (str v)))"

definition certification_of :: "(json \<Rightarrow> string) \<Rightarrow> json \<Rightarrow> certification" where
  "certification_of str rec =
     \<lparr>certified_at = cut_text str (get rec ''certified_at'') 32,
      cert_openvino = cut_text str (get rec ''openvino_version'') 64,
      cert_genai = cut_text str (get rec ''openvino_genai_version'') 64,
      cert_driver = driver_text str (get rec ''driver_version''),
      cert_context = (case optional_nonnegative_int (get rec ''max_tested_context'') of None \<Rightarrow> 0 | Some i \<Rightarrow> i),
      report_reference = cut_text str (get rec ''report_reference'') 500,
      report_sha256 = py_lower (str (py_or (get rec ''report_sha256'') (JStr []))),
      cert_load_ms = optional_nonnegative_float (get rec ''load_time_ms''),
      cert_tokens_sec = optional_nonnegative_float (get rec ''tokens_sec''),
      cert_first_token_ms = optional_nonnegative_float (get rec ''time_to_first_token_ms'')\<rparr>"

definition read_certification :: "(json \<Rightarrow> string) \<Rightarrow> string \<Rightarrow> json \<Rightarrow> certification option" where
  "read_certification str device rec =
     (if \<not> is_obj rec \<or> get rec ''status'' \<noteq> JStr ''verified'' then None
      else let c = certification_of str rec
           in if certified_at c = [] \<or> cert_openvino c = []
                 \<or> cut_text str (get rec ''requested_device'') 64 \<noteq> device
                 \<or> cut_text str (get rec ''actual_device'') 64 \<noteq> device
                 \<or> report_reference c = [] \<or> \<not> is_digest (report_sha256 c)
                 \<or> optional_nonnegative_int (get rec ''max_tested_context'') = None \<or> cert_context c \<le> 0
              then None else Some c)"

text \<open>The normalised record as it is written.\<close>

definition number_items :: "string \<Rightarrow> rat option \<Rightarrow> (string \<times> json) list" where
  "number_items k v = (case v of None \<Rightarrow> [] | Some r \<Rightarrow> [(k, JFloat (Fin r))])"

definition certification_json :: "string \<Rightarrow> certification \<Rightarrow> json" where
  "certification_json device c = JObj (
     [(''status'', JStr ''verified''), (''certified_at'', JStr (certified_at c)), (''openvino_version'', JStr (cert_openvino c)),
      (''openvino_genai_version'', JStr (cert_genai c)), (''driver_version'', description_json (cert_driver c)),
      (''requested_device'', JStr device), (''actual_device'', JStr device), (''max_tested_context'', JInt (cert_context c)),
      (''report_reference'', JStr (report_reference c)), (''report_sha256'', JStr (report_sha256 c))] @
     number_items ''load_time_ms'' (cert_load_ms c) @ number_items ''tokens_sec'' (cert_tokens_sec c) @
     number_items ''time_to_first_token_ms'' (cert_first_token_ms c))"

definition device_certifications :: "(json \<Rightarrow> string) \<Rightarrow> json \<Rightarrow> string \<Rightarrow> certification list" where
  "device_certifications str raw device =
     (case get raw device of
        JList records \<Rightarrow> sort_key certified_at (List.map_filter (read_certification str device) (take 20 records))
      | _ \<Rightarrow> [])"

definition normalize_certifications :: "(json \<Rightarrow> string) \<Rightarrow> json \<Rightarrow> (string \<times> certification list) list" where
  "normalize_certifications str raw = map (\<lambda>d. (d, device_certifications str raw d)) allowed_devices"

definition certifications_json :: "(string \<times> certification list) list \<Rightarrow> json" where
  "certifications_json cs = JObj (map (\<lambda>(d, records). (d, JList (map (certification_json d) records))) cs)"

text \<open>What a retained record satisfies.\<close>

definition certification_ok :: "certification \<Rightarrow> bool" where
  "certification_ok c \<longleftrightarrow> limited 32 (certified_at c) \<and> limited 64 (cert_openvino c) \<and> length (cert_genai c) \<le> 64 \<and>
     (\<forall>d. cert_driver c = Some d \<longrightarrow> limited 128 d) \<and> limited 500 (report_reference c) \<and>
     is_digest (report_sha256 c) \<and> 0 < cert_context c \<and>
     (\<forall>r. cert_load_ms c = Some r \<longrightarrow> 0 \<le> r) \<and> (\<forall>r. cert_tokens_sec c = Some r \<longrightarrow> 0 \<le> r) \<and>
     (\<forall>r. cert_first_token_ms c = Some r \<longrightarrow> 0 \<le> r)"

text \<open>\<open>str\<close> of a text is the text, and nothing but the empty text reads as empty.\<close>

definition str_law :: "(json \<Rightarrow> string) \<Rightarrow> bool" where
  "str_law str \<longleftrightarrow> (\<forall>s. str (JStr s) = s) \<and> (\<forall>v. str v = [] \<longrightarrow> v = JStr [])"

lemma hex_lower_fixed: "hex_lower c \<Longrightarrow> lower_char c = c"
  by (auto simp: hex_lower_def lower_char_def is_digit_def Let_def)

lemma digest_lower: "is_digest s \<Longrightarrow> py_lower s = s \<and> s \<noteq> []"
  unfolding is_digest_def py_lower_def list_all_iff by (auto intro: map_idI hex_lower_fixed)

lemma cut_text_str: "str_law str \<Longrightarrow> length s \<le> n \<Longrightarrow> cut_text str (JStr s) n = s"
  by (simp add: cut_text_def py_or_def str_law_def)

lemma length_cut_text: "length (cut_text str v n) \<le> n"
  by (simp add: cut_text_def)

lemma number_items_get:
  "map_of (number_items k v) k' = (if k = k' then map_option (\<lambda>r. JFloat (Fin r)) v else None)"
  by (cases v) (simp_all add: number_items_def)

lemma optional_float_nonneg: "optional_nonnegative_float v = Some r \<Longrightarrow> 0 \<le> r"
  by (auto simp: optional_nonnegative_float_def split: if_splits sum.splits pyfloat.splits)

lemma optional_float_fixed:
  "(\<forall>r. v = Some r \<longrightarrow> 0 \<le> r) \<Longrightarrow>
     optional_nonnegative_float (case map_option (\<lambda>r. JFloat (Fin r)) v of None \<Rightarrow> JNull | Some x \<Rightarrow> x) = v"
  by (cases v) (simp_all add: optional_nonnegative_float_def unstated_def json_float_def max_def)

lemma certification_json_fields:
  "is_obj (certification_json d c)"
  "get (certification_json d c) ''status'' = JStr ''verified''"
  "get (certification_json d c) ''certified_at'' = JStr (certified_at c)"
  "get (certification_json d c) ''openvino_version'' = JStr (cert_openvino c)"
  "get (certification_json d c) ''openvino_genai_version'' = JStr (cert_genai c)"
  "get (certification_json d c) ''driver_version'' = description_json (cert_driver c)"
  "get (certification_json d c) ''requested_device'' = JStr d"
  "get (certification_json d c) ''actual_device'' = JStr d"
  "get (certification_json d c) ''max_tested_context'' = JInt (cert_context c)"
  "get (certification_json d c) ''report_reference'' = JStr (report_reference c)"
  "get (certification_json d c) ''report_sha256'' = JStr (report_sha256 c)"
  "get (certification_json d c) ''load_time_ms'' = (case map_option (\<lambda>r. JFloat (Fin r)) (cert_load_ms c) of None \<Rightarrow> JNull | Some x \<Rightarrow> x)"
  "get (certification_json d c) ''tokens_sec'' = (case map_option (\<lambda>r. JFloat (Fin r)) (cert_tokens_sec c) of None \<Rightarrow> JNull | Some x \<Rightarrow> x)"
  "get (certification_json d c) ''time_to_first_token_ms'' = (case map_option (\<lambda>r. JFloat (Fin r)) (cert_first_token_ms c) of None \<Rightarrow> JNull | Some x \<Rightarrow> x)"
  by (simp_all add: certification_json_def is_obj_def map_add_def number_items_get split: option.split)

lemma driver_text_limited: "str_law str \<Longrightarrow> driver_text str v = Some d \<Longrightarrow> limited 128 d"
  by (auto simp: driver_text_def limited_def str_law_def split: if_splits)

lemma certification_of_limits:
  assumes "str_law str" and "c = certification_of str rec"
  shows "length (certified_at c) \<le> 32" "length (cert_openvino c) \<le> 64" "length (cert_genai c) \<le> 64"
    "length (report_reference c) \<le> 500" "\<forall>d. cert_driver c = Some d \<longrightarrow> limited 128 d"
    "\<forall>r. cert_load_ms c = Some r \<longrightarrow> 0 \<le> r" "\<forall>r. cert_tokens_sec c = Some r \<longrightarrow> 0 \<le> r"
    "\<forall>r. cert_first_token_ms c = Some r \<longrightarrow> 0 \<le> r"
  unfolding assms(2) by (simp_all add: certification_of_def length_cut_text optional_float_nonneg driver_text_limited [OF assms(1)])

lemma read_certification_ok:
  assumes "read_certification str d rec = Some c" and "str_law str"
  shows "certification_ok c"
proof -
  have c: "c = certification_of str rec" and
    "certified_at c \<noteq> []" "cert_openvino c \<noteq> []" "report_reference c \<noteq> []" "is_digest (report_sha256 c)" "0 < cert_context c"
    using assms(1) by (auto simp: read_certification_def Let_def split: if_splits)
  then show ?thesis
    using certification_of_limits [OF assms(2) c] by (simp add: certification_ok_def limited_def)
qed

lemma read_certification_json:
  assumes "certification_ok c" and "str_law str" and "d \<in> set allowed_devices"
  shows "read_certification str d (certification_json d c) = Some c"
proof -
  have d: "length d \<le> 64" using assms(3) by (auto simp: allowed_devices_def)
  have str: "str (JStr s) = s" for s using assms(2) by (simp add: str_law_def)
  have cuts: "cut_text str (JStr (certified_at c)) 32 = certified_at c" "cut_text str (JStr (cert_openvino c)) 64 = cert_openvino c"
    "cut_text str (JStr (cert_genai c)) 64 = cert_genai c" "cut_text str (JStr (report_reference c)) 500 = report_reference c"
    "cut_text str (JStr d) 64 = d" "py_lower (str (py_or (JStr (report_sha256 c)) (JStr []))) = report_sha256 c"
    using assms(1) digest_lower d str
    by (auto intro!: cut_text_str [OF assms(2)] simp: certification_ok_def limited_def py_or_def)
  have driver: "driver_text str (description_json v) = v" if "\<forall>x. v = Some x \<longrightarrow> limited 128 x" for v
    using that by (cases v) (auto simp: description_json_def driver_text_def limited_def str)
  have tested: "optional_nonnegative_int (JInt (cert_context c)) = Some (cert_context c)"
    using assms(1) by (simp add: optional_nonnegative_int_def unstated_def json_int_def certification_ok_def)
  have floats: "\<forall>r. cert_load_ms c = Some r \<longrightarrow> 0 \<le> r" "\<forall>r. cert_tokens_sec c = Some r \<longrightarrow> 0 \<le> r"
    "\<forall>r. cert_first_token_ms c = Some r \<longrightarrow> 0 \<le> r" "\<forall>x. cert_driver c = Some x \<longrightarrow> limited 128 x"
    using assms(1) unfolding certification_ok_def by blast+
  have kept: "certified_at c \<noteq> []" "cert_openvino c \<noteq> []" "report_reference c \<noteq> []" "is_digest (report_sha256 c)" "0 < cert_context c"
    using assms(1) unfolding certification_ok_def limited_def by blast+
  have "certification_of str (certification_json d c) = c"
    unfolding certification_of_def certification_json_fields cuts tested driver [OF floats(4)]
      optional_float_fixed [OF floats(1)] optional_float_fixed [OF floats(2)] optional_float_fixed [OF floats(3)]
    by simp
  then show ?thesis
    using kept by (simp add: read_certification_def certification_json_fields cuts tested)
qed

section \<open>Manifests\<close>

record schema_env =
  fields_of :: pydantic
  text_of :: "json \<Rightarrow> string"
  catalog_checksum :: "json \<Rightarrow> string"

datatype manifest_error =
    NoManifestObject | UnsupportedSchema | BadCatalogSize | ChecksumMalformed | ChecksumMismatch
  | UnsafeModelId string | EntryNoObject string | DefinitionNoObject string | DefinitionInvalid string
  | ManifestTooLarge | ManifestNotJson | UntrustedHost | BadRedirect
  | ProfilesNotIterable                   \<comment> \<open>a \<open>TypeError\<close>\<close>

text \<open>Is it a \<open>ManifestValidationError\<close>?\<close>

definition is_validation_error :: "manifest_error \<Rightarrow> bool" where
  "is_validation_error e \<longleftrightarrow> e \<noteq> ProfilesNotIterable"

record metadata =
  curated :: bool
  profiles :: "string list"
  minimum_ram :: rat
  minimum_disk :: rat
  license :: string
  gated :: bool
  quality_score :: rat
  speed_score :: rat
  tested_context :: int
  maintainer_note :: string
  certifications :: "(string \<times> certification list) list"

record manifest_entry =
  definition_data :: register_request
  entry_metadata :: metadata

record manifest =
  generated_at :: string
  manifest_source :: string
  manifest_catalog :: "(string \<times> manifest_entry) list"
  manifest_sum :: string

text \<open>\<open>for value in v\<close>, which iterates over the keys of an object and the characters of a text.\<close>

definition iterated :: "json \<Rightarrow> json list option" where
  "iterated v = (case v of JList xs \<Rightarrow> Some xs | JObj kvs \<Rightarrow> Some (map (JStr \<circ> fst) kvs)
     | JStr s \<Rightarrow> Some (map (\<lambda>c. JStr [c]) s) | _ \<Rightarrow> None)"

definition known_profile :: "json \<Rightarrow> string option" where
  "known_profile v = (case v of JStr s \<Rightarrow> if s \<in> set allowed_profiles then Some s else None | _ \<Rightarrow> None)"

text \<open>\<open>list(dict.fromkeys(xs))\<close>: the first of equal elements is kept.\<close>

definition unique_first :: "'a list \<Rightarrow> 'a list" where
  "unique_first xs = rev (remdups (rev xs))"

definition clamp_score :: "json \<Rightarrow> rat" where
  "clamp_score v = min (max (safe_float v 0) 0) 100"

definition cap_context :: "int \<Rightarrow> certification \<Rightarrow> certification" where
  "cap_context limit c = c\<lparr>cert_context := min (cert_context c) limit\<rparr>"

definition read_metadata :: "schema_env \<Rightarrow> int \<Rightarrow> json \<Rightarrow> (manifest_error, metadata) result" where
  "read_metadata env limit md =
     (case iterated (get_or md ''profiles'' (JList [])) of
        None \<Rightarrow> Inl ProfilesNotIterable
      | Some values \<Rightarrow> Inr
          \<lparr>curated = truthy (get_or md ''curated'' (JBool True)),
           profiles = unique_first (List.map_filter known_profile values),
           minimum_ram = max (safe_float (get md ''minimum_ram_gb'') 0) 0,
           minimum_disk = max (safe_float (get md ''minimum_disk_gb'') 0) 0,
           license = take 120 (text_of env (py_or (get md ''license'') (JStr ''Unknown''))),
           gated = truthy (get_or md ''gated'' (JBool False)),
           quality_score = clamp_score (get md ''quality_score''),
           speed_score = clamp_score (get md ''speed_score''),
           tested_context = min (max (safe_int (get md ''max_tested_context'') 0) 0) limit,
           maintainer_note = cut_text (text_of env) (get md ''maintainer_note'') 500,
           certifications = map (map_prod id (map (cap_context limit)))
             (normalize_certifications (text_of env) (get md ''certifications''))\<rparr>)"

text \<open>\<open>d[key] = v\<close> on a copy.\<close>

definition with_item :: "json \<Rightarrow> string \<Rightarrow> json \<Rightarrow> json" where
  "with_item d key v = (case d of JObj kvs \<Rightarrow> JObj (AList.update key v kvs) | _ \<Rightarrow> d)"

definition validate_entry :: "schema_env \<Rightarrow> string \<times> json \<Rightarrow> (manifest_error, string \<times> manifest_entry) result" where
  "validate_entry env = (\<lambda>(mid, raw).
     bindr (ensure (valid_model_id mid) (UnsafeModelId mid)) (\<lambda>_.
     bindr (ensure (is_obj raw) (EntryNoObject mid)) (\<lambda>_.
     bindr (ensure (is_obj (get raw ''definition'')) (DefinitionNoObject mid)) (\<lambda>_.
     bindr (case model_validate (fields_of env) (with_item (get raw ''definition'') ''model_id'' (JStr mid)) of
              None \<Rightarrow> Inl (DefinitionInvalid mid) | Some r \<Rightarrow> Inr r) (\<lambda>r.
     let md = (if is_obj (get raw ''metadata'') then get raw ''metadata'' else JObj []) in
     bindr (read_metadata env (rg_context_len r) md) (\<lambda>meta.
     Inr (mid, \<lparr>definition_data = r\<lparr>rg_trust := False\<rparr>, entry_metadata = meta\<rparr>)))))))"

definition metadata_json :: "metadata \<Rightarrow> json" where
  "metadata_json m = JObj
     [(''curated'', JBool (curated m)), (''profiles'', JList (map JStr (profiles m))),
      (''minimum_ram_gb'', JFloat (Fin (minimum_ram m))), (''minimum_disk_gb'', JFloat (Fin (minimum_disk m))),
      (''license'', JStr (license m)), (''gated'', JBool (gated m)),
      (''quality_score'', JFloat (Fin (quality_score m))), (''speed_score'', JFloat (Fin (speed_score m))),
      (''max_tested_context'', JInt (tested_context m)), (''maintainer_note'', JStr (maintainer_note m)),
      (''certifications'', certifications_json (certifications m))]"

definition manifest_entry_json :: "manifest_entry \<Rightarrow> json" where
  "manifest_entry_json e = JObj [(''definition'', model_dump (definition_data e)), (''metadata'', metadata_json (entry_metadata e))]"

definition catalog_json :: "(string \<times> manifest_entry) list \<Rightarrow> json" where
  "catalog_json es = JObj (map (map_prod id manifest_entry_json) es)"

definition manifest_json :: "manifest \<Rightarrow> json" where
  "manifest_json m = JObj
     [(''schema_version'', JInt 1), (''generated_at'', JStr (generated_at m)), (''source'', JStr (manifest_source m)),
      (''catalog'', catalog_json (manifest_catalog m)), (''catalog_sha256'', JStr (manifest_sum m))]"

definition max_definitions :: nat where "max_definitions = 50"

definition catalog_items :: "json \<Rightarrow> (string \<times> json) list option" where
  "catalog_items v = (case v of JObj kvs \<Rightarrow> if kvs = [] \<or> length kvs > max_definitions then None else Some kvs | _ \<Rightarrow> None)"

definition stated_checksum :: "schema_env \<Rightarrow> json \<Rightarrow> string" where
  "stated_checksum env doc = py_lower (text_of env (py_or (get doc ''catalog_sha256'') (JStr [])))"

definition validate_manifest_document :: "schema_env \<Rightarrow> json \<Rightarrow> (manifest_error, manifest) result" where
  "validate_manifest_document env doc =
     bindr (ensure (is_obj doc) NoManifestObject) (\<lambda>_.
     bindr (ensure (json_is_one (get doc ''schema_version'')) UnsupportedSchema) (\<lambda>_.
     bindr (case catalog_items (get doc ''catalog'') of None \<Rightarrow> Inl BadCatalogSize | Some items \<Rightarrow> Inr items) (\<lambda>items.
     bindr (ensure (is_digest (stated_checksum env doc)) ChecksumMalformed) (\<lambda>_.
     bindr (ensure (catalog_checksum env (JObj items) = stated_checksum env doc) ChecksumMismatch) (\<lambda>_.
     bindr (map_result (validate_entry env) items) (\<lambda>entries.
     Inr \<lparr>generated_at = cut_text (text_of env) (get doc ''generated_at'') 40,
          manifest_source = cut_text (text_of env) (get doc ''source'') 200,
          manifest_catalog = entries, manifest_sum = catalog_checksum env (catalog_json entries)\<rparr>))))))"

text \<open>What the code relies on: fields of the declared type are read as they are, \<open>str\<close> of a text is the text, a SHA-256
  digest in hexadecimal is 64 lower-case digits.\<close>

definition schema_laws :: "schema_env \<Rightarrow> bool" where
  "schema_laws env \<longleftrightarrow> reads_exactly (fields_of env) \<and> str_law (text_of env) \<and> (\<forall>j. is_digest (catalog_checksum env j))"

section \<open>A manifest is accepted as it was written\<close>

lemma safe_float_fixed [simp]: "safe_float (JFloat (Fin r)) d = r"
  by (simp add: safe_float_def json_float_def)

lemma safe_int_fixed [simp]: "safe_int (JInt i) d = i"
  by (simp add: safe_int_def json_int_def)

lemma unique_first_set: "set (unique_first xs) = set xs" and unique_first_fixed: "distinct xs \<Longrightarrow> unique_first xs = xs"
  and unique_first_distinct: "distinct (unique_first xs)"
  by (simp_all add: unique_first_def distinct_remdups_id)

lemma known_profiles:
  "p \<in> set (List.map_filter known_profile vs) \<Longrightarrow> p \<in> set allowed_profiles"
  by (auto simp: List.map_filter_def known_profile_def split: json.splits if_splits)

lemma known_profiles_fixed:
  "set ps \<subseteq> set allowed_profiles \<Longrightarrow> List.map_filter known_profile (map JStr ps) = ps"
  by (induction ps) (simp_all add: List.map_filter_simps known_profile_def)

text \<open>What the metadata of a validated entry satisfies.\<close>

definition metadata_ok :: "int \<Rightarrow> metadata \<Rightarrow> bool" where
  "metadata_ok limit m \<longleftrightarrow> set (profiles m) \<subseteq> set allowed_profiles \<and> distinct (profiles m) \<and>
     0 \<le> minimum_ram m \<and> 0 \<le> minimum_disk m \<and> limited 120 (license m) \<and>
     (0 \<le> quality_score m \<and> quality_score m \<le> 100) \<and> (0 \<le> speed_score m \<and> speed_score m \<le> 100) \<and>
     (0 \<le> tested_context m \<and> tested_context m \<le> limit) \<and> length (maintainer_note m) \<le> 500 \<and>
     map fst (certifications m) = allowed_devices \<and>
     (\<forall>(d, cs) \<in> set (certifications m). length cs \<le> 20 \<and> sorted (map certified_at cs) \<and>
        (\<forall>c \<in> set cs. certification_ok c \<and> cert_context c \<le> limit))"

lemma device_certifications_ok:
  assumes "str_law str"
  shows "length (device_certifications str raw d) \<le> 20 \<and> sorted (map certified_at (device_certifications str raw d)) \<and>
    (\<forall>c \<in> set (device_certifications str raw d). certification_ok c)"
proof -
  have "length (List.map_filter f xs) \<le> length xs" for f :: "json \<Rightarrow> certification option" and xs
    by (induction xs) (auto simp: List.map_filter_simps split: option.split)
  then have "length (List.map_filter f (take 20 xs)) \<le> 20" for f :: "json \<Rightarrow> certification option" and xs
    by (metis le_trans length_take min.cobounded2)
  then show ?thesis
    using read_certification_ok [OF _ assms]
    by (auto simp: device_certifications_def List.map_filter_def split: json.split)
qed

lemma cap_context_ok:
  "0 < limit \<Longrightarrow> certification_ok c \<Longrightarrow> certification_ok (cap_context limit c) \<and> cert_context (cap_context limit c) \<le> limit"
  by (simp add: cap_context_def certification_ok_def)

lemma read_metadata_ok:
  assumes "read_metadata env limit md = Inr m" and "schema_laws env" and "0 < limit"
  shows "metadata_ok limit m"
proof -
  have str: "str_law (text_of env)" using assms(2) by (simp add: schema_laws_def)
  have "py_or v (JStr ''Unknown'') \<noteq> JStr []" for v by (auto simp: py_or_def)
  then have lic: "limited 120 (take 120 (text_of env (py_or v (JStr ''Unknown''))))" for v
    using str by (auto simp: limited_def str_law_def)
  have caps: "map certified_at (map (cap_context limit) cs) = map certified_at cs" for cs
    by (simp add: cap_context_def)
  have certs: "map fst (certifications m) = allowed_devices \<and>
     (\<forall>(d, cs) \<in> set (certifications m). length cs \<le> 20 \<and> sorted (map certified_at cs) \<and>
        (\<forall>c \<in> set cs. certification_ok c \<and> cert_context c \<le> limit))"
  proof -
    have c: "certifications m =
        map (\<lambda>d. (d, map (cap_context limit) (device_certifications (text_of env) (get md ''certifications'') d))) allowed_devices"
      using assms(1) by (auto simp: read_metadata_def normalize_certifications_def comp_def split: option.splits)
    show ?thesis
      using device_certifications_ok [OF str] cap_context_ok [OF assms(3)]
      unfolding c by (auto simp: comp_def caps [unfolded map_map comp_def])
  qed
  obtain vs where m: "profiles m = unique_first (List.map_filter known_profile vs)"
    "minimum_ram m = max (safe_float (get md ''minimum_ram_gb'') 0) 0" "minimum_disk m = max (safe_float (get md ''minimum_disk_gb'') 0) 0"
    "license m = take 120 (text_of env (py_or (get md ''license'') (JStr ''Unknown'')))"
    "quality_score m = clamp_score (get md ''quality_score'')" "speed_score m = clamp_score (get md ''speed_score'')"
    "tested_context m = min (max (safe_int (get md ''max_tested_context'') 0) 0) limit"
    "maintainer_note m = cut_text (text_of env) (get md ''maintainer_note'') 500"
    using assms(1) by (auto simp: read_metadata_def split: option.splits)
  show ?thesis
    unfolding metadata_ok_def m
    using certs lic length_cut_text assms(3) known_profiles
    by (auto simp: clamp_score_def unique_first_set unique_first_distinct)
qed

lemma device_certifications_json:
  assumes "str_law str" and "d \<in> set allowed_devices" and "length cs \<le> 20" and "sorted (map certified_at cs)"
    and "\<forall>c \<in> set cs. certification_ok c" and "get raw d = JList (map (certification_json d) cs)"
  shows "device_certifications str raw d = cs"
proof -
  have "List.map_filter (read_certification str d) (map (certification_json d) cs) = cs"
    using assms(5) by (induction cs) (simp_all add: List.map_filter_simps read_certification_json [OF _ assms(1,2)])
  then show ?thesis
    using assms(3,4,6) by (simp add: device_certifications_def sorted_sort_id sort_key_id_if_sorted)
qed

lemma metadata_json_fields:
  "get_or (metadata_json m) ''curated'' d = JBool (curated m)"
  "get_or (metadata_json m) ''profiles'' d = JList (map JStr (profiles m))"
  "get (metadata_json m) ''minimum_ram_gb'' = JFloat (Fin (minimum_ram m))"
  "get (metadata_json m) ''minimum_disk_gb'' = JFloat (Fin (minimum_disk m))"
  "get (metadata_json m) ''license'' = JStr (license m)"
  "get_or (metadata_json m) ''gated'' d = JBool (gated m)"
  "get (metadata_json m) ''quality_score'' = JFloat (Fin (quality_score m))"
  "get (metadata_json m) ''speed_score'' = JFloat (Fin (speed_score m))"
  "get (metadata_json m) ''max_tested_context'' = JInt (tested_context m)"
  "get (metadata_json m) ''maintainer_note'' = JStr (maintainer_note m)"
  "get (metadata_json m) ''certifications'' = certifications_json (certifications m)"
  by (simp_all add: metadata_json_def get_or_def)

lemma certifications_fixed:
  assumes ok: "metadata_ok limit m" and str: "str_law str"
  shows "map (map_prod id (map (cap_context limit))) (normalize_certifications str (certifications_json (certifications m))) =
    certifications m"
proof -
  let ?raw = "certifications_json (certifications m)"
  have keys: "map fst (certifications m) = allowed_devices" and d: "distinct (map fst (certifications m))"
    using ok by (simp_all add: metadata_ok_def allowed_devices_def)
  have each: "map (cap_context limit) (device_certifications str ?raw d) = cs" if mem: "(d, cs) \<in> set (certifications m)" for d cs
  proof -
    have cs: "length cs \<le> 20" "sorted (map certified_at cs)" "\<forall>c \<in> set cs. certification_ok c \<and> cert_context c \<le> limit"
      using ok mem by (auto simp: metadata_ok_def)
    have "map_of (map (\<lambda>(d, records). (d, JList (map (certification_json d) records))) (certifications m)) d =
        Some (JList (map (certification_json d) cs))"
    proof (rule map_of_is_SomeI)
      show "distinct (map fst (map (\<lambda>(d, records). (d, JList (map (certification_json d) records))) (certifications m)))"
        using d by (simp add: comp_def case_prod_beta')
      show "(d, JList (map (certification_json d) cs)) \<in> set (map (\<lambda>(d, records). (d, JList (map (certification_json d) records))) (certifications m))"
        using mem by force
    qed
    then have "get ?raw d = JList (map (certification_json d) cs)" by (simp add: certifications_json_def)
    moreover have "d \<in> set allowed_devices" unfolding keys [symmetric] using mem by force
    ultimately have "device_certifications str ?raw d = cs"
      using device_certifications_json [OF str] cs by blast
    moreover have "map (cap_context limit) cs = cs"
      by (rule map_idI) (use cs(3) in \<open>simp add: cap_context_def min_def\<close>)
    ultimately show ?thesis by simp
  qed
  have "map (map_prod id (map (cap_context limit))) (normalize_certifications str ?raw) =
      map (\<lambda>(d, cs). (d, map (cap_context limit) (device_certifications str ?raw d))) (certifications m)"
    unfolding normalize_certifications_def keys [symmetric] by (simp add: case_prod_beta')
  also have "\<dots> = certifications m"
    by (rule map_idI) (use each in auto)
  finally show ?thesis .
qed

lemma read_metadata_json:
  assumes "metadata_ok limit m" and "schema_laws env"
  shows "read_metadata env limit (metadata_json m) = Inr m"
proof -
  have str: "str_law (text_of env)" using assms(2) by (simp add: schema_laws_def)
  have lic: "take 120 (text_of env (py_or (JStr (license m)) (JStr ''Unknown''))) = license m"
    using assms(1) str by (simp add: metadata_ok_def limited_def py_or_def str_law_def)
  have note_cut: "cut_text (text_of env) (JStr (maintainer_note m)) 500 = maintainer_note m"
    using assms(1) by (intro cut_text_str [OF str]) (simp add: metadata_ok_def)
  have prof: "unique_first (List.map_filter known_profile (map JStr (profiles m))) = profiles m"
    using assms(1) by (simp add: metadata_ok_def known_profiles_fixed unique_first_fixed)
  have bounds: "0 \<le> minimum_ram m" "0 \<le> minimum_disk m" "0 \<le> quality_score m \<and> quality_score m \<le> 100"
    "0 \<le> speed_score m \<and> speed_score m \<le> 100" "0 \<le> tested_context m \<and> tested_context m \<le> limit"
    using assms(1) unfolding metadata_ok_def by blast+
  show ?thesis
    unfolding read_metadata_def metadata_json_fields certifications_fixed [OF assms(1) str] lic note_cut
    using bounds by (simp add: iterated_def prof clamp_score_def max_def min_def)
qed

lemma validate_entry_again:
  assumes "validate_entry env entry = Inr e" and "schema_laws env"
  shows "validate_entry env (map_prod id manifest_entry_json e) = Inr e"
proof -
  obtain mid raw where entry: "entry = (mid, raw)" by (cases entry)
  from assms(1) obtain r meta where
    mid: "valid_model_id mid" and r: "model_validate (fields_of env) (with_item (get raw ''definition'') ''model_id'' (JStr mid)) = Some r"
    and meta: "\<exists>md. read_metadata env (rg_context_len r) md = Inr meta" and obj: "is_obj (get raw ''definition'')"
    and e: "e = (mid, \<lparr>definition_data = r\<lparr>rg_trust := False\<rparr>, entry_metadata = meta\<rparr>)"
    unfolding entry validate_entry_def prod.case bindr_eq_Inr Let_def ensure_eq by (auto split: option.splits)
  let ?r = "r\<lparr>rg_trust := False\<rparr>"
  have reads: "reads_exactly (fields_of env)" using assms(2) by (simp add: schema_laws_def)
  have ok: "request_ok r" by (rule model_validate_ok [OF r])
  have id: "rg_model_id r = mid"
  proof -
    have "get (with_item (get raw ''definition'') ''model_id'' (JStr mid)) ''model_id'' = JStr mid"
      using obj by (auto simp: with_item_def is_obj_def update_conv' split: json.splits)
    then show ?thesis using r reads
      by (auto simp: model_validate_def bind_eq_Some_conv required_def reads_exactly_def split: if_splits)
  qed
  have ok': "request_ok ?r" using ok by (simp add: request_ok_def)
  have "with_item (model_dump ?r) ''model_id'' (JStr mid) = model_dump ?r"
    by (simp add: with_item_def model_dump_def id)
  then have again: "model_validate (fields_of env) (with_item (model_dump ?r) ''model_id'' (JStr mid)) = Some ?r"
    using model_validate_dump [OF ok' reads] by simp
  have "0 < rg_context_len r" using ok by (simp add: request_ok_def)
  then have "metadata_ok (rg_context_len r) meta" using meta read_metadata_ok assms(2) by blast
  from read_metadata_json [OF this assms(2)] have rm: "read_metadata env (rg_context_len ?r) (metadata_json meta) = Inr meta" by simp
  have objs: "is_obj (model_dump ?r)" "is_obj (metadata_json meta)"
    by (simp_all add: model_dump_def metadata_json_def is_obj_def)
  have js: "manifest_entry_json (snd e) = JObj [(''definition'', model_dump ?r), (''metadata'', metadata_json meta)]"
    by (simp add: manifest_entry_json_def e)
  show ?thesis
    unfolding validate_entry_def e map_prod_simp prod.case id_apply
    using mid again rm objs js by (simp add: e is_obj_def ensure_def)
qed

lemma validate_entry_key:
  "validate_entry env (mid, raw) = Inr e \<Longrightarrow> fst e = mid \<and> rg_trust (definition_data (snd e)) = False"
  by (auto simp: validate_entry_def Let_def bindr_eq_Inr)

lemma map_result_again:
  assumes "map_result f xs = Inr ys" and "\<And>x y. f x = Inr y \<Longrightarrow> f (g y) = Inr y"
  shows "map_result f (map g ys) = Inr ys"
proof -
  have "list_all2 (\<lambda>x y. f x = Inr y) xs ys" using assms(1) by (simp add: map_result_Inr)
  then have "list_all2 (\<lambda>x y. f x = Inr y) (map g ys) ys"
    by (induction rule: list_all2_induct) (auto intro: assms(2))
  then show ?thesis by (simp add: map_result_Inr)
qed

lemma validate_manifest_again:
  assumes "schema_laws env" and "validate_manifest_document env doc = Inr m"
  shows "validate_manifest_document env (manifest_json m) = Inr m"
proof -
  from assms(2) obtain items where items: "catalog_items (get doc ''catalog'') = Some items"
    and entries: "map_result (validate_entry env) items = Inr (manifest_catalog m)"
    and heads: "generated_at m = cut_text (text_of env) (get doc ''generated_at'') 40"
      "manifest_source m = cut_text (text_of env) (get doc ''source'') 200"
      "manifest_sum m = catalog_checksum env (catalog_json (manifest_catalog m))"
    by (auto simp: validate_manifest_document_def bindr_eq_Inr split: option.splits)
  have str: "str_law (text_of env)" and digest: "is_digest (manifest_sum m)"
    using assms(1) by (simp_all add: schema_laws_def heads)
  have "length (manifest_catalog m) = length items"
    using entries by (simp add: map_result_Inr list_all2_lengthD)
  then have size: "catalog_items (catalog_json (manifest_catalog m)) = Some (map (map_prod id manifest_entry_json) (manifest_catalog m))"
    using items by (auto simp: catalog_items_def catalog_json_def split: json.splits if_splits)
  have again: "map_result (validate_entry env) (map (map_prod id manifest_entry_json) (manifest_catalog m)) = Inr (manifest_catalog m)"
    by (rule map_result_again [OF entries]) (rule validate_entry_again [OF _ assms(1)])
  have sums: "stated_checksum env (manifest_json m) = manifest_sum m"
    using digest_lower [OF digest] str by (simp add: stated_checksum_def manifest_json_def py_or_def str_law_def)
  have cuts: "cut_text (text_of env) (JStr (generated_at m)) 40 = generated_at m"
    "cut_text (text_of env) (JStr (manifest_source m)) 200 = manifest_source m"
    by (intro cut_text_str [OF str], simp add: heads length_cut_text)+
  have fields: "is_obj (manifest_json m)" "get (manifest_json m) ''schema_version'' = JInt 1"
    "get (manifest_json m) ''catalog'' = catalog_json (manifest_catalog m)"
    "get (manifest_json m) ''generated_at'' = JStr (generated_at m)" "get (manifest_json m) ''source'' = JStr (manifest_source m)"
    by (simp_all add: manifest_json_def is_obj_def)
  show ?thesis
    using digest again heads(3)
    by (simp add: validate_manifest_document_def fields size sums cuts ensure_def json_is_one_def catalog_json_def [symmetric])
qed

section \<open>Properties\<close>


definition demo_fields :: pydantic where
  "demo_fields = \<lparr>as_text = (\<lambda>v. case v of JStr s \<Rightarrow> Some s | _ \<Rightarrow> None),
     as_number = (\<lambda>v. case v of JInt i \<Rightarrow> Some i | _ \<Rightarrow> None), as_flag = (\<lambda>v. case v of JBool b \<Rightarrow> Some b | _ \<Rightarrow> None)\<rparr>"

definition demo_schema :: schema_env where
  "demo_schema = \<lparr>fields_of = demo_fields, text_of = (\<lambda>v. case v of JStr s \<Rightarrow> s | _ \<Rightarrow> ''x''),
     catalog_checksum = (\<lambda>_. replicate 64 (CHR ''0''))\<rparr>"

definition demo_definition :: json where
  "demo_definition = JObj [(''name'', JStr ''M''), (''source_model'', JStr ''org/m'')]"

definition demo_document :: "(string \<times> json) list \<Rightarrow> json" where
  "demo_document meta = JObj [(''schema_version'', JInt 1), (''catalog_sha256'', JStr (replicate 64 (CHR ''0''))),
     (''catalog'', JObj [(''m'', JObj [(''definition'', demo_definition), (''metadata'', JObj meta)])])]"

definition demo_manifest :: manifest where
  "demo_manifest = (case validate_manifest_document demo_schema (demo_document [(''quality_score'', JInt 200)]) of
     Inr m \<Rightarrow> m | Inl e \<Rightarrow> \<lparr>generated_at = [], manifest_source = [], manifest_catalog = [], manifest_sum = []\<rparr>)"

lemma demo_schema_laws: "schema_laws demo_schema"
  by (simp add: schema_laws_def reads_exactly_def str_law_def demo_schema_def demo_fields_def is_digest_def hex_lower_def
      is_digit_def list_all_iff split: json.split)

lemma demo_manifest_valid:
  "validate_manifest_document demo_schema (demo_document [(''quality_score'', JInt 200)]) = Inr demo_manifest"
  "map fst (manifest_catalog demo_manifest) = [''m'']"
  by code_simp+


text \<open>A manifest whose \<open>profiles\<close> is null raises an error that is no \<open>ManifestValidationError\<close>: whoever falls back
  to the bundled manifest on a damaged cache does not catch it.\<close>

lemma null_profiles_escape:
  "validate_manifest_document demo_schema (demo_document [(''profiles'', JNull)]) = Inl ProfilesNotIterable \<and>
   \<not> is_validation_error ProfilesNotIterable"
proof
  show "validate_manifest_document demo_schema (demo_document [(''profiles'', JNull)]) = Inl ProfilesNotIterable"
    by code_simp
qed (simp add: is_validation_error_def)

end
