(* ===== verification/ModelLibrary.thy ===== *)
theory ModelLibrary
  imports ConversionHealth LibrarySchema
begin

text \<open>
  \<open>app/model_library_service.py\<close> and the registration of \<open>app/model_manager.py\<close>: the manifest of curated models
  and its trusted download, merging it into the catalogue, importing, exporting, adopting and copying models, and
  undoing what failed half way. The catalogue in memory, \<open>models.json\<close> and the user index are the state; which
  writes succeed comes from outside.
\<close>

section \<open>Downloading the manifest\<close>

record url_parts =
  url_scheme :: string
  url_host :: "string option"
  url_port :: "nat option"
  url_user :: "string option"
  url_password :: "string option"

record reply =
  reply_status :: nat
  reply_location :: "string option"
  reply_url :: string
  reply_length :: "string option"
  reply_chunks :: "char list list"
  reply_breaks :: bool                  \<comment> \<open>does the connection fail after these chunks?\<close>

text \<open>\<open>parse_url\<close> is \<open>None\<close> when \<open>urlparse\<close> or a part raises \<open>ValueError\<close>; a request may fail, \<open>None\<close>.\<close>

record web =
  parse_url :: "string \<Rightarrow> url_parts option"
  url_join :: "string \<Rightarrow> string \<Rightarrow> string"
  respond :: "nat \<Rightarrow> string \<Rightarrow> reply option"

definition official_manifest_url :: string where
  "official_manifest_url = ''https://github.com/Quazmoz/openvino-windows-llm/releases/latest/download/model-library-manifest.json''"

definition release_hosts :: "string list" where
  "release_hosts = [''github.com'', ''objects.githubusercontent.com'', ''release-assets.githubusercontent.com'']"

definition max_redirects :: nat where "max_redirects = 5"
definition redirect_statuses :: "nat list" where "redirect_statuses = [301, 302, 303, 307, 308]"
definition max_manifest_bytes :: nat where "max_manifest_bytes = 1000000"

definition trusted_url :: "web \<Rightarrow> string \<Rightarrow> bool" where
  "trusted_url w url =
     (case parse_url w url of
        None \<Rightarrow> False
      | Some p \<Rightarrow> url_scheme p = ''https'' \<and> (\<exists>h \<in> set release_hosts. url_host p = Some h)
          \<and> (url_port p = None \<or> url_port p = Some 443) \<and> url_user p = None \<and> url_password p = None)"

datatype fetch_error = Manifest manifest_error | NetworkError | BadStatus nat | DecodeEscaped

fun read_chunks :: "char list \<Rightarrow> char list list \<Rightarrow> (fetch_error, char list) result" where
  "read_chunks payload [] = Inr payload"
| "read_chunks payload (c # cs) =
     (if length (payload @ c) > max_manifest_bytes then Inl (Manifest ManifestTooLarge) else read_chunks (payload @ c) cs)"

text \<open>\<open>json.loads\<close> of the bytes decoded as UTF-8.\<close>

definition parse_manifest_bytes ::
  "schema_env \<Rightarrow> (char list \<Rightarrow> decoded) \<Rightarrow> char list \<Rightarrow> (fetch_error, manifest) result" where
  "parse_manifest_bytes env load payload =
     (if length payload > max_manifest_bytes then Inl (Manifest ManifestTooLarge)
      else case load payload of
        DecodeJsonError \<Rightarrow> Inl (Manifest ManifestNotJson)
      | DecodeOtherError \<Rightarrow> Inl DecodeEscaped
      | Decoded doc \<Rightarrow> (case validate_manifest_document env doc of Inl e \<Rightarrow> Inl (Manifest e) | Inr m \<Rightarrow> Inr m))"

definition declared_length :: "reply \<Rightarrow> int option" where
  "declared_length r = (case reply_length r of None \<Rightarrow> None | Some s \<Rightarrow> if s = [] then None else py_int s)"

definition read_reply :: "schema_env \<Rightarrow> (char list \<Rightarrow> decoded) \<Rightarrow> web \<Rightarrow> reply \<Rightarrow> (fetch_error, string \<times> manifest) result" where
  "read_reply env load w r =
     (if \<not> (200 \<le> reply_status r \<and> reply_status r < 300) then Inl (BadStatus (reply_status r))
      else if \<not> trusted_url w (reply_url r) then Inl (Manifest UntrustedHost)
      else if (\<exists>n. declared_length r = Some n \<and> n > int max_manifest_bytes) then Inl (Manifest ManifestTooLarge)
      else bindr (read_chunks [] (reply_chunks r)) (\<lambda>payload.
           if reply_breaks r then Inl NetworkError
           else bindr (parse_manifest_bytes env load payload) (\<lambda>m. Inr (reply_url r, m))))"

text \<open>The requests sent, in order, and the outcome; \<open>left\<close> redirects may still be followed.\<close>

fun fetch :: "schema_env \<Rightarrow> (char list \<Rightarrow> decoded) \<Rightarrow> web \<Rightarrow> nat \<Rightarrow> string
    \<Rightarrow> string list \<times> (fetch_error, string \<times> manifest) result" where
  "fetch env load w left url =
     (if \<not> trusted_url w url then ([], Inl (Manifest UntrustedHost))
      else case respond w (max_redirects - left) url of
        None \<Rightarrow> ([url], Inl NetworkError)
      | Some r \<Rightarrow>
          if reply_status r \<in> set redirect_statuses then
            (case (reply_location r, left) of
               (Some loc, Suc n) \<Rightarrow>
                 if loc = [] then ([url], Inl (Manifest BadRedirect))
                 else let next_url = url_join w (reply_url r) loc in
                   if \<not> trusted_url w next_url then ([url], Inl (Manifest UntrustedHost))
                   else (let (sent, out) = fetch env load w n next_url in (url # sent, out))
             | _ \<Rightarrow> ([url], Inl (Manifest BadRedirect)))
          else ([url], read_reply env load w r))"

declare fetch.simps [simp del]

definition fetch_official :: "schema_env \<Rightarrow> (char list \<Rightarrow> decoded) \<Rightarrow> web \<Rightarrow> string list \<times> (fetch_error, string \<times> manifest) result" where
  "fetch_official env load w = fetch env load w max_redirects official_manifest_url"

lemma fetch_sends:
  "list_all (trusted_url w) (fst (fetch env load w n url)) \<and> length (fst (fetch env load w n url)) \<le> Suc n"
proof (induction n arbitrary: url)
  case 0
  then show ?case by (subst (1 2) fetch.simps) (auto split: option.split nat.split)
next
  case (Suc n)
  have "list_all (trusted_url w) sent \<and> length sent \<le> Suc n" if "fetch env load w n u = (sent, out)" for u sent out
    using Suc.IH [of u] that by simp
  then show ?case by (subst (1 2) fetch.simps) (auto simp: Let_def split: option.split prod.split)
qed

lemma read_chunks_Inr: "read_chunks p cs = Inr b \<Longrightarrow> length p \<le> max_manifest_bytes \<Longrightarrow> b = p @ concat cs \<and> length b \<le> max_manifest_bytes"
  by (induction p cs rule: read_chunks.induct) (auto split: if_splits)

definition downloaded_from :: "schema_env \<Rightarrow> (char list \<Rightarrow> decoded) \<Rightarrow> web \<Rightarrow> string \<Rightarrow> manifest \<Rightarrow> bool" where
  "downloaded_from env load w src m \<longleftrightarrow> trusted_url w src \<and>
     (\<exists>payload doc. length payload \<le> max_manifest_bytes \<and> load payload = Decoded doc \<and> validate_manifest_document env doc = Inr m)"

lemma read_reply_result:
  assumes "read_reply env load w r = Inr (src, m)"
  shows "downloaded_from env load w src m"
proof -
  from assms obtain b where b: "read_chunks [] (reply_chunks r) = Inr b" "parse_manifest_bytes env load b = Inr m"
    and src: "src = reply_url r" "trusted_url w (reply_url r)"
    by (auto simp: read_reply_def bindr_eq_Inr split: if_splits)
  have "length b \<le> max_manifest_bytes" using read_chunks_Inr [OF b(1)] by auto
  moreover obtain doc where "load b = Decoded doc" "validate_manifest_document env doc = Inr m"
    using b(2) by (auto simp: parse_manifest_bytes_def split: if_splits decoded.splits sum.splits)
  ultimately show ?thesis using src by (auto simp: downloaded_from_def)
qed

lemma fetch_result:
  "snd (fetch env load w n url) = Inr (src, m) \<Longrightarrow> downloaded_from env load w src m"
proof (induction n arbitrary: url)
  case 0
  then show ?case
    by (subst (asm) fetch.simps) (auto dest: read_reply_result split: option.splits if_splits)
next
  case (Suc n)
  have "downloaded_from env load w src m" if "fetch env load w n u = (sent, Inr (src, m))" for u sent
    using Suc.IH [of u] that by simp
  then show ?case using Suc.prems
    by (subst (asm) fetch.simps) (auto simp: Let_def dest: read_reply_result split: option.splits if_splits prod.splits)
qed

text \<open>Every request of the download goes to a trusted host over HTTPS, at most six are sent, and what is accepted came
  from a trusted address, is at most a megabyte and validated.\<close>

lemma official_fetch_stays_trusted:
  "list_all (trusted_url w) (fst (fetch_official env load w)) \<and> length (fst (fetch_official env load w)) \<le> 6 \<and>
   (\<forall>src m. snd (fetch_official env load w) = Inr (src, m) \<longrightarrow> downloaded_from env load w src m)"
  using fetch_sends [of w env load max_redirects official_manifest_url] fetch_result
  by (auto simp: fetch_official_def max_redirects_def)

section \<open>Definitions and configurations\<close>

record library_env =
  schema :: schema_env
  health_of :: health_env
  target_path :: "string \<Rightarrow> string"      \<comment> \<open>the resolved path of a model id in \<open>models_dir\<close>\<close>

datatype library_error =
    DefinitionRejected | IdChanged | IndexUnreadableError | IndexMalformed | IndexEscaped | ImportSize
  | DefinitionNoDict string | DuplicateDefinition string | ActiveDefinition string | DifferentDefinition string
  | WriteFailed | AlreadyRegistered string

definition config_of_request :: "register_request \<Rightarrow> string \<Rightarrow> string \<Rightarrow> model_config" where
  "config_of_request q desc path =
     \<lparr>model_id = rg_model_id q, model_name = rg_name q, description = desc, backend = rg_backend q, model_path = path,
      source_model = rg_source_model q, weight_format = rg_weight_format q, recommended_device = rg_device q,
      max_context_len = rg_context_len q, max_output_tokens = rg_output_tokens q, trust_remote_code = rg_trust q,
      recommended_context_len = None, kv_cache_precision = None\<rparr>"

definition text_or_empty :: "string option \<Rightarrow> string" where
  "text_or_empty v = (case v of None \<Rightarrow> [] | Some s \<Rightarrow> s)"

definition definition_to_config ::
  "library_env \<Rightarrow> register_request \<Rightarrow> string \<Rightarrow> model_config option \<Rightarrow> (library_error, model_config) result" where
  "definition_to_config env r path existing =
     (case model_validate (fields_of (schema env)) (model_dump r) of
        None \<Rightarrow> Inl DefinitionRejected
      | Some q \<Rightarrow>
          (case existing of
             Some old \<Rightarrow>
               if model_id old \<noteq> rg_model_id q then Inl IdChanged
               else Inr (old\<lparr>model_name := rg_name q, description := text_or_empty (rg_description q), backend := rg_backend q,
                 source_model := rg_source_model q, weight_format := rg_weight_format q, recommended_device := rg_device q,
                 max_context_len := rg_context_len q, max_output_tokens := rg_output_tokens q, trust_remote_code := rg_trust q\<rparr>)
           | None \<Rightarrow> Inr (config_of_request q (text_or_empty (rg_description q)) path)))"

definition model_definition :: "model_config \<Rightarrow> register_request" where
  "model_definition cfg =
     \<lparr>rg_model_id = model_id cfg, rg_name = model_name cfg, rg_source_model = source_model cfg, rg_backend = backend cfg,
      rg_weight_format = weight_format cfg, rg_device = recommended_device cfg, rg_context_len = max_context_len cfg,
      rg_output_tokens = max_output_tokens cfg, rg_description = Some (description cfg), rg_trust = trust_remote_code cfg\<rparr>"

section \<open>The catalogue, its file and the user index\<close>

datatype index_file = IndexMissing | IndexUnreadable | IndexText "char list"

type_synonym catalog = "(string \<times> model_config) list"

record library =
  lib_catalog :: catalog
  lib_models :: "json option"
  lib_users :: index_file

text \<open>Which writes and reads of one operation work, in it and in its undoing.\<close>

record library_io =
  save_works :: bool
  users_work :: bool
  reload_works :: bool
  snapshot_works :: bool
  undo_save_works :: bool
  undo_users_work :: bool
  undo_reload_works :: bool

definition reading :: "bool \<Rightarrow> json option \<Rightarrow> json option" where
  "reading works f = (if works then f else None)"

definition user_values :: "json \<Rightarrow> (library_error, string list) result" where
  "user_values doc =
     (case (if is_obj doc then get doc ''model_ids'' else JNull) of
        JList vs \<Rightarrow>
          if list_all (\<lambda>v. case v of JStr s \<Rightarrow> valid_model_id s | _ \<Rightarrow> False) vs
          then Inr (remdups (map (\<lambda>v. case v of JStr s \<Rightarrow> s | _ \<Rightarrow> []) vs)) else Inl IndexMalformed
      | _ \<Rightarrow> Inl IndexMalformed)"

definition read_user_ids :: "library_env \<Rightarrow> index_file \<Rightarrow> (library_error, string list) result" where
  "read_user_ids env f =
     (case f of
        IndexMissing \<Rightarrow> Inr []
      | IndexUnreadable \<Rightarrow> Inl IndexUnreadableError
      | IndexText b \<Rightarrow>
          (case decode_json (health_of env) b of
             Decoded doc \<Rightarrow> user_values doc
           | DecodeJsonError \<Rightarrow> Inl IndexUnreadableError
           | DecodeOtherError \<Rightarrow> Inl IndexEscaped))"

definition user_index_json :: "library_env \<Rightarrow> string list \<Rightarrow> json" where
  "user_index_json env ids =
     JObj [(''schema_version'', JInt 1), (''model_ids'', JList (map JStr (sort (remdups ids)))), (''updated_at'', JStr (utc_now (health_of env)))]"

definition user_index_text :: "library_env \<Rightarrow> string list \<Rightarrow> char list" where
  "user_index_text env ids = encode_json (health_of env) (user_index_json env ids) @ [CHR 0x0A]"

definition snapshot_user_file :: "bool \<Rightarrow> index_file \<Rightarrow> char list option" where
  "snapshot_user_file works f = (case f of IndexText b \<Rightarrow> if works then Some b else None | _ \<Rightarrow> None)"

definition restore_user_file :: "bool \<Rightarrow> char list option \<Rightarrow> library \<Rightarrow> library" where
  "restore_user_file works snap lib =
     (if \<not> works then lib
      else lib\<lparr>lib_users := (case snap of None \<Rightarrow> IndexMissing | Some b \<Rightarrow> IndexText b)\<rparr>)"

text \<open>\<open>reload_catalog\<close> never raises: a file that cannot be read is an empty catalogue.\<close>

definition reload_catalog :: "bool \<Rightarrow> library \<Rightarrow> library" where
  "reload_catalog works lib = lib\<lparr>lib_catalog := load_catalog (reading works (lib_models lib))\<rparr>"

definition restore_catalog :: "library_io \<Rightarrow> catalog \<Rightarrow> library \<Rightarrow> library" where
  "restore_catalog io original lib =
     (if undo_save_works io then reload_catalog (undo_reload_works io) (lib\<lparr>lib_models := Some (save_catalog original)\<rparr>)
      else lib\<lparr>lib_catalog := original\<rparr>)"

text \<open>The writes of an operation in its order, up to the first that fails.\<close>

datatype catalog_write = SaveCatalog catalog | WriteUsers "string list"

fun run_writes :: "library_env \<Rightarrow> library_io \<Rightarrow> catalog_write list \<Rightarrow> library \<Rightarrow> bool \<times> library" where
  "run_writes env io [] lib = (True, lib)"
| "run_writes env io (SaveCatalog c # ws) lib =
     (if save_works io then run_writes env io ws (lib\<lparr>lib_models := Some (save_catalog c)\<rparr>) else (False, lib))"
| "run_writes env io (WriteUsers ids # ws) lib =
     (if users_work io then run_writes env io ws (lib\<lparr>lib_users := IndexText (user_index_text env ids)\<rparr>) else (False, lib))"

definition undo :: "library_io \<Rightarrow> bool \<Rightarrow> library \<Rightarrow> library \<Rightarrow> library" where
  "undo io with_users before lib =
     restore_catalog io (lib_catalog before)
       (if with_users then restore_user_file (undo_users_work io) (snapshot_user_file (snapshot_works io) (lib_users before)) lib else lib)"

definition mutate_catalog :: "library_env \<Rightarrow> library_io \<Rightarrow> bool \<Rightarrow> catalog_write list \<Rightarrow> library \<Rightarrow> bool \<times> library" where
  "mutate_catalog env io with_users ws lib =
     (let (ok, lib') = run_writes env io ws lib
      in if ok then (True, reload_catalog (reload_works io) lib') else (False, undo io with_users lib lib'))"

record activity =
  engine_ids :: "string list"
  load_running :: "string \<Rightarrow> bool"
  convert_running :: "string \<Rightarrow> bool"

definition is_model_active :: "activity \<Rightarrow> string \<Rightarrow> bool" where
  "is_model_active act mid \<longleftrightarrow> mid \<in> set (engine_ids act) \<or> load_running act mid \<or> convert_running act mid"

section \<open>Merging the official definitions\<close>

record merge =
  staged :: catalog
  m_added :: "string list"
  m_updated :: "string list"
  m_conflicts :: "string list"

definition protected_model :: "activity \<Rightarrow> string list \<Rightarrow> model_config \<Rightarrow> register_request \<Rightarrow> string \<Rightarrow> bool" where
  "protected_model act users existing d mid \<longleftrightarrow>
     is_model_active act mid \<or> mid \<in> set users
     \<or> (source_model existing \<noteq> [] \<and> source_model existing \<noteq> rg_source_model d)"

definition merge_entry ::
  "library_env \<Rightarrow> activity \<Rightarrow> string list \<Rightarrow> string \<times> manifest_entry \<Rightarrow> merge \<Rightarrow> (library_error, merge) result" where
  "merge_entry env act users = (\<lambda>(mid, e) m.
     let d = (definition_data e)\<lparr>rg_trust := False\<rparr>; existing = map_of (staged m) mid in
     bindr (definition_to_config env d (target_path env mid) existing) (\<lambda>cfg.
     case existing of
       None \<Rightarrow> Inr (m\<lparr>m_added := m_added m @ [mid], staged := AList.update mid cfg (staged m)\<rparr>)
     | Some old \<Rightarrow>
         if model_definition old = model_definition cfg then Inr m
         else if protected_model act users old d mid then Inr (m\<lparr>m_conflicts := m_conflicts m @ [mid]\<rparr>)
         else Inr (m\<lparr>m_updated := m_updated m @ [mid], staged := AList.update mid cfg (staged m)\<rparr>)))"

definition merge_start :: "library \<Rightarrow> merge" where
  "merge_start lib = \<lparr>staged = lib_catalog lib, m_added = [], m_updated = [], m_conflicts = []\<rparr>"

definition apply_official_definitions ::
  "library_env \<Rightarrow> activity \<Rightarrow> library_io \<Rightarrow> manifest \<Rightarrow> library \<Rightarrow> (library_error, merge) result \<times> library" where
  "apply_official_definitions env act io man lib =
     (case bindr (read_user_ids env (lib_users lib)) (\<lambda>users. foldr_result (merge_entry env act users) (manifest_catalog man) (merge_start lib)) of
        Inl e \<Rightarrow> (Inl e, lib)
      | Inr m \<Rightarrow>
          if m_added m = [] \<and> m_updated m = [] then (Inr m, lib)
          else (case mutate_catalog env io False [SaveCatalog (staged m)] lib of
              (ok, lib') \<Rightarrow> (if ok then Inr m else Inl WriteFailed, lib')))"

section \<open>Importing and exporting definitions\<close>

record import_plan =
  p_staged :: catalog
  p_added :: "string list"
  p_updated :: "string list"
  p_unchanged :: "string list"
  p_seen :: "string list"

definition import_start :: "library \<Rightarrow> import_plan" where
  "import_start lib = \<lparr>p_staged = lib_catalog lib, p_added = [], p_updated = [], p_unchanged = [], p_seen = []\<rparr>"

text \<open>\<open>definition.setdefault(key, v)\<close> on a copy.\<close>

definition with_default :: "json \<Rightarrow> string \<Rightarrow> json \<Rightarrow> json" where
  "with_default d key v = (if has_key d key then d else with_item d key v)"

definition place_definition ::
  "activity \<Rightarrow> bool \<Rightarrow> string \<Rightarrow> model_config \<Rightarrow> import_plan \<Rightarrow> (library_error, import_plan) result" where
  "place_definition act overwrite mid cfg p =
     (case map_of (p_staged p) mid of
       None \<Rightarrow> Inr (p\<lparr>p_added := p_added p @ [mid], p_staged := AList.update mid cfg (p_staged p)\<rparr>)
     | Some old \<Rightarrow>
         if model_definition old = model_definition cfg then Inr (p\<lparr>p_unchanged := p_unchanged p @ [mid]\<rparr>)
         else if is_model_active act mid then Inl (ActiveDefinition mid)
         else if \<not> overwrite then Inl (DifferentDefinition mid)
         else Inr (p\<lparr>p_updated := p_updated p @ [mid], p_staged := AList.update mid cfg (p_staged p)\<rparr>))"

definition import_entry ::
  "library_env \<Rightarrow> activity \<Rightarrow> bool \<Rightarrow> string \<times> json \<Rightarrow> import_plan \<Rightarrow> (library_error, import_plan) result" where
  "import_entry env act overwrite = (\<lambda>(key, raw) p.
     bindr (ensure (is_obj raw) (DefinitionNoDict key)) (\<lambda>_.
     bindr (case model_validate (fields_of (schema env)) (with_default raw ''model_id'' (JStr key)) of
              None \<Rightarrow> Inl DefinitionRejected | Some r \<Rightarrow> Inr r) (\<lambda>r.
     bindr (ensure (rg_model_id r \<notin> set (p_seen p)) (DuplicateDefinition (rg_model_id r))) (\<lambda>_.
     bindr (definition_to_config env r (target_path env (rg_model_id r)) (map_of (p_staged p) (rg_model_id r))) (\<lambda>cfg.
     place_definition act overwrite (rg_model_id r) cfg (p\<lparr>p_seen := rg_model_id r # p_seen p\<rparr>))))))"

definition import_items :: "json \<Rightarrow> (library_error, (string \<times> json) list) result" where
  "import_items payload =
     (case (if is_obj (get payload ''models'') then get payload ''models'' else payload) of
        JObj items \<Rightarrow> if items = [] \<or> length items > max_definitions then Inl ImportSize else Inr items
      | _ \<Rightarrow> Inl ImportSize)"

definition import_definitions ::
  "library_env \<Rightarrow> activity \<Rightarrow> library_io \<Rightarrow> bool \<Rightarrow> json \<Rightarrow> library \<Rightarrow> (library_error, import_plan) result \<times> library" where
  "import_definitions env act io overwrite payload lib =
     (case bindr (import_items payload) (\<lambda>items.
           bindr (foldr_result (import_entry env act overwrite) items (import_start lib)) (\<lambda>p.
           bindr (read_user_ids env (lib_users lib)) (\<lambda>users. Inr (p, users)))) of
        Inl e \<Rightarrow> (Inl e, lib)
      | Inr (p, users) \<Rightarrow>
          let ids = users @ p_added p @ p_updated p @ p_unchanged p in
          if p_added p \<noteq> [] \<or> p_updated p \<noteq> [] then
            (case mutate_catalog env io True [SaveCatalog (p_staged p), WriteUsers ids] lib of
               (ok, lib') \<Rightarrow> (if ok then Inr p else Inl WriteFailed, lib'))
          else (case run_writes env io [WriteUsers ids] lib of (ok, lib') \<Rightarrow> (if ok then Inr p else Inl WriteFailed, lib')))"

datatype manifest_source_kind = OfficialCache | Bundled | EmptyFallback

text \<open>The cached and the bundled manifest as bytes, \<open>None\<close> when the file cannot be read.\<close>

definition empty_manifest :: "library_env \<Rightarrow> manifest" where
  "empty_manifest env = \<lparr>generated_at = [], manifest_source = ''empty-fallback'', manifest_catalog = [],
     manifest_sum = catalog_checksum (schema env) (JObj [])\<rparr>"

definition falls_back :: "fetch_error \<Rightarrow> bool" where
  "falls_back e = (case e of Manifest m \<Rightarrow> is_validation_error m | _ \<Rightarrow> False)"

definition read_manifest_file :: "library_env \<Rightarrow> char list option \<Rightarrow> (fetch_error, manifest) result option" where
  "read_manifest_file env f =
     (case f of None \<Rightarrow> None
      | Some b \<Rightarrow> (case parse_manifest_bytes (schema env) (decode_json (health_of env)) b of
           Inr m \<Rightarrow> Some (Inr m)
         | Inl e \<Rightarrow> if falls_back e then None else Some (Inl e)))"

definition read_manifest ::
  "library_env \<Rightarrow> char list option \<Rightarrow> char list option \<Rightarrow> (fetch_error, manifest \<times> manifest_source_kind) result" where
  "read_manifest env cache bundled =
     (case read_manifest_file env cache of
        Some r \<Rightarrow> bindr r (\<lambda>m. Inr (m, OfficialCache))
      | None \<Rightarrow>
          (case read_manifest_file env bundled of
             Some r \<Rightarrow> bindr r (\<lambda>m. Inr (m, Bundled))
           | None \<Rightarrow> Inr (empty_manifest env, EmptyFallback)))"

text \<open>The definitions of the curated and the user's models, or of all.\<close>

definition export_ids :: "string list \<Rightarrow> string list \<Rightarrow> bool \<Rightarrow> catalog \<Rightarrow> string list" where
  "export_ids curated_ids users include_all cat =
     filter (\<lambda>mid. mid \<in> fst ` set cat)
       (sort (remdups (curated_ids @ users @ (if include_all then map fst cat else []))))"

definition export_models :: "string list \<Rightarrow> catalog \<Rightarrow> json" where
  "export_models ids cat =
     JObj (List.map_filter (\<lambda>mid. map_option (\<lambda>cfg. (mid, model_dump (model_definition cfg))) (map_of cat mid)) ids)"

definition export_definitions ::
  "library_env \<Rightarrow> string \<Rightarrow> char list option \<Rightarrow> char list option \<Rightarrow> bool \<Rightarrow> library
     \<Rightarrow> (fetch_error + library_error, json) result" where
  "export_definitions env application cache bundled include_all lib =
     (case read_manifest env cache bundled of
        Inl e \<Rightarrow> Inl (Inl e)
      | Inr (m, source) \<Rightarrow>
          (case read_user_ids env (lib_users lib) of
             Inl e \<Rightarrow> Inl (Inr e)
           | Inr users \<Rightarrow>
               Inr (JObj [(''schema_version'', JInt 1), (''application'', JStr application),
                 (''exported_at'', JStr (utc_now (health_of env))),
                 (''models'', export_models (export_ids (map fst (manifest_catalog m)) users include_all (lib_catalog lib)) (lib_catalog lib))])))"

section \<open>Refreshing the official manifest\<close>

text \<open>
  \<open>refresh_official\<close>: the normalised manifest is written beside the cache, the definitions are merged, and only then
  does the new file take the place of the old. The merge undoes itself; a merge that worked is kept although the file could
  not be replaced.
\<close>

definition manifest_text :: "library_env \<Rightarrow> manifest \<Rightarrow> char list" where
  "manifest_text env m = encode_json (health_of env) (manifest_json m) @ [CHR 0x0A]"

datatype refresh_error = FetchError fetch_error | MergeError library_error | CacheNotWritten

definition refresh_official ::
  "library_env \<Rightarrow> web \<Rightarrow> activity \<Rightarrow> library_io \<Rightarrow> bool \<Rightarrow> bool \<Rightarrow> library \<Rightarrow> char list option
     \<Rightarrow> (refresh_error, string \<times> manifest \<times> merge) result \<times> library \<times> char list option" where
  "refresh_official env w act io temp_works replace_works lib cache =
     (case snd (fetch_official (schema env) (decode_json (health_of env)) w) of
        Inl e \<Rightarrow> (Inl (FetchError e), lib, cache)
      | Inr (src, m) \<Rightarrow>
          if \<not> temp_works then (Inl CacheNotWritten, lib, cache)
          else (case apply_official_definitions env act io m lib of
              (Inl e, lib') \<Rightarrow> (Inl (MergeError e), lib', cache)
            | (Inr mg, lib') \<Rightarrow>
                if replace_works then (Inr (src, m, mg), lib', Some (manifest_text env m)) else (Inl CacheNotWritten, lib', cache)))"

text \<open>What was refreshed is what is read from then on, if its indented form stays within the limit.\<close>

lemma refreshed_manifest_read:
  assumes laws: "schema_laws (schema env)" and json: "decode_json (health_of env) (manifest_text env m) = Decoded (manifest_json m)"
    and step: "refresh_official env w act io temp_works replace_works lib cache = (Inr (src, m, mg), lib', cache')"
    and fits: "length (manifest_text env m) \<le> max_manifest_bytes"
  shows "read_manifest env cache' bundled = Inr (m, OfficialCache)"
proof -
  from step have cache': "cache' = Some (manifest_text env m)"
    and got: "snd (fetch_official (schema env) (decode_json (health_of env)) w) = Inr (src, m)"
    by (auto simp: refresh_official_def split: sum.splits prod.splits if_splits)
  obtain doc where "validate_manifest_document (schema env) doc = Inr m"
    using fetch_result [OF got [unfolded fetch_official_def]] by (auto simp: downloaded_from_def)
  from validate_manifest_again [OF laws this] show ?thesis
    using json fits by (simp add: read_manifest_def read_manifest_file_def cache' parse_manifest_bytes_def)
qed

text \<open>The limit of a megabyte holds for the download; the cache is written with indentation and with escapes and is
  held to the same limit when it is read. One that grew past it is passed over, although the refresh reported success.\<close>

lemma grown_cache_passed_over:
  assumes step: "refresh_official env w act io temp_works replace_works lib cache = (Inr (src, m, mg), lib', cache')"
    and grown: "max_manifest_bytes < length (manifest_text env m)"
  shows "read_manifest env cache' bundled = read_manifest env None bundled"
proof -
  from step have "cache' = Some (manifest_text env m)"
    by (auto simp: refresh_official_def split: sum.splits prod.splits if_splits)
  then show ?thesis
    using grown by (simp add: read_manifest_def read_manifest_file_def parse_manifest_bytes_def falls_back_def is_validation_error_def)
qed

section \<open>Registering a model\<close>

text \<open>\<open>register_model\<close>: on a failed save the old catalogue is put back in memory and written once more.\<close>

definition default_description :: "string \<Rightarrow> string" where
  "default_description source = ''Custom model registered via Web UI. Source: '' @ source"

definition register_model ::
  "library_io \<Rightarrow> register_request \<Rightarrow> library \<Rightarrow> (library_error, model_config) result \<times> library" where
  "register_model io req lib =
     (if rg_model_id req \<in> fst ` set (lib_catalog lib) then
        (Inl (AlreadyRegistered (rg_model_id req)),
         lib\<lparr>lib_models := (if undo_save_works io then Some (save_catalog (lib_catalog lib)) else lib_models lib)\<rparr>)
      else
        let desc = (if text_or_empty (rg_description req) = [] then default_description (rg_source_model req) else text_or_empty (rg_description req));
            cfg = config_of_request req desc (''models/openvino/'' @ rg_model_id req);
            cat = AList.update (rg_model_id req) cfg (lib_catalog lib)
        in if save_works io then (Inr cfg, lib\<lparr>lib_catalog := cat, lib_models := Some (save_catalog cat)\<rparr>)
           else (Inl WriteFailed,
             lib\<lparr>lib_models := (if undo_save_works io then Some (save_catalog (lib_catalog lib)) else lib_models lib)\<rparr>))"

section \<open>What is kept and what is undone\<close>

definition catalog_ok :: "catalog \<Rightarrow> bool" where
  "catalog_ok c \<longleftrightarrow> distinct (map fst c) \<and> (\<forall>(mid, cfg) \<in> set c. config_ok cfg \<and> model_id cfg = mid)"

lemma reload_saved: "catalog_ok c \<Longrightarrow> load_catalog (Some (save_catalog c)) = c"
  by (rule load_save) (auto simp: catalog_ok_def)

lemma map_filter_keys:
  assumes "\<And>e x. f e = Some x \<Longrightarrow> fst x = fst e"
  shows "fst ` set (List.map_filter f es) \<subseteq> fst ` set es \<and> (distinct (map fst es) \<longrightarrow> distinct (map fst (List.map_filter f es)))"
proof (induction es)
  case (Cons e es)
  then show ?case using assms [of e] by (cases "f e") (auto simp: List.map_filter_simps)
qed (simp add: List.map_filter_simps)

lemma loaded_catalog_ok: "distinct (map fst items) \<Longrightarrow> catalog_ok (load_catalog (Some (JObj items)))"
proof -
  assume d: "distinct (map fst items)"
  have "distinct (map fst (load_catalog (Some (JObj items))))"
    unfolding load_catalog_def option.case json.case
    by (rule map_filter_keys [THEN conjunct2, rule_format, OF _ d]) (auto split: if_splits sum.splits)
  then show ?thesis using load_catalog_ok by (auto simp: catalog_ok_def)
qed

lemma map_of_load_save:
  assumes "distinct (map fst c)"
  shows "map_of (load_catalog (Some (save_catalog c))) mid =
    (case map_of c mid of None \<Rightarrow> None
     | Some cfg \<Rightarrow> (case coerce_entry mid (entry_json cfg) of Inl e \<Rightarrow> None | Inr x \<Rightarrow> Some x))"
  using assms
proof (induction c)
  case (Cons e c)
  obtain m cfg where e: "e = (m, cfg)" by (cases e)
  have obj: "is_obj (entry_json cfg)" by (simp add: entry_json_def is_obj_def)
  have split: "load_catalog (Some (save_catalog (e # c))) =
      (case coerce_entry m (entry_json cfg) of Inl _ \<Rightarrow> [] | Inr x \<Rightarrow> [(m, x)]) @ load_catalog (Some (save_catalog c))"
    using obj by (simp add: e load_catalog_def save_catalog_def List.map_filter_simps split: sum.split)
  have "map_of c m = None" using Cons.prems by (simp add: e map_of_eq_None_iff)
  then show ?case using Cons unfolding split by (auto simp: e split: sum.split)
qed (simp add: load_catalog_def save_catalog_def List.map_filter_def)

lemma run_writes_catalog: "lib_catalog (snd (run_writes env io ws lib)) = lib_catalog lib"
  by (induction env io ws lib rule: run_writes.induct) simp_all

lemma run_writes_users:
  "\<forall>w \<in> set ws. \<exists>c. w = SaveCatalog c \<Longrightarrow> lib_users (snd (run_writes env io ws lib)) = lib_users lib"
  by (induction env io ws lib rule: run_writes.induct) simp_all

text \<open>A mutation that fails is undone: the catalogue in memory is the old one, and so is what the file loads to; the
  user index is back to its bytes.\<close>

lemma failed_mutation_undone:
  assumes "catalog_ok (lib_catalog lib)" and "mutate_catalog env io with_users ws lib = (False, lib')" and "undo_reload_works io"
  shows "lib_catalog lib' = lib_catalog lib" "undo_save_works io \<Longrightarrow> load_catalog (lib_models lib') = lib_catalog lib"
    "\<not> with_users \<Longrightarrow> \<forall>w \<in> set ws. \<exists>c. w = SaveCatalog c \<Longrightarrow> lib_users lib' = lib_users lib"
    "with_users \<Longrightarrow> undo_users_work io \<Longrightarrow> snapshot_works io \<Longrightarrow> lib_users lib \<noteq> IndexUnreadable \<Longrightarrow> lib_users lib' = lib_users lib"
proof -
  have lib': "lib' = undo io with_users lib (snd (run_writes env io ws lib))"
    using assms(2) by (auto simp: mutate_catalog_def Let_def split: prod.splits if_splits)
  have restored: "lib_catalog (restore_catalog io (lib_catalog lib) x) = lib_catalog lib"
    "undo_save_works io \<Longrightarrow> load_catalog (lib_models (restore_catalog io (lib_catalog lib) x)) = lib_catalog lib"
    "lib_users (restore_catalog io (lib_catalog lib) x) = lib_users x" for x
    using assms(1,3) by (simp_all add: restore_catalog_def reload_catalog_def reading_def reload_saved)
  show "lib_catalog lib' = lib_catalog lib" "undo_save_works io \<Longrightarrow> load_catalog (lib_models lib') = lib_catalog lib"
    unfolding lib' undo_def by (rule restored)+
  show "\<not> with_users \<Longrightarrow> \<forall>w \<in> set ws. \<exists>c. w = SaveCatalog c \<Longrightarrow> lib_users lib' = lib_users lib"
    unfolding lib' undo_def restored by (simp add: run_writes_users)
  show "with_users \<Longrightarrow> undo_users_work io \<Longrightarrow> snapshot_works io \<Longrightarrow> lib_users lib \<noteq> IndexUnreadable \<Longrightarrow> lib_users lib' = lib_users lib"
    unfolding lib' undo_def restored by (cases "lib_users lib") (simp_all add: restore_user_file_def snapshot_user_file_def)
qed

lemma coerce_entry_path: "coerce_entry mid (entry_json cfg) = Inr new \<Longrightarrow> model_path new = py_strip (model_path cfg)"
  unfolding coerce_entry_def Let_def bindr_eq_Inr
  by (elim exE conjE) (auto simp: string_field_def entry_json_fields split: if_splits)

section \<open>Merging\<close>

lemma definition_to_config_path:
  "definition_to_config env r path (Some old) = Inr cfg \<Longrightarrow> model_path cfg = model_path old \<and> model_id cfg = model_id old"
  by (auto simp: definition_to_config_def split: option.splits if_splits)

lemma protected_trust: "protected_model act users old (d\<lparr>rg_trust := t\<rparr>) mid = protected_model act users old d mid"
  by (simp add: protected_model_def)

text \<open>What one entry, and so a whole manifest, leaves of a model that was there.\<close>

definition merge_keeps :: "string \<Rightarrow> catalog \<Rightarrow> catalog \<Rightarrow> bool" where
  "merge_keeps mid c c' \<longleftrightarrow> (\<forall>old. map_of c mid = Some old \<longrightarrow> (\<exists>new. map_of c' mid = Some new \<and> model_path new = model_path old))
     \<and> (distinct (map fst c) \<longrightarrow> distinct (map fst c'))"

lemma merge_entry_keeps:
  assumes "merge_entry env act users (k, e) m = Inr m'"
  shows "merge_keeps mid (staged m) (staged m')"
    and "map_of (staged m) mid = Some old \<Longrightarrow> k = mid \<longrightarrow> protected_model act users old (definition_data e) mid
      \<Longrightarrow> map_of (staged m') mid = Some old"
proof -
  from assms obtain cfg where cfg: "definition_to_config env ((definition_data e)\<lparr>rg_trust := False\<rparr>) (target_path env k) (map_of (staged m) k) = Inr cfg"
    and m': "((case map_of (staged m) k of
       None \<Rightarrow> Inr (m\<lparr>m_added := m_added m @ [k], staged := AList.update k cfg (staged m)\<rparr>)
     | Some old \<Rightarrow>
         if model_definition old = model_definition cfg then Inr m
         else if protected_model act users old ((definition_data e)\<lparr>rg_trust := False\<rparr>) k then Inr (m\<lparr>m_conflicts := m_conflicts m @ [k]\<rparr>)
         else Inr (m\<lparr>m_updated := m_updated m @ [k], staged := AList.update k cfg (staged m)\<rparr>)) :: (library_error, merge) result) = Inr m'"
    by (auto simp: merge_entry_def Let_def bindr_eq_Inr)
  show "merge_keeps mid (staged m) (staged m')"
    using m' cfg definition_to_config_path
    by (auto simp: merge_keeps_def update_conv' distinct_update split: option.splits if_splits)
  show "map_of (staged m') mid = Some old"
    if "map_of (staged m) mid = Some old" "k = mid \<longrightarrow> protected_model act users old (definition_data e) mid"
    using m' that by (auto simp: update_conv' protected_trust split: option.splits if_splits)
qed

lemma merge_keeps_trans: "merge_keeps mid a b \<Longrightarrow> merge_keeps mid b c \<Longrightarrow> merge_keeps mid a c"
  unfolding merge_keeps_def by metis

lemma merge_all_keeps:
  assumes "foldr_result (merge_entry env act users) es m = Inr m'"
  shows "merge_keeps mid (staged m) (staged m')"
    and "map_of (staged m) mid = Some old \<Longrightarrow> \<forall>e. (mid, e) \<in> set es \<longrightarrow> protected_model act users old (definition_data e) mid
      \<Longrightarrow> map_of (staged m') mid = Some old"
proof -
  show "merge_keeps mid (staged m) (staged m')"
    using assms
  proof (induction es arbitrary: m)
    case (Cons x es)
    obtain k e where x: "x = (k, e)" by (cases x)
    from Cons.prems obtain m1 where m1: "merge_entry env act users (k, e) m = Inr m1"
      and rest: "foldr_result (merge_entry env act users) es m1 = Inr m'" by (auto simp: x bindr_eq_Inr)
    show ?case by (rule merge_keeps_trans [OF merge_entry_keeps(1) [OF m1] Cons.IH [OF rest]])
  qed (simp add: merge_keeps_def)
  show "map_of (staged m') mid = Some old"
    if "map_of (staged m) mid = Some old" "\<forall>e. (mid, e) \<in> set es \<longrightarrow> protected_model act users old (definition_data e) mid"
    using assms that
  proof (induction es arbitrary: m)
    case (Cons x es)
    obtain k e where x: "x = (k, e)" by (cases x)
    from Cons.prems obtain m1 where m1: "merge_entry env act users (k, e) m = Inr m1"
      and rest: "foldr_result (merge_entry env act users) es m1 = Inr m'" by (auto simp: x bindr_eq_Inr)
    have "map_of (staged m1) mid = Some old"
      by (rule merge_entry_keeps(2) [OF m1 Cons.prems(2)]) (use Cons.prems(3) x in auto)
    then show ?case by (rule Cons.IH [OF rest]) (use Cons.prems(3) in auto)
  qed simp
qed


section \<open>Importing\<close>

lemma import_definitions_cases:
  assumes "import_definitions env act io overwrite payload lib = (r, lib')"
  obtains e where "r = Inl e" "lib' = lib"
  | items p users ids okay where "import_items payload = Inr items"
      "foldr_result (import_entry env act overwrite) items (import_start lib) = Inr p" "read_user_ids env (lib_users lib) = Inr users"
      "ids = users @ p_added p @ p_updated p @ p_unchanged p" "r = (if okay then Inr p else Inl WriteFailed)"
      "(if p_added p \<noteq> [] \<or> p_updated p \<noteq> [] then mutate_catalog env io True [SaveCatalog (p_staged p), WriteUsers ids] lib
        else run_writes env io [WriteUsers ids] lib) = (okay, lib')"
proof (cases "bindr (import_items payload) (\<lambda>items.
    bindr (foldr_result (import_entry env act overwrite) items (import_start lib)) (\<lambda>p.
    bindr (read_user_ids env (lib_users lib)) (\<lambda>users. Inr (p, users))))")
  case (Inl e)
  then show ?thesis using assms that(1) [of e] by (simp add: import_definitions_def)
next
  case (Inr pu)
  obtain p users where pu: "pu = (p, users)" by (cases pu)
  from Inr obtain items where items: "import_items payload = Inr items"
    "foldr_result (import_entry env act overwrite) items (import_start lib) = Inr p" "read_user_ids env (lib_users lib) = Inr users"
    by (auto simp: pu bindr_eq_Inr)
  show ?thesis
    using assms unfolding import_definitions_def Inr pu sum.case prod.case Let_def
    by (auto simp del: run_writes.simps split: if_splits prod.splits intro: that(2) [OF items refl])
qed


text \<open>What an import that succeeds leaves of the models it does not update.\<close>

definition import_keeps :: "catalog \<Rightarrow> import_plan \<Rightarrow> bool" where
  "import_keeps c p \<longleftrightarrow> (\<forall>mid old. map_of c mid = Some old \<longrightarrow> map_of (p_staged p) mid = Some old \<or> mid \<in> set (p_updated p))
     \<and> (distinct (map fst c) \<longrightarrow> distinct (map fst (p_staged p)))"

definition import_fine :: "activity \<Rightarrow> bool \<Rightarrow> catalog \<Rightarrow> import_plan \<Rightarrow> bool" where
  "import_fine act overwrite c p \<longleftrightarrow> import_keeps c p \<and> (\<forall>mid \<in> set (p_updated p). \<not> is_model_active act mid) \<and>
     (\<not> overwrite \<longrightarrow> p_updated p = [])"

lemma place_definition_fine:
  "place_definition act overwrite mid cfg p = Inr p' \<Longrightarrow> import_fine act overwrite c p \<Longrightarrow> import_fine act overwrite c p'"
  by (auto simp: place_definition_def import_fine_def import_keeps_def update_conv' distinct_update
      simp del: map_of_eq_Some_iff map_of_eq_None_iff split: option.splits if_splits) (blast | fastforce)+

lemma import_entry_fine:
  assumes "import_entry env act overwrite e p = Inr p'" and "import_fine act overwrite c p"
  shows "import_fine act overwrite c p'"
proof -
  obtain key raw where e: "e = (key, raw)" by (cases e)
  from assms(1) obtain mid cfg q where "place_definition act overwrite mid cfg (p\<lparr>p_seen := q\<rparr>) = Inr p'"
    by (auto simp: e import_entry_def bindr_eq_Inr)
  moreover have "import_fine act overwrite c (p\<lparr>p_seen := q\<rparr>)" for q
    using assms(2) by (simp add: import_fine_def import_keeps_def)
  ultimately show ?thesis by (rule place_definition_fine)
qed

lemma import_all_fine:
  "foldr_result (import_entry env act overwrite) items p = Inr p' \<Longrightarrow> import_fine act overwrite c p \<Longrightarrow> import_fine act overwrite c p'"
  by (induction items arbitrary: p) (auto simp: bindr_eq_Inr dest: import_entry_fine)

text \<open>A successful import leaves every model as it is that it does not report as updated; those were not in use,
  and without \<open>overwrite\<close> there are none.\<close>

lemma import_spares_the_rest:
  assumes ok: "catalog_ok (lib_catalog lib)" and step: "import_definitions env act io overwrite payload lib = (Inr p, lib')"
    and io: "reload_works io"
  shows "(\<forall>mid old. map_of (lib_catalog lib) mid = Some old \<longrightarrow> mid \<notin> set (p_updated p) \<longrightarrow> map_of (lib_catalog lib') mid = Some old) \<and>
    (\<forall>mid \<in> set (p_updated p). \<not> is_model_active act mid) \<and> (\<not> overwrite \<longrightarrow> p_updated p = [])"
proof -
  from step obtain items ids where fold: "foldr_result (import_entry env act overwrite) items (import_start lib) = Inr p"
    and w: "mutate_catalog env io True [SaveCatalog (p_staged p), WriteUsers ids] lib = (True, lib')
      \<or> run_writes env io [WriteUsers ids] lib = (True, lib')"
    by (cases rule: import_definitions_cases) (auto simp del: run_writes.simps split: if_splits)
  have "import_fine act overwrite (lib_catalog lib) (import_start lib)"
    by (simp add: import_fine_def import_keeps_def import_start_def)
  from import_all_fine [OF fold this] have fine: "import_fine act overwrite (lib_catalog lib) p" .
  then have keeps: "import_keeps (lib_catalog lib) p" by (simp add: import_fine_def)
  then have d: "distinct (map fst (p_staged p))" using ok by (simp add: import_keeps_def catalog_ok_def)
  have kept: "map_of (lib_catalog lib') mid = Some old"
    if old: "map_of (lib_catalog lib) mid = Some old" "mid \<notin> set (p_updated p)" for mid old
    using w
  proof
    assume m: "mutate_catalog env io True [SaveCatalog (p_staged p), WriteUsers ids] lib = (True, lib')"
    then have "lib_catalog lib' = load_catalog (Some (save_catalog (p_staged p)))"
      using io by (auto simp: mutate_catalog_def reload_catalog_def reading_def split: if_splits)
    moreover have "map_of (p_staged p) mid = Some old" using keeps old by (auto simp: import_keeps_def)
    moreover have "config_ok old" "model_id old = mid" using ok map_of_SomeD [OF old(1)] by (auto simp: catalog_ok_def)
    ultimately show ?thesis using coerce_entry_json [of old] by (simp add: map_of_load_save [OF d])
  qed (use old in \<open>auto split: if_splits\<close>)
  show ?thesis
    using kept fine by (auto simp: import_fine_def)
qed

section \<open>From one library to another\<close>

text \<open>The configuration an imported definition gets: its own directory and no recommendations.\<close>

definition fresh_config :: "library_env \<Rightarrow> model_config \<Rightarrow> model_config" where
  "fresh_config env cfg =
     cfg\<lparr>model_path := target_path env (model_id cfg), recommended_context_len := None, kv_cache_precision := None\<rparr>"

lemma model_definition_fresh: "model_definition (fresh_config env cfg) = model_definition cfg"
  by (simp add: model_definition_def fresh_config_def)

lemma config_of_definition:
  "config_of_request (model_definition cfg) (description cfg) (target_path env (model_id cfg)) = fresh_config env cfg"
  by (cases cfg) (simp add: config_of_request_def model_definition_def fresh_config_def)

lemma fresh_config_ok:
  "config_ok cfg \<Longrightarrow> py_strip (target_path env (model_id cfg)) = target_path env (model_id cfg) \<Longrightarrow> target_path env (model_id cfg) \<noteq> []
    \<Longrightarrow> config_ok (fresh_config env cfg)"
  by (simp add: config_ok_def fresh_config_def)

lemma catalog_ok_update:
  assumes "catalog_ok c" and "config_ok cfg" and "model_id cfg = mid"
  shows "catalog_ok (AList.update mid cfg c)"
proof -
  have d: "distinct (map fst (AList.update mid cfg c))" using assms(1) by (simp add: catalog_ok_def distinct_update)
  moreover have "config_ok x \<and> model_id x = k" if "(k, x) \<in> set (AList.update mid cfg c)" for k x
  proof -
    have "map_of (AList.update mid cfg c) k = Some x" by (rule map_of_is_SomeI [OF d that])
    then have "k = mid \<and> x = cfg \<or> map_of c k = Some x" unfolding update_conv' fun_upd_apply by (cases "k = mid") simp_all
    then show ?thesis using assms map_of_SomeD [of c k x] by (auto simp: catalog_ok_def)
  qed
  ultimately show ?thesis by (auto simp: catalog_ok_def)
qed

lemma import_exported_entry:
  assumes "schema_laws (schema env)" and "request_ok (model_definition cfg)" and "mid = model_id cfg"
    and "map_of (p_staged p) mid = None" and "mid \<notin> set (p_seen p)"
  shows "import_entry env act overwrite (mid, model_dump (model_definition cfg)) p =
    Inr (p\<lparr>p_seen := mid # p_seen p, p_added := p_added p @ [mid], p_staged := AList.update mid (fresh_config env cfg) (p_staged p)\<rparr>)"
proof -
  have valid: "model_validate (fields_of (schema env)) (model_dump (model_definition cfg)) = Some (model_definition cfg)"
    using model_validate_dump [OF assms(2)] assms(1) by (simp add: schema_laws_def)
  have id: "rg_model_id (model_definition cfg) = mid" "rg_description (model_definition cfg) = Some (description cfg)"
    by (simp_all add: model_definition_def assms(3))
  have conf: "definition_to_config env (model_definition cfg) (target_path env mid) None = Inr (fresh_config env cfg)"
    using config_of_definition [of cfg env] by (simp add: definition_to_config_def valid id text_or_empty_def assms(3))
  have whole: "with_default (model_dump (model_definition cfg)) ''model_id'' v = model_dump (model_definition cfg)" for v
    by (simp add: with_default_def model_dump_fields)
  have obj: "is_obj (model_dump (model_definition cfg))" by (simp add: is_obj_def model_dump_def)
  show ?thesis
    unfolding import_entry_def prod.case whole valid option.case bindr_simps id assms(4) conf
    using assms(4,5) by (simp add: obj ensure_def place_definition_def)
qed

definition exported_items :: "catalog \<Rightarrow> (string \<times> json) list" where
  "exported_items es = map (\<lambda>(mid, cfg). (mid, model_dump (model_definition cfg))) es"

lemma import_exported_all:
  assumes "schema_laws (schema env)" and "distinct (map fst es)"
    and "\<forall>(mid, cfg) \<in> set es. request_ok (model_definition cfg) \<and> mid = model_id cfg \<and> config_ok (fresh_config env cfg)"
    and "\<forall>mid \<in> fst ` set es. map_of (p_staged p) mid = None \<and> mid \<notin> set (p_seen p)" and "catalog_ok (p_staged p)"
  shows "\<exists>p'. foldr_result (import_entry env act overwrite) (exported_items es) p = Inr p' \<and> p_added p' = p_added p @ map fst es \<and>
    p_updated p' = p_updated p \<and> p_unchanged p' = p_unchanged p \<and> catalog_ok (p_staged p') \<and>
    (\<forall>k. map_of (p_staged p') k = (case map_of es k of None \<Rightarrow> map_of (p_staged p) k | Some cfg \<Rightarrow> Some (fresh_config env cfg)))"
  using assms(2-)
proof (induction es arbitrary: p)
  case (Cons e es)
  obtain mid cfg where e: "e = (mid, cfg)" by (cases e)
  let ?p = "p\<lparr>p_seen := mid # p_seen p, p_added := p_added p @ [mid], p_staged := AList.update mid (fresh_config env cfg) (p_staged p)\<rparr>"
  have mid: "mid \<notin> fst ` set es" and rest: "distinct (map fst es)" using Cons.prems(1) by (simp_all add: e)
  have one: "request_ok (model_definition cfg)" "mid = model_id cfg" "config_ok (fresh_config env cfg)"
    "map_of (p_staged p) mid = None" "mid \<notin> set (p_seen p)"
    using Cons.prems(2,3) by (simp_all add: e del: map_of_eq_None_iff)
  have step: "import_entry env act overwrite (mid, model_dump (model_definition cfg)) p = Inr ?p"
    by (rule import_exported_entry [OF assms(1) one(1,2,4,5)])
  have ok: "catalog_ok (p_staged ?p)"
    using catalog_ok_update [OF Cons.prems(4) one(3)] one(2) by (simp add: fresh_config_def)
  have "\<forall>k \<in> fst ` set es. map_of (p_staged ?p) k = None \<and> k \<notin> set (p_seen ?p)"
    using Cons.prems(3) mid by (auto simp: e update_conv' simp del: map_of_eq_None_iff)
  note absent = this
  have "\<forall>(mid, cfg) \<in> set es. request_ok (model_definition cfg) \<and> mid = model_id cfg \<and> config_ok (fresh_config env cfg)"
    using Cons.prems(2) by simp
  from Cons.IH [OF rest this absent ok] obtain p' where
    p': "foldr_result (import_entry env act overwrite) (exported_items es) ?p = Inr p'" "p_added p' = p_added ?p @ map fst es"
      "p_updated p' = p_updated p" "p_unchanged p' = p_unchanged p" "catalog_ok (p_staged p')"
      "\<forall>k. map_of (p_staged p') k = (case map_of es k of None \<Rightarrow> map_of (p_staged ?p) k | Some cfg \<Rightarrow> Some (fresh_config env cfg))"
    by auto
  have "map_of es mid = None" using mid by (simp add: map_of_eq_None_iff)
  then have "\<forall>k. map_of (p_staged p') k = (case map_of (e # es) k of None \<Rightarrow> map_of (p_staged p) k | Some cfg \<Rightarrow> Some (fresh_config env cfg))"
    using p'(6) by (auto simp: e update_conv' simp del: map_of_eq_None_iff split: option.split)
  moreover have "foldr_result (import_entry env act overwrite) (exported_items (e # es)) p = Inr p'"
    using step p'(1) by (simp add: exported_items_def e)
  ultimately show ?case using p' by (intro exI [of _ p']) (simp add: e)
qed (simp add: exported_items_def)

text \<open>The models an export names, as pairs.\<close>

definition exported :: "string list \<Rightarrow> catalog \<Rightarrow> catalog" where
  "exported ids cat = map (\<lambda>mid. (mid, the (map_of cat mid))) ids"

lemma export_models_items:
  assumes "set ids \<subseteq> fst ` set cat"
  shows "export_models ids cat = JObj (exported_items (exported ids cat))"
proof -
  have "List.map_filter (\<lambda>mid. map_option (\<lambda>cfg. (mid, model_dump (model_definition cfg))) (map_of cat mid)) ids =
      exported_items (exported ids cat)"
    using assms
  proof (induction ids)
    case (Cons mid ids)
    then have "map_of cat mid \<noteq> None" by (simp add: map_of_eq_None_iff)
    then show ?case using Cons by (auto simp: List.map_filter_simps exported_items_def exported_def)
  qed (simp add: List.map_filter_simps exported_items_def exported_def)
  then show ?thesis by (simp add: export_models_def)
qed

lemma export_ids_ok:
  "distinct (export_ids a users all cat) \<and> set (export_ids a users all cat) \<subseteq> fst ` set cat"
  by (auto simp: export_ids_def)

text \<open>C37: What one installation exports another can import: if every exported definition fulfils what a registration
  must (a non-empty source, say), there are between one and fifty, and none of them is known there yet, the import
  adds exactly these models, each with the definition it was exported with, and leaves all others as they are.\<close>

theorem exported_models_import:
  assumes laws: "schema_laws (schema env)" and cat: "catalog_ok (lib_catalog lib)" and here: "catalog_ok (lib_catalog lib2)"
    and doc: "export_definitions env1 application cache bundled include_all lib = Inr doc"
    and items: "get doc ''models'' = JObj items" "items \<noteq> []" "length items \<le> max_definitions"
    and valid: "\<And>mid cfg. mid \<in> fst ` set items \<Longrightarrow> map_of (lib_catalog lib) mid = Some cfg \<Longrightarrow> request_ok (model_definition cfg)
      \<and> py_strip (target_path env mid) = target_path env mid \<and> target_path env mid \<noteq> []"
    and new: "\<And>mid. mid \<in> fst ` set items \<Longrightarrow> mid \<notin> fst ` set (lib_catalog lib2)"
    and users: "read_user_ids env (lib_users lib2) = Inr users"
    and io: "save_works io" "users_work io" "reload_works io"
  shows "\<exists>p lib'. import_definitions env act io overwrite doc lib2 = (Inr p, lib') \<and> p_added p = map fst items \<and> p_updated p = [] \<and>
    (\<forall>mid \<in> fst ` set items. \<exists>old cfg. map_of (lib_catalog lib) mid = Some old \<and> map_of (lib_catalog lib') mid = Some cfg
       \<and> model_definition cfg = model_definition old) \<and>
    (\<forall>mid. mid \<notin> fst ` set items \<longrightarrow> map_of (lib_catalog lib') mid = map_of (lib_catalog lib2) mid)"
proof -
  from doc obtain ids0 users0 where "get doc ''models'' = export_models (export_ids ids0 users0 include_all (lib_catalog lib)) (lib_catalog lib)"
    by (auto simp: export_definitions_def split: sum.splits)
  then obtain ids where ids: "get doc ''models'' = export_models ids (lib_catalog lib)" "distinct ids" "set ids \<subseteq> fst ` set (lib_catalog lib)"
    using export_ids_ok by metis
  let ?es = "exported ids (lib_catalog lib)"
  have it: "items = exported_items ?es" using ids(1) items(1) export_models_items [OF ids(3)] by simp
  have keys: "map fst items = ids" "map fst ?es = ids" by (simp_all add: it exported_items_def exported_def comp_def case_prod_beta')
  then have keyset: "fst ` set items = set ids" by (metis list.set_map)
  have look: "map_of (lib_catalog lib) mid = Some (the (map_of (lib_catalog lib) mid))" if "mid \<in> set ids" for mid
    using that ids(3) by (metis map_of_eq_None_iff option.collapse subsetD)
  have good: "request_ok (model_definition cfg) \<and> mid = model_id cfg \<and> config_ok (fresh_config env cfg)"
    if mem: "(mid, cfg) \<in> set ?es" for mid cfg
  proof -
    have mid: "mid \<in> set ids" "map_of (lib_catalog lib) mid = Some cfg"
      using mem look by (auto simp: exported_def simp del: map_of_eq_Some_iff)
    then have c: "config_ok cfg" "model_id cfg = mid" using cat map_of_SomeD [OF mid(2)] by (auto simp: catalog_ok_def)
    have "mid \<in> fst ` set items" using mid(1) by (simp add: keyset)
    from valid [OF this mid(2)] fresh_config_ok [OF c(1), of env] c show ?thesis by simp
  qed
  have start: "p_staged (import_start lib2) = lib_catalog lib2" "p_seen (import_start lib2) = []" "p_added (import_start lib2) = []"
    "p_updated (import_start lib2) = []"
    by (simp_all add: import_start_def)
  have absent: "\<forall>mid \<in> fst ` set ?es. map_of (p_staged (import_start lib2)) mid = None \<and> mid \<notin> set (p_seen (import_start lib2))"
  proof -
    have "fst ` set ?es = fst ` set items" using keys(2) keyset by (metis list.set_map)
    then show ?thesis using new by (simp add: start map_of_eq_None_iff)
  qed
  have d: "distinct (map fst ?es)" using keys(2) ids(2) by simp
  have good': "\<forall>(mid, cfg) \<in> set ?es. request_ok (model_definition cfg) \<and> mid = model_id cfg \<and> config_ok (fresh_config env cfg)"
    using good by blast
  have here': "catalog_ok (p_staged (import_start lib2))" using here by (simp add: start)
  obtain p where
    p: "foldr_result (import_entry env act overwrite) items (import_start lib2) = Inr p" "p_added p = ids" "p_updated p = []"
      "catalog_ok (p_staged p)"
      "\<forall>k. map_of (p_staged p) k = (case map_of ?es k of None \<Rightarrow> map_of (lib_catalog lib2) k | Some cfg \<Rightarrow> Some (fresh_config env cfg))"
    using import_exported_all [OF laws d good' absent here', of act overwrite] unfolding it [symmetric] start keys(2) append_Nil by blast
  have "import_items doc = Inr items" using items by (auto simp: import_items_def is_obj_def)
  moreover have "ids \<noteq> []" using items(2) keys(1) by auto
  ultimately obtain lib' where lib': "import_definitions env act io overwrite doc lib2 = (Inr p, lib')"
    "lib_catalog lib' = load_catalog (Some (save_catalog (p_staged p)))"
    using p(1-3) users io by (auto simp: import_definitions_def mutate_catalog_def reload_catalog_def reading_def)
  have cat': "lib_catalog lib' = p_staged p" using lib'(2) reload_saved [OF p(4)] by simp
  have es_of: "map_of ?es mid = (if mid \<in> set ids then Some (the (map_of (lib_catalog lib) mid)) else None)" for mid
    unfolding exported_def by (induction ids) auto
  have moved: "map_of (lib_catalog lib') mid = (if mid \<in> set ids then Some (fresh_config env (the (map_of (lib_catalog lib) mid)))
      else map_of (lib_catalog lib2) mid)" for mid
    unfolding cat' p(5) [rule_format] es_of by simp
  have "\<exists>old cfg. map_of (lib_catalog lib) mid = Some old \<and> map_of (lib_catalog lib') mid = Some cfg
       \<and> model_definition cfg = model_definition old" if "mid \<in> set ids" for mid
    using look [OF that] moved [of mid] that model_definition_fresh by (metis (full_types))
  then show ?thesis
    using lib'(1) p(2,3) moved by (intro exI [of _ p] exI [of _ lib']) (simp add: keys(1) keyset)
qed

section \<open>The properties on a small library\<close>

definition demo_library_env :: library_env where
  "demo_library_env = \<lparr>schema = demo_schema, health_of = plain_health, target_path = (\<lambda>mid. ''/models/'' @ mid)\<rparr>"

definition demo_catalog :: catalog where
  "demo_catalog = load_catalog (Some (JObj [(''m'', JObj [(''source_model'', JStr ''other/m'')])]))"

definition demo_library :: library where
  "demo_library = \<lparr>lib_catalog = demo_catalog, lib_models = Some (save_catalog demo_catalog), lib_users = IndexMissing\<rparr>"

definition empty_library :: library where
  "empty_library = \<lparr>lib_catalog = [], lib_models = None, lib_users = IndexMissing\<rparr>"

definition idle :: activity where
  "idle = \<lparr>engine_ids = [], load_running = (\<lambda>_. False), convert_running = (\<lambda>_. False)\<rparr>"

definition sound_io :: library_io where
  "sound_io = \<lparr>save_works = True, users_work = True, reload_works = True, snapshot_works = True, undo_save_works = True,
     undo_users_work = True, undo_reload_works = True\<rparr>"

definition demo_old :: model_config where "demo_old = the (map_of demo_catalog ''m'')"

lemma demo_catalog_facts:
  "catalog_ok demo_catalog" "map_of demo_catalog ''m'' = Some demo_old" "map fst demo_catalog = [''m'']" "source_model demo_old = ''other/m''"
proof -
  show "catalog_ok demo_catalog" unfolding demo_catalog_def by (rule loaded_catalog_ok) simp
  show "map_of demo_catalog ''m'' = Some demo_old" "map fst demo_catalog = [''m'']" "source_model demo_old = ''other/m''"
    by code_simp+
qed


definition demo_payload :: json where "demo_payload = JObj [(''n'', demo_definition)]"


definition demo_export :: json where
  "demo_export = (case export_definitions demo_library_env ''app'' None None True demo_library of Inr d \<Rightarrow> d | Inl e \<Rightarrow> JNull)"

theorem exported_models_import_witness:
  "\<exists>p lib'. import_definitions demo_library_env idle sound_io False demo_export empty_library = (Inr p, lib') \<and> p_added p = [''m'']"
proof -
  have laws: "schema_laws (schema demo_library_env)" by (simp add: demo_library_env_def demo_schema_laws)
  have doc: "export_definitions demo_library_env ''app'' None None True demo_library = Inr demo_export" by code_simp
  have items: "get demo_export ''models'' = JObj [(''m'', model_dump (model_definition demo_old))]" by code_simp
  have "model_validate (fields_of (schema demo_library_env)) (model_dump (model_definition demo_old)) = Some (model_definition demo_old)"
    by code_simp
  then have req: "request_ok (model_definition demo_old)" by (rule model_validate_ok)
  have path: "py_strip (target_path demo_library_env ''m'') = target_path demo_library_env ''m''" "target_path demo_library_env ''m'' \<noteq> []"
    by code_simp+
  have cat: "catalog_ok (lib_catalog demo_library)" "catalog_ok (lib_catalog empty_library)" "lib_catalog demo_library = demo_catalog"
    using demo_catalog_facts by (simp_all add: demo_library_def empty_library_def catalog_ok_def)
  show ?thesis
    using exported_models_import [where users = "[]" and io = sound_io and act = idle and overwrite = False, OF laws cat(1,2) doc items] req path demo_catalog_facts(2) cat(3)
    by (auto simp: max_definitions_def empty_library_def read_user_ids_def sound_io_def)
qed

section \<open>Where the catalogue loses models\<close>

text \<open>A registration that is refused because the id is taken writes \<open>models.json\<close> all the same, from the catalogue in
  memory: entries of the file that did not validate, and were therefore skipped when it was loaded, are erased.\<close>

lemma refused_registration_rewrites_file:
  assumes "rg_model_id req \<in> fst ` set (lib_catalog lib)" and "undo_save_works io"
  shows "register_model io req lib = (Inl (AlreadyRegistered (rg_model_id req)), lib\<lparr>lib_models := Some (save_catalog (lib_catalog lib))\<rparr>)"
  using assms by (simp add: register_model_def)

definition damaged_file :: json where
  "damaged_file = JObj [(''m'', JObj [(''source_model'', JStr ''other/m'')]), (''typo'', JObj [(''backend'', JStr ''openvino-gena'')])]"

lemma refused_registration_erases_entry:
  "has_key damaged_file ''typo'' \<and> load_catalog (Some damaged_file) = demo_catalog \<and>
   lib_models (snd (register_model sound_io (model_definition demo_old)
     (demo_library\<lparr>lib_models := Some damaged_file\<rparr>))) = Some (save_catalog demo_catalog) \<and>
   \<not> has_key (save_catalog demo_catalog) ''typo''"
proof -
  have facts: "rg_model_id (model_definition demo_old) = ''m''" "has_key damaged_file ''typo''" "load_catalog (Some damaged_file) = demo_catalog"
    "\<not> has_key (save_catalog demo_catalog) ''typo''"
    by code_simp+
  have "''m'' \<in> set (map fst demo_catalog)" by (simp add: demo_catalog_facts(3))
  then have "register_model sound_io (model_definition demo_old) (demo_library\<lparr>lib_models := Some damaged_file\<rparr>) =
      (Inl (AlreadyRegistered ''m''), demo_library\<lparr>lib_models := Some (save_catalog demo_catalog)\<rparr>)"
    using refused_registration_rewrites_file [of "model_definition demo_old" "demo_library\<lparr>lib_models := Some damaged_file\<rparr>" sound_io]
    by (simp add: demo_library_def sound_io_def facts(1))
  then show ?thesis using facts by (simp add: demo_library_def)
qed

text \<open>A name of white space fulfils the length a registration asks for, but not what reading the catalogue asks for:
  such a model is reported as added by an import and is gone from the catalogue.\<close>

definition blank_payload :: json where
  "blank_payload = JObj [(''n'', JObj [(''name'', JStr '' ''), (''source_model'', JStr ''org/n'')])]"

lemma blank_name_vanishes:
  "(case import_definitions demo_library_env idle sound_io False blank_payload empty_library of
      (Inr p, lib') \<Rightarrow> p_added p = [''n''] \<and> lib_catalog lib' = []
    | _ \<Rightarrow> False)"
  by code_simp

text \<open>A catalogue entry may have no source, a registration may not: one such entry makes a whole export unimportable.\<close>

definition sourceless_library :: library where
  "sourceless_library = (let cat = load_catalog (Some (JObj [(''m'', JObj [(''source_model'', JStr ''other/m'')]), (''local'', JObj [])]))
     in \<lparr>lib_catalog = cat, lib_models = Some (save_catalog cat), lib_users = IndexMissing\<rparr>)"

lemma sourceless_export_refused:
  "(case export_definitions demo_library_env ''app'' None None True sourceless_library of
      Inl e \<Rightarrow> False
    | Inr doc \<Rightarrow> (case import_definitions demo_library_env idle sound_io False doc empty_library of
        (Inl e, lib') \<Rightarrow> e = DefinitionRejected | _ \<Rightarrow> False))"
  by code_simp

end
