(* ===== verification/LibraryFiles.thy ===== *)
theory LibraryFiles
  imports ModelLibrary
begin

text \<open>
  The rest of \<open>app/model_library_service.py\<close>: the converted models found in the managed directory that no catalogue entry
  names and the ids suggested for them, adopting one in place, and copying one in from elsewhere.
\<close>

section \<open>Suggested model ids\<close>

definition slug_char :: "char \<Rightarrow> bool" where
  "slug_char c \<longleftrightarrow> ascii_alnum c \<or> c \<in> set ''_.-''"

text \<open>\<open>re.sub(r"[^A-Za-z0-9_.-]+", "-", name)\<close>; the flag says that the run began earlier.\<close>

fun dash_runs :: "bool \<Rightarrow> string \<Rightarrow> string" where
  "dash_runs inside [] = []"
| "dash_runs inside (c # cs) =
     (if slug_char c then c # dash_runs False cs
      else if inside then dash_runs True cs else CHR ''-'' # dash_runs True cs)"

definition mark :: "char \<Rightarrow> bool" where "mark c \<longleftrightarrow> c \<in> set ''.-_''"

definition strip_marks :: "string \<Rightarrow> string" where
  "strip_marks s = rev (dropWhile mark (rev (dropWhile mark s)))"

definition base_id :: "string \<Rightarrow> string" where
  "base_id name =
     (let s = strip_marks (dash_runs False name);
          s = take 128 (if s = [] then ''local-model'' else s)
      in if valid_model_id s then s else take 128 (''local-'' @ s))"

definition numbered :: "string \<Rightarrow> nat \<Rightarrow> string" where
  "numbered base n = (let tail = ''-'' @ show_nat n in take (128 - length tail) base @ tail)"

text \<open>The loop over suffixes; \<open>None\<close> would be that it never ends.\<close>

partial_function (option) free_id :: "string list \<Rightarrow> string \<Rightarrow> string \<Rightarrow> nat \<Rightarrow> string option" where
  "free_id reserved base suggested n =
     (if suggested \<in> set reserved then free_id reserved base (numbered base n) (Suc n) else Some suggested)"

declare free_id.simps [code]

lemma dash_runs_chars: "list_all slug_char (dash_runs b s)"
  by (induction b s rule: dash_runs.induct) (simp_all add: slug_char_def)

lemma strip_marks_head: "strip_marks s \<noteq> [] \<Longrightarrow> \<not> mark (hd (strip_marks s))"
proof -
  assume ne: "strip_marks s \<noteq> []"
  obtain t where t: "dropWhile mark s = strip_marks s @ t"
    unfolding strip_marks_def by (metis rev_append rev_rev_ident takeWhile_dropWhile_id)
  then have "dropWhile mark s \<noteq> []" "hd (dropWhile mark s) = hd (strip_marks s)" using ne by auto
  then show ?thesis using hd_dropWhile by metis
qed

lemma set_strip_marks: "set (strip_marks s) \<subseteq> set s"
  unfolding strip_marks_def by (metis set_dropWhileD set_rev subsetI)

lemma valid_model_slug_chars:
  "valid_model_id s \<longleftrightarrow> s \<noteq> [] \<and> length s \<le> 128 \<and> list_all slug_char s \<and> ascii_alnum (hd s)"
proof (cases s)
  case (Cons c cs)
  have "slug_char = (\<lambda>c. ascii_alnum c \<or> c \<in> set ''_.-'')" by (rule ext) (simp only: slug_char_def)
  then have "list_all (\<lambda>c. ascii_alnum c \<or> c \<in> set ''_.-'') cs = list_all slug_char cs" by (simp only:)
  then show ?thesis unfolding Cons valid_model_id_def list.sel by (auto simp: slug_char_def [of c])
qed (simp add: valid_model_id_def)

lemma base_id_valid: "valid_model_id (base_id name)"
proof -
  let ?t = "strip_marks (dash_runs False name)"
  let ?s = "take 128 (if ?t = [] then ''local-model'' else ?t)"
  have "valid_model_id ?s"
  proof (cases "?t = []")
    case True
    moreover have "valid_model_id (take 128 ''local-model'')" by code_simp
    ultimately show ?thesis by simp
  next
    case False
    have chars: "list_all slug_char ?t"
      using dash_runs_chars [of False name] set_strip_marks [of "dash_runs False name"] by (auto simp: list_all_iff)
    have "hd ?t \<in> set ?t" using False by simp
    then have "slug_char (hd ?t)" using chars by (simp add: list_all_iff)
    moreover have "\<not> mark (hd ?t)" by (rule strip_marks_head [OF False])
    ultimately have "ascii_alnum (hd ?t)" by (auto simp: slug_char_def mark_def)
    moreover have "list_all slug_char (take 128 ?t)" using chars by (auto simp: list_all_iff dest: in_set_takeD)
    ultimately show ?thesis using False by (simp add: valid_model_slug_chars)
  qed
  then show ?thesis by (simp add: base_id_def Let_def)
qed

lemma show_nat_slug: "c \<in> set (show_nat n) \<Longrightarrow> slug_char c \<and> c \<noteq> CHR ''-''"
  using show_nat_chars digit_char_props by (fastforce simp: slug_char_def ascii_alnum_def)

lemma numbered_valid:
  assumes "valid_model_id base" and "length (show_nat n) \<le> 126"
  shows "valid_model_id (numbered base n)"
proof -
  obtain c cs where base: "base = c # cs" using assms(1) by (cases base) (auto simp: valid_model_id_def)
  obtain k where k: "128 - length (''-'' @ show_nat n) = Suc k" using assms(2) by (cases "128 - length (''-'' @ show_nat n)") auto
  have n: "numbered (c # cs) n = c # take k cs @ ''-'' @ show_nat n"
    using k by (simp add: numbered_def)
  have "list_all slug_char (show_nat n)" using show_nat_slug by (auto simp: list_all_iff)
  then show ?thesis
    using assms k unfolding n valid_model_slug_chars base
    by (auto simp: list_all_iff slug_char_def dest: in_set_takeD)
qed

lemma numbered_inj: "numbered base m = numbered base n \<Longrightarrow> m = n"
proof -
  assume eq: "numbered base m = numbered base n"
  have tail: "takeWhile (\<lambda>c. c \<noteq> CHR ''-'') (rev (numbered base k)) = rev (show_nat k)" for k
    using show_nat_slug [of _ k] by (simp add: numbered_def takeWhile_append)
  have "rev (show_nat m) = rev (show_nat n)" using tail [of m] tail [of n] eq by simp
  then have "show_nat m = show_nat n" by simp
  then show "m = n" using digits_val_show_nat by metis
qed

text \<open>The loop ends: it runs out of reserved ids after at most as many rounds as there are.\<close>

lemma free_id_returns:
  assumes "card (set reserved \<inter> numbered base ` {n..}) = k"
  shows "\<exists>x. free_id reserved base s n = Some x \<and> x \<notin> set reserved \<and> (x = s \<or> (\<exists>m \<le> n + k. x = numbered base m))"
  using assms
proof (induction k arbitrary: n s rule: less_induct)
  case (less k)
  show ?case
  proof (cases "s \<in> set reserved")
    case False
    then show ?thesis by (subst free_id.simps) simp
  next
    case True
    then have next_round: "free_id reserved base s n = free_id reserved base (numbered base n) (Suc n)"
      by (subst free_id.simps) simp
    show ?thesis
    proof (cases "numbered base n \<in> set reserved")
      case False
      then have "free_id reserved base (numbered base n) (Suc n) = Some (numbered base n)" by (subst free_id.simps) simp
      then show ?thesis using False next_round by (metis le_add1)
    next
      case True
      have split: "set reserved \<inter> numbered base ` {n..} = insert (numbered base n) (set reserved \<inter> numbered base ` {Suc n..})"
        using True by (auto simp: image_iff) (metis Suc_leI atLeast_iff le_neq_implies_less)
      have "numbered base n \<notin> numbered base ` {Suc n..}" using numbered_inj by fastforce
      then have card: "k = Suc (card (set reserved \<inter> numbered base ` {Suc n..}))"
        using less.prems split by simp
      let ?k = "card (set reserved \<inter> numbered base ` {Suc n..})"
      have "?k < k" using card by simp
      from less.IH [OF this refl, of "numbered base n"] obtain x where
        x: "free_id reserved base (numbered base n) (Suc n) = Some x" "x \<notin> set reserved"
          "x = numbered base n \<or> (\<exists>m \<le> Suc n + ?k. x = numbered base m)" by blast
      then have "\<exists>m \<le> n + k. x = numbered base m" using card by (metis add_Suc_right add_Suc_shift le_add1)
      then show ?thesis using x next_round by auto
    qed
  qed
qed

lemma free_id_fresh:
  assumes "length reserved + 2 < 10 ^ 126"
  obtains x where "free_id reserved (base_id name) (base_id name) 2 = Some x" "x \<notin> set reserved" "valid_model_id x"
proof -
  let ?k = "card (set reserved \<inter> numbered (base_id name) ` {2..})"
  have "?k \<le> card (set reserved)" by (intro card_mono) auto
  also have "\<dots> \<le> length reserved" by (rule card_length)
  finally have k: "?k \<le> length reserved" .
  obtain x where x: "free_id reserved (base_id name) (base_id name) 2 = Some x" "x \<notin> set reserved"
    "x = base_id name \<or> (\<exists>m \<le> 2 + ?k. x = numbered (base_id name) m)"
    using free_id_returns [OF refl] by blast
  have "valid_model_id (numbered (base_id name) m)" if "m \<le> 2 + ?k" for m
  proof (rule numbered_valid [OF base_id_valid])
    have "m < 10 ^ Suc 125" using that k assms by simp
    from length_show_nat [OF this] show "length (show_nat m) \<le> 126" by simp
  qed
  then show ?thesis using x base_id_valid that by auto
qed

section \<open>Converted models no entry names\<close>

record folder_env =
  folder_parsers :: parsers
  child_path :: "string \<Rightarrow> string"               \<comment> \<open>the resolved path of a direct child\<close>
  escapes_root :: "string \<Rightarrow> bool"               \<comment> \<open>does the child resolve outside the directory?\<close>
  resolved_path :: "model_config \<Rightarrow> string option" \<comment> \<open>\<open>None\<close>: \<open>OSError\<close>\<close>

record found_model =
  directory_name :: string
  suggested_id :: string
  suggested_name :: string
  found_size :: nat

definition registered_paths :: "folder_env \<Rightarrow> catalog \<Rightarrow> string list" where
  "registered_paths env cat = List.map_filter (\<lambda>(mid, cfg). resolved_path env cfg) cat"

text \<open>The size of a candidate that counts, \<open>None\<close> when it is passed over.\<close>

definition candidate_size :: "folder_env \<Rightarrow> string list \<Rightarrow> string \<times> fs_node \<Rightarrow> nat option" where
  "candidate_size env registered = (\<lambda>(name, node).
     if starts_with name ''.'' \<or> is_reparse_point (Some node) then None
     else if escapes_root env name \<or> child_path env name \<in> set registered \<or> \<not> is_directory node then None
     else if \<not> holds_model (folder_parsers env) (Some node) then None
     else directory_size_bytes node)"

definition readable_name :: "string \<Rightarrow> string" where
  "readable_name name = py_strip (map (\<lambda>c. if c = CHR ''_'' \<or> c = CHR ''-'' then CHR '' '' else c) name)"

fun discover :: "folder_env \<Rightarrow> string list \<Rightarrow> string list \<Rightarrow> (string \<times> fs_node) list \<Rightarrow> found_model list option" where
  "discover env registered reserved [] = Some []"
| "discover env registered reserved (candidate # rest) =
     (case candidate_size env registered candidate of
        None \<Rightarrow> discover env registered reserved rest
      | Some bytes \<Rightarrow>
          Option.bind (free_id reserved (base_id (fst candidate)) (base_id (fst candidate)) 2) (\<lambda>mid.
          map_option (\<lambda>found. \<lparr>directory_name = fst candidate, suggested_id = mid,
              suggested_name = (let n = readable_name (fst candidate) in if n = [] then mid else n), found_size = bytes\<rparr> # found)
            (discover env registered (mid # reserved) rest)))"

text \<open>\<open>None\<close> for the children when \<open>models_dir\<close> is no directory.\<close>

definition unregistered_managed_models ::
  "folder_env \<Rightarrow> catalog \<Rightarrow> (string \<times> fs_node) list option \<Rightarrow> found_model list option" where
  "unregistered_managed_models env cat children =
     (case children of
        None \<Rightarrow> Some []
      | Some cs \<Rightarrow> discover env (registered_paths env cat) (map fst cat) (sort_key (\<lambda>c. py_lower (fst c)) cs))"

definition offered_directory :: "folder_env \<Rightarrow> string list \<Rightarrow> (string \<times> fs_node) list \<Rightarrow> found_model \<Rightarrow> bool" where
  "offered_directory env registered cs d \<longleftrightarrow>
     (\<exists>node. (directory_name d, node) \<in> set cs \<and> holds_model (folder_parsers env) (Some node) \<and>
        \<not> is_reparse_point (Some node) \<and> child_path env (directory_name d) \<notin> set registered)"

lemma candidate_size_Some:
  "candidate_size env registered (name, node) = Some b \<Longrightarrow>
     holds_model (folder_parsers env) (Some node) \<and> \<not> is_reparse_point (Some node) \<and> child_path env name \<notin> set registered"
  by (auto simp: candidate_size_def split: if_splits)

lemma discover_sound:
  assumes "length reserved + length cs + 2 < 10 ^ 126"
  shows "\<exists>ds. discover env registered reserved cs = Some ds \<and> distinct (map suggested_id ds) \<and>
    (\<forall>d \<in> set ds. valid_model_id (suggested_id d) \<and> suggested_id d \<notin> set reserved \<and> offered_directory env registered cs d)"
  using assms
proof (induction cs arbitrary: reserved)
  case (Cons c cs)
  have wider: "offered_directory env registered cs d \<Longrightarrow> offered_directory env registered (c # cs) d" for d
    by (auto simp: offered_directory_def)
  show ?case
  proof (cases "candidate_size env registered c")
    case None
    from Cons.prems have "length reserved + length cs + 2 < 10 ^ 126" by simp
    from Cons.IH [OF this] show ?thesis using None wider by auto
  next
    case (Some b)
    from Cons.prems have "length reserved + 2 < 10 ^ 126" by simp
    then obtain x where x: "free_id reserved (base_id (fst c)) (base_id (fst c)) 2 = Some x" "x \<notin> set reserved" "valid_model_id x"
      by (rule free_id_fresh)
    have "length (x # reserved) + length cs + 2 < 10 ^ 126" using Cons.prems by simp
    from Cons.IH [OF this] obtain ds where ds: "discover env registered (x # reserved) cs = Some ds" "distinct (map suggested_id ds)"
      "\<forall>d \<in> set ds. valid_model_id (suggested_id d) \<and> suggested_id d \<notin> set (x # reserved) \<and> offered_directory env registered cs d"
      by blast
    let ?d = "\<lparr>directory_name = fst c, suggested_id = x,
      suggested_name = (let n = readable_name (fst c) in if n = [] then x else n), found_size = b\<rparr>"
    have "offered_directory env registered (c # cs) ?d"
      using Some candidate_size_Some [of env registered "fst c" "snd c" b] by (auto simp: offered_directory_def intro: exI [of _ "snd c"])
    then show ?thesis
      using Some x ds wider by (intro exI [of _ "?d # ds"]) auto
  qed
qed simp

text \<open>C38: The ids suggested for the converted models no entry names: the search for a free one always ends, the ids are
  valid, differ from each other and from every registered id, and each belongs to a directory that holds a
  complete model, is no link and is registered under no other id.\<close>

theorem suggested_ids_usable:
  assumes "length cat + length children + 2 < 10 ^ 126"
  shows "\<exists>ds. unregistered_managed_models env cat (Some children) = Some ds \<and> distinct (map suggested_id ds) \<and>
    (\<forall>d \<in> set ds. valid_model_id (suggested_id d) \<and> suggested_id d \<notin> fst ` set cat \<and>
       offered_directory env (registered_paths env cat) children d)"
proof -
  have "length (map fst cat) + length (sort_key (\<lambda>c. py_lower (fst c)) children) + 2 < 10 ^ 126" using assms by simp
  from discover_sound [OF this, of env "registered_paths env cat"] show ?thesis
    by (auto simp: unregistered_managed_models_def offered_directory_def)
qed

definition demo_folders :: folder_env where
  "demo_folders = \<lparr>folder_parsers = health_parsers reading_health, child_path = (\<lambda>name. ''/models/'' @ name),
     escapes_root = (\<lambda>_. False), resolved_path = (\<lambda>cfg. Some (model_path cfg))\<rparr>"

theorem suggested_ids_usable_witness:
  "\<exists>ds. unregistered_managed_models demo_folders demo_catalog (Some [(''m'', converted_tree), (''My Model'', converted_tree)]) = Some ds
     \<and> distinct (map suggested_id ds) \<and> (\<forall>d \<in> set ds. suggested_id d \<noteq> ''m'')"
proof -
  have "length demo_catalog = length (map fst demo_catalog)" by simp
  then have "length demo_catalog + length [(''m'', converted_tree), (''My Model'', converted_tree)] + 2 < 10 ^ 126"
    unfolding demo_catalog_facts(3) by simp
  from suggested_ids_usable [OF this, of demo_folders] obtain ds where
    ds: "unregistered_managed_models demo_folders demo_catalog (Some [(''m'', converted_tree), (''My Model'', converted_tree)]) = Some ds"
      "distinct (map suggested_id ds)" "\<forall>d \<in> set ds. suggested_id d \<notin> fst ` set demo_catalog" by blast
  have "''m'' \<in> set (map fst demo_catalog)" by (simp add: demo_catalog_facts(3))
  then have "''m'' \<in> fst ` set demo_catalog" by (simp only: list.set_map)
  then show ?thesis using ds by (intro exI [of _ ds]) metis
qed

lemma suggested_ids_example:
  "base_id ''.My Model (v2)'' = ''My-Model-v2''" "base_id ''---'' = ''local-model''"
  "free_id [''m''] ''m'' ''m'' 2 = Some ''m-2''"
proof -
  show "base_id ''.My Model (v2)'' = ''My-Model-v2''" "base_id ''---'' = ''local-model''" by code_simp+
  have "numbered ''m'' 2 = ''m-2''" by code_simp
  then show "free_id [''m''] ''m'' ''m'' 2 = Some ''m-2''" by (simp add: free_id.simps)
qed

section \<open>Adopting a model in place\<close>

record adopt_request =
  adopt_directory :: string
  adopt_definition :: register_request   \<comment> \<open>its source may be empty\<close>

datatype adopt_error =
    BadDirectoryName | LinkedDirectory | EscapedDirectory | NoConvertedModel | NoSize | PathRegistered
  | LibraryError library_error | OverwriteDisabled | RelativeSource | TargetExists | NotEnoughSpace
  | CopyFailed | MoveFailed | MarkerFailed

definition with_source :: "string \<Rightarrow> register_request \<Rightarrow> register_request" where
  "with_source name r = r\<lparr>rg_source_model := (if rg_source_model r = [] then ''local-openvino:'' @ name else rg_source_model r),
     rg_trust := False\<rparr>"

definition bad_child_name :: "string \<Rightarrow> bool" where
  "bad_child_name name \<longleftrightarrow> name = [] \<or> name = ''.'' \<or> name = ''..'' \<or> CHR ''/'' \<in> set name \<or> CHR 0x5C \<in> set name"

definition adopt_checks :: "folder_env \<Rightarrow> string \<Rightarrow> fs_node option \<Rightarrow> (adopt_error, nat) result" where
  "adopt_checks fenv name node =
     (if bad_child_name name then Inl BadDirectoryName
      else if is_reparse_point node then Inl LinkedDirectory
      else if escapes_root fenv name then Inl EscapedDirectory
      else case node of
        None \<Rightarrow> Inl NoConvertedModel
      | Some t \<Rightarrow>
          if \<not> is_directory t \<or> \<not> holds_model (folder_parsers fenv) (Some t) then Inl NoConvertedModel
          else (case directory_size_bytes t of None \<Rightarrow> Inl NoSize | Some bytes \<Rightarrow> Inr bytes))"

definition adopt_managed ::
  "library_env \<Rightarrow> folder_env \<Rightarrow> library_io \<Rightarrow> adopt_request \<Rightarrow> (string \<times> fs_node) list \<Rightarrow> library
     \<Rightarrow> (adopt_error, string \<times> nat) result \<times> library" where
  "adopt_managed env fenv io req children lib =
     (let name = py_strip (adopt_directory req); mid = rg_model_id (adopt_definition req) in
      case adopt_checks fenv name (map_of children name) of
        Inl e \<Rightarrow> (Inl e, lib)
      | Inr bytes \<Rightarrow>
          if mid \<in> fst ` set (lib_catalog lib) then (Inl (LibraryError (AlreadyRegistered mid)), lib)
          else if child_path fenv name \<in> set (registered_paths fenv (lib_catalog lib)) then (Inl PathRegistered, lib)
          else (case read_user_ids env (lib_users lib) of
              Inl e \<Rightarrow> (Inl (LibraryError e), lib)
            | Inr users \<Rightarrow>
                (case definition_to_config env (with_source name (adopt_definition req)) (child_path fenv name) None of
                   Inl e \<Rightarrow> (Inl (LibraryError e), lib)
                 | Inr cfg \<Rightarrow>
                     (case mutate_catalog env io True
                             [WriteUsers (users @ [mid]), SaveCatalog (AList.update mid cfg (lib_catalog lib))] lib of
                        (okay, lib') \<Rightarrow> (if okay then Inr (mid, bytes) else Inl (LibraryError WriteFailed), lib')))))"

text \<open>Whatever an adoption does, the other models stay, and one that fails leaves catalogue and user index as they were.\<close>

lemma adoption_spares_the_rest:
  assumes ok: "catalog_ok (lib_catalog lib)" and step: "adopt_managed env fenv io req children lib = (r, lib')"
    and io: "reload_works io" "undo_reload_works io" "undo_users_work io" "snapshot_works io"
  shows "(\<forall>mid old. map_of (lib_catalog lib) mid = Some old \<longrightarrow> map_of (lib_catalog lib') mid = Some old) \<and>
    (\<forall>e. r = Inl e \<longrightarrow> lib_catalog lib' = lib_catalog lib \<and> lib_users lib' = lib_users lib)"
proof (cases "lib' = lib")
  case False
  then obtain users mid cfg okay where users: "read_user_ids env (lib_users lib) = Inr users"
    and new: "mid \<notin> fst ` set (lib_catalog lib)" and r: "(\<exists>e. r = Inl e) \<longrightarrow> \<not> okay"
    and mut: "mutate_catalog env io True [WriteUsers (users @ [mid]), SaveCatalog (AList.update mid cfg (lib_catalog lib))] lib = (okay, lib')"
    using step by (auto simp: adopt_managed_def Let_def split: sum.splits if_splits prod.splits)
  have readable: "lib_users lib \<noteq> IndexUnreadable" using users by (auto simp: read_user_ids_def)
  show ?thesis
  proof (cases okay)
    case True
    have d: "distinct (map fst (AList.update mid cfg (lib_catalog lib)))" using ok by (simp add: catalog_ok_def distinct_update)
    have lib': "lib_catalog lib' = load_catalog (Some (save_catalog (AList.update mid cfg (lib_catalog lib))))"
      using mut True io(1) by (auto simp: mutate_catalog_def reload_catalog_def reading_def split: if_splits)
    have "map_of (lib_catalog lib') k = Some old" if old: "map_of (lib_catalog lib) k = Some old" for k old
    proof -
      have "k \<noteq> mid" using old new by (metis domI dom_map_of_conv_image_fst)
      then have "map_of (AList.update mid cfg (lib_catalog lib)) k = Some old" using old by (simp add: update_conv')
      moreover have "config_ok old" "model_id old = k" using ok map_of_SomeD [OF old] by (auto simp: catalog_ok_def)
      ultimately show ?thesis using coerce_entry_json [of old] by (simp add: lib' map_of_load_save [OF d])
    qed
    then show ?thesis using r True by blast
  next
    case False
    then show ?thesis
      using mut failed_mutation_undone(1,4) [OF ok, of env io True _ lib'] io(2-4) readable by auto
  qed
qed simp

section \<open>Copying a model in\<close>

text \<open>
  What happens around one copy: what others do to the library while the files are copied and, after a failure, between
  giving the lock back and taking it again; what the copy holds and whether it was complete; which later steps
  and removals work.
\<close>

record copy_run =
  while_copying :: "library \<Rightarrow> library"
  copied :: "fs_node option"
  copy_works :: bool
  target_after :: bool                  \<comment> \<open>has the target appeared meanwhile?\<close>
  move_works :: bool
  marker_works :: bool
  before_undo :: "library \<Rightarrow> library"
  clean_works :: bool

record copy_request =
  copy_overwrite :: bool
  copy_absolute :: bool
  copy_source :: "fs_node option"
  copy_name :: string                   \<comment> \<open>the last part of the source path\<close>
  copy_definition :: register_request

definition import_reserve :: nat where "import_reserve = 256 * 1024 * 1024"

definition copy_checks ::
  "folder_env \<Rightarrow> nat \<Rightarrow> bool \<Rightarrow> fs_node option \<Rightarrow> copy_request \<Rightarrow> library \<Rightarrow> (adopt_error, nat) result" where
  "copy_checks fenv free same_path target req lib =
     (let mid = rg_model_id (copy_definition req) in
      if copy_overwrite req then Inl OverwriteDisabled
      else if \<not> copy_absolute req then Inl RelativeSource
      else if is_reparse_point (copy_source req) then Inl LinkedDirectory
      else case copy_source req of
        None \<Rightarrow> Inl NoConvertedModel
      | Some t \<Rightarrow>
          if \<not> is_directory t \<or> \<not> holds_model (folder_parsers fenv) (Some t) then Inl NoConvertedModel
          else (case directory_size_bytes t of
              None \<Rightarrow> Inl NoSize
            | Some bytes \<Rightarrow>
                if escapes_root fenv mid then Inl EscapedDirectory
                else if mid \<in> fst ` set (lib_catalog lib) then Inl (LibraryError (AlreadyRegistered mid))
                else if path_exists target \<or> same_path then Inl TargetExists
                else if free < bytes + import_reserve then Inl NotEnoughSpace
                else Inr bytes))"

text \<open>
  The part under the lock: the error, the library, whether it had captured the state to go back to, and what it left at
  the target, \<open>None\<close> when the copy was not yet moved there. A conversion marker is written into the moved copy.
\<close>

definition install_copy ::
  "library_env \<Rightarrow> folder_env \<Rightarrow> library_io \<Rightarrow> copy_run \<Rightarrow> copy_request \<Rightarrow> library
     \<Rightarrow> adopt_error option \<times> library \<times> bool \<times> fs_node option" where
  "install_copy env fenv io run req lib =
     (let mid = rg_model_id (copy_definition req) in
      if mid \<in> fst ` set (lib_catalog lib) then (Some (LibraryError (AlreadyRegistered mid)), lib, False, None)
      else if target_after run then (Some TargetExists, lib, False, None)
      else case read_user_ids env (lib_users lib) of
        Inl e \<Rightarrow> (Some (LibraryError e), lib, False, None)
      | Inr users \<Rightarrow>
          if \<not> move_works run then (Some MoveFailed, lib, True, None)
          else (case definition_to_config env (with_source (copy_name req) (copy_definition req)) (child_path fenv mid) None of
              Inl e \<Rightarrow> (Some (LibraryError e), lib, True, copied run)
            | Inr cfg \<Rightarrow>
                if \<not> marker_works run then (Some MarkerFailed, lib, True, copied run)
                else
                  let tree = record_conversion_metadata (health_of env) cfg (copied run) in
                  (case run_writes env io [WriteUsers (users @ [mid]), SaveCatalog (AList.update mid cfg (lib_catalog lib))] lib of
                    (okay, lib') \<Rightarrow>
                      if okay then (None, reload_catalog (reload_works io) lib', True, tree)
                      else (Some (LibraryError WriteFailed), lib', True, tree))))"

definition import_converted ::
  "library_env \<Rightarrow> folder_env \<Rightarrow> library_io \<Rightarrow> copy_run \<Rightarrow> copy_request \<Rightarrow> nat \<Rightarrow> bool \<Rightarrow> library \<times> fs_node option
     \<Rightarrow> (adopt_error, nat) result \<times> library \<times> fs_node option" where
  "import_converted env fenv io run req free same_path = (\<lambda>(lib0, target).
     case copy_checks fenv free same_path target req lib0 of
       Inl e \<Rightarrow> (Inl e, lib0, target)
     | Inr bytes \<Rightarrow>
         let lib = while_copying run lib0 in
         if \<not> copy_works run then (Inl CopyFailed, lib, target)
         else if Option.bind (copied run) directory_size_bytes = None then (Inl NoSize, lib, target)
         else if \<not> holds_model (folder_parsers fenv) (copied run) then (Inl NoConvertedModel, lib, target)
         else (case install_copy env fenv io run req lib of
             (None, lib', captured, tree) \<Rightarrow> (Inr bytes, lib', tree)
           | (Some e, lib', captured, tree) \<Rightarrow>
               (Inl e, if captured then undo io True lib (before_undo run lib') else lib',
                if tree = None then target else if clean_works run then None else tree)))"

lemma install_copy_failed:
  assumes "install_copy env fenv io run req lib = (Some e, lib', captured, tree)"
  shows "lib_catalog lib' = lib_catalog lib" "\<not> captured \<Longrightarrow> lib' = lib" "captured \<Longrightarrow> lib_users lib \<noteq> IndexUnreadable"
    "tree \<noteq> None \<Longrightarrow> captured"
  using assms run_writes_catalog
  by (auto simp: install_copy_def Let_def read_user_ids_def split: if_splits sum.splits prod.splits)

lemma undo_restores:
  assumes "catalog_ok (lib_catalog lib)" and "undo_reload_works io"
  shows "lib_catalog (undo io True lib cur) = lib_catalog lib"
    and "undo_users_work io \<Longrightarrow> snapshot_works io \<Longrightarrow> lib_users lib \<noteq> IndexUnreadable \<Longrightarrow> lib_users (undo io True lib cur) = lib_users lib"
  using assms
  by (cases "lib_users lib"; simp add: undo_def restore_catalog_def reload_catalog_def reading_def reload_saved restore_user_file_def
      snapshot_user_file_def)+

text \<open>A copy that fails, with nobody else at work, leaves the catalogue and the user index as they were, and nothing in the
  place of the model unless even its removal failed.\<close>

lemma failed_copy_changes_nothing:
  assumes ok: "catalog_ok (lib_catalog lib)"
    and step: "import_converted env fenv io run req free same_path (lib, target) = (Inl e, lib', target')"
    and alone: "while_copying run = id" and io: "undo_reload_works io" "undo_users_work io" "snapshot_works io"
  shows "lib_catalog lib' = lib_catalog lib \<and> lib_users lib' = lib_users lib \<and>
    (target' = target \<or> target' = None \<or> \<not> clean_works run)"
proof (cases "copy_checks fenv free same_path target req lib")
  case (Inr bytes)
  show ?thesis
  proof (cases "install_copy env fenv io run req lib")
    case (fields res lib1 captured tree)
    then show ?thesis
      using step Inr alone install_copy_failed [of env fenv io run req lib _ lib1 captured tree]
        undo_restores(1) [OF ok io(1), of "before_undo run lib1"] undo_restores(2) [OF ok io(1,2,3), of "before_undo run lib1"]
      by (auto simp: import_converted_def Let_def split: if_splits option.splits)
  qed
qed (use step in \<open>simp add: import_converted_def\<close>)

text \<open>But the undoing takes the lock a second time and puts back the catalogue of the first time: a model that another
  request registered in between is gone from the catalogue and from its file.\<close>

lemma copy_undo_erases_registration:
  assumes ok: "catalog_ok (lib_catalog lib)"
    and step: "import_converted env fenv io run req free same_path (lib, target) = (Inl e, lib', target')"
    and alone: "while_copying run = id" and io: "undo_reload_works io" "undo_save_works io"
    and captured: "install_copy env fenv io run req lib = (Some e, lib1, True, tree)"
    and between: "mid \<in> fst ` set (lib_catalog (before_undo run lib1))" "mid \<notin> fst ` set (lib_catalog lib)"
    and checks: "copy_checks fenv free same_path target req lib = Inr bytes"
      "copy_works run" "Option.bind (copied run) directory_size_bytes \<noteq> None" "holds_model (folder_parsers fenv) (copied run)"
  shows "mid \<notin> fst ` set (lib_catalog lib') \<and> lib_models lib' = Some (save_catalog (lib_catalog lib))"
proof -
  have lib': "lib' = undo io True lib (before_undo run lib1)"
    using step checks alone captured by (auto simp: import_converted_def Let_def split: option.splits)
  show ?thesis
    using undo_restores(1) [OF ok io(1)] between(2) io(2) by (simp add: lib' undo_def restore_catalog_def reload_catalog_def)
qed

end
