(* ===== verification/Quantization.thy ===== *)
theory Quantization
  imports PyValue
begin

text \<open>
  \<open>app/quantization_policy.py\<close>: the precision policy for preparing a model. Ratios,
  penalties and bonuses are exact rationals; the explanation texts are not modelled.
\<close>

section \<open>Profiles, devices and model names\<close>

definition profile_aliases :: "(string \<times> string) list" where
  "profile_aliases = [(''default'', ''balanced''), (''fast'', ''fastest''), (''speed'', ''fastest''),
     (''quality'', ''best-quality''), (''best'', ''best-quality''), (''best_quality'', ''best-quality''),
     (''memory'', ''lowest-memory''), (''low-memory'', ''lowest-memory''), (''lowest_memory'', ''lowest-memory''),
     (''power'', ''lowest-power''), (''low-power'', ''lowest-power''), (''lowest_power'', ''lowest-power'')]"

definition supported_profiles :: "string list" where
  "supported_profiles = [''fastest'', ''balanced'', ''best-quality'', ''lowest-memory'', ''lowest-power'']"

definition str_or :: "string option \<Rightarrow> string \<Rightarrow> string" where
  "str_or v d = (case v of None \<Rightarrow> d | Some s \<Rightarrow> if s = [] then d else s)"

definition normalize_profile :: "string option \<Rightarrow> string" where
  "normalize_profile profile =
     (let v0 = map (\<lambda>c. if c = CHR '' '' then CHR ''-'' else c) (py_lower (py_strip (str_or profile ''balanced'')));
          v = (case map_of profile_aliases v0 of Some a \<Rightarrow> a | None \<Rightarrow> v0)
      in if v \<in> set supported_profiles then v else ''balanced'')"

definition policy_base_device :: "string option \<Rightarrow> string" where
  "policy_base_device device =
     (let t = py_upper (py_strip (str_or device ''CPU''));
          t' = (if CHR '':'' \<in> set t then hd (py_split1 (CHR '','') (last (py_split1 (CHR '':'') t))) else t);
          base = hd (py_split1 (CHR ''.'') t')
      in if base = [] then ''CPU'' else base)"

definition source_key :: "string option \<Rightarrow> string" where
  "source_key source = py_lower (py_strip (str_or source []))"

text \<open>
  \<open>_PARAMS_RE.search\<close> on a lower-case name: digits with an optional fraction, optional
  white space, \<open>b\<close>, not inside a longer word.
\<close>

definition word_char :: "char \<Rightarrow> bool" where
  "word_char c \<longleftrightarrow> is_digit c \<or>
     (let n = of_char c :: nat in (65 \<le> n \<and> n \<le> 90) \<or> (97 \<le> n \<and> n \<le> 122))"

definition params_at :: "string \<Rightarrow> rat option" where
  "params_at s =
     (let whole = takeWhile is_digit s; r1 = dropWhile is_digit s;
          frac = (case r1 of c # cs \<Rightarrow> if c = CHR ''.'' then takeWhile is_digit cs else [] | [] \<Rightarrow> []);
          r2 = (if frac = [] then r1 else dropWhile is_digit (tl r1));
          r3 = dropWhile py_space r2
      in if whole = [] then None
         else (case r3 of
                 c # cs \<Rightarrow>
                   if (c = CHR ''b'' \<or> c = CHR ''B'') \<and>
                      (case cs of [] \<Rightarrow> True | d # _ \<Rightarrow> \<not> (word_char d \<and> \<not> is_digit d))
                   then Some (of_nat (digits_val whole) + of_nat (digits_val frac) / 10 ^ length frac)
                   else None
               | [] \<Rightarrow> None))"

fun params_search :: "char option \<Rightarrow> string \<Rightarrow> rat option" where
  "params_search before [] = None"
| "params_search before (c # cs) =
     (case (if (case before of None \<Rightarrow> False | Some b \<Rightarrow> word_char b \<or> b = CHR ''.'') then None
            else params_at (c # cs)) of
        Some p \<Rightarrow> Some p
      | None \<Rightarrow> params_search (Some c) cs)"

definition estimated_parameters_b :: "string option \<Rightarrow> rat option" where
  "estimated_parameters_b source = params_search None (last (py_split (CHR ''/'') (source_key source)))"

definition npu_channel_wise_sources :: "string list" where
  "npu_channel_wise_sources = [''microsoft/phi-4-mini-instruct'', ''microsoft/phi-4-mini-reasoning'']"

definition npu_int4_group_size :: "string option \<Rightarrow> string option \<Rightarrow> int" where
  "npu_int4_group_size source arch =
     (if source_key source \<in> set npu_channel_wise_sources then -1
      else case estimated_parameters_b source of
        None \<Rightarrow> 128
      | Some p \<Rightarrow>
          if p > 4 then -1
          else if py_find (py_strip (str_or arch [])) ''3720'' \<noteq> None \<and> p \<ge> 3 then -1
          else 128)"

definition npu_known_issue :: "string option \<Rightarrow> bool" where
  "npu_known_issue source \<longleftrightarrow> source_key source = ''microsoft/phi-4-mini-instruct''"

section \<open>The recommendation\<close>

record recommendation =
  rec_format :: string
  rec_group_size :: "int option"
  rec_ratio :: "rat option"
  rec_sym :: "bool option"

definition int4_conversion_defaults :: "int \<times> rat \<times> bool" where
  "int4_conversion_defaults = (128, 1, True)"

definition plain_format :: "string \<Rightarrow> recommendation" where
  "plain_format f = \<lparr>rec_format = f, rec_group_size = None, rec_ratio = None, rec_sym = None\<rparr>"

definition recommend_quantization ::
  "string option \<Rightarrow> string option \<Rightarrow> string option \<Rightarrow> string option \<Rightarrow> string option \<Rightarrow> recommendation" where
  "recommend_quantization be device profile source arch =
     (let b = py_lower (py_strip (str_or be ''openvino-genai''));
          p = normalize_profile profile;
          base = policy_base_device device;
          (group, ratio, sym) = int4_conversion_defaults
      in if b = ''openvino-embeddings'' \<or> b = ''openvino-vlm'' then plain_format ''fp16''
         else if b \<noteq> ''openvino-genai'' then plain_format ''fp16''
         else if p = ''best-quality'' then plain_format ''fp16''
         else if base = ''NPU'' then
           \<lparr>rec_format = ''int4'', rec_group_size = Some (npu_int4_group_size source arch),
            rec_ratio = Some ratio, rec_sym = Some sym\<rparr>
         else if p = ''fastest'' \<or> p = ''lowest-memory'' \<or> p = ''lowest-power'' then
           \<lparr>rec_format = ''int4'', rec_group_size = Some group, rec_ratio = Some ratio, rec_sym = Some sym\<rparr>
         else plain_format ''int8'')"

definition estimated_quality_penalty :: "string option \<Rightarrow> rat" where
  "estimated_quality_penalty fmt =
     (case map_of [(''fp16'', 0), (''int8'', 3 / 2), (''int4'', 4)] (py_lower (str_or fmt ''fp16'')) of
        Some x \<Rightarrow> x | None \<Rightarrow> 8)"

definition bonus_table :: "(string \<times> (string \<times> rat) list) list" where
  "bonus_table =
     [(''fastest'', [(''int4'', 6), (''int8'', 3), (''fp16'', 0)]),
      (''balanced'', [(''int4'', 5 / 2), (''int8'', 5), (''fp16'', 0)]),
      (''best-quality'', [(''int4'', 0), (''int8'', 4), (''fp16'', 9)]),
      (''lowest-memory'', [(''int4'', 12), (''int8'', 6), (''fp16'', 0)]),
      (''lowest-power'', [(''int4'', 9), (''int8'', 4), (''fp16'', 0)])]"

definition profile_precision_bonus :: "string option \<Rightarrow> string option \<Rightarrow> string option \<Rightarrow> rat" where
  "profile_precision_bonus fmt profile device =
     (let precision = py_lower (str_or fmt ''fp16'');
          row = the (map_of bonus_table (normalize_profile profile));
          bonus = (case map_of row precision of Some x \<Rightarrow> x | None \<Rightarrow> -4)
      in if policy_base_device device = ''NPU''
         then (if precision = ''int4'' then bonus + 6 else if precision = ''int8'' then bonus - 8 else bonus)
         else bonus)"

section \<open>Properties\<close>

lemma normalize_profile_supported: "normalize_profile p \<in> set supported_profiles"
  by (simp add: normalize_profile_def Let_def supported_profiles_def)

lemma profile_cases:
  obtains "normalize_profile p = ''fastest''" | "normalize_profile p = ''balanced''"
    | "normalize_profile p = ''best-quality''" | "normalize_profile p = ''lowest-memory''"
    | "normalize_profile p = ''lowest-power''"
  using normalize_profile_supported [of p] by (auto simp: supported_profiles_def)

definition bonus_of :: "string \<Rightarrow> bool \<Rightarrow> string \<Rightarrow> rat" where
  "bonus_of profile npu precision =
     (let bonus = (case map_of (the (map_of bonus_table profile)) precision of Some x \<Rightarrow> x | None \<Rightarrow> -4)
      in if npu then (if precision = ''int4'' then bonus + 6 else if precision = ''int8'' then bonus - 8 else bonus)
         else bonus)"

lemma profile_precision_bonus_of:
  "profile_precision_bonus fmt profile device =
     bonus_of (normalize_profile profile) (policy_base_device device = ''NPU'') (py_lower (str_or fmt ''fp16''))"
  by (simp add: profile_precision_bonus_def bonus_of_def Let_def)

lemma bonus_of_unknown:
  assumes "profile \<in> set supported_profiles" and "precision \<notin> {''int4'', ''int8'', ''fp16''}"
  shows "bonus_of profile npu precision = -4"
  using assms by (auto simp: bonus_of_def bonus_table_def supported_profiles_def)

definition policy_format :: "string \<Rightarrow> bool \<Rightarrow> string" where
  "policy_format profile npu =
     (if profile = ''best-quality'' then ''fp16''
      else if npu \<or> profile = ''fastest'' \<or> profile = ''lowest-memory'' \<or> profile = ''lowest-power'' then ''int4''
      else ''int8'')"

lemma policy_format_best:
  assumes "profile \<in> set supported_profiles"
  shows "bonus_of profile npu precision \<le> bonus_of profile npu (policy_format profile npu)"
proof -
  have known: "\<forall>profile \<in> set supported_profiles. \<forall>npu \<in> {True, False}. \<forall>precision \<in> {''int4'', ''int8'', ''fp16''}.
      bonus_of profile npu precision \<le> bonus_of profile npu (policy_format profile npu)"
    by code_simp
  have "\<forall>profile \<in> set supported_profiles. \<forall>npu \<in> {True, False}.
      -4 \<le> bonus_of profile npu (policy_format profile npu)"
    by code_simp
  then have low: "-4 \<le> bonus_of profile npu (policy_format profile npu)" using assms by (cases npu) auto
  show ?thesis
  proof (cases "precision \<in> {''int4'', ''int8'', ''fp16''}")
    case True
    have "npu \<in> {True, False}" by simp
    from bspec [OF bspec [OF bspec [OF known assms] this] True] show ?thesis .
  next
    case False
    with bonus_of_unknown [OF assms False, of npu] low show ?thesis by simp
  qed
qed

lemma recommended_format:
  "rec_format (recommend_quantization (Some ''openvino-genai'') device profile source arch) =
     policy_format (normalize_profile profile) (policy_base_device device = ''NPU'')"
proof -
  have be: "py_lower (py_strip (str_or (Some ''openvino-genai'') ''openvino-genai'')) = ''openvino-genai''" by code_simp
  show ?thesis
    by (cases profile rule: profile_cases)
      (simp_all add: recommend_quantization_def be Let_def int4_conversion_defaults_def plain_format_def policy_format_def)
qed

text \<open>The advisor's ranking prior agrees with the recommendation: for a text-generation
  model, on any device and profile, no weight format gets a better bonus than the one the
  policy recommends.\<close>

lemma recommendation_has_best_bonus:
  "profile_precision_bonus fmt profile device \<le>
     profile_precision_bonus
       (Some (rec_format (recommend_quantization (Some ''openvino-genai'') device profile source arch)))
       profile device"
proof -
  let ?p = "normalize_profile profile" and ?npu = "policy_base_device device = ''NPU''"
  have "policy_format ?p ?npu \<in> {''int4'', ''int8'', ''fp16''}" by (auto simp: policy_format_def)
  moreover have "\<forall>f \<in> {''int4'', ''int8'', ''fp16''}. py_lower (str_or (Some f) ''fp16'') = f" by code_simp
  ultimately have "py_lower (str_or (Some (policy_format ?p ?npu)) ''fp16'') = policy_format ?p ?npu" by blast
  then show ?thesis
    unfolding recommended_format profile_precision_bonus_of
    by (simp add: policy_format_best normalize_profile_supported)
qed

end
