(* ===== verification/LibraryView.thy ===== *)
theory LibraryView
  imports ModelLibrary Quantization "HOL-Library.Product_Lexorder"
begin

text \<open>
  How \<open>app/model_library_service.py\<close> shows the library: what is known of a model on each device, which device and
  weight format it recommends, which measurements it quotes, and the selection and order of the list. Texts shown to
  the user are represented by the case they describe.
\<close>

section \<open>Evidence\<close>

record local_evidence =
  le_row :: json
  le_openvino :: json
  le_driver :: json

text \<open>\<open>latest\<close> is the newest usable benchmark row of the model on a device.\<close>

definition local_evidence_of :: "(string \<Rightarrow> json option) \<Rightarrow> json \<Rightarrow> (string \<Rightarrow> json) \<Rightarrow> string \<Rightarrow> local_evidence option" where
  "local_evidence_of latest openvino driver d =
     (if d \<notin> set allowed_devices then None
      else case latest d of
        None \<Rightarrow> None
      | Some row \<Rightarrow>
          if \<not> truthy row then None
          else Some \<lparr>le_row = row, le_openvino = openvino, le_driver = py_or (driver d) (JStr ''Unavailable'')\<rparr>)"

datatype verification = LocallyVerified local_evidence | Verified certification | ExpectedUnverified | KnownIssue

text \<open>\<open>max\<close> with a key: the first of those with the greatest.\<close>

fun latest_of :: "certification \<Rightarrow> certification list \<Rightarrow> certification" where
  "latest_of best [] = best"
| "latest_of best (c # cs) = latest_of (if certified_at best < certified_at c then c else best) cs"

definition certified :: "metadata option \<Rightarrow> string \<Rightarrow> certification list" where
  "certified md d = (case md of None \<Rightarrow> [] | Some m \<Rightarrow> (case map_of (certifications m) d of None \<Rightarrow> [] | Some cs \<Rightarrow> cs))"

definition latest_certification :: "metadata option \<Rightarrow> string \<Rightarrow> certification option" where
  "latest_certification md d = (case certified md d of [] \<Rightarrow> None | c # cs \<Rightarrow> Some (latest_of c cs))"

definition verification_of :: "metadata option \<Rightarrow> (string \<Rightarrow> local_evidence option) \<Rightarrow> string \<Rightarrow> verification" where
  "verification_of md local_rows d =
     (case local_rows d of
        Some e \<Rightarrow> LocallyVerified e
      | None \<Rightarrow> (case latest_certification md d of Some c \<Rightarrow> Verified c | None \<Rightarrow> ExpectedUnverified))"

text \<open>The caveat for sources the NPU is known to fail on yields to evidence.\<close>

definition verification_shown :: "model_config \<Rightarrow> metadata option \<Rightarrow> (string \<Rightarrow> local_evidence option) \<Rightarrow> string \<Rightarrow> verification" where
  "verification_shown cfg md local_rows d =
     (let v = verification_of md local_rows d
      in if d = ''NPU'' \<and> npu_known_issue (Some (source_model cfg)) \<and> v = ExpectedUnverified then KnownIssue else v)"

definition is_verified :: "verification \<Rightarrow> bool" where
  "is_verified v = (case v of Verified c \<Rightarrow> True | _ \<Rightarrow> False)"

section \<open>The recommended device and format\<close>

datatype evidence_reason = LocalBenchmark | BundledCertification | ExpectedCompatible | SafeFallback

definition evidence_device ::
  "string \<Rightarrow> string list \<Rightarrow> (string \<Rightarrow> bool) \<Rightarrow> (string \<Rightarrow> bool) \<Rightarrow> string \<times> evidence_reason" where
  "evidence_device preferred available tested verified =
     (let direct = filter (\<lambda>d. d \<in> set available) [''CPU'', ''GPU'', ''NPU''] in
      case find (\<lambda>d. d \<in> set direct \<and> tested d) [preferred, ''NPU'', ''GPU'', ''CPU''] of
        Some d \<Rightarrow> (d, LocalBenchmark)
      | None \<Rightarrow>
          (case find (\<lambda>d. d \<in> set direct \<and> verified d) [preferred, ''GPU'', ''CPU'', ''NPU''] of
             Some d \<Rightarrow> (d, BundledCertification)
           | None \<Rightarrow>
               if preferred \<in> set direct then (preferred, ExpectedCompatible)
               else if ''GPU'' \<in> set direct \<and> verified ''GPU'' then (''GPU'', BundledCertification)
               else if ''CPU'' \<in> set direct \<and> verified ''CPU'' then (''CPU'', BundledCertification)
               else (''CPU'', SafeFallback)))"

definition quantization_format :: "string \<Rightarrow> string list \<Rightarrow> rat \<Rightarrow> rat \<Rightarrow> string" where
  "quantization_format preferred available ram params =
     (let target = (if preferred \<in> set available then preferred else if ''GPU'' \<in> set available then ''GPU'' else ''CPU'')
      in if target = ''NPU'' \<and> params \<le> 45 / 10 then ''fp16''
         else if (ram \<noteq> 0 \<and> ram < 12) \<or> params \<ge> 3 then ''int4''
         else if target = ''GPU'' \<and> ram \<ge> 24 \<and> params \<le> 3 then ''fp16''
         else ''int8'')"

text \<open>The base name of a device: \<open>str(v or "CPU").split(":", 1)[0].upper()\<close>, and of an available one at the dot.\<close>

definition device_base :: "string \<Rightarrow> string" where
  "device_base d = py_upper (hd (py_split1 (CHR '':'') (if d = [] then ''CPU'' else d)))"

definition available_base :: "string \<Rightarrow> string" where
  "available_base d = py_upper (hd (py_split1 (CHR ''.'') d))"

definition manifest_identity_matches :: "model_config \<Rightarrow> manifest_entry option \<Rightarrow> bool" where
  "manifest_identity_matches cfg e =
     (case e of None \<Rightarrow> True
      | Some m \<Rightarrow> source_model cfg = rg_source_model (definition_data m) \<and> backend cfg = rg_backend (definition_data m)
          \<and> weight_format cfg = rg_weight_format (definition_data m))"

definition shown_metadata :: "model_config \<Rightarrow> manifest_entry option \<Rightarrow> metadata option" where
  "shown_metadata cfg e = (if manifest_identity_matches cfg e then map_option entry_metadata e else None)"

section \<open>The measurements quoted\<close>

datatype measurement_origin = LocalMeasurement | OfficialMeasurement

record metrics =
  m_load :: json
  m_tokens :: json
  m_first :: json
  m_context :: json
  m_openvino :: json
  m_driver :: json
  m_certified_on :: json
  m_origin :: "measurement_origin option"
  m_device :: "string option"

definition number_json :: "rat option \<Rightarrow> json" where
  "number_json v = (case v of None \<Rightarrow> JNull | Some r \<Rightarrow> JFloat (Fin r))"

definition certified_number :: "certification option \<Rightarrow> string \<Rightarrow> json" where
  "certified_number c k =
     (case c of None \<Rightarrow> JNull
      | Some c \<Rightarrow> if k = ''load_time_ms'' then number_json (cert_load_ms c)
                  else if k = ''tokens_sec'' then number_json (cert_tokens_sec c) else number_json (cert_first_token_ms c))"

definition measured_value :: "local_evidence option \<Rightarrow> string \<Rightarrow> json" where
  "measured_value e k = (case e of None \<Rightarrow> JNull | Some e \<Rightarrow> get (le_row e) k)"

definition metric_fields :: "string list" where
  "metric_fields = [''load_time_ms'', ''tokens_sec'', ''time_to_first_token_ms'']"

definition metric :: "local_evidence option \<Rightarrow> certification option \<Rightarrow> string \<Rightarrow> json" where
  "metric e c k = (if measured_value e k \<noteq> JNull then measured_value e k else certified_number c k)"

definition quoted_metrics ::
  "string \<Rightarrow> string \<Rightarrow> (string \<Rightarrow> local_evidence option) \<Rightarrow> metadata option \<Rightarrow> metrics" where
  "quoted_metrics target preferred local_rows md =
     (let order = [target, preferred, ''NPU'', ''GPU'', ''CPU''];
          local_device = find (\<lambda>d. local_rows d \<noteq> None) order;
          row = Option.bind local_device local_rows;
          official0 = find (\<lambda>d. certified md d \<noteq> []) order;
          is_local = list_ex (\<lambda>k. measured_value row k \<noteq> JNull) metric_fields;
          official = (if is_local \<and> official0 \<noteq> local_device then None else official0);
          cert = Option.bind official (latest_certification md)
      in \<lparr>m_load = metric row cert ''load_time_ms'', m_tokens = metric row cert ''tokens_sec'',
          m_first = metric row cert ''time_to_first_token_ms'',
          m_context = (case cert of Some c \<Rightarrow> JInt (cert_context c)
             | None \<Rightarrow> if is_local then JNull
                 else (case md of Some m \<Rightarrow> if tested_context m = 0 then JNull else JInt (tested_context m) | None \<Rightarrow> JNull)),
          m_openvino = (if is_local then (case row of Some e \<Rightarrow> le_openvino e | None \<Rightarrow> JNull)
             else (case cert of Some c \<Rightarrow> JStr (cert_openvino c) | None \<Rightarrow> JNull)),
          m_driver = (if is_local then (case row of Some e \<Rightarrow> le_driver e | None \<Rightarrow> JNull)
             else (case cert of Some c \<Rightarrow> description_json (cert_driver c) | None \<Rightarrow> JNull)),
          m_certified_on = (case cert of Some c \<Rightarrow> JStr (certified_at c) | None \<Rightarrow> JNull),
          m_origin = (if is_local then Some LocalMeasurement else if cert \<noteq> None then Some OfficialMeasurement else None),
          m_device = (if is_local then local_device else if cert \<noteq> None then official else None)\<rparr>)"

text \<open>The device part of \<open>_entry\<close>: the preferred device, past a known issue, and the one recommended.\<close>

definition preferred_device :: "model_config \<Rightarrow> metadata option \<Rightarrow> (string \<Rightarrow> local_evidence option) \<Rightarrow> string" where
  "preferred_device cfg md local_rows =
     (let d = device_base (recommended_device cfg)
      in if d = ''NPU'' \<and> verification_shown cfg md local_rows ''NPU'' = KnownIssue then ''GPU'' else d)"

definition recommended_for :: "model_config \<Rightarrow> metadata option \<Rightarrow> string list \<Rightarrow> (string \<Rightarrow> local_evidence option) \<Rightarrow> string \<times> evidence_reason" where
  "recommended_for cfg md available local_rows =
     evidence_device (preferred_device cfg md local_rows) (map available_base available) (\<lambda>d. local_rows d \<noteq> None)
       (\<lambda>d. is_verified (verification_shown cfg md local_rows d))"

section \<open>The list\<close>

record library_item =
  item_id :: string
  item_name :: string
  item_description :: string
  item_source :: string
  item_profiles :: "string list"
  item_curated :: bool
  item_quality :: rat
  item_speed :: rat
  item_context :: int
  item_tokens :: json
  item_memory :: json

text \<open>\<open>latest\<close>, the estimate of the runtime memory and the snapshot's devices belong to the model.\<close>

record model_facts =
  fact_latest :: "string \<Rightarrow> json option"
  fact_openvino :: json
  fact_driver :: "string \<Rightarrow> json"
  fact_available :: "string list"
  fact_memory :: json

definition library_item_of :: "model_facts \<Rightarrow> catalog \<Rightarrow> string \<Rightarrow> manifest_entry option \<Rightarrow> library_item option" where
  "library_item_of f cat mid e =
     (case map_of cat mid of
        None \<Rightarrow> None
      | Some cfg \<Rightarrow>
          let md = shown_metadata cfg e;
              rows = local_evidence_of (fact_latest f) (fact_openvino f) (fact_driver f);
              target = fst (recommended_for cfg md (fact_available f) rows);
              q = quoted_metrics target (preferred_device cfg md rows) rows md
          in Some \<lparr>item_id = mid, item_name = model_name cfg, item_description = description cfg, item_source = source_model cfg,
               item_profiles = (case md of None \<Rightarrow> [] | Some m \<Rightarrow> profiles m),
               item_curated = (case md of None \<Rightarrow> False | Some m \<Rightarrow> curated m),
               item_quality = (case md of None \<Rightarrow> 0 | Some m \<Rightarrow> quality_score m),
               item_speed = (case md of None \<Rightarrow> 0 | Some m \<Rightarrow> speed_score m),
               item_context = max_context_len cfg, item_tokens = m_tokens q, item_memory = fact_memory f\<rparr>)"

definition matches_query :: "string \<Rightarrow> library_item \<Rightarrow> bool" where
  "matches_query query it =
     (let needle = py_lower (py_strip query)
      in needle = [] \<or> py_in needle (py_lower (py_join '' '' [item_id it, item_name it, item_description it, item_source it])))"

definition item_key :: "string \<Rightarrow> library_item \<Rightarrow> rat \<times> rat \<times> rat \<times> string" where
  "item_key profile it =
     (let memory = safe_float (item_memory it) 9999
      in if profile = ''fastest'' then (- safe_float (item_tokens it) 0, - item_speed it, memory, item_id it)
         else if profile = ''best_quality'' then (- item_quality it, - of_int (item_context it), 0, item_id it)
         else if profile = ''lowest_memory'' then (memory, - item_quality it, 0, item_id it)
         else (- (item_quality it * (55 / 100) + item_speed it * (45 / 100)), memory, 0, item_id it))"

definition profiled :: "string \<Rightarrow> bool \<Rightarrow> library_item list \<Rightarrow> library_item list" where
  "profiled profile include_all items =
     (let chosen = filter (\<lambda>it. profile \<in> set (item_profiles it) \<or> \<not> item_curated it) items
      in if include_all \<or> chosen = [] then items else chosen)"

definition library_items :: "string \<Rightarrow> string \<Rightarrow> bool \<Rightarrow> library_item list \<Rightarrow> library_item list option" where
  "library_items profile query include_all items =
     (if profile \<notin> set allowed_profiles then None
      else Some (sort_key (item_key profile) (profiled profile include_all (filter (matches_query query) items))))"

section \<open>What the recommendation and the measurements rest on\<close>

text \<open>The recommended device is one of the machine, or the CPU; one that was measured here whenever an available one was,
  else one that is certified whenever an available one is.\<close>

lemma recommendation_follows_evidence:
  fixes preferred available tested verified
  defines "r \<equiv> evidence_device preferred available tested verified"
    and "direct \<equiv> set available \<inter> {''CPU'', ''GPU'', ''NPU''}"
  shows "(fst r \<in> direct \<or> r = (''CPU'', SafeFallback)) \<and>
    ((\<exists>d \<in> direct. tested d) \<longrightarrow> tested (fst r) \<and> snd r = LocalBenchmark) \<and>
    ((\<forall>d \<in> direct. \<not> tested d) \<longrightarrow> (\<exists>d \<in> direct. verified d) \<longrightarrow> verified (fst r) \<and> snd r = BundledCertification)"
proof -
  have direct: "set (filter (\<lambda>d. d \<in> set available) [''CPU'', ''GPU'', ''NPU'']) = direct" by (auto simp: direct_def)
  have three: "d \<in> set [preferred, ''NPU'', ''GPU'', ''CPU''] \<and> d \<in> set [preferred, ''GPU'', ''CPU'', ''NPU'']" if "d \<in> direct" for d
    using that by (auto simp: direct_def)
  have found: "d \<in> direct \<and> P d" if "find (\<lambda>d. d \<in> direct \<and> P d) xs = Some d" for P d and xs :: "string list"
    using that by (auto simp: find_Some_iff)
  have missed: "\<not> P d" if "find (\<lambda>d. d \<in> direct \<and> P d) xs = None" "direct \<subseteq> set xs" "d \<in> direct" for P d and xs :: "string list"
    using that by (auto simp: find_None_iff)
  have subs: "direct \<subseteq> set [preferred, ''NPU'', ''GPU'', ''CPU'']" "direct \<subseteq> set [preferred, ''GPU'', ''CPU'', ''NPU'']"
    using three by blast+
  show ?thesis
  proof (cases "find (\<lambda>d. d \<in> direct \<and> tested d) [preferred, ''NPU'', ''GPU'', ''CPU'']")
    case (Some d)
    then have "r = (d, LocalBenchmark)" unfolding r_def evidence_device_def Let_def direct by simp
    then show ?thesis using found [OF Some] by auto
  next
    case None
    note no_local = missed [OF None subs(1)]
    show ?thesis
    proof (cases "find (\<lambda>d. d \<in> direct \<and> verified d) [preferred, ''GPU'', ''CPU'', ''NPU'']")
      case (Some d)
      then have "r = (d, BundledCertification)" unfolding r_def evidence_device_def Let_def direct None by simp
      then show ?thesis using found [OF Some] no_local by auto
    next
      case none: None
      have "(if preferred \<in> direct then r = (preferred, ExpectedCompatible)
          else if ''GPU'' \<in> direct \<and> verified ''GPU'' then r = (''GPU'', BundledCertification)
          else if ''CPU'' \<in> direct \<and> verified ''CPU'' then r = (''CPU'', BundledCertification) else r = (''CPU'', SafeFallback))"
        unfolding r_def evidence_device_def Let_def direct None none by simp
      then show ?thesis using no_local missed [OF none subs(2)] by (auto split: if_splits)
    qed
  qed
qed

text \<open>Every number quoted comes from one device, the one that is named: the local row of it, or its latest certification; a
  certification of another device never fills the gaps of a local row.\<close>

definition from_device ::
  "(string \<Rightarrow> local_evidence option) \<Rightarrow> metadata option \<Rightarrow> string \<Rightarrow> string \<Rightarrow> json \<Rightarrow> bool" where
  "from_device rows md d k v \<longleftrightarrow>
     v = JNull \<or> v = measured_value (rows d) k \<or> v = certified_number (latest_certification md d) k"

lemma metrics_from_one_device:
  assumes "q = quoted_metrics target preferred rows md"
  shows "(m_origin q = None \<longleftrightarrow> m_device q = None) \<and>
    (\<forall>d. m_device q = Some d \<longrightarrow> from_device rows md d ''load_time_ms'' (m_load q) \<and> from_device rows md d ''tokens_sec'' (m_tokens q) \<and>
       from_device rows md d ''time_to_first_token_ms'' (m_first q)) \<and>
    (m_device q = None \<longrightarrow> m_load q = JNull \<and> m_tokens q = JNull \<and> m_first q = JNull)"
proof -
  let ?order = "[target, preferred, ''NPU'', ''GPU'', ''CPU'']"
  define ld where "ld = find (\<lambda>d. rows d \<noteq> None) ?order"
  define row where "row = Option.bind ld rows"
  define od where "od = find (\<lambda>d. certified md d \<noteq> []) ?order"
  define loc where "loc = list_ex (\<lambda>k. measured_value row k \<noteq> JNull) metric_fields"
  define off where "off = (if loc \<and> od \<noteq> ld then None else od)"
  define cert where "cert = Option.bind off (latest_certification md)"
  have q: "m_load q = metric row cert ''load_time_ms''" "m_tokens q = metric row cert ''tokens_sec''"
    "m_first q = metric row cert ''time_to_first_token_ms''"
    "m_origin q = (if loc then Some LocalMeasurement else if cert \<noteq> None then Some OfficialMeasurement else None)"
    "m_device q = (if loc then ld else if cert \<noteq> None then off else None)"
    unfolding assms quoted_metrics_def Let_def cert_def off_def loc_def row_def od_def ld_def by simp_all
  have ld: "ld \<noteq> None" if loc
  proof
    assume "ld = None"
    then have "row = None" by (simp add: row_def)
    then show False using that by (simp add: loc_def metric_fields_def measured_value_def)
  qed
  have off: "off \<noteq> None" if "cert \<noteq> None" using that by (cases off) (simp_all add: cert_def)
  have vals: "metric row cert k = JNull \<or> metric row cert k = measured_value row k \<or> metric row cert k = certified_number cert k" for k
    by (simp add: metric_def)
  have no_row: "measured_value row k = JNull" if "\<not> loc" "k \<in> set metric_fields" for k
    using that by (auto simp: loc_def list_ex_iff)
  have no_cert: "certified_number None k = JNull" for k by (simp add: certified_number_def)
  have fields: "''load_time_ms'' \<in> set metric_fields" "''tokens_sec'' \<in> set metric_fields" "''time_to_first_token_ms'' \<in> set metric_fields"
    by (simp_all add: metric_fields_def)
  have one: "from_device rows md d k (metric row cert k)" if d: "m_device q = Some d" and k: "k \<in> set metric_fields" for d k
  proof (cases loc)
    case True
    then have "ld = Some d" using d q(5) by simp
    then have "row = rows d" "cert = None \<or> cert = latest_certification md d"
      by (simp_all add: row_def cert_def off_def True)
    then show ?thesis using vals [of k] no_cert by (auto simp: from_device_def)
  next
    case False
    then have "off = Some d" using d q(5) by (auto split: if_splits)
    then have "cert = latest_certification md d" by (simp add: cert_def)
    then show ?thesis using no_row [OF False k] by (simp add: from_device_def metric_def)
  qed
  have "m_device q = None \<longrightarrow> metric row cert k = JNull" if "k \<in> set metric_fields" for k
    using ld off no_row [OF _ that] no_cert by (auto simp: q(5) metric_def split: if_splits)
  then show ?thesis
    using one fields ld off unfolding q(1-4) by (auto simp: q(5))
qed

text \<open>The list does not depend on the order in which the set of selected ids is gone through.\<close>

lemma item_key_id: "item_key profile a = item_key profile b \<Longrightarrow> item_id a = item_id b"
  by (auto simp: item_key_def Let_def split: if_splits)

lemma library_order_fixed:
  assumes same: "set xs = set ys" and d: "distinct (map item_id xs)" "distinct (map item_id ys)"
  shows "library_items profile query include_all xs = library_items profile query include_all ys"
proof -
  let ?s = "\<lambda>zs. profiled profile include_all (filter (matches_query query) zs)"
  have sets: "set (?s xs) = set (?s ys)"
  proof -
    have "(filter P xs = []) = (filter P ys = [])" for P using same by (auto simp: filter_empty_conv)
    then show ?thesis using same by (auto simp: profiled_def Let_def filter_empty_conv)
  qed
  have ids: "inj_on item_id (set (?s zs))" "distinct (?s zs)" if "distinct (map item_id zs)" for zs
  proof -
    have sub: "set (?s zs) \<subseteq> set zs" by (auto simp: profiled_def Let_def)
    then show "inj_on item_id (set (?s zs))" using that by (meson distinct_map inj_on_subset)
    show "distinct (?s zs)" using that by (auto simp: profiled_def Let_def distinct_map)
  qed
  have inj: "inj_on (item_key profile) (set (?s xs))"
    using ids(1) [OF d(1)] item_key_id by (meson inj_on_def)
  have sorted_eq: "sort_key (item_key profile) (?s xs) = sort_key (item_key profile) (?s ys)"
  proof (rule map_sorted_distinct_set_unique [of "item_key profile"])
    show "inj_on (item_key profile) (set (sort_key (item_key profile) (?s xs)) \<union> set (sort_key (item_key profile) (?s ys)))"
      using inj sets by simp
    show "distinct (map (item_key profile) (sort_key (item_key profile) (?s xs)))"
      "distinct (map (item_key profile) (sort_key (item_key profile) (?s ys)))"
      using ids(2) d inj sets by (simp_all add: distinct_map)
  qed (simp_all add: sets)
  then show ?thesis by (simp add: library_items_def)
qed

end
