(* ===== verification/StorageManager.thy ===== *)
theory StorageManager
  imports ConversionHealth "HOL-Library.Product_Lexorder"
begin

text \<open>
  \<open>app/storage_manager.py\<close> with the activity checks of \<open>app/storage_safety.py\<close>: the inventory of what InferBridge
  stores and the cleanups a client may ask for. The inventory offers a cleanup only where the
  cleanup itself would be let through; both read the disk of \<open>Recovery\<close> and run under the guard of \<open>StorageGuard\<close>.
\<close>

section \<open>State\<close>

text \<open>
  \<open>lexical\<close>: does the configured directory of the model lie below the models directory as a path;
  \<open>normcase\<close> is the file system's idea of equal names.
\<close>

record storage_env =
  base :: recovery_env
  health_part :: health_env
  normcase :: "string \<Rightarrow> string"
  lexical :: "string \<Rightarrow> bool"
  models_linked :: bool
  hub_linked :: bool
  recovery_linked :: bool

record storage =
  disk :: store
  record_nodes :: "string \<Rightarrow> fs_node option"
  compiled :: "fs_node option"
  catalogue :: "(string \<times> model_config) list"
  engines :: "string list"
  status_list :: "(string \<times> string) list"
  loading_now :: "string list"
  converting_now :: "string list"
  recovering_now :: "string list"
  last_uses :: usage

definition model_preparing :: "storage \<Rightarrow> string \<Rightarrow> bool" where
  "model_preparing st m \<longleftrightarrow>
     (case map_of (status_list st) m of Some s \<Rightarrow> s \<in> active_states | None \<Rightarrow> False)
     \<or> m \<in> set (loading_now st) \<or> m \<in> set (converting_now st) \<or> m \<in> set (recovering_now st)"

definition model_loaded :: "storage \<Rightarrow> string \<Rightarrow> bool" where
  "model_loaded st m \<longleftrightarrow> m \<in> set (engines st)"

definition all_lifecycle_idle :: "storage \<Rightarrow> bool" where
  "all_lifecycle_idle st \<longleftrightarrow>
     engines st = [] \<and> loading_now st = [] \<and> converting_now st = [] \<and> recovering_now st = []
     \<and> list_all (\<lambda>(m, s). s \<notin> active_states) (status_list st)"

section \<open>Capabilities\<close>

datatype reason =
    NoReason | Protected | LinkFound | NotInspected | Preparing | StillLoaded | NotAllIdle | NothingFound

record capability =
  available :: bool
  reclaimable :: nat
  why :: reason

definition cleanup_capability ::
  "nat \<Rightarrow> bool \<Rightarrow> bool \<Rightarrow> bool \<Rightarrow> bool \<Rightarrow> bool \<Rightarrow> bool \<Rightarrow> bool \<Rightarrow> capability" where
  "cleanup_capability n is_unsafe is_unreadable is_loaded preparing require_all_idle all_idle protected =
     (let (ok, r) =
        (if protected then (False, Protected)
         else if is_unsafe then (False, LinkFound)
         else if is_unreadable then (False, NotInspected)
         else if preparing then (False, Preparing)
         else if is_loaded then (False, StillLoaded)
         else if require_all_idle \<and> \<not> all_idle then (False, NotAllIdle)
         else (0 < n, if n = 0 then NothingFound else NoReason))
      in \<lparr>available = ok, reclaimable = n, why = r\<rparr>)"

section \<open>Inventory\<close>

definition models_root :: "storage_env \<Rightarrow> string \<Rightarrow> managed_root" where
  "models_root env m = \<lparr>root_linked = models_linked env, lexically_within = lexical env m\<rparr>"

definition recovery_root :: "storage_env \<Rightarrow> managed_root" where
  "recovery_root env = \<lparr>root_linked = recovery_linked env, lexically_within = True\<rparr>"

definition hub_root :: "storage_env \<Rightarrow> managed_root" where
  "hub_root env = \<lparr>root_linked = hub_linked env, lexically_within = True\<rparr>"

definition compiled_root :: "storage \<Rightarrow> managed_root" where
  "compiled_root st = \<lparr>root_linked = is_reparse_point (compiled st), lexically_within = True\<rparr>"

definition outside :: "storage_env \<Rightarrow> string \<Rightarrow> bool" where
  "outside env m \<longleftrightarrow> \<not> within_models (base env) m"

definition safe_model_measurement :: "storage_env \<Rightarrow> storage \<Rightarrow> string \<Rightarrow> tree_measurement" where
  "safe_model_measurement env st m =
     (let n = out_dir (slots (disk st) m)
      in if outside env m then measured (lexists n) 0 True False else measure_tree (models_root env m) False n)"

datatype shown_health = UnsafeManagedPath | Health health

definition row_health :: "storage_env \<Rightarrow> storage \<Rightarrow> string \<Rightarrow> model_config \<Rightarrow> shown_health option" where
  "row_health env st m cfg =
     (if unsafe (safe_model_measurement env st m) then Some UnsafeManagedPath
      else map_option Health (conversion_health (health_part env) cfg (out_dir (slots (disk st) m))))"

definition is_complete :: "shown_health \<Rightarrow> bool" where
  "is_complete h \<longleftrightarrow> h \<notin> {UnsafeManagedPath, Health NotConverted, Health IncompleteConversion}"

record model_row =
  row_model :: string
  row_name :: string
  row_state :: shown_health
  converted_size :: nat
  row_used :: last_use
  row_cleanup :: capability

definition model_row :: "storage_env \<Rightarrow> storage \<Rightarrow> string \<times> model_config \<Rightarrow> model_row option" where
  "model_row env st entry =
     (case entry of (m, cfg) \<Rightarrow>
        map_option (\<lambda>h.
          let me = safe_model_measurement env st m; size = (if is_complete h then size_bytes me else 0)
          in \<lparr>row_model = m, row_name = model_name cfg, row_state = h, converted_size = size,
               row_used = last_used (last_uses st) m (model_loaded st m),
               row_cleanup = cleanup_capability size (unsafe me) (unreadable me) (model_loaded st m)
                 (model_preparing st m) False True False\<rparr>) (row_health env st m cfg))"

datatype recovery_kind = InterruptedPreparation | RecoveryMetadata | ProtectedBackup

record recovery_row =
  rec_model :: string
  rec_name :: string
  rec_kind :: recovery_kind
  rec_size :: nat
  rec_protected :: nat
  rec_cleanup :: capability

text \<open>What remains of a preparation: output, staging and record. The output counts only when it is incomplete.\<close>

definition recovery_parts :: "storage_env \<Rightarrow> storage \<Rightarrow> string \<Rightarrow> shown_health \<Rightarrow> tree_measurement list" where
  "recovery_parts env st m h =
     [if h = Health IncompleteConversion then safe_model_measurement env st m else measured False 0 False False,
      measure_tree (models_root env m) False (staging_dir (slots (disk st) m)),
      measure_tree (recovery_root env) True (record_nodes st m)]"

definition total_size :: "tree_measurement list \<Rightarrow> nat" where
  "total_size ms = sum_list (map size_bytes ms)"

definition recovery_row :: "storage_env \<Rightarrow> storage \<Rightarrow> string \<times> model_config \<Rightarrow> shown_health \<Rightarrow> recovery_row option" where
  "recovery_row env st entry h =
     (case entry of (m, cfg) \<Rightarrow>
      let parts = recovery_parts env st m h;
          backup = measure_tree (models_root env m) False (backup_dir (slots (disk st) m));
          size = total_size parts; protected = size_bytes backup
      in if size = 0 \<and> protected = 0 \<and> \<not> list_ex (\<lambda>x. unsafe x \<or> unreadable x) (backup # parts) then None
         else Some \<lparr>rec_model = m, rec_name = model_name cfg,
           rec_kind = (if present (parts ! 0) \<or> present (parts ! 1) then InterruptedPreparation
             else if present (parts ! 2) then RecoveryMetadata else ProtectedBackup),
           rec_size = size, rec_protected = protected,
           rec_cleanup = cleanup_capability size (list_ex unsafe parts) (list_ex unreadable parts)
             (model_loaded st m) (model_preparing st m) False True (size = 0 \<and> 0 < protected)\<rparr>)"

record cache_group =
  gr_key :: string
  gr_source :: string
  gr_ids :: "string list"
  gr_names :: "string list"
  gr_preparing :: bool

fun join_group :: "string \<Rightarrow> string \<Rightarrow> string \<Rightarrow> string \<Rightarrow> bool \<Rightarrow> cache_group list \<Rightarrow> cache_group list" where
  "join_group key src m name busy [] = [\<lparr>gr_key = key, gr_source = src, gr_ids = [m], gr_names = [name], gr_preparing = busy\<rparr>]"
| "join_group key src m name busy (g # gs) =
     (if gr_key g = key
      then g\<lparr>gr_ids := gr_ids g @ [m], gr_names := gr_names g @ [name], gr_preparing := gr_preparing g \<or> busy\<rparr> # gs
      else g # join_group key src m name busy gs)"

text \<open>The lexical path of a cache, with the name as the file system compares it.\<close>

definition cache_key :: "storage_env \<Rightarrow> string \<Rightarrow> string option" where
  "cache_key env src =
     (if source_cache_path (base env) src = None then None else Some (normcase env (cache_name src)))"

definition cache_groups :: "storage_env \<Rightarrow> storage \<Rightarrow> cache_group list" where
  "cache_groups env st =
     fold (\<lambda>(m, cfg) gs.
       if source_model cfg = [] then gs
       else case cache_key env (source_model cfg) of
         None \<Rightarrow> gs
       | Some key \<Rightarrow> join_group key (source_model cfg) m (model_name cfg) (model_preparing st m) gs) (catalogue st) []"

record cache_row =
  cr_source :: string
  cr_ids :: "string list"
  cr_names :: "string list"
  cr_size :: nat
  cr_found :: bool
  cr_shared :: bool
  cr_cleanup :: capability

definition cache_row :: "storage_env \<Rightarrow> storage \<Rightarrow> cache_group \<Rightarrow> cache_row" where
  "cache_row env st g =
     (let me = measure_tree (hub_root env) False (caches (disk st) (gr_key g))
      in \<lparr>cr_source = gr_source g, cr_ids = sort (gr_ids g), cr_names = sort (gr_names g), cr_size = size_bytes me,
           cr_found = present me, cr_shared = 1 < length (gr_ids g),
           cr_cleanup = cleanup_capability (size_bytes me) (unsafe me) (unreadable me) False (gr_preparing g) False True False\<rparr>)"

record totals =
  converted_total :: nat
  hub_total :: nat
  recovery_total :: nat
  protected_total :: nat
  compiled_total :: nat
  managed_total :: nat
  reclaimable_total :: nat

record inventory =
  inv_totals :: totals
  inv_models :: "model_row list"
  inv_caches :: "cache_row list"
  inv_recovery :: "recovery_row list"
  inv_compiled :: capability

definition offered :: "capability \<Rightarrow> nat" where
  "offered c = (if available c then reclaimable c else 0)"

fun all_some :: "'a option list \<Rightarrow> 'a list option" where
  "all_some [] = Some []"
| "all_some (x # xs) = (case (x, all_some xs) of (Some y, Some ys) \<Rightarrow> Some (y # ys) | _ \<Rightarrow> None)"

text \<open>\<open>_snapshot_sync\<close>; \<open>None\<close> when the marker of one model cannot be decoded.\<close>

definition snapshot :: "storage_env \<Rightarrow> storage \<Rightarrow> inventory option" where
  "snapshot env st =
     (case all_some (map (model_row env st) (catalogue st)) of
        None \<Rightarrow> None
      | Some models \<Rightarrow>
          let recs = List.map_filter (\<lambda>(entry, row). recovery_row env st entry (row_state row)) (zip (catalogue st) models);
              cached = map (cache_row env st) (cache_groups env st);
              comp = measure_tree (compiled_root st) False (compiled st);
              comp_cap = cleanup_capability (size_bytes comp) (unsafe comp) (unreadable comp) False False True
                (all_lifecycle_idle st) False;
              conv = sum_list (map converted_size models); hub = sum_list (map cr_size cached);
              rc = sum_list (map rec_size recs); prot = sum_list (map rec_protected recs)
          in Some \<lparr>inv_totals = \<lparr>converted_total = conv, hub_total = hub, recovery_total = rc, protected_total = prot,
                   compiled_total = size_bytes comp, managed_total = conv + hub + rc + prot + size_bytes comp,
                   reclaimable_total = sum_list (map (\<lambda>r. offered (row_cleanup r)) models)
                     + sum_list (map (\<lambda>r. offered (cr_cleanup r)) cached)
                     + sum_list (map (\<lambda>r. offered (rec_cleanup r)) recs) + offered comp_cap\<rparr>,
                 inv_models = sort_key (\<lambda>r. (- int (converted_size r), row_name r)) models,
                 inv_caches = sort_key (\<lambda>r. (- int (cr_size r), cr_source r)) cached,
                 inv_recovery = sort_key (\<lambda>r. (- int (rec_size r + rec_protected r), rec_name r)) recs,
                 inv_compiled = comp_cap\<rparr>)"

section \<open>Cleanups\<close>

datatype cleanup_action = DeleteConverted | RemoveHubCache | RemoveIncompleteData | ClearCompiled

definition valid_request :: "cleanup_action \<Rightarrow> string option \<Rightarrow> bool" where
  "valid_request action mid =
     (case mid of None \<Rightarrow> action = ClearCompiled | Some m \<Rightarrow> valid_model_id m \<and> action \<noteq> ClearCompiled)"

text \<open>\<open>Escapes\<close>: the error of \<open>conversion_health\<close> that nothing catches.\<close>

datatype storage_error = UnknownIdentifier | Conflict storage_conflict | Escapes

type_synonym cleaned = "(storage_error, nat) result \<times> storage \<times> attempt list"

text \<open>How the deletion of the lifecycle guards ends: see \<open>Lifecycle\<close>. A \<open>ValueError\<close> may name a path.\<close>

datatype deletion = Deleted nat | DeleteValueError bool | DeleteOSError "fs_node option"

definition put_slot :: "string \<Rightarrow> model_slot \<Rightarrow> storage \<Rightarrow> storage" where
  "put_slot m f st = st\<lparr>disk := (disk st)\<lparr>slots := (slots (disk st))(m := f)\<rparr>\<rparr>"

definition reject_model_activity :: "storage \<Rightarrow> bool \<Rightarrow> string \<Rightarrow> storage_conflict option" where
  "reject_model_activity st not_loaded m =
     (if model_preparing st m then Some OperationActive
      else if not_loaded \<and> model_loaded st m then Some ModelLoaded else None)"

definition delete_model :: "storage_env \<Rightarrow> deletion \<Rightarrow> bool \<Rightarrow> string \<Rightarrow> attempt list \<Rightarrow> storage \<Rightarrow> cleaned" where
  "delete_model env how usage_writable m as st =
     (case reject_model_activity st True m of
        Some c \<Rightarrow> (Inl (Conflict c), st, as)
      | None \<Rightarrow>
          let me = safe_model_measurement env st m; f = slots (disk st) m
          in if unsafe me then (Inl (Conflict UnsafePath), st, as)
             else if unreadable me then (Inl (Conflict StorageUnreadable), st, as)
             else case how of
               Deleted n \<Rightarrow> (Inr n, (put_slot m (f\<lparr>out_dir := None\<rparr>) st)\<lparr>last_uses := clear_model_usage usage_writable m (last_uses st)\<rparr>, as)
             | DeleteValueError names_path \<Rightarrow> (Inl (Conflict (if names_path then UnsafePath else CleanupConflict)), st, as)
             | DeleteOSError rest \<Rightarrow> (Inl (Conflict CleanupFailed), put_slot m (f\<lparr>out_dir := rest\<rparr>) st, as))"

definition related_ids :: "storage \<Rightarrow> string \<Rightarrow> string list" where
  "related_ids st src = map fst (filter (\<lambda>(m, cfg). source_model cfg \<noteq> [] \<and> source_model cfg = src) (catalogue st))"

fun first_conflict :: "storage \<Rightarrow> string list \<Rightarrow> storage_conflict option" where
  "first_conflict st [] = None"
| "first_conflict st (m # ms) = (case reject_model_activity st False m of Some c \<Rightarrow> Some c | None \<Rightarrow> first_conflict st ms)"

definition remove_source_cache :: "storage_env \<Rightarrow> model_config \<Rightarrow> attempt list \<Rightarrow> storage \<Rightarrow> cleaned" where
  "remove_source_cache env cfg as st =
     (case first_conflict st (related_ids st (source_model cfg)) of
        Some c \<Rightarrow> (Inl (Conflict c), st, as)
      | None \<Rightarrow>
          (case cache_key env (source_model cfg) of
             None \<Rightarrow> (Inl (Conflict CacheUnavailable), st, as)
           | Some key \<Rightarrow>
               (case remove_tree (hub_root env) False (caches (disk st) key) as of (r, n, rest) \<Rightarrow>
                  (map_sum Conflict id r, st\<lparr>disk := (disk st)\<lparr>caches := (caches (disk st))(key := n)\<rparr>\<rparr>, rest))))"

definition remove_incomplete_data :: "storage_env \<Rightarrow> model_config \<Rightarrow> string \<Rightarrow> attempt list \<Rightarrow> storage \<Rightarrow> cleaned" where
  "remove_incomplete_data env cfg m as st =
     (case reject_model_activity st True m of
        Some c \<Rightarrow> (Inl (Conflict c), st, as)
      | None \<Rightarrow>
          if unsafe (safe_model_measurement env st m) then (Inl (Conflict UnsafePath), st, as)
          else case conversion_health (health_part env) cfg (out_dir (slots (disk st) m)) of
            None \<Rightarrow> (Inl Escapes, st, as)
          | Some h \<Rightarrow>
              let parts = recovery_parts env st m (Health h); f = slots (disk st) m
              in if list_ex unsafe parts then (Inl (Conflict UnsafePath), st, as)
                 else if list_ex unreadable parts then (Inl (Conflict StorageUnreadable), st, as)
                 else
                   let (failure, f', rest) =
                     (if h = IncompleteConversion then
                        (case remove_incomplete_output (base env) m f as of
                           (Inl e, f', rest) \<Rightarrow> (Some e, f', rest) | (Inr b, f', rest) \<Rightarrow> (None, f', rest))
                      else
                        (case remove_tree (models_root env m) False (staging_dir f) as of
                           (Inl e, n, rest) \<Rightarrow> (Some e, f\<lparr>staging_dir := n\<rparr>, rest)
                         | (Inr b, n, rest) \<Rightarrow> (None, f\<lparr>staging_dir := n\<rparr>, rest)));
                       st1 = put_slot m f' st
                   in case failure of
                        Some e \<Rightarrow> (Inl (Conflict e), st1, rest)
                      | None \<Rightarrow>
                          (case remove_tree (recovery_root env) True (record_nodes st m) rest of
                             (Inl e, n, rest') \<Rightarrow> (Inl (Conflict e), st1\<lparr>record_nodes := (record_nodes st)(m := n)\<rparr>, rest')
                           | (Inr b, n, rest') \<Rightarrow>
                               (Inr (total_size parts), st1\<lparr>record_nodes := (record_nodes st)(m := n)\<rparr>, rest')))"

definition clear_compiled_cache :: "attempt list \<Rightarrow> storage \<Rightarrow> cleaned" where
  "clear_compiled_cache as st =
     (if \<not> all_lifecycle_idle st then (Inl (Conflict ModelsActive), st, as)
      else case remove_tree (compiled_root st) False (compiled st) as of
        (Inl e, n, rest) \<Rightarrow> (Inl (Conflict e), st\<lparr>compiled := n\<rparr>, rest)
      | (Inr k, n, rest) \<Rightarrow> (Inr k, st\<lparr>compiled := (case n of None \<Rightarrow> Some (Directory True []) | Some t \<Rightarrow> Some t)\<rparr>, rest))"

text \<open>The models a request concerns, the action itself, and the whole request: the scope is entered first and left
  however the action ends.\<close>

definition cleanup_ids :: "cleanup_action \<Rightarrow> string \<Rightarrow> storage \<Rightarrow> string list" where
  "cleanup_ids action m st =
     (case action of
        RemoveHubCache \<Rightarrow> (case map_of (catalogue st) m of Some cfg \<Rightarrow> related_ids st (source_model cfg) | None \<Rightarrow> [])
      | ClearCompiled \<Rightarrow> []
      | _ \<Rightarrow> [m])"

definition perform_cleanup ::
  "storage_env \<Rightarrow> deletion \<Rightarrow> bool \<Rightarrow> cleanup_action \<Rightarrow> string \<Rightarrow> attempt list \<Rightarrow> storage \<Rightarrow> cleaned" where
  "perform_cleanup env how usage_writable action m as st =
     (if action = ClearCompiled then clear_compiled_cache as st
      else case map_of (catalogue st) m of
        None \<Rightarrow> (Inl UnknownIdentifier, st, as)
      | Some cfg \<Rightarrow>
          if action = DeleteConverted then delete_model env how usage_writable m as st
          else if action = RemoveHubCache then remove_source_cache env cfg as st
          else remove_incomplete_data env cfg m as st)"

definition covers_everything :: "cleanup_action \<Rightarrow> bool" where
  "covers_everything action \<longleftrightarrow> action \<in> {ClearCompiled, RemoveHubCache}"

definition cleanup ::
  "storage_env \<Rightarrow> deletion \<Rightarrow> bool \<Rightarrow> cleanup_action \<Rightarrow> string \<Rightarrow> attempt list \<Rightarrow> guard \<times> storage
     \<Rightarrow> (storage_error, nat) result \<times> guard \<times> storage" where
  "cleanup env how usage_writable action m as s =
     (case s of (g, st) \<Rightarrow>
        if action = RemoveHubCache \<and> map_of (catalogue st) m = None then (Inl UnknownIdentifier, g, st)
        else case begin_cleanup (cleanup_ids action m st) (covers_everything action) g of
          None \<Rightarrow> (Inl (Conflict CleanupActive), g, st)
        | Some g1 \<Rightarrow>
            (case perform_cleanup env how usage_writable action m as st of
               (r, st1, rest) \<Rightarrow> (r, end_cleanup (cleanup_ids action m st) (covers_everything action) g1, st1)))"

section \<open>Totals\<close>

lemma capability_fields [simp]:
  "reclaimable (cleanup_capability n u r l p q i z) = n"
  "available (cleanup_capability n u r l p q i z) \<longleftrightarrow> \<not> z \<and> \<not> u \<and> \<not> r \<and> \<not> p \<and> \<not> l \<and> (q \<longrightarrow> i) \<and> 0 < n"
  by (simp_all add: cleanup_capability_def Let_def)

lemma offered_le [simp]: "offered (cleanup_capability n u r l p q i z) \<le> n"
  by (simp add: offered_def)

lemma all_some_Some: "all_some xs = Some ys \<Longrightarrow> xs = map Some ys"
  by (induction xs arbitrary: ys) (auto split: option.splits)

lemma sum_list_le: "(\<And>x. x \<in> set xs \<Longrightarrow> f x \<le> (g x :: nat)) \<Longrightarrow> sum_list (map f xs) \<le> sum_list (map g xs)"
  by (rule sum_list_mono)

lemma model_row_offers: "model_row env st entry = Some row \<Longrightarrow> offered (row_cleanup row) \<le> converted_size row"
  by (auto simp: model_row_def Let_def split: prod.splits)

lemma recovery_row_offers: "recovery_row env st entry h = Some row \<Longrightarrow> offered (rec_cleanup row) \<le> rec_size row"
  by (auto simp: recovery_row_def Let_def split: prod.splits if_splits)

lemma cache_row_offers: "offered (cr_cleanup (cache_row env st g)) \<le> cr_size (cache_row env st g)"
  by (simp add: cache_row_def Let_def)

lemma sum_list_insort_key: "sum_list (map f (insort_key k x xs)) = f x + sum_list (map f xs :: nat list)"
  by (induction xs) simp_all

lemma sum_list_sort_key: "sum_list (map f (sort_key k xs)) = sum_list (map f xs :: nat list)"
  unfolding sort_key_def by (induction xs) (simp_all add: sum_list_insort_key)

text \<open>What the inventory calls reclaimable is contained in what it calls managed and never includes a
  protected transaction backup; the managed total is the sum over the rows shown.\<close>

lemma reclaimable_within_managed:
  assumes "snapshot env st = Some view"
  shows "reclaimable_total (inv_totals view) + protected_total (inv_totals view) \<le> managed_total (inv_totals view)
    \<and> managed_total (inv_totals view) = sum_list (map converted_size (inv_models view)) + sum_list (map cr_size (inv_caches view))
        + sum_list (map rec_size (inv_recovery view)) + sum_list (map rec_protected (inv_recovery view))
        + reclaimable (inv_compiled view)"
proof -
  obtain models where m: "all_some (map (model_row env st) (catalogue st)) = Some models"
    using assms by (auto simp: snapshot_def split: option.splits)
  define recs where "recs = List.map_filter (\<lambda>(entry, row). recovery_row env st entry (row_state row)) (zip (catalogue st) models)"
  define cached where "cached = map (cache_row env st) (cache_groups env st)"
  have sorts: "sum_list (map f (sort_key k xs)) = sum_list (map f xs)" for f :: "'a \<Rightarrow> nat" and k :: "'a \<Rightarrow> int \<times> string" and xs
    by (rule sum_list_sort_key)
  have "map (model_row env st) (catalogue st) = map Some models" using all_some_Some [OF m] .
  then have "\<exists>e. model_row env st e = Some r" if "r \<in> set models" for r
    using that by (metis (no_types, lifting) ex_map_conv image_eqI list.set_map)
  then have a: "sum_list (map (\<lambda>r. offered (row_cleanup r)) models) \<le> sum_list (map converted_size models)"
    by (intro sum_list_le) (blast intro: model_row_offers)
  have b: "sum_list (map (\<lambda>r. offered (rec_cleanup r)) recs) \<le> sum_list (map rec_size recs)"
    unfolding recs_def by (intro sum_list_le) (auto dest!: map_filter_members intro: recovery_row_offers)
  have c: "sum_list (map (\<lambda>r. offered (cr_cleanup r)) cached) \<le> sum_list (map cr_size cached)"
    unfolding cached_def by (intro sum_list_le) (auto intro: cache_row_offers)
  show ?thesis
    using assms a b c offered_le
    by (auto simp: snapshot_def m Let_def sorts simp flip: recs_def cached_def intro!: add_mono)
qed

section \<open>Cleanups touch their target\<close>

lemma cleanup_scope_restores:
  "begin_cleanup ids everything g = Some g1 \<Longrightarrow> end_cleanup ids everything g1 = g"
  by (cases g) (auto simp: begin_cleanup_def end_cleanup_def split: if_splits)

lemma put_slot_simps [simp]:
  "slots (disk (put_slot m f st)) = (slots (disk st))(m := f)" "caches (disk (put_slot m f st)) = caches (disk st)"
  "catalogue (put_slot m f st) = catalogue st" "record_nodes (put_slot m f st) = record_nodes st"
  "compiled (put_slot m f st) = compiled st"
  by (simp_all add: put_slot_def)

text \<open>Nothing but the named model's own slot changes, its backup stays, and a complete model unless it is to be deleted.\<close>

definition targeted :: "storage_env \<Rightarrow> cleanup_action \<Rightarrow> string \<Rightarrow> storage \<Rightarrow> storage \<Rightarrow> bool" where
  "targeted env action m st st' \<longleftrightarrow>
     (\<forall>k. k \<noteq> m \<longrightarrow> slots (disk st') k = slots (disk st) k \<and> record_nodes st' k = record_nodes st k)
     \<and> backup_dir (slots (disk st') m) = backup_dir (slots (disk st) m)
     \<and> (holds_model (artifact_parsers (base env)) (out_dir (slots (disk st) m)) \<and> action \<noteq> DeleteConverted
        \<longrightarrow> out_dir (slots (disk st') m) = out_dir (slots (disk st) m))
     \<and> (action \<noteq> RemoveHubCache \<longrightarrow> caches (disk st') = caches (disk st))
     \<and> (action \<noteq> ClearCompiled \<longrightarrow> compiled st' = compiled st) \<and> catalogue st' = catalogue st"

lemma targeted_refl [simp]: "targeted env action m st st"
  by (simp add: targeted_def)

lemma delete_model_targeted:
  "delete_model env how w m as st = (r, st', rest) \<Longrightarrow> targeted env DeleteConverted m st st'"
  by (auto simp: delete_model_def Let_def targeted_def split: option.splits if_splits deletion.splits)

lemma remove_source_cache_targeted:
  "remove_source_cache env cfg as st = (r, st', rest) \<Longrightarrow> targeted env RemoveHubCache m st st'"
  by (auto simp: remove_source_cache_def targeted_def split: option.splits prod.splits)

lemma clear_compiled_targeted:
  "clear_compiled_cache as st = (r, st', rest) \<Longrightarrow> targeted env ClearCompiled m st st'"
  by (auto simp: clear_compiled_cache_def targeted_def split: if_splits prod.splits sum.splits)

lemma remove_incomplete_data_targeted:
  assumes "remove_incomplete_data env cfg m as st = (r, st', rest)"
  shows "targeted env RemoveIncompleteData m st st'"
proof -
  have own: "targeted env RemoveIncompleteData m st (put_slot m f st)"
    if "remove_incomplete_output (base env) m (slots (disk st) m) as = (q, f, rest')" for q f rest'
    using remove_incomplete_frame [OF that] by (auto simp: targeted_def)
  have staged: "targeted env RemoveIncompleteData m st (put_slot m (slots (disk st) m\<lparr>staging_dir := n\<rparr>) st)" for n
    by (simp add: targeted_def)
  have recorded: "targeted env RemoveIncompleteData m st (t\<lparr>record_nodes := (record_nodes st)(m := n)\<rparr>)"
    if "targeted env RemoveIncompleteData m st t" for t n
    using that by (simp add: targeted_def)
  show ?thesis
    using assms unfolding remove_incomplete_data_def Let_def
    by (auto split: option.splits prod.splits sum.splits if_splits intro!: recorded intro: own staged)
qed


section \<open>What is offered works\<close>

lemma remove_loop_works: "ds \<noteq> [] \<Longrightarrow> remove_loop ds (Some t) [] = (True, None, [])"
  by (cases ds) (auto simp: lexists_def)

lemma remove_tree_works:
  assumes "\<not> unsafe (measure_tree rt af n)" and "\<not> unreadable (measure_tree rt af n)"
  shows "\<exists>k. remove_tree rt af n [] = (Inr k, None, [])"
proof (cases n)
  case None
  then have "\<not> present (measure_tree rt af n)" by (simp add: absent_measured)
  then show ?thesis using None by (simp add: remove_tree_def Let_def)
next
  case (Some t)
  then show ?thesis
    using assms absent_measured [of rt af n] remove_loop_works [of retry_delays t]
    by (simp add: remove_tree_def Let_def retry_delays_def)
qed

lemma safe_directory:
  assumes "\<not> unsafe (measure_tree rt False (Some t))"
  shows "is_directory t \<and> \<not> is_reparse_point (Some t)"
  using assms by (auto simp: measure_tree_def measured_def split: if_splits)

lemma remove_directory_works:
  assumes "\<not> unsafe (measure_tree rt False n)"
  shows "\<exists>b. remove_directory n [] = (Inr b, None, [])"
proof (cases n)
  case (Some t)
  with safe_directory [of rt t] assms remove_loop_works [of retry_delays t] show ?thesis
    by (auto simp: remove_directory_def retry_delays_def)
qed (auto simp: remove_directory_def)


section \<open>Examples\<close>

definition demo_storage_env :: storage_env where
  "demo_storage_env = \<lparr>base = demo_recovery, health_part = plain_health\<lparr>health_parsers := artifact_parsers demo_recovery\<rparr>,
     normcase = (\<lambda>s. s), lexical = (\<lambda>_. True), models_linked = False, hub_linked = False, recovery_linked = False\<rparr>"

definition demo_storage :: storage where
  "demo_storage = \<lparr>disk = demo_files, record_nodes = (\<lambda>_. None), compiled = None, catalogue = [(''m'', demo_entry)],
     engines = [], status_list = [], loading_now = [], converting_now = [], recovering_now = [],
     last_uses = \<lparr>used = [], flushed = [], usage_file = None\<rparr>\<rparr>"

lemma demo_measured: "safe_model_measurement demo_storage_env demo_storage ''m'' = measured True 1 False False"
  by (simp add: safe_model_measurement_def Let_def outside_def demo_storage_env_def demo_recovery_def demo_storage_def
      demo_files_def models_root_def measure_tree_def is_reparse_point_def one_level_def linked_dir_def)

lemma demo_incomplete: "conversion_health (health_part demo_storage_env) demo_entry (out_dir (slots (disk demo_storage) ''m''))
    = Some IncompleteConversion"
  by (simp add: conversion_health_def demo_storage_env_def demo_storage_def demo_files_def path_exists_def holds_model_def
      is_openvino_model_dir_def validate_ready ir_markers_def)

lemma demo_recovery_row: "\<exists>row. recovery_row demo_storage_env demo_storage (''m'', demo_entry) (Health IncompleteConversion) = Some row
    \<and> available (rec_cleanup row) \<and> rec_size row = 1"
  by (simp add: recovery_row_def recovery_parts_def demo_measured Let_def)
    (simp add: measured_def total_size_def demo_storage_def demo_storage_env_def demo_files_def models_root_def
      recovery_root_def measure_tree_def model_loaded_def model_preparing_def)



lemma reclaimable_within_managed_witness:
  "\<exists>view. snapshot demo_storage_env (demo_storage\<lparr>catalogue := []\<rparr>) = Some view
     \<and> reclaimable_total (inv_totals view) + protected_total (inv_totals view) \<le> managed_total (inv_totals view)"
proof -
  obtain view where v: "snapshot demo_storage_env (demo_storage\<lparr>catalogue := []\<rparr>) = Some view"
    by (simp add: snapshot_def Let_def)
  from reclaimable_within_managed [OF v] v show ?thesis by blast
qed

section \<open>Where the code departs from its intent\<close>

text \<open>On a file system that ignores case the inventory sees one cache where the cleanup sees two sources: the
  cache is removed although a model that uses it is being prepared, which the inventory does not offer.\<close>

lemma cache_in_use_removed:
  assumes key: "normcase env (cache_name ''Org/m'') = normcase env (cache_name ''org/m'')"
    and inside: "\<And>k. cache_inside (base env) k"
    and busy: "converting_now st = [''b'']" "loading_now st = []" "recovering_now st = []" "status_list st = []"
    and cat: "catalogue st = [(''a'', demo_entry), (''b'', demo_entry\<lparr>source_model := ''Org/m''\<rparr>)]"
    and cache: "caches (disk st) (normcase env (cache_name ''org/m'')) = Some (Directory True [(''x'', Document ''12'')])"
    and hub: "\<not> hub_linked env"
  shows "fst (remove_source_cache env demo_entry [] st) = Inr 2"
    and "\<exists>row. map (cache_row env st) (cache_groups env st) = [row] \<and> \<not> available (cr_cleanup row)"
proof -
  have pat: "source_pattern (py_strip ''org/m'')" "source_pattern (py_strip ''Org/m'')" by code_simp+
  have strip: "py_strip ''org/m'' = ''org/m''" "py_strip ''Org/m'' = ''Org/m''" by code_simp+
  have k: "cache_key env ''org/m'' = Some (normcase env (cache_name ''org/m''))"
    "cache_key env ''Org/m'' = Some (normcase env (cache_name ''org/m''))"
    using pat strip key inside by (simp_all add: cache_key_def source_cache_path_def Let_def)
  have me: "measure_tree (hub_root env) False (Some (Directory True [(''x'', Document ''12'')])) = measured True 2 False False"
    using hub by (simp add: measure_tree_def hub_root_def is_reparse_point_def one_level_def linked_dir_def numeral_2_eq_2)
  show "fst (remove_source_cache env demo_entry [] st) = Inr 2"
    using busy cat k me cache
    by (simp add: remove_source_cache_def related_ids_def reject_model_activity_def model_preparing_def demo_entry_def
        remove_tree_def Let_def measured_def retry_delays_def lexists_def)
  show "\<exists>row. map (cache_row env st) (cache_groups env st) = [row] \<and> \<not> available (cr_cleanup row)"
    using busy cat k by (simp add: cache_groups_def demo_entry_def cache_row_def Let_def model_preparing_def)
qed

text \<open>The record of a model whose directory is a link is offered for cleanup, and the cleanup refuses.\<close>

lemma offered_record_refused:
  assumes "out_dir (slots (disk st) m) = Some (Linked t)" and "within_models (base env) m" and "lexical env m"
    and "\<not> models_linked env" and "\<not> recovery_linked env" and "staging_dir (slots (disk st) m) = None"
    and "record_nodes st m = Some (Document ''r'')" and "\<not> model_preparing st m" and "\<not> model_loaded st m"
  shows "row_health env st m cfg = Some UnsafeManagedPath"
    and "\<exists>row. recovery_row env st (m, cfg) UnsafeManagedPath = Some row \<and> available (rec_cleanup row)"
    and "fst (remove_incomplete_data env cfg m as st) = Inl (Conflict UnsafePath)"
proof -
  have me: "unsafe (safe_model_measurement env st m)"
    using assms by (simp add: safe_model_measurement_def Let_def outside_def measure_tree_def models_root_def measured_def
        is_reparse_point_def)
  show "row_health env st m cfg = Some UnsafeManagedPath" by (simp add: row_health_def me)
  show "fst (remove_incomplete_data env cfg m as st) = Inl (Conflict UnsafePath)"
    using assms me by (simp add: remove_incomplete_data_def reject_model_activity_def)
  show "\<exists>row. recovery_row env st (m, cfg) UnsafeManagedPath = Some row \<and> available (rec_cleanup row)"
    using assms by (simp add: recovery_row_def recovery_parts_def Let_def total_size_def measured_def measure_tree_def
        models_root_def recovery_root_def is_reparse_point_def)
qed

end
