(* ===== verification/RateLimit.thy ===== *)
theory RateLimit
  imports Prelude
begin

text \<open>
  \<open>app/rate_limit.py\<close>: the per-client sliding-window request limiter. The state is
  the limit, the time stamps admitted per client address and the time of the last
  clean-up; \<open>time.monotonic()\<close> is the argument \<open>now\<close>, an exact number of seconds.
\<close>

record http_scope =
  scope_type :: "string"
  scope_path :: "string option"
  scope_method :: "string option"
  scope_client :: "string option"

record limiter =
  rpm :: int
  window :: rat
  hits :: "string \<rightharpoonup> rat list"
  last_cleanup :: rat

datatype verdict = Forward | TooManyRequests int

text \<open>\<open>__init__\<close>.\<close>

definition init_limiter :: "int \<Rightarrow> rat \<Rightarrow> limiter" where
  "init_limiter requests_per_minute now =
     \<lparr>rpm = max requests_per_minute 0, window = 60, hits = Map.empty, last_cleanup = now\<rparr>"

text \<open>\<open>_cleanup_locked\<close>: forget clients whose newest hit left the window.\<close>

definition stale_hits :: "rat \<Rightarrow> rat list \<Rightarrow> bool" where
  "stale_hits cutoff h \<longleftrightarrow> h = [] \<or> last h \<le> cutoff"

definition cleanup_locked :: "limiter \<Rightarrow> rat \<Rightarrow> limiter" where
  "cleanup_locked l now =
     (let cutoff = now - window l in
      l\<lparr>hits := (\<lambda>ip. case hits l ip of None \<Rightarrow> None
                      | Some h \<Rightarrow> if stale_hits cutoff h then None else Some h)\<rparr>)"

text \<open>The loop \<open>while window and window[0] <= cutoff: window.popleft()\<close>.\<close>

definition prune :: "rat \<Rightarrow> rat list \<Rightarrow> rat list" where
  "prune cutoff h = dropWhile (\<lambda>t. t \<le> cutoff) h"

text \<open>\<open>self._hits[client_ip]\<close>, a \<open>defaultdict(deque)\<close>.\<close>

definition client_hits :: "limiter \<Rightarrow> string \<Rightarrow> rat list" where
  "client_hits l ip = (case hits l ip of None \<Rightarrow> [] | Some h \<Rightarrow> h)"

text \<open>\<open>_record_request\<close>: the retry delay when blocked, and the new state.\<close>

definition record_request :: "limiter \<Rightarrow> string \<Rightarrow> rat \<Rightarrow> int option \<times> limiter" where
  "record_request l client_ip now =
     (let l1 = (if now - last_cleanup l > window l
                then (cleanup_locked l now)\<lparr>last_cleanup := now\<rparr> else l);
          h = prune (now - window l1) (client_hits l1 client_ip)
      in if int (length h) \<ge> rpm l1
         then (Some (max 1 \<lceil>hd h + window l1 - now\<rceil>), l1\<lparr>hits := (hits l1)(client_ip \<mapsto> h)\<rparr>)
         else (None, l1\<lparr>hits := (hits l1)(client_ip \<mapsto> h @ [now])\<rparr>))"

text \<open>\<open>__call__\<close>: which requests are limited, and the 429 answer.\<close>

definition rate_limit_call :: "limiter \<Rightarrow> http_scope \<Rightarrow> rat \<Rightarrow> verdict \<times> limiter" where
  "rate_limit_call l sc now =
     (if scope_type sc \<noteq> ''http'' \<or> rpm l \<le> 0 then (Forward, l)
      else
        let path = (case scope_path sc of None \<Rightarrow> '''' | Some p \<Rightarrow> p);
            verb = py_upper (case scope_method sc of None \<Rightarrow> ''GET''
                             | Some m \<Rightarrow> if m = '''' then ''GET'' else m)
        in if \<not> starts_with path ''/v1/'' \<or> verb = ''OPTIONS'' then (Forward, l)
           else
             let client_ip = (case scope_client sc of None \<Rightarrow> ''unknown'' | Some c \<Rightarrow> c)
             in (case record_request l client_ip now of
                   (None, l') \<Rightarrow> (Forward, l')
                 | (Some retry_after, l') \<Rightarrow> (TooManyRequests retry_after, l')))"

section \<open>The window invariant\<close>

text \<open>Every stored list is sorted, not from the future and never longer than the limit.\<close>

definition limiter_ok :: "rat \<Rightarrow> limiter \<Rightarrow> bool" where
  "limiter_ok now l \<longleftrightarrow> 0 < rpm l \<and> window l = 60 \<and>
     (\<forall>ip. sorted (client_hits l ip) \<and> (\<forall>t \<in> set (client_hits l ip). t \<le> now) \<and>
           int (length (client_hits l ip)) \<le> rpm l)"

lemma sorted_last_ge:
  assumes "sorted h" and "t \<in> set h"
  shows "t \<le> last h"
proof -
  from assms(2) have "h \<noteq> []" by auto
  then have "h = butlast h @ [last h]" by simp
  with assms have "sorted (butlast h @ [last h])" "t \<in> set (butlast h @ [last h])" by simp_all
  then show ?thesis by (auto simp: sorted_append)
qed

lemma prune_sorted: "sorted h \<Longrightarrow> prune c h = filter (\<lambda>t. c < t) h"
  unfolding prune_def
proof (induction h)
  case (Cons a h)
  show ?case
  proof (cases "a \<le> c")
    case True
    with Cons show ?thesis by simp
  next
    case False
    with Cons.prems have "\<forall>t \<in> set (a # h). c < t" by (auto simp: not_le intro: less_le_trans)
    then have "filter (\<lambda>t. c < t) (a # h) = a # h" by (simp only: filter_id_conv)
    with False show ?thesis by simp
  qed
qed simp

lemma client_hits_update [simp]:
  "client_hits (l\<lparr>hits := (hits l)(ip \<mapsto> h)\<rparr>) jp = (if jp = ip then h else client_hits l jp)"
  "client_hits (l\<lparr>last_cleanup := t\<rparr>) jp = client_hits l jp"
  by (simp_all add: client_hits_def)

lemma prune_suffix: "suffix (prune c h) h"
  by (simp add: prune_def suffix_dropWhile)

lemma cleanup_fields [simp]:
  "rpm (cleanup_locked l now) = rpm l" "window (cleanup_locked l now) = window l"
  by (simp_all add: cleanup_locked_def Let_def)

text \<open>A clean-up loses no hit that is still inside the window.\<close>

lemma cleanup_keeps_recent:
  assumes "sorted (client_hits l ip)"
  shows "filter (\<lambda>t. now - window l < t) (client_hits (cleanup_locked l now) ip) =
         filter (\<lambda>t. now - window l < t) (client_hits l ip)"
proof (cases "hits l ip")
  case (Some h)
  then have h: "client_hits l ip = h" by (simp add: client_hits_def)
  have "filter (\<lambda>t. now - window l < t) h = []" if "stale_hits (now - window l) h"
  proof (cases "h = []")
    case False
    with that have le: "last h \<le> now - window l" by (simp add: stale_hits_def)
    have "\<forall>t \<in> set h. t \<le> last h"
      using assms h by (auto intro: sorted_last_ge)
    with le show ?thesis by (auto simp: filter_empty_conv not_less)
  qed simp
  with Some show ?thesis by (auto simp: cleanup_locked_def Let_def client_hits_def)
qed (simp add: cleanup_locked_def Let_def client_hits_def)

lemma cleanup_hits_cases:
  "client_hits (cleanup_locked l now) ip = client_hits l ip \<or>
   client_hits (cleanup_locked l now) ip = []"
  by (auto simp: cleanup_locked_def Let_def client_hits_def split: option.splits)

section \<open>Runs of the limiter\<close>

text \<open>The requests the limiter counts, and the client it counts them for.\<close>

definition limited :: "http_scope \<Rightarrow> bool" where
  "limited sc \<longleftrightarrow> scope_type sc = ''http'' \<and>
     starts_with (case scope_path sc of None \<Rightarrow> '''' | Some p \<Rightarrow> p) ''/v1/'' \<and>
     py_upper (case scope_method sc of None \<Rightarrow> ''GET''
               | Some m \<Rightarrow> if m = '''' then ''GET'' else m) \<noteq> ''OPTIONS''"

definition client_of :: "http_scope \<Rightarrow> string" where
  "client_of sc = (case scope_client sc of None \<Rightarrow> ''unknown'' | Some c \<Rightarrow> c)"

text \<open>The limited requests a run lets through, as pairs of client and time.\<close>

fun served :: "limiter \<Rightarrow> (http_scope \<times> rat) list \<Rightarrow> (string \<times> rat) list" where
  "served l [] = []"
| "served l ((sc, now) # calls) =
     (case rate_limit_call l sc now of
        (Forward, l') \<Rightarrow> (if limited sc then [(client_of sc, now)] else []) @ served l' calls
      | (TooManyRequests _, l') \<Rightarrow> served l' calls)"

definition times_of :: "string \<Rightarrow> (string \<times> rat) list \<Rightarrow> rat list" where
  "times_of ip trail = map snd (filter (\<lambda>e. fst e = ip) trail)"

definition in_window :: "rat \<Rightarrow> rat list \<Rightarrow> nat" where
  "in_window T ts = length (filter (\<lambda>t. T - 60 < t \<and> t \<le> T) ts)"

text \<open>The stored hits are the served requests of the last minute.\<close>

definition tracks :: "rat \<Rightarrow> limiter \<Rightarrow> (string \<times> rat) list \<Rightarrow> bool" where
  "tracks now l trail \<longleftrightarrow> limiter_ok now l \<and> (\<forall>e \<in> set trail. snd e \<le> now) \<and>
     (\<forall>ip. filter (\<lambda>t. now - 60 < t) (client_hits l ip) =
           filter (\<lambda>t. now - 60 < t) (times_of ip trail))"

definition windows_ok :: "int \<Rightarrow> (string \<times> rat) list \<Rightarrow> bool" where
  "windows_ok r trail \<longleftrightarrow> (\<forall>ip T. int (in_window T (times_of ip trail)) \<le> r)"

lemma times_of_append [simp]: "times_of ip (xs @ ys) = times_of ip xs @ times_of ip ys"
  by (simp add: times_of_def)

lemma times_of_Cons [simp]:
  "times_of ip ((c, t) # trail) = (if c = ip then t # times_of ip trail else times_of ip trail)"
  by (simp add: times_of_def)

lemma times_of_Nil [simp]: "times_of ip [] = []"
  by (simp add: times_of_def)

lemma filter_later:
  fixes a b :: rat
  assumes "a \<le> b" and "filter (\<lambda>t. a < t) xs = filter (\<lambda>t. a < t) ys"
  shows "filter (\<lambda>t. b < t) xs = filter (\<lambda>t. b < t) ys"
proof -
  have "filter (\<lambda>t. b < t) zs = filter (\<lambda>t. b < t) (filter (\<lambda>t. a < t) zs)" for zs
    using assms(1) by (auto simp: filter_filter intro!: filter_cong)
  with assms(2) show ?thesis by metis
qed

lemma limiter_ok_later: "limiter_ok now l \<Longrightarrow> now \<le> now' \<Longrightarrow> limiter_ok now' l"
  by (auto simp: limiter_ok_def intro: order_trans)

text \<open>The state between the clean-up and the lookup.\<close>

definition swept :: "limiter \<Rightarrow> rat \<Rightarrow> limiter" where
  "swept l now = (if now - last_cleanup l > window l
                  then (cleanup_locked l now)\<lparr>last_cleanup := now\<rparr> else l)"

lemma swept_fields [simp]: "rpm (swept l now) = rpm l" "window (swept l now) = window l"
  by (simp_all add: swept_def)

lemma swept_hits:
  assumes "limiter_ok now l"
  shows "client_hits (swept l now) ip = client_hits l ip \<or> client_hits (swept l now) ip = []"
    and "filter (\<lambda>t. now - 60 < t) (client_hits (swept l now) ip) =
         filter (\<lambda>t. now - 60 < t) (client_hits l ip)"
  using cleanup_hits_cases [of l now ip] cleanup_keeps_recent [of l ip now] assms
  by (auto simp: swept_def limiter_ok_def)

lemma swept_ok: "limiter_ok now l \<Longrightarrow> limiter_ok now (swept l now)"
  unfolding limiter_ok_def [of now "swept l now"]
proof (intro conjI allI)
  assume ok: "limiter_ok now l"
  then show "0 < rpm (swept l now)" "window (swept l now) = 60" by (simp_all add: limiter_ok_def)
  fix ip
  show "sorted (client_hits (swept l now) ip)" "\<forall>t \<in> set (client_hits (swept l now) ip). t \<le> now"
    "int (length (client_hits (swept l now) ip)) \<le> rpm (swept l now)"
    using swept_hits(1) [OF ok, of ip] ok by (auto simp: limiter_ok_def)
qed

lemma record_request_swept:
  "record_request l ip now =
     (let l1 = swept l now; h = prune (now - window l) (client_hits l1 ip)
      in if int (length h) \<ge> rpm l
         then (Some (max 1 \<lceil>hd h + window l - now\<rceil>), l1\<lparr>hits := (hits l1)(ip \<mapsto> h)\<rparr>)
         else (None, l1\<lparr>hits := (hits l1)(ip \<mapsto> h @ [now])\<rparr>))"
  unfolding record_request_def swept_def by (simp add: Let_def)

abbreviation live_hits :: "limiter \<Rightarrow> string \<Rightarrow> rat \<Rightarrow> rat list" where
  "live_hits l ip now \<equiv> filter (\<lambda>t. now - 60 < t) (client_hits l ip)"

text \<open>\<open>_record_request\<close> in terms of the live hits.\<close>

lemma record_request_eq:
  assumes "limiter_ok now l"
  shows "record_request l ip now =
     (let h = live_hits l ip now; l1 = swept l now in
      if int (length h) \<ge> rpm l
      then (Some (max 1 \<lceil>hd h + 60 - now\<rceil>), l1\<lparr>hits := (hits l1)(ip \<mapsto> h)\<rparr>)
      else (None, l1\<lparr>hits := (hits l1)(ip \<mapsto> h @ [now])\<rparr>))"
proof -
  have "prune (now - 60) (client_hits (swept l now) ip) = live_hits l ip now"
    using swept_ok [OF assms] swept_hits(2) [OF assms, of ip]
    by (simp add: prune_sorted limiter_ok_def)
  moreover have "window l = 60" using assms by (simp add: limiter_ok_def)
  ultimately show ?thesis by (simp add: record_request_swept Let_def)
qed

lemma sorted_snoc_now: "sorted h \<Longrightarrow> \<forall>t \<in> set h. t \<le> now \<Longrightarrow> sorted (h @ [now :: rat])"
  by (simp add: sorted_append)

lemma record_request_ok:
  assumes "limiter_ok now l"
  shows "limiter_ok now (snd (record_request l ip now))"
proof -
  have h: "sorted (live_hits l ip now)" "\<forall>t \<in> set (live_hits l ip now). t \<le> now"
    using assms by (auto simp: limiter_ok_def intro: sorted_filter [where f = id, simplified])
  have "length (live_hits l ip now) \<le> length (client_hits l ip)" by (rule length_filter_le)
  moreover have "int (length (client_hits l ip)) \<le> rpm l"
    using assms by (simp add: limiter_ok_def)
  ultimately have "int (length (live_hits l ip now)) \<le> rpm l" by linarith
  then show ?thesis
    using swept_ok [OF assms] h sorted_snoc_now [OF h]
    by (auto simp: record_request_eq [OF assms] Let_def limiter_ok_def)
qed

lemma record_request_tracks:
  assumes tr: "tracks now0 l trail" and le: "now0 \<le> now" and rr: "record_request l ip now = (r, l')"
  shows "tracks now l' (if r = None then trail @ [(ip, now)] else trail)"
    and "r = None \<Longrightarrow> int (length (filter (\<lambda>t. now - 60 < t) (times_of ip trail))) < rpm l"
    and "rpm l' = rpm l"
proof -
  have ok: "limiter_ok now l" using tr le by (auto simp: tracks_def intro: limiter_ok_later)
  have live: "live_hits l jp now = filter (\<lambda>t. now - 60 < t) (times_of jp trail)" for jp
    using tr le by (auto simp: tracks_def intro: filter_later [of "now0 - 60"])
  have sw: "live_hits (swept l now) jp now = live_hits l jp now" for jp
    by (rule swept_hits(2) [OF ok])
  have ok': "limiter_ok now l'" using record_request_ok [OF ok, of ip] rr by simp
  have past: "\<forall>e \<in> set trail. snd e \<le> now" using tr le by (auto simp: tracks_def)
  note eq = rr [unfolded record_request_eq [OF ok] Let_def]
  show "rpm l' = rpm l" using eq by (auto split: if_splits)
  show "r = None \<Longrightarrow> int (length (filter (\<lambda>t. now - 60 < t) (times_of ip trail))) < rpm l"
    using eq live [of ip] by (auto split: if_splits)
  show "tracks now l' (if r = None then trail @ [(ip, now)] else trail)"
  proof (cases "r = None")
    case True
    then have l': "client_hits l' jp =
        (if jp = ip then live_hits l ip now @ [now] else client_hits (swept l now) jp)" for jp
      using eq by (auto split: if_splits)
    have "live_hits l' jp now = filter (\<lambda>t. now - 60 < t) (times_of jp (trail @ [(ip, now)]))" for jp
      by (simp only: l') (simp add: sw live)
    with ok' past True show ?thesis by (simp add: tracks_def)
  next
    case False
    then have l': "client_hits l' jp =
        (if jp = ip then live_hits l ip now else client_hits (swept l now) jp)" for jp
      using eq by (auto split: if_splits)
    have "live_hits l' jp now = filter (\<lambda>t. now - 60 < t) (times_of jp trail)" for jp
      by (simp only: l') (simp add: sw live)
    with ok' past False show ?thesis by (simp add: tracks_def)
  qed
qed

lemma windows_ok_snoc:
  assumes ok: "windows_ok r trail" and past: "\<forall>e \<in> set trail. snd e \<le> now"
    and room: "int (length (filter (\<lambda>t. now - 60 < t) (times_of ip trail))) < r"
  shows "windows_ok r (trail @ [(ip, now)])"
  unfolding windows_ok_def
proof (intro allI)
  fix jp T
  show "int (in_window T (times_of jp (trail @ [(ip, now)]))) \<le> r"
  proof (cases "jp = ip \<and> now \<le> T")
    case False
    then have "in_window T (times_of jp (trail @ [(ip, now)])) = in_window T (times_of jp trail)"
      by (auto simp: in_window_def)
    with ok show ?thesis by (simp add: windows_ok_def)
  next
    case True
    have "length (filter (\<lambda>t. T - 60 < t \<and> t \<le> T) xs) \<le> length (filter (\<lambda>t. now - 60 < t) xs)"
      for xs using True by (induction xs) auto
    then have "int (in_window T (times_of ip trail)) < r"
      using room unfolding in_window_def by (meson le_less_trans of_nat_le_iff)
    then show ?thesis using True by (auto simp: in_window_def)
  qed
qed

lemma rate_limit_call_unlimited: "\<not> limited sc \<Longrightarrow> rate_limit_call l sc now = (Forward, l)"
  by (auto simp: rate_limit_call_def limited_def Let_def split: option.splits)

lemma rate_limit_call_limited:
  "limited sc \<Longrightarrow> 0 < rpm l \<Longrightarrow> rate_limit_call l sc now =
     (case record_request l (client_of sc) now of
        (None, l') \<Rightarrow> (Forward, l') | (Some d, l') \<Rightarrow> (TooManyRequests d, l'))"
  by (simp add: rate_limit_call_def limited_def client_of_def Let_def)

lemma served_windows:
  assumes "tracks now0 l trail" and "windows_ok (rpm l) trail"
    and "sorted (map snd calls)" and "\<forall>c \<in> set calls. now0 \<le> snd c"
  shows "windows_ok (rpm l) (trail @ served l calls)"
  using assms
proof (induction calls arbitrary: l trail now0)
  case (Cons call calls)
  obtain sc now where call: "call = (sc, now)" by (cases call)
  have le: "now0 \<le> now" and later: "\<forall>c \<in> set calls. now \<le> snd c" "sorted (map snd calls)"
    using Cons.prems call by auto
  show ?case
  proof (cases "limited sc")
    case False
    with Cons.IH [OF Cons.prems(1,2) later(2)] Cons.prems(4) call show ?thesis
      by (simp add: rate_limit_call_unlimited)
  next
    case True
    obtain r l' where rr: "record_request l (client_of sc) now = (r, l')" by fastforce
    note step = record_request_tracks [OF Cons.prems(1) le rr]
    have pos: "0 < rpm l" using Cons.prems(1) by (simp add: tracks_def limiter_ok_def)
    have past: "\<forall>e \<in> set trail. snd e \<le> now" using Cons.prems(1) le by (auto simp: tracks_def)
    show ?thesis
    proof (cases r)
      case None
      have "windows_ok (rpm l') (trail @ [(client_of sc, now)])"
        using windows_ok_snoc [OF Cons.prems(2) past] step None by simp
      from Cons.IH [OF _ this later(2,1)] step None
      have "windows_ok (rpm l) (trail @ (client_of sc, now) # served l' calls)" by simp
      with None True pos call rr show ?thesis by (simp add: rate_limit_call_limited)
    next
      case (Some d)
      with Cons.IH [OF _ _ later(2,1), of l' trail] step Cons.prems(2) True pos call rr
      show ?thesis by (simp add: rate_limit_call_limited)
    qed
  qed
qed simp

lemma init_tracks: "0 < r \<Longrightarrow> tracks now (init_limiter r now) []"
  by (simp add: tracks_def limiter_ok_def init_limiter_def client_hits_def)

interpretation limiter: invariant_machine "limiter_ok now" "\<lambda>l ip. snd (record_request l ip now)"
  for now by unfold_locales (rule record_request_ok)

section \<open>Properties\<close>

text \<open>C1: whatever the (time-ordered) sequence of HTTP calls, the middleware forwards at most
  \<open>requests_per_minute\<close> limited requests of one client in any window of 60 seconds.\<close>

theorem rate_limit_window_bound:
  assumes "0 < r" and "sorted (map snd calls)" and "\<forall>c \<in> set calls. start \<le> snd c"
  shows "int (in_window T (times_of ip (served (init_limiter r start) calls))) \<le> r"
proof -
  have "rpm (init_limiter r start) = r" using assms(1) by (simp add: init_limiter_def)
  moreover have "windows_ok r []" using assms(1) by (simp add: windows_ok_def in_window_def)
  ultimately show ?thesis
    using served_windows [OF init_tracks [OF assms(1)] _ assms(2,3)] by (simp add: windows_ok_def)
qed

abbreviation chat_call :: http_scope where
  "chat_call \<equiv> \<lparr>scope_type = ''http'', scope_path = Some ''/v1/chat'', scope_method = Some ''POST'',
     scope_client = Some ''10.0.0.7''\<rparr>"

theorem rate_limit_window_bound_witness:
  "int (in_window 60 (times_of ''10.0.0.7''
     (served (init_limiter 1 0) [(chat_call, 0), (chat_call, 1), (chat_call, 61)]))) \<le> 1"
  by (rule rate_limit_window_bound) simp_all

text \<open>A blocked client is told a delay between 1 and 60 seconds, and a retry after exactly
  that delay is forwarded when no other request of the client came in between.\<close>

lemma retry_after_suffices:
  assumes "limiter_ok now l" and "limited sc"
    and blocked: "rate_limit_call l sc now = (TooManyRequests d, l')"
  shows "1 \<le> d \<and> d \<le> 60 \<and> fst (rate_limit_call l' sc (now + rat_of_int d)) = Forward"
proof -
  let ?ip = "client_of sc" let ?then = "now + rat_of_int d"
  have pos: "0 < rpm l" using assms(1) by (simp add: limiter_ok_def)
  have rr: "record_request l ?ip now = (Some d, l')"
    using blocked rate_limit_call_limited [OF assms(2) pos] by (auto split: prod.splits option.splits)
  define h where "h = live_hits l ?ip now"
  from rr have full: "rpm l \<le> int (length h)" and d: "d = max 1 \<lceil>hd h + 60 - now\<rceil>"
    and l': "l' = (swept l now)\<lparr>hits := (hits (swept l now))(?ip \<mapsto> h)\<rparr>"
    by (auto simp: record_request_eq [OF assms(1)] Let_def h_def split: if_splits)
  have ok': "limiter_ok now l'" using record_request_ok [OF assms(1), of ?ip] rr by simp
  have "h \<noteq> []" using full pos by auto
  then have hd: "now - 60 < hd h" "hd h \<le> now"
    using assms(1) hd_in_set [of h] by (auto simp: h_def limiter_ok_def)
  have d60: "1 \<le> d" "d \<le> 60" using hd d by (auto simp: ceiling_le_iff)
  have "hd h + 60 - now \<le> rat_of_int d" using d by (simp add: le_of_int_ceiling [THEN order_trans])
  then have gone: "\<not> ?then - 60 < hd h" by simp
  have later: "limiter_ok ?then l'" by (rule limiter_ok_later [OF ok']) (use d60 in simp)
  have "length (filter (\<lambda>t. ?then - 60 < t) h) < length h"
    using gone \<open>h \<noteq> []\<close> by (cases h) (auto simp: le_imp_less_Suc)
  moreover have "int (length h) \<le> rpm l'"
    using ok' by (auto simp: limiter_ok_def l' dest: spec [where x = ?ip])
  ultimately have "fst (record_request l' ?ip ?then) = None"
    using record_request_eq [OF later, of ?ip] l' by (simp add: Let_def)
  moreover have "0 < rpm l'" using ok' by (simp add: limiter_ok_def)
  ultimately show ?thesis
    using d60 by (auto simp: rate_limit_call_limited [OF assms(2)] split: prod.splits option.splits)
qed

lemma retry_after_suffices_witness:
  "\<exists>l d l'. rate_limit_call l chat_call 2 = (TooManyRequests d, l') \<and>
     1 \<le> d \<and> d \<le> 60 \<and> fst (rate_limit_call l' chat_call (2 + rat_of_int d)) = Forward"
proof -
  let ?l = "snd (rate_limit_call (init_limiter 1 0) chat_call 1)"
  have lim: "limited chat_call" by (simp add: limited_def py_upper_def upper_char_def)
  have ok: "limiter_ok 2 ?l"
    by (simp add: rate_limit_call_limited [OF lim] init_limiter_def record_request_def prune_def
        client_hits_def client_of_def limiter_ok_def Let_def)
  have "rate_limit_call ?l chat_call 2 = (TooManyRequests 59, snd (rate_limit_call ?l chat_call 2))"
    by (simp add: rate_limit_call_limited [OF lim] init_limiter_def record_request_def prune_def
        client_hits_def client_of_def Let_def)
  from retry_after_suffices [OF ok lim this] this show ?thesis by blast
qed

end
