(* ===== verification/BodyLimit.thy ===== *)
theory BodyLimit
  imports Prelude
begin

text \<open>
  \<open>app/body_limit.py\<close>: the ASGI middleware that bounds request bodies. The wrapped
  application is a parameter: an interaction tree that receives messages, sends
  messages and stops. A receive has two continuations, one for the message and one for
  the \<open>RequestBodyTooLarge\<close> exception, which the application may catch or let escape.
\<close>

datatype in_msg = HttpRequest nat | OtherIn
datatype out_msg = ResponseStart int | OtherOut

datatype app =
    Return
  | Escape            \<comment> \<open>\<open>RequestBodyTooLarge\<close> leaves the application\<close>
  | Crash             \<comment> \<open>another exception leaves it\<close>
  | Send out_msg app
  | Receive "in_msg \<Rightarrow> app" app

datatype ending = Returned | Escaped | Crashed | Starved

record app_run =
  ending :: ending
  delivered :: "in_msg list"
  sent :: "out_msg list"
  started :: bool

definition body_size :: "in_msg \<Rightarrow> nat" where
  "body_size m = (case m of HttpRequest n \<Rightarrow> n | OtherIn \<Rightarrow> 0)"

definition is_request :: "in_msg \<Rightarrow> bool" where
  "is_request m = (case m of HttpRequest _ \<Rightarrow> True | OtherIn \<Rightarrow> False)"

definition starts :: "out_msg \<Rightarrow> bool" where
  "starts m = (case m of ResponseStart _ \<Rightarrow> True | OtherOut \<Rightarrow> False)"

text \<open>\<open>limited_receive\<close> and \<open>tracked_send\<close> around a run of the application.\<close>

primrec run_app :: "app \<Rightarrow> nat \<Rightarrow> nat \<Rightarrow> bool \<Rightarrow> in_msg list \<Rightarrow> app_run" where
  "run_app Return mx received st msgs = \<lparr>ending = Returned, delivered = [], sent = [], started = st\<rparr>"
| "run_app Escape mx received st msgs = \<lparr>ending = Escaped, delivered = [], sent = [], started = st\<rparr>"
| "run_app Crash mx received st msgs = \<lparr>ending = Crashed, delivered = [], sent = [], started = st\<rparr>"
| "run_app (Send m k) mx received st msgs =
     (let r = run_app k mx received (st \<or> starts m) msgs in r\<lparr>sent := m # sent r\<rparr>)"
| "run_app (Receive k h) mx received st msgs =
     (case msgs of
        [] \<Rightarrow> \<lparr>ending = Starved, delivered = [], sent = [], started = st\<rparr>
      | m # ms \<Rightarrow>
          if is_request m then
            if received + body_size m > mx then run_app h mx (received + body_size m) st ms
            else (let r = run_app (k m) mx (received + body_size m) st ms
                  in r\<lparr>delivered := m # delivered r\<rparr>)
          else (let r = run_app (k m) mx received st ms in r\<lparr>delivered := m # delivered r\<rparr>))"

text \<open>\<open>_reject\<close>.\<close>

record reply =
  status :: int
  headers :: "(string \<times> string) list"
  body :: string

definition reject :: "nat \<Rightarrow> int \<Rightarrow> string option \<Rightarrow> string option \<Rightarrow> reply" where
  "reject mx st detail http_version =
     (let message = (case detail of Some d \<Rightarrow> d
          | None \<Rightarrow> ''Request body exceeds the '' @ show_nat mx @ ''-byte limit.'');
          b = ''{\"detail\":\"'' @ message @ ''\"}'';
          hs = [(''content-type'', ''application/json''), (''content-length'', show_nat (length b))]
      in \<lparr>status = st,
          headers = (if http_version \<in> {Some ''1.0'', Some ''1.1''}
                     then hs @ [(''connection'', ''close'')] else hs),
          body = b\<rparr>)"

text \<open>The checks on the declared length, in the code's order.\<close>

record asgi_scope =
  asgi_type :: string
  asgi_headers :: "(string \<times> string) list"
  http_version :: "string option"

definition raw_lengths :: "asgi_scope \<Rightarrow> string list" where
  "raw_lengths sc = map snd (filter (\<lambda>(k, _). py_lower k = ''content-length'') (asgi_headers sc))"

definition declared_check :: "nat \<Rightarrow> asgi_scope \<Rightarrow> reply option" where
  "declared_check mx sc =
     (if card (set (raw_lengths sc)) > 1
      then Some (reject mx 400 (Some ''Conflicting Content-Length headers.'') (http_version sc))
      else case raw_lengths sc of
        [] \<Rightarrow> None
      | raw # _ \<Rightarrow>
          (case py_int raw of
             None \<Rightarrow> Some (reject mx 400 (Some ''Invalid Content-Length header.'') (http_version sc))
           | Some n \<Rightarrow>
               if n < 0
               then Some (reject mx 400 (Some ''Invalid Content-Length header.'') (http_version sc))
               else if n > int mx then Some (reject mx 413 None (http_version sc))
               else None))"

datatype outcome =
    Passed app_run            \<comment> \<open>the application's own run, not limited\<close>
  | Rejected "out_msg list" reply  \<comment> \<open>what was sent before, and the rejection\<close>
  | Ran app_run               \<comment> \<open>the limited run, its ending included\<close>

text \<open>\<open>__init__\<close> clamps the limit; \<open>__call__\<close>. A scope that is not HTTP is not limited.\<close>

definition clamp_limit :: "int \<Rightarrow> nat" where
  "clamp_limit max_bytes = nat (max max_bytes 1)"

primrec run_plain :: "app \<Rightarrow> bool \<Rightarrow> in_msg list \<Rightarrow> app_run" where
  "run_plain Return st msgs = \<lparr>ending = Returned, delivered = [], sent = [], started = st\<rparr>"
| "run_plain Escape st msgs = \<lparr>ending = Escaped, delivered = [], sent = [], started = st\<rparr>"
| "run_plain Crash st msgs = \<lparr>ending = Crashed, delivered = [], sent = [], started = st\<rparr>"
| "run_plain (Send m k) st msgs =
     (let r = run_plain k (st \<or> starts m) msgs in r\<lparr>sent := m # sent r\<rparr>)"
| "run_plain (Receive k h) st msgs =
     (case msgs of
        [] \<Rightarrow> \<lparr>ending = Starved, delivered = [], sent = [], started = st\<rparr>
      | m # ms \<Rightarrow> (let r = run_plain (k m) st ms in r\<lparr>delivered := m # delivered r\<rparr>))"

definition body_limit_call :: "nat \<Rightarrow> asgi_scope \<Rightarrow> app \<Rightarrow> in_msg list \<Rightarrow> outcome" where
  "body_limit_call mx sc a msgs =
     (if asgi_type sc \<noteq> ''http'' then Passed (run_plain a False msgs)
      else case declared_check mx sc of
        Some r \<Rightarrow> Rejected [] r
      | None \<Rightarrow>
          (let r = run_app a mx 0 False msgs
           in if ending r = Escaped \<and> \<not> started r
              then Rejected (sent r) (reject mx 413 None (http_version sc)) else Ran r))"

section \<open>Lemmas\<close>

definition total :: "in_msg list \<Rightarrow> nat" where
  "total ms = sum_list (map body_size ms)"

lemma total_simps [simp]: "total [] = 0" "total (m # ms) = body_size m + total ms"
  by (simp_all add: total_def)

lemma not_request [simp]: "\<not> is_request m \<Longrightarrow> body_size m = 0"
  by (cases m) (simp_all add: is_request_def body_size_def)

text \<open>What the application reads never exceeds the budget that is left.\<close>

lemma run_app_total:
  "received + total (delivered (run_app a mx received st msgs)) \<le> max mx received"
proof (induction a arbitrary: received st msgs)
  case (Receive k h)
  show ?case
  proof (cases msgs)
    case (Cons m ms)
    have k: "received' + total (delivered (run_app (k m) mx received' st ms)) \<le> max mx received'"
      for received' by (rule Receive.IH(1)) simp
    show ?thesis
    proof (cases "is_request m")
      case True
      with Cons k [of "received + body_size m"]
        Receive.IH(2) [of "received + body_size m" st ms] show ?thesis
        by (auto simp: Let_def)
    next
      case False
      with Cons k [of received] show ?thesis by (auto simp: Let_def)
    qed
  qed simp
qed (simp_all add: Let_def)

text \<open>As long as the messages fit, the limited run is the application's own run.\<close>

lemma run_app_plain:
  "received + total msgs \<le> mx \<Longrightarrow> run_app a mx received st msgs = run_plain a st msgs"
proof (induction a arbitrary: received st msgs)
  case (Receive k h)
  show ?case
  proof (cases msgs)
    case (Cons m ms)
    with Receive.prems have "run_app (k m) mx (received + body_size m) st ms = run_plain (k m) st ms"
      "\<not> received + body_size m > mx"
      by (auto intro!: Receive.IH(1) [of "k m"])
    with Cons show ?thesis by (cases "is_request m") (auto simp: Let_def)
  qed simp
qed (simp_all add: Let_def)

lemma raw_lengths_single:
  "card (set xs) \<le> 1 \<Longrightarrow> xs \<noteq> [] \<Longrightarrow> set xs = {hd xs}"
  by (metis One_nat_def card.empty card_1_singletonE card_gt_0_iff finite_set hd_in_set le_Suc_eq
      le_zero_eq not_gr_zero set_empty singletonD)

section \<open>Properties\<close>


text \<open>The middleware is transparent for requests within the limit: if the declared length
  is acceptable and the streamed body fits, the application runs as if it were unlimited.\<close>

lemma body_limit_transparent:
  assumes "asgi_type sc = ''http''" and "declared_check mx sc = None" and "total msgs \<le> mx"
    and "ending (run_plain a False msgs) \<noteq> Escaped"
  shows "body_limit_call mx sc a msgs = Ran (run_plain a False msgs)"
  using assms run_app_plain [of 0 msgs mx a False] by (simp add: body_limit_call_def Let_def)

abbreviation echo_app :: app where
  "echo_app \<equiv> Receive (\<lambda>m. Send (ResponseStart 200) Return) Escape"

abbreviation post_scope :: asgi_scope where
  "post_scope \<equiv> \<lparr>asgi_type = ''http'', asgi_headers = [(''Content-Length'', ''5'')],
     http_version = Some ''1.1''\<rparr>"

lemma body_limit_transparent_witness:
  "body_limit_call 10 post_scope echo_app [HttpRequest 5] =
   Ran (run_plain echo_app False [HttpRequest 5])"
proof (rule body_limit_transparent)
  show "declared_check 10 post_scope = None" by code_simp
qed (simp_all add: body_size_def)

text \<open>Exactly the requests without a Content-Length, or with one value that reads as a
  number from 0 to the limit, pass the header checks.\<close>

theorem declared_check_accepts:
  "declared_check mx sc = None \<longleftrightarrow>
     raw_lengths sc = [] \<or>
     (\<exists>raw n. set (raw_lengths sc) = {raw} \<and> py_int raw = Some n \<and> 0 \<le> n \<and> n \<le> int mx)"
    (is "?L \<longleftrightarrow> ?R")
proof (cases "raw_lengths sc")
  case (Cons raw rest)
  show ?thesis
  proof
    assume L: ?L
    then have "card (set (raw_lengths sc)) \<le> 1" by (auto simp: declared_check_def split: if_splits)
    from raw_lengths_single [OF this] Cons have "set (raw_lengths sc) = {raw}" by simp
    moreover from L Cons obtain n where "py_int raw = Some n" "0 \<le> n" "n \<le> int mx"
      by (auto simp: declared_check_def split: if_splits option.splits)
    ultimately show ?R by blast
  next
    assume ?R
    with Cons have "set (raw_lengths sc) = {raw}" "\<exists>n. py_int raw = Some n \<and> 0 \<le> n \<and> n \<le> int mx"
      by auto
    moreover from this have "card (set (raw_lengths sc)) = 1" by simp
    ultimately show ?L using Cons by (auto simp: declared_check_def simp del: One_nat_def)
  qed
qed (simp add: declared_check_def)

text \<open>An oversized stream whose application lets the exception escape before answering is
  answered with exactly one 413 response, and nothing of the application's is sent after it.\<close>

lemma oversized_stream_rejected:
  assumes "asgi_type sc = ''http''" and "declared_check mx sc = None"
    and "ending (run_app a mx 0 False msgs) = Escaped" and "\<not> started (run_app a mx 0 False msgs)"
  shows "\<exists>r. body_limit_call mx sc a msgs = Rejected (sent (run_app a mx 0 False msgs)) r \<and>
    status r = 413 \<and> list_all (\<lambda>m. \<not> starts m) (sent (run_app a mx 0 False msgs))"
proof -
  have "list_all (\<lambda>m. \<not> starts m) (sent (run_app a mx rc st msgs))"
    if "\<not> started (run_app a mx rc st msgs)" for rc st
    using that
  proof (induction a arbitrary: rc st msgs)
    case (Send m k)
    have mono: "started (run_app k mx rc True msgs)"
    proof -
      have "started (run_app b mx rc' True ms)" for b rc' ms
      proof (induction b arbitrary: rc' ms)
        case (Receive f g)
        then show ?case by (cases ms) (auto simp: Let_def)
      qed (simp_all add: Let_def)
      then show ?thesis .
    qed
    with Send show ?case by (cases "starts m") (auto simp: Let_def)
  next
    case (Receive f g)
    then show ?case by (cases msgs) (auto simp: Let_def split: if_splits)
  qed (simp_all add: Let_def)
  with assms show ?thesis by (auto simp: body_limit_call_def reject_def Let_def)
qed

lemma oversized_stream_rejected_witness:
  "\<exists>r. body_limit_call 10 post_scope echo_app [HttpRequest 11] = Rejected [] r \<and> status r = 413"
proof -
  have "declared_check 10 post_scope = None" by code_simp
  from oversized_stream_rejected [OF _ this, of echo_app "[HttpRequest 11]"] show ?thesis
    by (simp add: body_size_def is_request_def)
qed

end
