(* ===== verification/StopStream.thy ===== *)
theory StopStream
  imports PyValue
begin

text \<open>
  The stop-sequence half of \<open>app/chat_format.py\<close>: \<open>normalize_stop\<close>,
  \<open>truncate_at_stop\<close> and the incremental \<open>StopStreamer\<close>. Text is a list over an
  arbitrary code point type.
\<close>

section \<open>The functions of the module\<close>

text \<open>\<open>normalize_stop\<close>: a missing value, one string, or a list whose non-strings are dropped.\<close>

definition normalize_stop :: "json \<Rightarrow> string list" where
  "normalize_stop stop =
     (case stop of
        JStr s \<Rightarrow> (if s = [] then [] else [s])
      | JList items \<Rightarrow> List.map_filter (\<lambda>i. case i of JStr s \<Rightarrow> if s = [] then None else Some s | _ \<Rightarrow> None) items
      | _ \<Rightarrow> [])"

fun earliest_stop :: "'c list \<Rightarrow> 'c list list \<Rightarrow> nat option \<Rightarrow> nat option" where
  "earliest_stop text [] earliest = earliest"
| "earliest_stop text (s # ss) earliest =
     (case py_find text s of
        None \<Rightarrow> earliest_stop text ss earliest
      | Some i \<Rightarrow> earliest_stop text ss
          (case earliest of None \<Rightarrow> Some i | Some j \<Rightarrow> if i < j then Some i else Some j))"

definition truncate_at_stop :: "'c list \<Rightarrow> 'c list list \<Rightarrow> 'c list \<times> bool" where
  "truncate_at_stop text stop =
     (case earliest_stop text stop None of None \<Rightarrow> (text, False) | Some i \<Rightarrow> (take i text, True))"

record 'c stop_streamer =
  stop_list :: "'c list list"
  maxlen :: nat
  buffer :: "'c list"
  stopped :: bool

definition new_streamer :: "'c list list \<Rightarrow> 'c stop_streamer" where
  "new_streamer stop =
     \<lparr>stop_list = stop, maxlen = fold (\<lambda>s m. max (length s) m) stop 0, buffer = [], stopped = False\<rparr>"

definition feed :: "'c stop_streamer \<Rightarrow> 'c list \<Rightarrow> 'c list \<times> 'c stop_streamer" where
  "feed st piece =
     (if stop_list st = [] then (piece, st)
      else if stopped st then ([], st)
      else
        let buf = buffer st @ piece in
        case truncate_at_stop buf (stop_list st) of
          (text, True) \<Rightarrow> (text, st\<lparr>buffer := [], stopped := True\<rparr>)
        | (text, False) \<Rightarrow>
            let keep = int (maxlen st) - 1 in
            if keep \<le> 0 then (buf, st\<lparr>buffer := []\<rparr>)
            else if int (length buf) > keep
            then (take (length buf - nat keep) buf, st\<lparr>buffer := last_n (nat keep) buf\<rparr>)
            else ([], st\<lparr>buffer := buf\<rparr>))"

definition flush :: "'c stop_streamer \<Rightarrow> 'c list \<times> 'c stop_streamer" where
  "flush st = (if stopped st then ([], st) else (buffer st, st\<lparr>buffer := []\<rparr>))"

text \<open>A whole stream: the chunks are fed in order, then the rest is flushed.\<close>

fun feed_all :: "'c stop_streamer \<Rightarrow> 'c list list \<Rightarrow> 'c list \<times> 'c stop_streamer" where
  "feed_all st [] = ([], st)"
| "feed_all st (p # ps) =
     (let (out, st1) = feed st p; (rest, st2) = feed_all st1 ps in (out @ rest, st2))"

definition stream_text :: "'c list list \<Rightarrow> 'c list list \<Rightarrow> 'c list \<times> bool" where
  "stream_text stop pieces =
     (let (out, st) = feed_all (new_streamer stop) pieces; (rest, st') = flush st
      in (out @ rest, stopped st'))"

section \<open>The earliest stop\<close>

lemma earliest_stop_spec:
  "earliest_stop t ss e = Some i \<longleftrightarrow>
     (e = Some i \<or> (\<exists>s \<in> set ss. py_find t s = Some i)) \<and>
     (\<forall>j. e = Some j \<longrightarrow> i \<le> j) \<and> (\<forall>s \<in> set ss. \<forall>j. py_find t s = Some j \<longrightarrow> i \<le> j)"
proof (induction ss arbitrary: e)
  case (Cons s ss)
  show ?case
  proof (cases "py_find t s")
    case (Some k)
    then show ?thesis
      by (cases e) (auto simp: Cons.IH split: if_splits)
  qed (simp add: Cons.IH)
qed auto

lemma earliest_stop_None:
  "earliest_stop t ss None = None \<longleftrightarrow> (\<forall>s \<in> set ss. py_find t s = None)"
proof -
  have "earliest_stop t ss e = None \<longleftrightarrow> e = None \<and> (\<forall>s \<in> set ss. py_find t s = None)" for e
    by (induction ss arbitrary: e) (auto split: option.splits)
  then show ?thesis by simp
qed

lemma earliest_stop_Some:
  "earliest_stop t ss None = Some i \<longleftrightarrow>
     (\<exists>s \<in> set ss. py_find t s = Some i) \<and> (\<forall>s \<in> set ss. \<forall>j. py_find t s = Some j \<longrightarrow> i \<le> j)"
  by (auto simp: earliest_stop_spec)

lemma earliest_stop_shift:
  assumes "\<forall>s \<in> set ss. py_find t s = map_option ((+) n) (py_find u s)"
  shows "earliest_stop t ss None = map_option ((+) n) (earliest_stop u ss None)"
proof (cases "earliest_stop u ss None")
  case None
  then have "\<forall>s \<in> set ss. py_find t s = None" using assms by (simp add: earliest_stop_None)
  then have "earliest_stop t ss None = None" by (simp only: earliest_stop_None)
  with None show ?thesis by simp
next
  case (Some i)
  then have "earliest_stop t ss None = Some (n + i)"
    using assms unfolding earliest_stop_Some by fastforce
  with Some show ?thesis by simp
qed

text \<open>A prefix without any stop moves the search into the rest when no stop can straddle.\<close>

lemma py_find_behind:
  assumes "\<And>j. j < length xs \<Longrightarrow> \<not> prefix s (drop j (xs @ ys))"
  shows "py_find (xs @ ys) s = map_option ((+) (length xs)) (py_find ys s)"
proof (cases "py_find ys s")
  case None
  then have none: "\<not> prefix s (drop k ys)" if "k \<le> length ys" for k
    using that by (auto simp: py_find_None)
  have "\<not> prefix s (drop j (xs @ ys))" if "j \<le> length (xs @ ys)" for j
  proof (cases "j < length xs")
    case False
    with none [of "j - length xs"] that show ?thesis by simp
  qed (rule assms)
  then have "py_find (xs @ ys) s = None" by (simp only: py_find_None) simp
  with None show ?thesis by simp
next
  case (Some i)
  note found = py_find_Some [OF Some]
  have "py_find (xs @ ys) s = Some (length xs + i)"
  proof (rule py_find_unique)
    show "\<forall>j<length xs + i. \<not> prefix s (drop j (xs @ ys))"
    proof (intro allI impI)
      fix j assume j: "j < length xs + i"
      show "\<not> prefix s (drop j (xs @ ys))"
      proof (cases "j < length xs")
        case False
        with j found have "\<not> prefix s (drop (j - length xs) ys)" by auto
        with False show ?thesis by simp
      qed (rule assms)
    qed
  qed (use found in simp_all)
  with Some show ?thesis by simp
qed

section \<open>The streaming invariant\<close>

text \<open>
  What was fed is what was emitted followed by the buffer; no stop occurs in it; and
  once something was emitted, the buffer is long enough that no stop can straddle.
\<close>

definition streaming :: "'c list list \<Rightarrow> 'c list \<Rightarrow> 'c stop_streamer \<Rightarrow> bool" where
  "streaming stop emitted st \<longleftrightarrow>
     stop_list st = stop \<and> \<not> stopped st \<and>
     (\<forall>s \<in> set stop. s \<noteq> [] \<and> length s \<le> maxlen st \<and> py_find (emitted @ buffer st) s = None) \<and>
     (emitted = [] \<or> maxlen st \<le> Suc (length (buffer st)))"

lemma streamingD:
  assumes "streaming stop emitted st"
  shows "stop_list st = stop" and "\<not> stopped st"
    and "s \<in> set stop \<Longrightarrow> s \<noteq> []" and "s \<in> set stop \<Longrightarrow> length s \<le> maxlen st"
    and "s \<in> set stop \<Longrightarrow> py_find (emitted @ buffer st) s = None"
    and "emitted \<noteq> [] \<Longrightarrow> maxlen st \<le> Suc (length (buffer st))"
  using assms by (auto simp: streaming_def)

lemma fold_max_ge: "(m :: nat) \<le> fold (\<lambda>s m. max (length s) m) ss m"
proof (induction ss arbitrary: m)
  case (Cons a ss)
  from Cons [of "max (length a) m"] show ?case by simp
qed simp

lemma fold_max_member: "s \<in> set ss \<Longrightarrow> length s \<le> fold (\<lambda>s m. max (length s) m) ss (m :: nat)"
proof (induction ss arbitrary: m)
  case (Cons a ss)
  show ?case
  proof (cases "s = a")
    case True
    with fold_max_ge [of "max (length a) m" ss] show ?thesis by simp
  next
    case False
    with Cons show ?thesis by simp
  qed
qed simp

lemma new_streamer_streaming:
  "[] \<notin> set stop \<Longrightarrow> streaming stop [] (new_streamer stop)"
  by (auto simp: streaming_def new_streamer_def intro: fold_max_member)

lemma prefix_drop_take:
  assumes "prefix s (drop j (xs @ ys))" and "j + length s \<le> length xs"
  shows "prefix s (drop j xs)"
proof (rule prefix_length_prefix)
  show "prefix s (drop j xs @ ys)" using assms by simp
  show "prefix (drop j xs) (drop j xs @ ys)" by simp
  show "length s \<le> length (drop j xs)" using assms(2) by simp
qed

lemma feed_find:
  assumes "streaming stop emitted st" and "s \<in> set stop"
  shows "py_find (emitted @ buffer st @ piece) s =
     map_option ((+) (length emitted)) (py_find (buffer st @ piece) s)"
proof (rule py_find_behind)
  fix j assume j: "j < length emitted"
  let ?old = "emitted @ buffer st"
  have ne: "emitted \<noteq> []" using j by auto
  note len = streamingD(4) [OF assms] and room = streamingD(6) [OF assms(1) ne]
  from streamingD(5) [OF assms] have none: "\<forall>k\<le>length ?old. \<not> prefix s (drop k ?old)"
    by (rule py_find_None [THEN iffD1])
  show "\<not> prefix s (drop j (emitted @ buffer st @ piece))"
  proof
    assume occ: "prefix s (drop j (emitted @ buffer st @ piece))"
    have "j + length s \<le> length ?old" using j len room by simp
    with occ have "prefix s (drop j ?old)"
      using prefix_drop_take [of s j ?old piece] by simp
    moreover have "j \<le> length ?old" using j by simp
    ultimately show False using none by blast
  qed
qed

lemma feed_truncate:
  assumes "streaming stop emitted st"
  shows "truncate_at_stop (emitted @ buffer st @ piece) stop =
    (emitted @ fst (truncate_at_stop (buffer st @ piece) stop),
     snd (truncate_at_stop (buffer st @ piece) stop))"
proof -
  have "earliest_stop (emitted @ buffer st @ piece) stop None =
      map_option ((+) (length emitted)) (earliest_stop (buffer st @ piece) stop None)"
    using feed_find [OF assms] by (intro earliest_stop_shift) blast
  then show ?thesis by (simp add: truncate_at_stop_def split: option.split)
qed

text \<open>One chunk: either the stop was found, or the invariant goes on.\<close>

lemma feed_hit:
  assumes inv: "streaming stop emitted st" and ne: "stop \<noteq> []"
    and hit: "snd (truncate_at_stop (emitted @ buffer st @ piece) stop)"
  shows "emitted @ fst (feed st piece) = fst (truncate_at_stop (emitted @ buffer st @ piece) stop)"
    and "stopped (snd (feed st piece))"
proof -
  obtain t where t: "truncate_at_stop (buffer st @ piece) stop = (t, True)"
    using hit feed_truncate [OF inv] by (metis prod.collapse snd_conv)
  have st: "stop_list st = stop" "\<not> stopped st" using inv unfolding streaming_def by blast+
  then have "feed st piece = (t, st\<lparr>buffer := [], stopped := True\<rparr>)"
    using ne t by (simp add: feed_def)
  then show "emitted @ fst (feed st piece) = fst (truncate_at_stop (emitted @ buffer st @ piece) stop)"
    "stopped (snd (feed st piece))"
    using feed_truncate [OF inv] t by simp_all
qed

lemma truncate_miss:
  "\<not> snd (truncate_at_stop t stop) \<longleftrightarrow> (\<forall>s \<in> set stop. py_find t s = None)"
  "\<not> snd (truncate_at_stop t stop) \<Longrightarrow> truncate_at_stop t stop = (t, False)"
  by (auto simp: truncate_at_stop_def earliest_stop_None [symmetric] split: option.splits)

lemma feed_miss:
  assumes inv: "streaming stop emitted st" and ne: "stop \<noteq> []"
    and miss: "\<not> snd (truncate_at_stop (emitted @ buffer st @ piece) stop)"
  shows "streaming stop (emitted @ fst (feed st piece)) (snd (feed st piece))"
    and "fst (feed st piece) @ buffer (snd (feed st piece)) = buffer st @ piece"
proof -
  let ?buf = "buffer st @ piece"
  have st: "stop_list st = stop" "\<not> stopped st"
    and len: "\<forall>s \<in> set stop. s \<noteq> [] \<and> length s \<le> maxlen st"
    using inv unfolding streaming_def by blast+
  have "\<not> snd (truncate_at_stop ?buf stop)" using miss feed_truncate [OF inv] by simp
  then have t: "truncate_at_stop ?buf stop = (?buf, False)" by (rule truncate_miss)
  have none: "\<forall>s \<in> set stop. py_find (emitted @ ?buf) s = None" using miss truncate_miss by blast
  obtain out st' where f: "feed st piece = (out, st')" by fastforce
  have cat: "out @ buffer st' = ?buf" and same: "stop_list st' = stop" "maxlen st' = maxlen st"
    "\<not> stopped st'" and room: "out = [] \<or> maxlen st \<le> Suc (length (buffer st'))"
    and grow: "out = [] \<Longrightarrow> length (buffer st) \<le> length (buffer st')"
    using f st ne t
    by (auto simp: feed_def last_n_def Let_def simp del: take_append drop_append split: if_splits)
  show "fst (feed st piece) @ buffer (snd (feed st piece)) = ?buf" using f cat by simp
  have "emitted @ out = [] \<or> maxlen st \<le> Suc (length (buffer st'))"
    using inv room grow unfolding streaming_def by force
  moreover have "(emitted @ out) @ buffer st' = emitted @ ?buf" using cat by simp
  ultimately show "streaming stop (emitted @ fst (feed st piece)) (snd (feed st piece))"
    using f same len none unfolding streaming_def by simp
qed

section \<open>A hit in the text seen so far is the hit of the whole text\<close>

text \<open>No stop sequence contains another one.\<close>

definition separate_stops :: "'c list list \<Rightarrow> bool" where
  "separate_stops stop \<longleftrightarrow> (\<forall>s \<in> set stop. s \<noteq> [] \<and> (\<forall>s' \<in> set stop. sublist s s' \<longrightarrow> s = s'))"

lemma prefix_between:
  assumes s: "prefix s (drop i t)" and s': "prefix s' (drop j t)"
    and le: "j \<le> i" "i + length s \<le> j + length s'"
  shows "sublist s s'"
proof -
  from s' obtain z where z: "drop j t = s' @ z" by (auto simp: prefix_def)
  have "drop i t = drop (i - j) (drop j t)" using le by simp
  also have "\<dots> = drop (i - j) s' @ drop (i - j - length s') z" by (simp add: z)
  finally have "prefix s (drop (i - j) s' @ drop (i - j - length s') z)" using s by simp
  moreover have "length s \<le> length (drop (i - j) s')" using le by auto
  ultimately have "prefix s (drop (i - j) s')" by (metis prefixI prefix_length_prefix)
  then show ?thesis by (metis sublist_order.order.trans prefix_imp_sublist sublist_drop)
qed

lemma truncate_extend:
  assumes sep: "separate_stops stop" and hit: "snd (truncate_at_stop t stop)"
  shows "truncate_at_stop (t @ u) stop = truncate_at_stop t stop"
proof -
  obtain i where i: "earliest_stop t stop None = Some i"
    using hit by (auto simp: truncate_at_stop_def split: option.splits)
  then obtain s where s: "s \<in> set stop" "py_find t s = Some i"
    and least: "\<And>s' k. s' \<in> set stop \<Longrightarrow> py_find t s' = Some k \<Longrightarrow> i \<le> k"
    by (auto simp: earliest_stop_Some)
  note at = py_find_Some [OF s(2)]
  have fit: "i + length s \<le> length t" using at prefix_length_le [of s "drop i t"] by auto
  have occ: "prefix s (drop i (t @ u))" using at by (simp add: prefix_append)
  have low: "i \<le> j" if s': "s' \<in> set stop" "py_find (t @ u) s' = Some j" for s' j
  proof (rule ccontr)
    assume "\<not> i \<le> j"
    then have j: "j < i" by simp
    have occ': "prefix s' (drop j (t @ u))" using py_find_Some [OF s'(2)] by blast
    have "i + length s \<le> j + length s'"
    proof (rule ccontr)
      assume "\<not> ?thesis"
      then have "j + length s' \<le> length t" using fit by simp
      from prefix_drop_take [OF occ' this] have "prefix s' (drop j t)" .
      moreover have "j \<le> length t" using j fit by simp
      ultimately obtain k where "py_find t s' = Some k" "k \<le> j" by (rule py_find_le)
      with least [OF s'(1)] j show False by fastforce
    qed
    from prefix_between [OF occ occ' less_imp_le [OF j] this] have "sublist s s'" .
    with sep s(1) s'(1) have "s = s'" by (auto simp: separate_stops_def)
    with \<open>i + length s \<le> j + length s'\<close> j show False by simp
  qed
  moreover have "py_find (t @ u) s = Some i"
  proof -
    have "i \<le> length (t @ u)" using fit by simp
    from py_find_le [OF occ this] obtain k where k: "py_find (t @ u) s = Some k" "k \<le> i" by blast
    with low [OF s(1)] show ?thesis by fastforce
  qed
  ultimately have "earliest_stop (t @ u) stop None = Some i"
    using s(1) by (auto simp: earliest_stop_Some)
  with i fit show ?thesis by (simp add: truncate_at_stop_def)
qed

section \<open>Whole streams\<close>

lemma feed_all_stopped:
  "stopped st \<Longrightarrow> stop_list st \<noteq> [] \<Longrightarrow> feed_all st ps = ([], st)"
  by (induction ps) (simp_all add: feed_def)

lemma feed_stop_list: "stop_list (snd (feed st p)) = stop_list st"
  by (auto simp: feed_def Let_def split: prod.splits bool.splits)

text \<open>
  Whatever the stops are, the stream ends with the cut of some text it had seen, or with
  the whole text when no stop occurs in it.
\<close>

lemma feed_all_result:
  assumes "streaming stop emitted st" and "stop \<noteq> []"
    and "feed_all st ps = (out, st')" and "flush st' = (rest, st'')"
  shows "\<exists>pre post. emitted @ buffer st @ concat ps = pre @ post \<and>
     (emitted @ out @ rest, stopped st'') = truncate_at_stop pre stop \<and> (stopped st'' \<or> post = [])"
  using assms
proof (induction ps arbitrary: emitted st out)
  case Nil
  then have "(out @ rest) = buffer st" "\<not> stopped st''"
    using streamingD(2) by (auto simp: flush_def split: if_splits)
  moreover have "truncate_at_stop (emitted @ buffer st) stop = (emitted @ buffer st, False)"
    using streamingD(5) [OF Nil.prems(1)] truncate_miss by blast
  ultimately show ?case by auto
next
  case (Cons p ps)
  obtain o1 st1 where f: "feed st p = (o1, st1)" by fastforce
  obtain o2 where fs: "feed_all st1 ps = (o2, st')" and out: "out = o1 @ o2"
    using Cons.prems(3) f by (auto split: prod.splits)
  let ?seen = "emitted @ buffer st @ p"
  show ?case
  proof (cases "snd (truncate_at_stop ?seen stop)")
    case True
    note hit = feed_hit [OF Cons.prems(1,2) True]
    have st1: "stopped st1" using hit(2) f by simp
    moreover have "stop_list st1 = stop"
      using feed_stop_list [of st p] f streamingD(1) [OF Cons.prems(1)] by simp
    ultimately have "o2 = []" "st' = st1"
      using feed_all_stopped [of st1 ps] fs Cons.prems(2) by auto
    then have "rest = []" "stopped st''" using Cons.prems(4) out st1 by (auto simp: flush_def)
    then have "(emitted @ out @ rest, stopped st'') = truncate_at_stop ?seen stop"
      using hit(1) f out \<open>o2 = []\<close> True by (simp add: prod_eq_iff)
    moreover have "emitted @ buffer st @ concat (p # ps) = ?seen @ concat ps" by simp
    ultimately show ?thesis using \<open>stopped st''\<close> by blast
  next
    case False
    note miss = feed_miss [OF Cons.prems(1,2) False]
    have "streaming stop (emitted @ o1) st1" using miss(1) f by simp
    from Cons.IH [OF this Cons.prems(2) fs] Cons.prems(4) out
    obtain pre post where pre: "(emitted @ o1) @ buffer st1 @ concat ps = pre @ post"
      "((emitted @ o1) @ o2 @ rest, stopped st'') = truncate_at_stop pre stop"
      "stopped st'' \<or> post = []" by blast
    have "o1 @ buffer st1 = buffer st @ p" using miss(2) f by simp
    then have "emitted @ buffer st @ concat (p # ps) = (emitted @ o1) @ buffer st1 @ concat ps"
      by (metis append.assoc concat.simps(2))
    with pre out show ?thesis by auto
  qed
qed

lemma stream_text_no_stops: "stream_text [] pieces = (concat pieces, False)"
proof -
  have "feed_all st pieces = (concat pieces, st)" if "stop_list st = []" for st :: "'a stop_streamer"
    using that by (induction pieces) (simp_all add: feed_def)
  then show ?thesis by (simp add: stream_text_def new_streamer_def flush_def)
qed

lemma stream_text_result:
  assumes "[] \<notin> set stop" and "stop \<noteq> []"
  shows "\<exists>pre post. concat pieces = pre @ post \<and>
    stream_text stop pieces = truncate_at_stop pre stop \<and> (snd (stream_text stop pieces) \<or> post = [])"
proof -
  obtain out st where f: "feed_all (new_streamer stop) pieces = (out, st)" by fastforce
  obtain rest st' where r: "flush st = (rest, st')" by fastforce
  have "buffer (new_streamer stop) = []" by (simp add: new_streamer_def)
  with feed_all_result [OF new_streamer_streaming [OF assms(1)] assms(2) f r] f r show ?thesis
    by (simp add: stream_text_def)
qed

lemma stream_text_separate:
  assumes "separate_stops stop"
  shows "stream_text stop pieces = truncate_at_stop (concat pieces) stop"
proof (cases "stop = []")
  case True
  then show ?thesis by (simp add: stream_text_no_stops truncate_at_stop_def)
next
  case False
  have "[] \<notin> set stop" using assms by (auto simp: separate_stops_def)
  from stream_text_result [OF this False] obtain pre post where
    pre: "concat pieces = pre @ post" "stream_text stop pieces = truncate_at_stop pre stop"
    "snd (stream_text stop pieces) \<or> post = []" by blast
  then show ?thesis using truncate_extend [OF assms, of pre post] by auto
qed

section \<open>The properties\<close>

text \<open>C6: however the engine cuts its output into chunks, the streamed answer is the whole
  answer cut at the first stop sequence, and the streamer reports a stop exactly then,
  provided no stop sequence contains another one.\<close>

theorem streaming_is_truncation:
  assumes "separate_stops stop"
  shows "stream_text stop pieces = truncate_at_stop (concat pieces) stop"
  using stream_text_separate [OF assms] .

theorem streaming_is_truncation_witness:
  "stream_text [''STOP'', ''##''] [''abS'', ''TO'', ''Pde'', ''##''] = (''ab'', True)"
proof -
  have "separate_stops [''STOP'', ''##'']" by (simp add: separate_stops_def) code_simp
  from streaming_is_truncation [OF this, of "[''abS'', ''TO'', ''Pde'', ''##'']"] show ?thesis
    by (simp add: truncate_at_stop_def)
qed

text \<open>A stop sequence contained in another one makes the streamed answer depend on how
  the engine cut its output: the same text gives two different answers.\<close>

lemma nested_stops_depend_on_chunks:
  "concat [''xabc''] = concat [''xab'', ''c''] \<and>
   stream_text [''abc'', ''b''] [''xabc''] = (''x'', True) \<and>
   stream_text [''abc'', ''b''] [''xab'', ''c''] = (''xa'', True)"
  by (simp add: stream_text_def new_streamer_def feed_def flush_def truncate_at_stop_def)

end
