(* ===== verification/PromptBudget.thy ===== *)
theory PromptBudget
  imports ChatFormat
begin

text \<open>
  The budget half of \<open>app/chat_format.py\<close>: grouping normalised messages into user-led
  turns and fitting a prompt into a token budget with a whole-turn window found by binary
  search. The engine is two functions, its chat template (which may put image payloads in
  the store) and its token counter (which may look them up); both may raise.
\<close>

type_synonym 'e template = "message list \<Rightarrow> image_store \<Rightarrow> ('e, string) result \<times> image_store"
type_synonym 'e counter = "string \<Rightarrow> image_store \<Rightarrow> ('e, int) result"

section \<open>Turns\<close>

definition is_tool_result_message :: "decoders \<Rightarrow> message \<Rightarrow> bool" where
  "is_tool_result_message dec m \<longleftrightarrow>
     fst m = ''user'' \<and>
     starts_with
       (py_lstrip (case plain_text dec default_placeholder (snd m) of
          Inr t \<Rightarrow> t
        | Inl _ \<Rightarrow> (case snd m of Plain v \<Rightarrow> py_str v | Multi ps \<Rightarrow> repr_multi ps)))
       ''[tool result''"

text \<open>The loop body: the finished turns and the turn being collected.\<close>

definition turn_step ::
  "decoders \<Rightarrow> message list list \<times> message list \<Rightarrow> message \<Rightarrow> message list list \<times> message list" where
  "turn_step dec acc m = (case acc of (turns, current) \<Rightarrow>
     (if fst m = ''user'' \<and> \<not> (current \<noteq> [] \<and> is_tool_result_message dec m)
      then (if current \<noteq> [] \<and> fst (hd current) = ''user'' then turns @ [current] else turns, [m])
      else if current \<noteq> [] then (turns, current @ [m])
      else if fst m = ''user'' then (turns, [m]) else (turns, current)))"

definition split_leading_system_and_turns ::
  "decoders \<Rightarrow> message list \<Rightarrow> message list \<times> message list list" where
  "split_leading_system_and_turns dec ms =
     (let pre = takeWhile (\<lambda>m. fst m = ''system'') ms;
          rest = drop (length pre) ms;
          (turns, current) = foldl (turn_step dec) ([], []) rest;
          turns1 = (if current \<noteq> [] \<and> fst (hd current) = ''user'' then turns @ [current] else turns)
      in (pre, if turns1 = [] then (if rest \<noteq> [] then [[last rest]] else []) else turns1))"

section \<open>Fitting the budget\<close>

definition count_or_release ::
  "ambient \<Rightarrow> 'e counter \<Rightarrow> string \<Rightarrow> image_store \<Rightarrow> ('e, int) result \<times> image_store" where
  "count_or_release amb count p st =
     (case count p st of
        Inl e \<Rightarrow> (Inl e, discard_prompt_context amb p st)
      | Inr n \<Rightarrow> (Inr n, st))"

definition render_counted ::
  "ambient \<Rightarrow> 'e template \<Rightarrow> 'e counter \<Rightarrow> message list \<Rightarrow> image_store \<Rightarrow>
     ('e, string \<times> int) result \<times> image_store" where
  "render_counted amb apply_template count ms st =
     (case apply_template ms st of
        (Inl e, st1) \<Rightarrow> (Inl e, st1)
      | (Inr p, st1) \<Rightarrow>
          (case count_or_release amb count p st1 of
             (Inl e, st2) \<Rightarrow> (Inl e, st2)
           | (Inr n, st2) \<Rightarrow> (Inr (p, n), st2)))"

definition window :: "message list \<Rightarrow> message list list \<Rightarrow> int \<Rightarrow> message list" where
  "window sys turns k = sys @ concat (last_n (nat k) turns)"

function window_search ::
  "ambient \<Rightarrow> 'e template \<Rightarrow> 'e counter \<Rightarrow> int \<Rightarrow> message list \<Rightarrow> message list list \<Rightarrow>
     int \<Rightarrow> int \<Rightarrow> int \<Rightarrow> image_store \<Rightarrow> ('e, int) result \<times> image_store" where
  "window_search amb apply_template count limit sys turns low high best st =
     (if low \<le> high then
        let mid = (low + high) div 2 in
        case render_counted amb apply_template count (window sys turns mid) st of
          (Inl e, st1) \<Rightarrow> (Inl e, st1)
        | (Inr (p, n), st1) \<Rightarrow>
            let st2 = discard_prompt_context amb p st1 in
            if n \<le> limit
            then window_search amb apply_template count limit sys turns (mid + 1) high mid st2
            else window_search amb apply_template count limit sys turns low (mid - 1) best st2
      else (Inr best, st))"
  by pat_completeness auto
termination
  by (relation "measure (\<lambda>(amb, a, c, l, s, t, low, high, best, st). nat (high + 1 - low))") auto

declare window_search.simps [simp del]

definition build_prompt_within_budget ::
  "ambient \<Rightarrow> decoders \<Rightarrow> 'e template \<Rightarrow> 'e counter \<Rightarrow> int \<Rightarrow> message list \<Rightarrow> image_store \<Rightarrow>
     ('e, string \<times> int) result \<times> image_store" where
  "build_prompt_within_budget amb dec apply_template count limit ms st =
     (if ms = [] then render_counted amb apply_template count [] st
      else case render_counted amb apply_template count ms st of
        (Inl e, st1) \<Rightarrow> (Inl e, st1)
      | (Inr (full, n), st1) \<Rightarrow>
          if n \<le> limit then (Inr (full, n), st1)
          else
            let st2 = discard_prompt_context amb full st1;
                (sys, turns) = split_leading_system_and_turns dec ms
            in if turns = [] then render_counted amb apply_template count sys st2
               else case window_search amb apply_template count limit sys turns
                           1 (int (length turns)) 1 st2 of
                 (Inl e, st3) \<Rightarrow> (Inl e, st3)
               | (Inr k, st3) \<Rightarrow>
                   render_counted amb apply_template count (window sys turns k) st3)"

section \<open>Grouping into turns\<close>

text \<open>
  The laws of one step of the grouping loop, for any kind of message: prompt construction
  groups the messages themselves, the preflight endpoint groups them with their indexes.
\<close>

locale turn_grouping =
  fixes user :: "'m \<Rightarrow> bool" and tool_result :: "'m \<Rightarrow> bool"
    and step :: "'m list list \<times> 'm list \<Rightarrow> 'm \<Rightarrow> 'm list list \<times> 'm list"
  assumes step_new: "user m \<Longrightarrow> cur = [] \<or> \<not> tool_result m \<Longrightarrow>
      step (turns, cur) m = (if cur \<noteq> [] \<and> user (hd cur) then turns @ [cur] else turns, [m])"
    and step_join: "cur \<noteq> [] \<Longrightarrow> \<not> (user m \<and> \<not> tool_result m) \<Longrightarrow>
      step (turns, cur) m = (turns, cur @ [m])"
    and step_skip: "\<not> user m \<Longrightarrow> step (turns, []) m = (turns, [])"
begin

definition user_led :: "'m list \<Rightarrow> bool" where
  "user_led t \<longleftrightarrow> t \<noteq> [] \<and> user (hd t) \<and> (\<forall>m \<in> set (tl t). user m \<longrightarrow> tool_result m)"

lemma user_led_snoc: "user_led t \<Longrightarrow> (user m \<longrightarrow> tool_result m) \<Longrightarrow> user_led (t @ [m])"
  by (cases t) (auto simp: user_led_def)

definition collected :: "'m list list \<times> 'm list \<Rightarrow> 'm list \<Rightarrow> bool" where
  "collected acc ms \<longleftrightarrow> (\<forall>t \<in> set (fst acc). user_led t) \<and> (snd acc = [] \<or> user_led (snd acc)) \<and>
     concat (fst acc) @ snd acc = dropWhile (\<lambda>m. \<not> user m) ms \<and> (snd acc = [] \<longrightarrow> fst acc = [])"

lemma collected_step:
  assumes "collected acc ms"
  shows "collected (step acc m) (ms @ [m])"
proof -
  obtain turns cur where acc: "acc = (turns, cur)" by (cases acc)
  note inv = assms [unfolded collected_def acc fst_conv snd_conv]
  have quiet: "\<forall>x \<in> set ms. \<not> user x" if "cur = []"
    using inv that by (metis append_self_conv2 concat.simps(1) dropWhile_eq_Nil_conv)
  have loud: "dropWhile (\<lambda>x. \<not> user x) (ms @ [m]) = dropWhile (\<lambda>x. \<not> user x) ms @ [m]" if "cur \<noteq> []"
  proof -
    have "\<exists>x \<in> set ms. user x"
      using inv that by (metis append_is_Nil_conv dropWhile_eq_Nil_conv)
    then show ?thesis by (auto simp: dropWhile_append1)
  qed
  show ?thesis
  proof (cases "cur = []")
    case True
    with quiet inv show ?thesis
      by (cases "user m") (auto simp: acc collected_def step_new step_skip user_led_def dropWhile_append)
  next
    case ne: False
    show ?thesis
    proof (cases "user m \<and> \<not> tool_result m")
      case True
      have "user (hd cur)" using inv ne by (auto simp: user_led_def)
      with True have "step (turns, cur) m = (turns @ [cur], [m])" using ne by (simp add: step_new)
      with True ne inv loud show ?thesis by (auto simp: acc collected_def user_led_def)
    next
      case False
      with ne have "step (turns, cur) m = (turns, cur @ [m])" by (rule step_join)
      with False ne inv loud user_led_snoc [of cur m] show ?thesis
        by (auto simp: acc collected_def)
    qed
  qed
qed

lemma collected_run: "collected (foldl step ([], []) ms) ms"
  by (induction ms rule: rev_induct) (simp_all add: collected_step, simp add: collected_def)

definition finished :: "'m list list \<times> 'm list \<Rightarrow> 'm list list" where
  "finished acc = (if snd acc \<noteq> [] \<and> user (hd (snd acc)) then fst acc @ [snd acc] else fst acc)"

lemma finished_run:
  "concat (finished (foldl step ([], []) ms)) = dropWhile (\<lambda>m. \<not> user m) ms"
  "t \<in> set (finished (foldl step ([], []) ms)) \<Longrightarrow> user_led t"
  using collected_run [of ms] by (auto simp: finished_def collected_def user_led_def split: if_splits)

end

interpretation chat_turns: turn_grouping "\<lambda>m. fst m = ''user''" "is_tool_result_message dec" "turn_step dec"
  for dec
  by unfold_locales (auto simp: turn_step_def is_tool_result_message_def)

lemma split_turns:
  "split_leading_system_and_turns dec ms =
     (takeWhile (\<lambda>m. fst m = ''system'') ms,
      let rest = dropWhile (\<lambda>m. fst m = ''system'') ms;
          ts = chat_turns.finished (foldl (turn_step dec) ([], []) rest)
      in if ts = [] then (if rest \<noteq> [] then [[last rest]] else []) else ts)"
  unfolding split_leading_system_and_turns_def chat_turns.finished_def Let_def
    dropWhile_eq_drop [symmetric] split_def
  by (rule refl)

section \<open>The binary search\<close>

text \<open>The rule of the search loop: an invariant of the bounds, the best window and the store.\<close>

lemma window_search_rule:
  assumes start: "P low high best st"
    and fails: "\<And>low high best st e st1. P low high best st \<Longrightarrow> low \<le> high \<Longrightarrow>
      render_counted amb apply_template count (window sys turns ((low + high) div 2)) st = (Inl e, st1) \<Longrightarrow>
      Q (Inl e) st1"
    and fits: "\<And>low high best st p n st1. P low high best st \<Longrightarrow> low \<le> high \<Longrightarrow>
      render_counted amb apply_template count (window sys turns ((low + high) div 2)) st = (Inr (p, n), st1) \<Longrightarrow>
      n \<le> limit \<Longrightarrow> P ((low + high) div 2 + 1) high ((low + high) div 2) (discard_prompt_context amb p st1)"
    and exceeds: "\<And>low high best st p n st1. P low high best st \<Longrightarrow> low \<le> high \<Longrightarrow>
      render_counted amb apply_template count (window sys turns ((low + high) div 2)) st = (Inr (p, n), st1) \<Longrightarrow>
      limit < n \<Longrightarrow> P low ((low + high) div 2 - 1) best (discard_prompt_context amb p st1)"
    and stop: "\<And>low high best st. P low high best st \<Longrightarrow> high < low \<Longrightarrow> Q (Inr best) st"
    and run: "window_search amb apply_template count limit sys turns low high best st = (r, st')"
  shows "Q r st'"
  using start run
proof (induction "nat (high + 1 - low)" arbitrary: low high best st rule: less_induct)
  case less
  let ?mid = "(low + high) div 2"
  show ?case
  proof (cases "low \<le> high")
    case False
    then have "r = Inr best" "st' = st" using less.prems(2) by (simp_all add: window_search.simps [of _ _ _ _ _ _ low])
    with stop [OF less.prems(1)] False show ?thesis by simp
  next
    case True
    obtain c st1 where c: "render_counted amb apply_template count (window sys turns ?mid) st = (c, st1)"
      by fastforce
    show ?thesis
    proof (cases c)
      case (Inl e)
      with less.prems c True fails show ?thesis
        by (auto simp: window_search.simps [of _ _ _ _ _ _ low] Let_def)
    next
      case (Inr pn)
      obtain p n where pn: "pn = (p, n)" by (cases pn)
      let ?st2 = "discard_prompt_context amb p st1"
      show ?thesis
      proof (cases "n \<le> limit")
        case True
        have "window_search amb apply_template count limit sys turns (?mid + 1) high ?mid ?st2 = (r, st')"
          using less.prems(2) c Inr pn True \<open>low \<le> high\<close>
          by (simp add: window_search.simps [of _ _ _ _ _ _ low] Let_def)
        then show ?thesis
          using \<open>low \<le> high\<close> fits [OF less.prems(1) \<open>low \<le> high\<close> c [unfolded Inr pn] True]
          by (intro less.hyps [of high "?mid + 1" ?mid ?st2]) auto
      next
        case False
        then have big: "limit < n" by simp
        have "window_search amb apply_template count limit sys turns low (?mid - 1) best ?st2 = (r, st')"
          using less.prems(2) c Inr pn False \<open>low \<le> high\<close>
          by (simp add: window_search.simps [of _ _ _ _ _ _ low] Let_def)
        then show ?thesis
          using \<open>low \<le> high\<close> exceeds [OF less.prems(1) \<open>low \<le> high\<close> c [unfolded Inr pn] big]
          by (intro less.hyps [of "?mid - 1" low best ?st2]) auto
      qed
    qed
  qed
qed

text \<open>The three ways prompt construction ends.\<close>

lemma build_prompt_cases [consumes 1, case_names fits full unfit searched]:
  assumes "build_prompt_within_budget amb dec apply_template count limit ms st = (r, st')"
  obtains (fits) "ms = []" "render_counted amb apply_template count [] st = (r, st')"
  | (full) p n where "ms \<noteq> []" "render_counted amb apply_template count ms st = (r, st')"
      "r = Inr (p, n)" "n \<le> limit"
  | (unfit) e where "ms \<noteq> []" "render_counted amb apply_template count ms st = (Inl e, st')" "r = Inl e"
  | (searched) full n st1 sys turns sr st2 where
      "ms \<noteq> []" "render_counted amb apply_template count ms st = (Inr (full, n), st1)" "limit < n"
      "split_leading_system_and_turns dec ms = (sys, turns)"
      "if turns = [] then sr = Inr 1 \<and> st2 = discard_prompt_context amb full st1
       else window_search amb apply_template count limit sys turns 1 (int (length turns)) 1
              (discard_prompt_context amb full st1) = (sr, st2)"
      "case sr of Inl e \<Rightarrow> r = Inl e \<and> st' = st2
       | Inr k \<Rightarrow> render_counted amb apply_template count (window sys turns k) st2 = (r, st')"
proof (cases "ms = []")
  case True
  with assms that(1) show ?thesis by (simp add: build_prompt_within_budget_def)
next
  case ne: False
  obtain c st1 where c: "render_counted amb apply_template count ms st = (c, st1)" by fastforce
  show ?thesis
  proof (cases c)
    case (Inl e)
    have "r = Inl e" "st' = st1" using assms c ne Inl by (simp_all add: build_prompt_within_budget_def)
    with that(3) [OF ne, of e] c Inl show ?thesis by simp
  next
    case (Inr pn)
    obtain p n where pn: "pn = (p, n)" by (cases pn)
    show ?thesis
    proof (cases "n \<le> limit")
      case True
      have "r = Inr (p, n)" "st' = st1"
        using assms c ne Inr pn True by (simp_all add: build_prompt_within_budget_def)
      with that(2) [OF ne, of p n] c Inr pn True show ?thesis by simp
    next
      case False
      obtain sys turns where split: "split_leading_system_and_turns dec ms = (sys, turns)" by fastforce
      let ?st2 = "discard_prompt_context amb p st1"
      note run = assms [unfolded build_prompt_within_budget_def c Inr pn split]
      show ?thesis
      proof (cases "turns = []")
        case True
        with run ne False have "render_counted amb apply_template count (window sys turns 1) ?st2 = (r, st')"
          by (simp add: window_def last_n_def Let_def)
        with that(4) [OF ne c [unfolded Inr pn] _ split, of "Inr 1" ?st2] True False show ?thesis by simp
      next
        case turns: False
        obtain sr st3 where sr: "window_search amb apply_template count limit sys turns 1
            (int (length turns)) 1 ?st2 = (sr, st3)" by fastforce
        have "case sr of Inl e \<Rightarrow> r = Inl e \<and> st' = st3
            | Inr k \<Rightarrow> render_counted amb apply_template count (window sys turns k) st3 = (r, st')"
          using run ne False turns sr by (cases sr) (simp_all add: Let_def)
        with that(4) [OF ne c [unfolded Inr pn] _ split, of sr st3] sr turns False show ?thesis by simp
      qed
    qed
  qed
qed

section \<open>Engines\<close>

text \<open>The image contexts a rendered prompt owns.\<close>

definition prompt_keys :: "ambient \<Rightarrow> string \<Rightarrow> string set" where
  "prompt_keys amb p = (case find_marker amb p of None \<Rightarrow> {} | Some (_, k) \<Rightarrow> {k})"

lemma discard_prompt_held: "held_keys (discard_prompt_context amb p st) = held_keys st - prompt_keys amb p"
  by (auto simp: discard_prompt_context_def prompt_keys_def pop_context_held split: option.splits prod.splits)

text \<open>
  What an engine promises prompt construction: rendering leaves behind at most the contexts
  its prompt owns, and nothing when it fails. The client never lets one of them leak.
\<close>

locale prompt_engine =
  fixes amb :: ambient and apply_template :: "'e template"
  assumes template_keys: "apply_template ms st = (Inr p, st') \<Longrightarrow>
      held_keys st' \<subseteq> held_keys st \<union> prompt_keys amb p"
    and template_error: "apply_template ms st = (Inl e, st') \<Longrightarrow> held_keys st' \<subseteq> held_keys st"
begin

lemma render_counted_keys:
  assumes "render_counted amb apply_template count ms st = (r, st')"
  shows "held_keys st' \<subseteq> held_keys st \<union> (case r of Inl _ \<Rightarrow> {} | Inr (p, _) \<Rightarrow> prompt_keys amb p)"
proof -
  obtain r1 st1 where t: "apply_template ms st = (r1, st1)" by fastforce
  show ?thesis
  proof (cases r1)
    case (Inl e)
    with assms t template_error [of ms st] show ?thesis by (auto simp: render_counted_def)
  next
    case (Inr p)
    with t have "held_keys st1 \<subseteq> held_keys st \<union> prompt_keys amb p" using template_keys by simp
    with assms t Inr show ?thesis
      by (fastforce simp: render_counted_def count_or_release_def discard_prompt_held split: sum.splits)
  qed
qed

lemma window_search_keys:
  assumes "window_search amb apply_template count limit sys turns low high best st = (r, st')"
  shows "held_keys st' \<subseteq> held_keys st"
proof (rule window_search_rule [where P = "\<lambda>_ _ _ s. held_keys s \<subseteq> held_keys st"
      and Q = "\<lambda>_ s. held_keys s \<subseteq> held_keys st", OF _ _ _ _ _ assms])
  show "held_keys st \<subseteq> held_keys st" by simp
qed (use render_counted_keys in \<open>fastforce simp: discard_prompt_held\<close>)+

lemma build_prompt_keys:
  assumes "build_prompt_within_budget amb dec apply_template count limit ms st = (r, st')"
  shows "held_keys st' \<subseteq> held_keys st \<union> (case r of Inl _ \<Rightarrow> {} | Inr (p, _) \<Rightarrow> prompt_keys amb p)"
  using assms
proof (cases rule: build_prompt_cases)
  case (searched full n st1 sys turns sr st2)
  have "held_keys (discard_prompt_context amb full st1) \<subseteq> held_keys st"
    using render_counted_keys [OF searched(2)] by (auto simp: discard_prompt_held)
  moreover have "held_keys st2 \<subseteq> held_keys (discard_prompt_context amb full st1)"
    using window_search_keys searched(5) by (auto split: if_splits)
  ultimately have st2: "held_keys st2 \<subseteq> held_keys st" by blast
  show ?thesis
  proof (cases sr)
    case (Inl e)
    with searched st2 show ?thesis by auto
  next
    case (Inr k)
    with searched(6) have "render_counted amb apply_template count (window sys turns k) st2 = (r, st')" by simp
    from render_counted_keys [OF this] st2 show ?thesis by blast
  qed
next
  case (unfit e)
  with render_counted_keys [OF unfit(2)] show ?thesis by simp
qed (erule render_counted_keys)+

end

text \<open>
  An engine whose token count of a rendered prompt depends on the messages alone. The
  search then keeps the longest window that fits.
\<close>

locale measured_engine = prompt_engine amb apply_template
  for amb :: ambient and apply_template :: "'e template" +
  fixes count :: "'e counter" and cost :: "message list \<Rightarrow> int"
  assumes count_cost: "apply_template ms st = (Inr p, st') \<Longrightarrow> count p st' = Inr (cost ms)"
begin

lemma render_counted_cost:
  "render_counted amb apply_template count ms st = (Inr (p, n), st') \<longleftrightarrow>
     apply_template ms st = (Inr p, st') \<and> n = cost ms"
  using count_cost by (auto simp: render_counted_def count_or_release_def split: prod.splits sum.splits)

lemma window_search_best:
  assumes "window_search amb apply_template count limit sys turns 1 (int (length turns)) 1 st = (Inr k, st')"
    and "turns \<noteq> []"
  shows "1 \<le> k \<and> k \<le> int (length turns)"
    and "(\<And>i j. 1 \<le> i \<Longrightarrow> i \<le> j \<Longrightarrow> j \<le> int (length turns) \<Longrightarrow>
            cost (window sys turns i) \<le> cost (window sys turns j)) \<Longrightarrow>
         1 \<le> j \<Longrightarrow> j \<le> int (length turns) \<Longrightarrow> cost (window sys turns j) \<le> limit \<Longrightarrow>
         j \<le> k \<and> cost (window sys turns k) \<le> limit"
proof -
  let ?n = "int (length turns)"
  let ?c = "\<lambda>j. cost (window sys turns j)"
  have one: "1 \<le> ?n" using assms(2) by (cases turns) auto
  have "case (Inr k :: ('e, int) result) of Inl _ \<Rightarrow> True | Inr k \<Rightarrow> 1 \<le> k \<and> k \<le> ?n"
    by (rule window_search_rule [where P = "\<lambda>low high best _. 1 \<le> low \<and> high \<le> ?n \<and> 1 \<le> best \<and> best \<le> ?n"
        and Q = "\<lambda>r _. case r of Inl _ \<Rightarrow> True | Inr k \<Rightarrow> 1 \<le> k \<and> k \<le> ?n", OF _ _ _ _ _ assms(1)])
      (use one in auto)
  then show range: "1 \<le> k \<and> k \<le> ?n" by simp
  assume mono: "\<And>i j. 1 \<le> i \<Longrightarrow> i \<le> j \<Longrightarrow> j \<le> ?n \<Longrightarrow> ?c i \<le> ?c j"
    and j: "1 \<le> j" "j \<le> ?n" "?c j \<le> limit"
  let ?P = "\<lambda>low high best (_ :: image_store). 1 \<le> low \<and> low \<le> high + 1 \<and> high \<le> ?n \<and>
      best = max 1 (low - 1) \<and> (1 < low \<longrightarrow> ?c (low - 1) \<le> limit) \<and>
      (\<forall>j. high < j \<and> j \<le> ?n \<longrightarrow> limit < ?c j)"
  have "case (Inr k :: ('e, int) result) of Inl _ \<Rightarrow> True | Inr k \<Rightarrow> j \<le> k \<and> ?c k \<le> limit"
  proof (rule window_search_rule [where P = ?P
        and Q = "\<lambda>r _. case r of Inl _ \<Rightarrow> True | Inr k \<Rightarrow> j \<le> k \<and> ?c k \<le> limit", OF _ _ _ _ _ assms(1)])
    show "?P 1 ?n 1 st" using one by simp
  next
    fix low high best s e s1
    show "case (Inl e :: ('e, int) result) of Inl _ \<Rightarrow> True | Inr k \<Rightarrow> j \<le> k \<and> ?c k \<le> limit" by simp
  next
    fix low high best s p n s1
    assume "?P low high best s" "low \<le> high" "n \<le> limit"
      and "render_counted amb apply_template count (window sys turns ((low + high) div 2)) s = (Inr (p, n), s1)"
    then show "?P ((low + high) div 2 + 1) high ((low + high) div 2) (discard_prompt_context amb p s1)"
      by (auto simp: render_counted_cost)
  next
    fix low high best s p n s1
    assume P: "?P low high best s" and le: "low \<le> high" and big: "limit < n"
      and "render_counted amb apply_template count (window sys turns ((low + high) div 2)) s = (Inr (p, n), s1)"
    then have "limit < ?c ((low + high) div 2)" by (simp add: render_counted_cost)
    moreover have "?c ((low + high) div 2) \<le> ?c i" if "(low + high) div 2 \<le> i" "i \<le> ?n" for i
      using P le that by (intro mono) auto
    ultimately have "\<forall>i. (low + high) div 2 - 1 < i \<and> i \<le> ?n \<longrightarrow> limit < ?c i"
      by (meson le_less_trans less_le_trans not_le zle_diff1_eq zless_imp_add1_zle)
    with P le show "?P low ((low + high) div 2 - 1) best (discard_prompt_context amb p s1)" by auto
  next
    fix low high best s
    assume P: "?P low high best s" and "high < low"
    then have low: "low = high + 1" by simp
    have "j \<le> high" using P j by (meson not_le)
    then have "best = high" "?c high \<le> limit" using P low j by auto
    with \<open>j \<le> high\<close> show "case (Inr best :: ('e, int) result) of Inl _ \<Rightarrow> True | Inr k \<Rightarrow> j \<le> k \<and> ?c k \<le> limit" by simp
  qed
  then show "j \<le> k \<and> ?c k \<le> limit" by simp
qed

end

end
