(* ===== verification/MockEngines.thy ===== *)
theory MockEngines
  imports PromptBudget
begin

text \<open>
  The prompt half of the two chat engines of \<open>runtime/openvino_engine.py\<close> that need no
  OpenVINO: \<open>MockEngine\<close> renders text only, \<open>MockVisionEngine\<close> carries images through
  the context store. They are the providers of the interfaces of \<open>PromptBudget\<close>.
\<close>

section \<open>The engines\<close>

definition mock_apply_template :: "decoders \<Rightarrow> vision_error template" where
  "mock_apply_template dec ms st =
     (case prepare_text_messages dec ms of
        Inl e \<Rightarrow> (Inl e, st)
      | Inr prepared \<Rightarrow> (Inr (render_chatml prepared True), st))"

definition mock_count_tokens :: "ambient \<Rightarrow> vision_error counter" where
  "mock_count_tokens amb p st = Inr (max 1 (int (length (strip_prompt_context amb p)) div 4))"

definition vision_apply_template :: "ambient \<Rightarrow> decoders \<Rightarrow> vision_error template" where
  "vision_apply_template amb dec ms st =
     (case prepare_vision_messages amb dec ms st of
        (Inl e, st') \<Rightarrow> (Inl e, st')
      | (Inr (prepared, key), st') \<Rightarrow>
          (Inr (append_prompt_context amb (render_chatml prepared True) key), st'))"

definition vision_count_tokens :: "ambient \<Rightarrow> vision_error counter" where
  "vision_count_tokens amb p st =
     bindr (mock_count_tokens amb p st) (\<lambda>n. Inr (n + prompt_image_token_reserve amb st p))"

section \<open>Rendered prompts carry no marker of their own\<close>

lemma render_chatml_ends: "\<exists>s. render_chatml ms True = s @ ''assistant'' @ [CHR 0x0A]"
  by (rule exI [of _ "concat (map (\<lambda>(role, t). ''<|im_start|>'' @ role @ [CHR 0x0A] @ t @ ''<|im_end|>'' @
        [CHR 0x0A]) ms) @ ''<|im_start|>''"]) (simp add: render_chatml_def)

lemma not_space_t: "\<not> py_space (CHR ''t'')"
  by code_simp

lemma py_rstrip_render: "\<exists>s. py_rstrip (render_chatml ms True) = s @ ''assistant''"
proof -
  obtain s where s: "render_chatml ms True = s @ ''assistant'' @ [CHR 0x0A]"
    using render_chatml_ends by blast
  have "py_rstrip ((s @ ''assistant'') @ [CHR 0x0A]) = py_rstrip (s @ ''assistant'')"
    by (subst py_rstrip_snoc) simp
  moreover have "py_rstrip ((s @ ''assistan'') @ [CHR ''t'']) = (s @ ''assistan'') @ [CHR ''t'']"
    by (subst py_rstrip_snoc) (simp add: not_space_t)
  ultimately have "py_rstrip (render_chatml ms True) = s @ ''assistant''" using s by simp
  then show ?thesis by blast
qed

lemma find_marker_render [simp]: "find_marker amb (render_chatml ms True) = None"
proof -
  obtain s where s: "py_rstrip (render_chatml ms True) = s @ ''assistant''"
    using py_rstrip_render by blast
  have "last (drop n (s @ ''assistant'')) \<noteq> CHR ''>''" if "n < length (s @ ''assistant'')" for n
    using that by (subst last_drop) simp_all
  then show ?thesis unfolding find_marker_def s Let_def by (auto simp del: drop_append)
qed

section \<open>The text engine\<close>

definition mock_cost :: "decoders \<Rightarrow> message list \<Rightarrow> int" where
  "mock_cost dec ms = (case prepare_text_messages dec ms of
       Inl _ \<Rightarrow> 0 | Inr prepared \<Rightarrow> max 1 (int (length (render_chatml prepared True)) div 4))"

interpretation mock_text: measured_engine amb "mock_apply_template dec" "mock_count_tokens amb" "mock_cost dec"
  for amb dec
  by unfold_locales
    (auto simp: mock_apply_template_def mock_count_tokens_def mock_cost_def strip_prompt_context_def
      split: sum.splits)

lemma prepare_text_append:
  "prepare_text_messages dec (xs @ ys) =
     bindr (prepare_text_messages dec xs) (\<lambda>a. bindr (prepare_text_messages dec ys) (\<lambda>b. Inr (a @ b)))"
proof (induction dec xs rule: prepare_text_messages.induct)
  case (2 dec role c ms)
  then show ?case
    by (cases "plain_text dec text_omission c"; cases "prepare_text_messages dec ms";
        cases "prepare_text_messages dec ys") auto
qed simp

lemma length_render_append:
  "length (render_chatml (xs @ zs) True) \<le> length (render_chatml (xs @ ys @ zs) True)"
  by (simp add: render_chatml_def)

lemma window_split:
  assumes "1 \<le> i" and "i \<le> j" and "j \<le> int (length turns)"
  shows "\<exists>older. window sys turns j = sys @ older @ concat (last_n (nat i) turns)"
proof -
  let ?d = "drop (length turns - nat j) turns"
  have j: "last_n (nat j) turns = ?d" using assms by (simp add: last_n_def)
  have "last_n (nat i) turns = drop (length turns - nat i) turns" using assms by (simp add: last_n_def)
  also have "\<dots> = drop (nat j - nat i) ?d" using assms by (simp add: nat_le_iff)
  finally have "concat ?d = concat (take (nat j - nat i) ?d) @ concat (last_n (nat i) turns)"
    by (metis append_take_drop_id concat_append)
  with j show ?thesis by (auto simp: window_def)
qed

lemma mock_cost_window_mono:
  assumes "\<And>ms'. set ms' \<subseteq> set ms \<Longrightarrow> \<exists>prepared. prepare_text_messages dec ms' = Inr prepared"
    and "set sys \<subseteq> set ms" and "set (concat turns) \<subseteq> set ms"
    and "1 \<le> i" and "i \<le> j" and "j \<le> int (length turns)"
  shows "mock_cost dec (window sys turns i) \<le> mock_cost dec (window sys turns j)"
proof -
  obtain older where older: "window sys turns j = sys @ older @ concat (last_n (nat i) turns)"
    using window_split [OF assms(4-6), of sys] by blast
  have sub: "set (last_n k turns) \<subseteq> set turns" for k
    by (rule set_mono_suffix) (rule suffix_last_n)
  have "set (window sys turns j) \<subseteq> set ms" using sub [of "nat j"] assms(2,3) by (auto simp: window_def)
  from assms(1) [OF this] obtain all where "prepare_text_messages dec (window sys turns j) = Inr all" by blast
  then obtain a b c where "prepare_text_messages dec sys = Inr a" "prepare_text_messages dec older = Inr b"
    "prepare_text_messages dec (concat (last_n (nat i) turns)) = Inr c" "all = a @ b @ c"
    unfolding older by (auto simp: prepare_text_append bindr_eq_Inr)
  then have "mock_cost dec (window sys turns j) = max 1 (int (length (render_chatml (a @ b @ c) True)) div 4)"
    "mock_cost dec (window sys turns i) = max 1 (int (length (render_chatml (a @ c) True)) div 4)"
    unfolding older by (simp_all add: mock_cost_def window_def prepare_text_append)
  moreover have "int (length (render_chatml (a @ c) True)) div 4 \<le> int (length (render_chatml (a @ b @ c) True)) div 4"
    using length_render_append [of a c b] by (intro zdiv_mono1) simp_all
  ultimately show ?thesis by simp
qed

section \<open>The vision engine\<close>

definition vision_cost :: "ambient \<Rightarrow> decoders \<Rightarrow> message list \<Rightarrow> int" where
  "vision_cost amb dec ms = (case vision_messages dec 0 ms of
       Inl _ \<Rightarrow> 0
     | Inr (prepared, images) \<Rightarrow>
         (let p = render_chatml prepared True
          in max 1 (int (length (if images = [] then p else py_rstrip p)) div 4)
             + int (length images) * image_token_reserve))"

lemma vision_template_cases:
  assumes "vision_apply_template amb dec ms st = (r, st')"
  obtains (failed) e where "r = Inl e" "held_keys st' \<subseteq> held_keys st"
  | (plain) prepared where "r = Inr (render_chatml prepared True)" "st' = st"
      "vision_messages dec 0 ms = Inr (prepared, [])"
  | (carrying) prepared images key where
      "r = Inr (append_prompt_context amb (render_chatml prepared True) (Some key))" "hex32 key"
      "vision_messages dec 0 ms = Inr (prepared, images)" "images \<noteq> []"
      "store_context amb images st = (Inr key, st')"
proof -
  obtain pr st1 where pr: "prepare_vision_messages amb dec ms st = (pr, st1)" by fastforce
  show ?thesis
  proof (cases pr)
    case (Inl e)
    have "held_keys st1 \<subseteq> held_keys st"
      using pr Inl store_context_held(1) [of amb _ st "Inl e" st1]
      by (auto simp: prepare_vision_messages_def split: sum.splits prod.splits if_splits)
    with assms pr Inl show ?thesis by (intro failed [of e]) (simp_all add: vision_apply_template_def)
  next
    case (Inr out)
    obtain prepared key where out: "out = (prepared, key)" by (cases out)
    show ?thesis
    proof (cases key)
      case None
      with pr Inr out have "vision_messages dec 0 ms = Inr (prepared, [])" "st1 = st"
        by (auto simp: prepare_vision_messages_def split: sum.splits prod.splits if_splits)
      with assms pr Inr out None show ?thesis
        by (intro plain [of prepared]) (simp_all add: vision_apply_template_def append_prompt_context_def)
    next
      case (Some k)
      with pr Inr out obtain images where images: "vision_messages dec 0 ms = Inr (prepared, images)"
        "images \<noteq> []" "store_context amb images st = (Inr k, st1)"
        by (auto simp: prepare_vision_messages_def split: sum.splits prod.splits if_splits)
      from store_context_held(3) [OF images(3)] have "hex32 k" by (simp add: hex32_uuid)
      with assms pr Inr out Some images show ?thesis
        by (intro carrying [of prepared k images]) (simp_all add: vision_apply_template_def)
    qed
  qed
qed

interpretation mock_vision: measured_engine amb "vision_apply_template amb dec" "vision_count_tokens amb"
    "vision_cost amb dec"
  for amb dec
proof
  fix ms st p st' assume t: "vision_apply_template amb dec ms st = (Inr p, st')"
  then show "held_keys st' \<subseteq> held_keys st \<union> prompt_keys amb p"
  proof (cases rule: vision_template_cases)
    case (carrying prepared images key)
    with store_context_held(1) [OF carrying(5)] show ?thesis
      by (simp add: prompt_keys_def find_marker_append)
  qed auto
  from t show "vision_count_tokens amb p st' = Inr (vision_cost amb dec ms)"
  proof (cases rule: vision_template_cases)
    case (plain prepared)
    then show ?thesis
      by (simp add: vision_count_tokens_def mock_count_tokens_def vision_cost_def strip_prompt_context_def
          prompt_image_token_reserve_def prompt_image_count_def)
  next
    case (carrying prepared images key)
    with store_context_held(2) [OF carrying(5) refl] show ?thesis
      by (simp add: vision_count_tokens_def mock_count_tokens_def vision_cost_def strip_prompt_context_def
          prompt_image_token_reserve_def prompt_image_count_def find_marker_append Let_def)
  qed auto
next
  fix ms st e st' assume "vision_apply_template amb dec ms st = (Inl e, st')"
  then show "held_keys st' \<subseteq> held_keys st"
    by (cases rule: vision_template_cases) auto
qed

section \<open>What the window keeps\<close>

definition plain_user :: "decoders \<Rightarrow> message \<Rightarrow> bool" where
  "plain_user dec m \<longleftrightarrow> fst m = ''user'' \<and> \<not> is_tool_result_message dec m"

lemma split_turns_concat:
  assumes "split_leading_system_and_turns dec ms = (sys, turns)"
    and "\<exists>m \<in> set ms. fst m = ''user''"
  shows "concat turns = dropWhile (\<lambda>m. fst m \<noteq> ''user'') ms"
    and "t \<in> set turns \<Longrightarrow> t \<noteq> [] \<and> fst (hd t) = ''user'' \<and> list_all (\<lambda>m. \<not> plain_user dec m) (tl t)"
proof -
  let ?rest = "dropWhile (\<lambda>m. fst m = ''system'') ms"
  let ?ts = "chat_turns.finished (foldl (turn_step dec) ([], []) ?rest)"
  have rest: "dropWhile (\<lambda>m. fst m \<noteq> ''user'') ?rest = dropWhile (\<lambda>m. fst m \<noteq> ''user'') ms"
    by (induction ms) auto
  have "dropWhile (\<lambda>m. fst m \<noteq> ''user'') ms \<noteq> []" using assms(2) by simp
  then have "?ts \<noteq> []" using chat_turns.finished_run(1) [of dec ?rest] rest by (metis concat.simps(1))
  then have turns: "turns = ?ts" using assms(1) by (auto simp: split_turns Let_def)
  then show "concat turns = dropWhile (\<lambda>m. fst m \<noteq> ''user'') ms"
    using chat_turns.finished_run(1) [of dec ?rest] rest by simp
  show "t \<in> set turns \<Longrightarrow> t \<noteq> [] \<and> fst (hd t) = ''user'' \<and> list_all (\<lambda>m. \<not> plain_user dec m) (tl t)"
    using chat_turns.finished_run(2) [of t dec ?rest] turns
    by (auto simp: chat_turns.user_led_def plain_user_def list_all_iff)
qed

lemma split_turns_subset:
  assumes "split_leading_system_and_turns dec ms = (sys, turns)"
  shows "set sys \<subseteq> set ms" and "set (concat turns) \<subseteq> set ms"
proof -
  show "set sys \<subseteq> set ms" using assms by (auto simp: split_turns dest: set_takeWhileD)
  let ?rest = "dropWhile (\<lambda>m. fst m = ''system'') ms"
  have rest: "set ?rest \<subseteq> set ms" by (auto dest: set_dropWhileD)
  have "set (concat (chat_turns.finished (foldl (turn_step dec) ([], []) ?rest))) \<subseteq> set ?rest"
    unfolding chat_turns.finished_run(1) by (auto dest: set_dropWhileD)
  moreover have "last ?rest \<in> set ?rest" if "?rest \<noteq> []" using that by (rule last_in_set)
  ultimately show "set (concat turns) \<subseteq> set ms"
    using assms rest by (auto simp: split_turns Let_def simp del: dropWhile_eq_Nil_conv split: if_splits)
qed

lemma prepare_text_all:
  "(\<exists>out. prepare_text_messages dec ms = Inr out) \<longleftrightarrow>
     (\<forall>m \<in> set ms. \<exists>t. plain_text dec text_omission (snd m) = Inr t)"
  by (induction dec ms rule: prepare_text_messages.induct) (auto simp: bindr_eq_Inr)

lemma longest_window:
  assumes engine: "measured_engine amb apply_template count cost"
    and build: "build_prompt_within_budget amb dec apply_template count limit ms st = (Inr (p, n), st')"
    and split: "split_leading_system_and_turns dec ms = (sys, turns)" and turns: "turns \<noteq> []"
    and over: "ms \<noteq> []" "limit < cost ms"
    and mono: "\<And>i j. 1 \<le> i \<Longrightarrow> i \<le> j \<Longrightarrow> j \<le> int (length turns) \<Longrightarrow>
            cost (window sys turns i) \<le> cost (window sys turns j)"
  shows "\<exists>k. 1 \<le> k \<and> k \<le> int (length turns) \<and> n = cost (window sys turns k) \<and>
    (\<exists>s. apply_template (window sys turns k) s = (Inr p, st')) \<and>
    (\<forall>j. 1 \<le> j \<and> j \<le> int (length turns) \<and> cost (window sys turns j) \<le> limit \<longrightarrow> j \<le> k \<and> n \<le> limit)"
  using build
proof (cases rule: build_prompt_cases)
  case (full p' n')
  then show ?thesis using over measured_engine.render_counted_cost [OF engine, of ms st p' n' st'] by simp
next
  case (searched full n0 st1 sys' turns' sr st2)
  then have same: "sys' = sys" "turns' = turns" using split by auto
  with searched(5,6) turns obtain k where k: "sr = Inr k"
    "window_search amb apply_template count limit sys turns 1 (int (length turns)) 1
       (discard_prompt_context amb full st1) = (Inr k, st2)"
    "render_counted amb apply_template count (window sys turns k) st2 = (Inr (p, n), st')"
    by (cases sr) auto
  have rendered: "apply_template (window sys turns k) st2 = (Inr p, st')" "n = cost (window sys turns k)"
    using k(3) measured_engine.render_counted_cost [OF engine] by blast+
  note best = measured_engine.window_search_best [OF engine k(2) turns]
  show ?thesis
    by (intro exI [of _ k] conjI allI impI) (use rendered best(1) best(2) [OF mono] in auto)
qed (use over in simp_all)

section \<open>Properties\<close>

text \<open>Whole-turn windows. When a user message exists, the turns are exactly the messages
  from the first user message on, so an answer is never kept without its question; each turn
  starts with a user message and holds no other plain user message, so tool results stay with
  the turn that asked for them.\<close>

lemma turns_are_whole:
  assumes "split_leading_system_and_turns dec ms = (sys, turns)"
    and "\<exists>m \<in> set ms. fst m = ''user''"
  shows "sys = takeWhile (\<lambda>m. fst m = ''system'') ms \<and>
    concat turns = dropWhile (\<lambda>m. fst m \<noteq> ''user'') ms \<and>
    (\<forall>t \<in> set turns. t \<noteq> [] \<and> fst (hd t) = ''user'' \<and> list_all (\<lambda>m. \<not> plain_user dec m) (tl t))"
  using split_turns_concat [OF assms] assms(1) by (auto simp: split_turns)

abbreviation said :: "string \<Rightarrow> string \<Rightarrow> message" where
  "said role t \<equiv> (role, Plain (JStr t))"

abbreviation tool_chat :: "message list" where
  "tool_chat \<equiv> [said ''system'' ''s'', said ''assistant'' ''hello'', said ''user'' ''q1'', said ''assistant'' ''call'',
     said ''user'' ''[tool result] 7'', said ''assistant'' ''a1'', said ''user'' ''q2'']"

lemma turns_are_whole_witness:
  "\<exists>turns. split_leading_system_and_turns no_decoders tool_chat = ([said ''system'' ''s''], turns) \<and>
     concat turns = drop 2 tool_chat \<and> length turns = 2"
proof -
  have split: "split_leading_system_and_turns no_decoders tool_chat =
    ([said ''system'' ''s''], [take 4 (drop 2 tool_chat), [said ''user'' ''q2'']])" by code_simp
  with turns_are_whole [OF split] show ?thesis by simp
qed

text \<open>C9: prompt construction never leaks an image context. For any engine whose template
  keeps the interface, after building a prompt (or failing to) the store holds only what it
  held before, plus the context of the prompt that is returned.\<close>

theorem prompt_images_never_leak:
  assumes "prompt_engine amb apply_template"
    and "build_prompt_within_budget amb dec apply_template count limit ms st = (r, st')"
  shows "held_keys st' \<subseteq> held_keys st \<union> (case r of Inl _ \<Rightarrow> {} | Inr (p, _) \<Rightarrow> prompt_keys amb p)"
  by (rule prompt_engine.build_prompt_keys [OF assms])

abbreviation image_chat :: "message list" where
  "image_chat \<equiv> [(''user'', Multi [PText ''look'', PImage sample_image]), said ''assistant'' ''ok'', said ''user'' ''hi'']"

theorem prompt_images_never_leak_witness:
  "held_keys (snd (build_prompt_within_budget sample_ambient no_decoders
      (vision_apply_template sample_ambient no_decoders) (vision_count_tokens sample_ambient) 50
      image_chat empty_store)) = {}"
proof -
  let ?b = "build_prompt_within_budget sample_ambient no_decoders
      (vision_apply_template sample_ambient no_decoders) (vision_count_tokens sample_ambient) 50
      image_chat empty_store"
  obtain r st' where b: "?b = (r, st')" by fastforce
  have "fst ?b = Inr (render_chatml [(''user'', ''hi'')] True, 13)" by code_simp
  then have r: "r = Inr (render_chatml [(''user'', ''hi'')] True, 13)" by (simp add: b)
  have "held_keys st' = {}"
    using prompt_images_never_leak [OF mock_vision.prompt_engine_axioms b] r
    by (simp add: prompt_keys_def held_keys_def empty_store_def)
  then show ?thesis by (simp only: b snd_conv)
qed

text \<open>C10: the window is the longest one that fits. If the count depends on the messages
  alone and grows with the window, prompt construction returns the rendering of a suffix of
  whole turns behind the system messages, no longer suffix fits, and the prompt is within the
  budget whenever the latest turn alone is.\<close>

theorem longest_window_kept:
  assumes engine: "measured_engine amb apply_template count cost"
    and build: "build_prompt_within_budget amb dec apply_template count limit ms st = (Inr (p, n), st')"
    and split: "split_leading_system_and_turns dec ms = (sys, turns)" and turns: "turns \<noteq> []"
    and over: "ms \<noteq> []" "limit < cost ms"
    and mono: "\<And>i j. 1 \<le> i \<Longrightarrow> i \<le> j \<Longrightarrow> j \<le> int (length turns) \<Longrightarrow>
            cost (window sys turns i) \<le> cost (window sys turns j)"
  shows "\<exists>k. 1 \<le> k \<and> k \<le> int (length turns) \<and> n = cost (window sys turns k) \<and>
    (\<exists>s. apply_template (window sys turns k) s = (Inr p, st')) \<and>
    (\<forall>j. 1 \<le> j \<and> j \<le> int (length turns) \<and> cost (window sys turns j) \<le> limit \<longrightarrow> j \<le> k \<and> n \<le> limit)"
  by (rule longest_window [OF assms])

abbreviation tool_turns :: "message list list" where
  "tool_turns \<equiv> [take 4 (drop 2 tool_chat), [said ''user'' ''q2'']]"

lemma tool_chat_split:
  "split_leading_system_and_turns no_decoders tool_chat = ([said ''system'' ''s''], tool_turns)"
  by code_simp

lemma tool_chat_costs:
  "mock_cost no_decoders (window [said ''system'' ''s''] tool_turns 1) = 20"
  "mock_cost no_decoders (window [said ''system'' ''s''] tool_turns 2) = 57"
  "mock_cost no_decoders tool_chat = 66"
  by code_simp+

theorem longest_window_kept_witness:
  "\<exists>p st'. build_prompt_within_budget sample_ambient no_decoders (mock_apply_template no_decoders)
      (mock_count_tokens sample_ambient) 60 tool_chat empty_store = (Inr (p, 57), st')"
proof -
  let ?b = "build_prompt_within_budget sample_ambient no_decoders (mock_apply_template no_decoders)
      (mock_count_tokens sample_ambient) 60 tool_chat empty_store"
  let ?sys = "[said ''system'' ''s'']"
  have "isl (fst ?b) = False" by code_simp
  then obtain p n st' where b: "?b = (Inr (p, n), st')" by (cases ?b; cases "fst ?b") auto
  have two: "i = 1 \<or> i = 2" if "1 \<le> i" "i \<le> int (length tool_turns)" for i using that by auto
  have "mock_cost no_decoders (window ?sys tool_turns i) \<le> mock_cost no_decoders (window ?sys tool_turns j)"
    if "1 \<le> i" "i \<le> j" "j \<le> int (length tool_turns)" for i j
    using two [of i] two [of j] that tool_chat_costs by auto
  from longest_window_kept [OF mock_text.measured_engine_axioms b tool_chat_split _ _ _ this]
  obtain k where k: "1 \<le> k" "k \<le> 2" "n = mock_cost no_decoders (window ?sys tool_turns k)"
    "\<forall>j. 1 \<le> j \<and> j \<le> 2 \<and> mock_cost no_decoders (window ?sys tool_turns j) \<le> 60 \<longrightarrow> j \<le> k \<and> n \<le> 60"
    using tool_chat_costs(3) by auto
  then have "2 \<le> k" using tool_chat_costs(2) by auto
  with k have "n = 57" using tool_chat_costs(2) by simp
  with b show ?thesis by blast
qed

text \<open>The same for the text engine, with nothing left to assume about its counter: when
  the latest turn alone fits the budget, so does the prompt.\<close>

lemma mock_prompt_fits:
  assumes build: "build_prompt_within_budget amb dec (mock_apply_template dec) (mock_count_tokens amb)
      limit ms st = (Inr (p, n), st')"
    and split: "split_leading_system_and_turns dec ms = (sys, turns)" and turns: "turns \<noteq> []"
    and latest: "mock_cost dec (window sys turns 1) \<le> limit"
  shows "n \<le> limit"
proof (cases "ms \<noteq> [] \<and> limit < mock_cost dec ms")
  case True
  obtain prepared where "prepare_text_messages dec ms = Inr prepared"
    using build True
    by (auto simp: build_prompt_within_budget_def render_counted_def mock_apply_template_def split: sum.splits)
  then have all: "\<exists>out. prepare_text_messages dec ms' = Inr out" if "set ms' \<subseteq> set ms" for ms'
    using that prepare_text_all [of dec ms] prepare_text_all [of dec ms'] by blast
  note sub = split_turns_subset [OF split]
  have "mock_cost dec (window sys turns i) \<le> mock_cost dec (window sys turns j)"
    if "1 \<le> i" "i \<le> j" "j \<le> int (length turns)" for i j
    using mock_cost_window_mono [OF all sub that] .
  from longest_window [OF mock_text.measured_engine_axioms build split turns _ _ this] True
  show ?thesis using latest turns by (auto simp: Suc_le_eq)
next
  case False
  have "ms \<noteq> []" using split turns by (auto simp: split_turns chat_turns.finished_def Let_def)
  with False have cost: "mock_cost dec ms \<le> limit" by simp
  from build \<open>ms \<noteq> []\<close> show ?thesis
    by (cases rule: build_prompt_cases) (use cost in \<open>auto simp: mock_text.render_counted_cost\<close>)
qed

lemma mock_prompt_fits_witness:
  "\<exists>p n st'. build_prompt_within_budget sample_ambient no_decoders (mock_apply_template no_decoders)
      (mock_count_tokens sample_ambient) 40 tool_chat empty_store = (Inr (p, n), st') \<and> n \<le> 40"
proof -
  let ?b = "build_prompt_within_budget sample_ambient no_decoders (mock_apply_template no_decoders)
      (mock_count_tokens sample_ambient) 40 tool_chat empty_store"
  have "isl (fst ?b) = False" by code_simp
  then obtain p n st' where b: "?b = (Inr (p, n), st')" by (cases ?b; cases "fst ?b") auto
  from mock_prompt_fits [OF b tool_chat_split] tool_chat_costs(1) b show ?thesis by auto
qed

end
