(* ===== verification/ContextBudget.thy ===== *)
theory ContextBudget
  imports PromptBudget
begin

text \<open>
  \<open>app/context_budget.py\<close>: the preflight endpoint that reports which messages a
  generation request would drop. It repeats the grouping and the search of
  \<open>app/chat_format.py\<close> on messages paired with their indexes.
\<close>

type_synonym indexed_message = "nat \<times> message"

record budget_analysis =
  analysis_prompt :: string
  prompt_tokens :: int
  retained_indexes :: "nat list"
  dropped_indexes :: "nat list"
  dropped_turns :: int

section \<open>The analysis\<close>

definition indexed_step ::
  "decoders \<Rightarrow> indexed_message list list \<times> indexed_message list \<Rightarrow> indexed_message \<Rightarrow>
     indexed_message list list \<times> indexed_message list" where
  "indexed_step dec acc im = (case acc of (turns, current) \<Rightarrow>
     (if fst (snd im) = ''user'' \<and> \<not> (current \<noteq> [] \<and> is_tool_result_message dec (snd im))
      then (if current \<noteq> [] \<and> fst (snd (hd current)) = ''user'' then turns @ [current] else turns, [im])
      else if current \<noteq> [] then (turns, current @ [im])
      else if fst (snd im) = ''user'' then (turns, [im]) else (turns, current)))"

definition split_indexed_turns ::
  "decoders \<Rightarrow> message list \<Rightarrow> indexed_message list \<times> indexed_message list list" where
  "split_indexed_turns dec ms =
     (let pre = enumerate 0 (takeWhile (\<lambda>m. fst m = ''system'') ms);
          rest = enumerate (length pre) (drop (length pre) ms);
          (turns, current) = foldl (indexed_step dec) ([], []) rest;
          turns1 = (if current \<noteq> [] \<and> fst (snd (hd current)) = ''user'' then turns @ [current] else turns)
      in (pre, if turns1 = [] then (if rest \<noteq> [] then [[last rest]] else []) else turns1))"

definition indexed_window :: "indexed_message list \<Rightarrow> indexed_message list list \<Rightarrow> int \<Rightarrow> indexed_message list" where
  "indexed_window sys turns k = sys @ concat (last_n (nat k) turns)"

function preflight_search ::
  "ambient \<Rightarrow> 'e template \<Rightarrow> 'e counter \<Rightarrow> int \<Rightarrow> indexed_message list \<Rightarrow> indexed_message list list \<Rightarrow>
     int \<Rightarrow> int \<Rightarrow> int \<Rightarrow> image_store \<Rightarrow> ('e, int) result \<times> image_store" where
  "preflight_search amb apply_template count limit sys turns low high best st =
     (if low \<le> high then
        let mid = (low + high) div 2 in
        case render_counted amb apply_template count (map snd (indexed_window sys turns mid)) st of
          (Inl e, st1) \<Rightarrow> (Inl e, st1)
        | (Inr (p, n), st1) \<Rightarrow>
            let st2 = discard_prompt_context amb p st1 in
            if n \<le> limit
            then preflight_search amb apply_template count limit sys turns (mid + 1) high mid st2
            else preflight_search amb apply_template count limit sys turns low (mid - 1) best st2
      else (Inr best, st))"
  by pat_completeness auto
termination
  by (relation "measure (\<lambda>(amb, a, c, l, s, t, low, high, best, st). nat (high + 1 - low))") auto

declare preflight_search.simps [simp del]

definition not_retained :: "message list \<Rightarrow> nat list \<Rightarrow> nat list" where
  "not_retained ms retained = filter (\<lambda>i. i \<notin> set retained) (map fst (enumerate 0 ms))"

text \<open>Rendering the retained messages and reporting their indexes, the tail of every branch.\<close>

definition report_retained ::
  "ambient \<Rightarrow> 'e template \<Rightarrow> 'e counter \<Rightarrow> message list \<Rightarrow> indexed_message list \<Rightarrow> int \<Rightarrow> image_store \<Rightarrow>
     ('e, budget_analysis) result \<times> image_store" where
  "report_retained amb apply_template count ms kept dropped st =
     (case render_counted amb apply_template count (map snd kept) st of
        (Inl e, st1) \<Rightarrow> (Inl e, st1)
      | (Inr (p, n), st1) \<Rightarrow>
          (Inr \<lparr>analysis_prompt = p, prompt_tokens = n, retained_indexes = map fst kept,
                dropped_indexes = not_retained ms (map fst kept), dropped_turns = dropped\<rparr>, st1))"

definition analyze_prompt_budget ::
  "ambient \<Rightarrow> decoders \<Rightarrow> 'e template \<Rightarrow> 'e counter \<Rightarrow> int \<Rightarrow> message list \<Rightarrow> image_store \<Rightarrow>
     ('e, budget_analysis) result \<times> image_store" where
  "analyze_prompt_budget amb dec apply_template count limit ms st =
     (if ms = [] then
        (case render_counted amb apply_template count [] st of
           (Inl e, st1) \<Rightarrow> (Inl e, st1)
         | (Inr (p, n), st1) \<Rightarrow>
             (Inr \<lparr>analysis_prompt = p, prompt_tokens = n, retained_indexes = [],
                   dropped_indexes = [], dropped_turns = 0\<rparr>, st1))
      else case render_counted amb apply_template count ms st of
        (Inl e, st1) \<Rightarrow> (Inl e, st1)
      | (Inr (full, n), st1) \<Rightarrow>
          if n \<le> limit then
            (Inr \<lparr>analysis_prompt = full, prompt_tokens = n,
                  retained_indexes = map fst (enumerate 0 ms), dropped_indexes = [], dropped_turns = 0\<rparr>, st1)
          else
            let st2 = discard_prompt_context amb full st1;
                (sys, turns) = split_indexed_turns dec ms
            in if turns = [] then report_retained amb apply_template count ms sys 0 st2
               else case preflight_search amb apply_template count limit sys turns
                           1 (int (length turns)) 1 st2 of
                 (Inl e, st3) \<Rightarrow> (Inl e, st3)
               | (Inr k, st3) \<Rightarrow>
                   report_retained amb apply_template count ms (indexed_window sys turns k)
                     (max 0 (int (length turns) - k)) st3)"

section \<open>The numbers of the response\<close>

definition safety_tokens :: int where "safety_tokens = 8"

record budget_report =
  output_reserve :: int
  requested_output :: int
  available_output :: int
  effective_output :: int
  context_usage :: int
  output_limited :: bool
  will_truncate :: bool
  over_budget :: bool
  blocked :: bool
  attachment_tokens :: int

text \<open>\<open>count_with_pending_images\<close>: the images the browser has not embedded yet are charged.\<close>

definition synthetic_images :: "int \<Rightarrow> message list \<Rightarrow> int" where
  "synthetic_images image_count ms = max 0 (image_count - int (length (request_images ms)))"

definition count_with_pending_images :: "int \<Rightarrow> message list \<Rightarrow> 'e counter \<Rightarrow> 'e counter" where
  "count_with_pending_images image_count ms count p st =
     bindr (count p st) (\<lambda>n. Inr (n + synthetic_images image_count ms * image_token_reserve))"

definition report_budget ::
  "int \<Rightarrow> int \<Rightarrow> int option \<Rightarrow> int \<Rightarrow> message list \<Rightarrow> budget_analysis \<Rightarrow> budget_report" where
  "report_budget max_context_len max_prompt_len max_tokens image_count ms a =
     (let requested = (case max_tokens of None \<Rightarrow> 512 | Some n \<Rightarrow> if n = 0 then 512 else n);
          available = max 0 (max_context_len - prompt_tokens a - safety_tokens);
          effective = min requested available
      in \<lparr>output_reserve = max 0 (max_context_len - max_prompt_len),
          requested_output = requested, available_output = available, effective_output = effective,
          context_usage = min max_context_len (prompt_tokens a + effective + safety_tokens),
          output_limited = effective < requested,
          will_truncate = dropped_indexes a \<noteq> [],
          over_budget = prompt_tokens a > max_prompt_len,
          blocked = available < 1,
          attachment_tokens = max (int (length (request_images ms))) image_count * image_token_reserve\<rparr>)"

section \<open>The indexed grouping\<close>

interpretation indexed_turns: turn_grouping "\<lambda>im. fst (snd im) = ''user''"
    "\<lambda>im. is_tool_result_message dec (snd im)" "indexed_step dec" for dec
  by unfold_locales (auto simp: indexed_step_def is_tool_result_message_def)

lemma indexed_step_snd:
  "turn_step dec (map (map snd) (fst acc), map snd (snd acc)) (snd im) =
     (map (map snd) (fst (indexed_step dec acc im)), map snd (snd (indexed_step dec acc im)))"
  by (cases acc; cases "snd acc") (auto simp: turn_step_def indexed_step_def)

lemma indexed_run_snd:
  "foldl (turn_step dec) (map (map snd) (fst acc), map snd (snd acc)) (map snd ims) =
     (map (map snd) (fst (foldl (indexed_step dec) acc ims)), map snd (snd (foldl (indexed_step dec) acc ims)))"
  by (induction ims arbitrary: acc) (simp_all add: indexed_step_snd)

lemma split_indexed_snd:
  assumes "split_indexed_turns dec ms = (sys, turns)"
  shows "split_leading_system_and_turns dec ms = (map snd sys, map (map snd) turns)"
proof -
  define pre where "pre = takeWhile (\<lambda>m. fst m = ''system'') ms"
  define rest where "rest = enumerate (length pre) (drop (length pre) ms)"
  obtain ts cur where run: "foldl (indexed_step dec) ([], []) rest = (ts, cur)" by fastforce
  have plain: "drop (length pre) ms = map snd rest" by (simp add: rest_def)
  have "foldl (turn_step dec) ([], []) (drop (length pre) ms) = (map (map snd) ts, map snd cur)"
    unfolding plain using indexed_run_snd [of dec "([], [])" rest] run by simp
  moreover have "sys = enumerate 0 pre"
    "turns = (let turns1 = (if cur \<noteq> [] \<and> fst (snd (hd cur)) = ''user'' then ts @ [cur] else ts)
       in if turns1 = [] then (if rest \<noteq> [] then [[last rest]] else []) else turns1)"
    using assms run by (auto simp: split_indexed_turns_def pre_def [symmetric] rest_def [symmetric] Let_def)
  moreover have "rest \<noteq> [] \<longleftrightarrow> drop (length pre) ms \<noteq> []"
    "rest \<noteq> [] \<Longrightarrow> last (drop (length pre) ms) = snd (last rest)"
    unfolding plain by (auto simp: last_map)
  ultimately show ?thesis
    unfolding split_leading_system_and_turns_def Let_def pre_def [symmetric]
    by (cases cur) auto
qed

section \<open>Preflight and generation do the same\<close>

lemma map_last_n: "map f (last_n k xs) = last_n k (map f xs)"
  by (simp add: last_n_def drop_map)

lemma indexed_window_snd:
  "map snd (indexed_window sys turns k) = window (map snd sys) (map (map snd) turns) k"
  by (simp add: indexed_window_def window_def map_concat map_last_n)

lemma preflight_search_eq:
  "preflight_search amb apply_template count limit sys turns low high best st =
   window_search amb apply_template count limit (map snd sys) (map (map snd) turns) low high best st"
proof (induction amb apply_template count limit sys turns low high best st rule: preflight_search.induct)
  case (1 amb apply_template count limit sys turns low high best st)
  show ?case
  proof (cases "low \<le> high")
    case False
    then show ?thesis by (simp add: preflight_search.simps [of _ _ _ _ _ _ low] window_search.simps [of _ _ _ _ _ _ low])
  next
    case True
    obtain c st1 where c: "render_counted amb apply_template count
        (map snd (indexed_window sys turns ((low + high) div 2))) st = (c, st1)" by fastforce
    show ?thesis
    proof (cases c)
      case (Inl e)
      with True c show ?thesis
        by (simp add: preflight_search.simps [of _ _ _ _ _ _ low] window_search.simps [of _ _ _ _ _ _ low]
            indexed_window_snd Let_def)
    next
      case (Inr pn)
      obtain p n where pn: "pn = (p, n)" by (cases pn)
      note IH = "1.IH" [OF True refl c [symmetric] Inr pn [symmetric] refl]
      show ?thesis
        using True c Inr pn IH
        by (auto simp: preflight_search.simps [of _ _ _ _ _ _ low] window_search.simps [of _ _ _ _ _ _ low]
            indexed_window_snd Let_def)
    qed
  qed
qed

lemma report_retained_render:
  "(case report_retained amb apply_template count ms kept dropped st of
      (Inl e, s) \<Rightarrow> (Inl e, s) | (Inr a, s) \<Rightarrow> (Inr (analysis_prompt a, prompt_tokens a), s)) =
   render_counted amb apply_template count (map snd kept) st"
  by (auto simp: report_retained_def split: prod.splits sum.splits)

text \<open>The indexes of the retained messages point at those messages, in order.\<close>

definition indexes_in :: "message list \<Rightarrow> indexed_message list \<Rightarrow> bool" where
  "indexes_in ms kept \<longleftrightarrow> subseq kept (enumerate 0 ms)"

lemma indexes_in_append:
  assumes "subseq xs (enumerate 0 (take c ms))" and "subseq ys (enumerate c (drop c ms))" and "c \<le> length ms"
  shows "indexes_in ms (xs @ ys)"
proof -
  have "enumerate 0 ms = enumerate 0 (take c ms) @ enumerate c (drop c ms)"
    using enumerate_append_eq [of 0 "take c ms" "drop c ms"] assms(3) by (simp add: min_absorb2)
  then show ?thesis using assms(1,2) by (simp add: indexes_in_def list_emb_append_mono)
qed

lemma subseq_last_n_concat: "subseq (concat (last_n k turns)) (concat turns)"
proof -
  have "concat turns = concat (take (length turns - length (last_n k turns)) turns) @ concat (last_n k turns)"
    using last_n_decomp [of turns k] by (metis concat_append)
  then show ?thesis by (metis suffixI suffix_imp_subseq)
qed

lemma subseq_dropWhile: "subseq (dropWhile P xs) xs"
  by (rule suffix_imp_subseq) (rule suffix_dropWhile)

lemma subseq_last: "xs \<noteq> [] \<Longrightarrow> subseq [last xs] xs"
  by (simp add: subseq_singleton_left)

lemma split_indexed_in:
  assumes "split_indexed_turns dec ms = (sys, turns)"
  shows "indexes_in ms (sys @ concat (last_n k turns))" and "indexes_in ms sys"
proof -
  let ?pre = "takeWhile (\<lambda>m. fst m = ''system'') ms"
  define rest where "rest = enumerate (length ?pre) (drop (length ?pre) ms)"
  have pre: "?pre = take (length ?pre) ms" by (rule takeWhile_eq_take)
  have sys: "sys = enumerate 0 ?pre" and turns: "turns = (let ts = indexed_turns.finished (foldl (indexed_step dec) ([], []) rest)
      in if ts = [] then (if rest \<noteq> [] then [[last rest]] else []) else ts)"
    using assms by (auto simp: split_indexed_turns_def indexed_turns.finished_def rest_def Let_def split: prod.splits)
  have "subseq (concat turns) rest"
    using indexed_turns.finished_run(1) [of dec rest] subseq_last [of rest]
    by (auto simp: turns Let_def subseq_dropWhile split: if_splits)
  then have "subseq (concat (last_n k turns)) rest"
    using subseq_last_n_concat subseq_order.trans by blast
  then show "indexes_in ms (sys @ concat (last_n k turns))"
    using pre by (intro indexes_in_append [where c = "length ?pre"]) (simp_all add: sys rest_def length_takeWhile_le)
  show "indexes_in ms sys"
    using indexes_in_append [of sys "length ?pre" ms "[]"] pre by (simp add: sys length_takeWhile_le)
qed

lemma subseq_sorted_wrt: "subseq xs ys \<Longrightarrow> sorted_wrt r ys \<Longrightarrow> sorted_wrt r xs"
  by (induction rule: list_emb.induct) (auto dest: list_emb_set)

lemma indexes_in_sound:
  assumes "indexes_in ms kept"
  shows "map snd kept = map ((!) ms) (map fst kept)" and "sorted_wrt (<) (map fst kept)"
    and "set (map fst kept) \<subseteq> {..<length ms}"
proof -
  have in_set: "set kept \<subseteq> set (enumerate 0 ms)" using assms by (auto simp: indexes_in_def dest: list_emb_set)
  show "map snd kept = map ((!) ms) (map fst kept)"
    using in_set by (auto simp: in_set_enumerate_eq)
  have "subseq (map fst kept) [0..<length ms]"
    using assms subseq_map [of kept "enumerate 0 ms" fst] by (simp add: indexes_in_def)
  then show "sorted_wrt (<) (map fst kept)"
    using sorted_wrt_upt [of 0 "length ms"] by (rule subseq_sorted_wrt)
  show "set (map fst kept) \<subseteq> {..<length ms}" using in_set by (auto simp: in_set_enumerate_eq)
qed

text \<open>What a successful analysis is made of.\<close>

definition reports ::
  "ambient \<Rightarrow> 'e template \<Rightarrow> 'e counter \<Rightarrow> message list \<Rightarrow> indexed_message list \<Rightarrow> image_store \<Rightarrow>
     budget_analysis \<Rightarrow> image_store \<Rightarrow> bool" where
  "reports amb apply_template count ms kept s a st' \<longleftrightarrow> indexes_in ms kept \<and>
     retained_indexes a = map fst kept \<and> dropped_indexes a = not_retained ms (map fst kept) \<and>
     render_counted amb apply_template count (map snd kept) s = (Inr (analysis_prompt a, prompt_tokens a), st')"

lemma reportsD:
  assumes "reports amb apply_template count ms kept s a st'"
  shows "indexes_in ms kept" and "retained_indexes a = map fst kept"
    and "dropped_indexes a = not_retained ms (map fst kept)"
    and "render_counted amb apply_template count (map snd kept) s = (Inr (analysis_prompt a, prompt_tokens a), st')"
  using assms by (simp_all add: reports_def)

lemma report_retained_reports:
  "report_retained amb apply_template count ms kept d s = (Inr a, st') \<Longrightarrow> indexes_in ms kept \<Longrightarrow>
     reports amb apply_template count ms kept s a st'"
  by (auto simp: report_retained_def reports_def split: prod.splits sum.splits)

lemma analysis_reports:
  assumes "analyze_prompt_budget amb dec apply_template count limit ms st = (Inr a, st')"
  shows "\<exists>kept s. reports amb apply_template count ms kept s a st'"
proof (cases "ms = []")
  case True
  with assms have "reports amb apply_template count ms [] st a st'"
    by (auto simp: analyze_prompt_budget_def reports_def indexes_in_def not_retained_def split: prod.splits sum.splits)
  then show ?thesis by blast
next
  case ne: False
  obtain c st1 where c: "render_counted amb apply_template count ms st = (c, st1)" by fastforce
  then obtain p n where pn: "c = Inr (p, n)" using assms ne by (cases c) (auto simp: analyze_prompt_budget_def)
  note run = assms [unfolded analyze_prompt_budget_def c pn]
  show ?thesis
  proof (cases "n \<le> limit")
    case True
    have "indexes_in ms (enumerate 0 ms)" by (simp add: indexes_in_def)
    with run ne True c pn have "reports amb apply_template count ms (enumerate 0 ms) st a st'"
      by (auto simp: reports_def not_retained_def)
    then show ?thesis by blast
  next
    case False
    obtain sys turns where split: "split_indexed_turns dec ms = (sys, turns)" by fastforce
    note inside = split_indexed_in [OF split]
    from run ne False split consider
        s where "report_retained amb apply_template count ms sys 0 s = (Inr a, st')"
      | k d s where "report_retained amb apply_template count ms (indexed_window sys turns k) d s = (Inr a, st')"
      by (auto simp: Let_def split: if_splits prod.splits sum.splits)
    then show ?thesis
    proof cases
      case 1
      from report_retained_reports [OF this inside(2)] show ?thesis by blast
    next
      case 2
      from report_retained_reports [OF 2] inside(1) show ?thesis unfolding indexed_window_def by blast
    qed
  qed
qed

section \<open>Properties\<close>

text \<open>C11: the preflight endpoint predicts generation: on the same messages, engine, budget and
  store, the analysis has the prompt and the token count that prompt construction returns,
  fails with the same error, and leaves the same image contexts.\<close>

theorem preflight_matches_generation:
  "(case analyze_prompt_budget amb dec apply_template count limit ms st of
      (Inl e, s) \<Rightarrow> (Inl e, s)
    | (Inr a, s) \<Rightarrow> (Inr (analysis_prompt a, prompt_tokens a), s)) =
   build_prompt_within_budget amb dec apply_template count limit ms st"
proof -
  obtain sys turns where idx: "split_indexed_turns dec ms = (sys, turns)" by fastforce
  note plain = split_indexed_snd [OF idx]
  show ?thesis
    unfolding analyze_prompt_budget_def build_prompt_within_budget_def
    by (auto simp: idx plain preflight_search_eq indexed_window_snd report_retained_render
        [unfolded report_retained_def] report_retained_def Let_def split: prod.splits sum.splits)
qed

text \<open>The reported indexes are exact: retained and dropped indexes are increasing and
  split the message list between them, and the analysed prompt is the rendering of the
  retained messages alone.\<close>

lemma preflight_indexes_exact:
  assumes "analyze_prompt_budget amb dec apply_template count limit ms st = (Inr a, st')"
  shows "sorted_wrt (<) (retained_indexes a) \<and> sorted_wrt (<) (dropped_indexes a) \<and>
    set (retained_indexes a) \<union> set (dropped_indexes a) = {..<length ms} \<and>
    set (retained_indexes a) \<inter> set (dropped_indexes a) = {} \<and>
    (\<exists>s. render_counted amb apply_template count (map ((!) ms) (retained_indexes a)) s =
       (Inr (analysis_prompt a, prompt_tokens a), st'))"
proof -
  obtain kept s where kept: "reports amb apply_template count ms kept s a st'"
    using analysis_reports [OF assms] by blast
  note sound = indexes_in_sound [OF reportsD(1) [OF kept]] and fields = reportsD(2,3) [OF kept]
  have "sorted_wrt (<) (not_retained ms (map fst kept))"
    by (simp add: not_retained_def sorted_wrt_filter)
  moreover have "set (not_retained ms (map fst kept)) = {..<length ms} - set (map fst kept)"
    by (auto simp: not_retained_def)
  ultimately show ?thesis
    using sound(2,3) reportsD(4) [OF kept] unfolding fields sound(1) by auto
qed

lemma preflight_indexes_exact_witness:
  "\<exists>a st'. analyze_prompt_budget sample_ambient no_decoders
      (\<lambda>ms st. (Inr (concat (map fst ms)) :: (unit, string) result, st)) (\<lambda>p st. Inr (int (length p))) 17
      [(''system'', Plain JNull), (''user'', Plain (JStr ''q1'')), (''assistant'', Plain (JStr ''a1'')),
       (''user'', Plain (JStr ''q2''))] empty_store = (Inr a, st') \<and>
     retained_indexes a = [0, 3] \<and> set (retained_indexes a) \<union> set (dropped_indexes a) = {..<4}"
proof -
  let ?f = "\<lambda>ms st. (Inr (concat (map fst ms)) :: (unit, string) result, st)"
  let ?ms = "[(''system'', Plain JNull), (''user'', Plain (JStr ''q1'')), (''assistant'', Plain (JStr ''a1'')),
       (''user'', Plain (JStr ''q2''))]"
  let ?r = "analyze_prompt_budget sample_ambient no_decoders ?f (\<lambda>p st. Inr (int (length p))) 17 ?ms empty_store"
  let ?a = "\<lparr>analysis_prompt = ''systemuser'', prompt_tokens = 10, retained_indexes = [0, 3],
    dropped_indexes = [1, 2], dropped_turns = 1\<rparr>"
  have "fst ?r = Inr ?a" by code_simp
  then obtain st' where r: "?r = (Inr ?a, st')" by (metis prod.collapse)
  have "{..<length ?ms} = {..<4}" by simp
  with preflight_indexes_exact [OF r] have "set [0, 3] \<union> set (dropped_indexes ?a) = {..<4}" by simp
  with r show ?thesis by (intro exI [of _ ?a] exI [of _ st']) simp
qed

end
