(* ===== verification/ContextConfig.thy ===== *)
theory ContextConfig
  imports ModelRegistry
begin

text \<open>
  \<open>app/context_configuration.py\<close>: which context lengths and KV-cache precisions an
  editor may offer and the server accepts. \<open>metadata\<close> is the object parsed from the
  model's \<open>config.json\<close> (empty when it is missing or unreadable). Estimates are exact
  rationals, rounded as \<open>round(x, 3)\<close> rounds an exact value; labels and notes are not
  modelled.
\<close>

section \<open>Limits\<close>

definition max_context :: int where "max_context = 262144"
definition min_context :: int where "min_context = 128"

definition standard_presets :: "int list" where
  "standard_presets = [2048, 4096, 8192, 16384, 32768, 65536, 131072]"

datatype context_error = EmbeddingContext | NotWholeNumber | NoPromptRoom | AboveArchitecture | Unverified | BadPrecision

definition positive_int :: "json \<Rightarrow> int option" where
  "positive_int v = (case v of JInt i \<Rightarrow> if 0 < i \<and> i \<le> max_context then Some i else None | _ \<Rightarrow> None)"

definition limit_keys :: "string list" where
  "limit_keys = [''max_position_embeddings'', ''n_positions'', ''n_ctx'', ''sliding_window'']"

fun min_opt :: "int option list \<Rightarrow> int option" where
  "min_opt [] = None"
| "min_opt (None # vs) = min_opt vs"
| "min_opt (Some i # vs) = Some (case min_opt vs of None \<Rightarrow> i | Some j \<Rightarrow> min i j)"

definition model_limit :: "json \<Rightarrow> int option" where
  "model_limit metadata = min_opt (map (\<lambda>k. positive_int (get metadata k)) limit_keys)"

text \<open>\<open>cfg.recommended_context_len or cfg.max_context_len\<close>.\<close>

definition recommended_context :: "model_config \<Rightarrow> int" where
  "recommended_context cfg = (case recommended_context_len cfg of
     None \<Rightarrow> max_context_len cfg | Some i \<Rightarrow> if i = 0 then max_context_len cfg else i)"

definition validate_context :: "model_config \<Rightarrow> json \<Rightarrow> json \<Rightarrow> (context_error, unit) result" where
  "validate_context cfg requested metadata =
     (if backend cfg = ''openvino-embeddings'' then Inl EmbeddingContext
      else case requested of
        JInt n \<Rightarrow>
          if \<not> (128 \<le> n \<and> n \<le> max_context) then Inl NotWholeNumber
          else if n \<le> max_output_tokens cfg + 64 then Inl NoPromptRoom
          else (case model_limit metadata of
                  Some limit \<Rightarrow> if n > limit then Inl AboveArchitecture else Inr ()
                | None \<Rightarrow> if n > recommended_context cfg then Inl Unverified else Inr ())
      | _ \<Rightarrow> Inl NotWholeNumber)"

definition context_bounds :: "model_config \<Rightarrow> json \<Rightarrow> int \<times> int" where
  "context_bounds cfg metadata =
     (max min_context (max_output_tokens cfg + 65),
      min (case model_limit metadata of None \<Rightarrow> recommended_context cfg | Some l \<Rightarrow> l) max_context)"

definition is_configurable :: "model_config \<Rightarrow> bool" where
  "is_configurable cfg \<longleftrightarrow> backend cfg \<noteq> ''openvino-embeddings''"

section \<open>KV-cache precision\<close>

definition kv_bytes_per_element :: "string \<Rightarrow> rat option" where
  "kv_bytes_per_element = map_of [(''f16'', 2), (''u8'', 9 / 8), (''u4'', 5 / 8)]"

definition kv_cache_precisions :: "string list" where
  "kv_cache_precisions = [''auto'', ''f16'', ''u8'', ''u4'']"

definition normalize_kv_cache_precision :: "json \<Rightarrow> (context_error, string option) result" where
  "normalize_kv_cache_precision v =
     (if v = JNull then Inr None
      else let t = py_lower (py_strip (py_str v))
        in if t \<in> set [[], ''auto'', ''default''] then Inr None
           else if kv_bytes_per_element t = None then Inl BadPrecision else Inr (Some t))"

definition kv_precision_device_supported :: "string option \<Rightarrow> bool" where
  "kv_precision_device_supported device =
     (let t = py_upper (py_strip (case device of None \<Rightarrow> [] | Some d \<Rightarrow> d))
      in if t = [] \<or> CHR '':'' \<in> set t \<or> CHR '','' \<in> set t then False
         else hd (py_split1 (CHR ''.'') t) \<in> set [''CPU'', ''GPU''])"

definition effective_kv_bytes :: "string option \<Rightarrow> string option \<Rightarrow> rat" where
  "effective_kv_bytes precision device =
     (if device \<noteq> None \<and> \<not> kv_precision_device_supported device then 2
      else case kv_bytes_per_element (py_lower (case precision of None \<Rightarrow> [] | Some p \<Rightarrow> p)) of
        Some b \<Rightarrow> b | None \<Rightarrow> 2)"

text \<open>\<open>round(x, 3)\<close> of an exact value: to the nearest thousandth, ties to the even one.\<close>

definition round3 :: "rat \<Rightarrow> rat" where
  "round3 x = (let y = x * 1000; f = \<lfloor>y\<rfloor>; d = y - of_int f
     in of_int (if d < 1 / 2 then f else if d > 1 / 2 then f + 1 else if even f then f else f + 1) / 1000)"

definition kv_cache_gib :: "json \<Rightarrow> int \<Rightarrow> string option \<Rightarrow> rat option" where
  "kv_cache_gib metadata context precision =
     (let layers = positive_int (get metadata ''num_hidden_layers'');
          heads = (case positive_int (get metadata ''num_key_value_heads'') of
              Some h \<Rightarrow> Some h | None \<Rightarrow> positive_int (get metadata ''num_attention_heads''));
          head_dim = (case positive_int (get metadata ''head_dim'') of
              Some d \<Rightarrow> Some d
            | None \<Rightarrow>
                (case (positive_int (get metadata ''hidden_size''), positive_int (get metadata ''num_attention_heads'')) of
                   (Some hidden, Some ah) \<Rightarrow> if hidden mod ah = 0 then Some (hidden div ah) else None
                 | _ \<Rightarrow> None))
      in case (layers, heads, head_dim) of
           (Some l, Some h, Some d) \<Rightarrow>
             if d = 0 then None
             else Some (round3 (of_int (context * 2 * l * h * d) * effective_kv_bytes precision None / 1024 ^ 3))
         | _ \<Rightarrow> None)"

section \<open>What the editors offer\<close>

record context_option =
  opt_tokens :: int
  opt_class :: string
  fp16_estimate :: "rat option"
  kv_estimate :: "rat option"

definition kv_estimates :: "model_config \<Rightarrow> json \<Rightarrow> int \<Rightarrow> string option \<Rightarrow> rat option \<times> rat option" where
  "kv_estimates cfg metadata v device =
     (let effective = (if device = None \<or> kv_precision_device_supported device
            then kv_cache_precision cfg else None)
      in (kv_cache_gib metadata v (Some ''f16''), kv_cache_gib metadata v effective))"

definition make_option :: "model_config \<Rightarrow> json \<Rightarrow> string option \<Rightarrow> string \<Rightarrow> int \<Rightarrow> context_option" where
  "make_option cfg metadata device cls v =
     \<lparr>opt_tokens = v, opt_class = cls, fp16_estimate = fst (kv_estimates cfg metadata v device),
      kv_estimate = snd (kv_estimates cfg metadata v device)\<rparr>"

definition accepts :: "model_config \<Rightarrow> json \<Rightarrow> int \<Rightarrow> bool" where
  "accepts cfg metadata v \<longleftrightarrow> validate_context cfg (JInt v) metadata = Inr ()"

definition option_candidates :: "model_config \<Rightarrow> json \<Rightarrow> int list" where
  "option_candidates cfg metadata =
     sort (remdups [max_context_len cfg, recommended_context cfg, snd (context_bounds cfg metadata),
       512, 1024, 2048, 4096, 8192, 16384, 32768, 65536, 131072, 262144])"

definition classify :: "model_config \<Rightarrow> int \<Rightarrow> string" where
  "classify cfg v = (if v = recommended_context cfg then ''recommended''
     else if v < recommended_context cfg then ''lower-memory'' else ''eligible-unverified'')"

definition context_options :: "model_config \<Rightarrow> json \<Rightarrow> string option \<Rightarrow> context_option list" where
  "context_options cfg metadata device =
     (let options = map (\<lambda>v. make_option cfg metadata device (classify cfg v) v)
            (filter (accepts cfg metadata) (option_candidates cfg metadata))
      in if backend cfg \<noteq> ''openvino-embeddings'' \<and> max_context_len cfg \<notin> set (map opt_tokens options)
         then sort_key opt_tokens
                (options @ [make_option cfg metadata device ''existing-unverified'' (max_context_len cfg)])
         else options)"

record preset =
  preset_tokens :: int
  is_trial :: bool
  is_recommended :: bool
  is_model_max :: bool
  preset_estimates :: "rat option \<times> rat option"

definition context_presets :: "model_config \<Rightarrow> json \<Rightarrow> string option \<Rightarrow> preset list" where
  "context_presets cfg metadata device =
     (if \<not> is_configurable cfg then []
      else
        let upper = snd (context_bounds cfg metadata); verified = (model_limit metadata \<noteq> None);
            vals = sort (remdups (standard_presets @ (if verified then [upper] else [])))
        in map (\<lambda>v. \<lparr>preset_tokens = v, is_trial = v > recommended_context cfg,
                      is_recommended = (v = recommended_context cfg),
                      is_model_max = (verified \<and> v = upper),
                      preset_estimates = kv_estimates cfg metadata v device\<rparr>)
             (filter (accepts cfg metadata) vals))"

definition kv_cache_precision_options :: "string option \<Rightarrow> (string \<times> bool \<times> rat option) list" where
  "kv_cache_precision_options device =
     (let supported = (device = None \<or> kv_precision_device_supported device)
      in map (\<lambda>v. (v, v = ''auto'' \<or> supported, kv_bytes_per_element v)) kv_cache_precisions)"

section \<open>Properties\<close>

lemma min_opt_in: "min_opt vs = Some m \<Longrightarrow> Some m \<in> set vs"
  by (induction vs arbitrary: m rule: min_opt.induct) (auto simp: min_def split: option.splits if_splits)

lemma model_limit_range: "model_limit metadata = Some l \<Longrightarrow> 0 < l \<and> l \<le> max_context"
  by (auto simp: model_limit_def positive_int_def split: json.splits if_splits dest!: min_opt_in)

lemma accepts_bounds:
  "accepts cfg metadata v \<longleftrightarrow>
     is_configurable cfg \<and> fst (context_bounds cfg metadata) \<le> v \<and> v \<le> snd (context_bounds cfg metadata)"
  using model_limit_range [of metadata]
  by (auto simp: accepts_def validate_context_def context_bounds_def is_configurable_def min_context_def
      split: option.splits)

text \<open>The bounds an editor shows are exact: a context length is accepted by validation if
  and only if the model is configurable and the length lies between them.\<close>

lemma context_bounds_exact:
  "validate_context cfg (JInt v) metadata = Inr () \<longleftrightarrow>
     is_configurable cfg \<and> fst (context_bounds cfg metadata) \<le> v \<and> v \<le> snd (context_bounds cfg metadata)"
  using accepts_bounds by (simp only: accepts_def)

lemma make_option_tokens [simp]: "opt_tokens (make_option cfg metadata device cls v) = v"
  by (simp add: make_option_def)

text \<open>The options offered are increasing and distinct; each is accepted by validation,
  except the currently configured length, which is always listed for a chat model even when
  the model's architecture no longer allows it.\<close>

lemma context_options_sound:
  "sorted_wrt (<) (map opt_tokens (context_options cfg metadata device)) \<and>
   list_all (\<lambda>opt. accepts cfg metadata (opt_tokens opt) \<or> opt_tokens opt = max_context_len cfg)
     (context_options cfg metadata device) \<and>
   (is_configurable cfg = (max_context_len cfg \<in> set (map opt_tokens (context_options cfg metadata device))))"
proof -
  let ?vals = "filter (accepts cfg metadata) (option_candidates cfg metadata)"
  let ?opts = "map (\<lambda>v. make_option cfg metadata device (classify cfg v) v) ?vals"
  have tokens: "map opt_tokens ?opts = ?vals" by (simp add: comp_def)
  have "sorted (option_candidates cfg metadata)" "distinct (option_candidates cfg metadata)"
    unfolding option_candidates_def by (simp_all only: sorted_sort distinct_sort distinct_remdups)
  then have sorted: "sorted ?vals" "distinct ?vals"
    using sorted_filter [of "\<lambda>v. v" "option_candidates cfg metadata"] by simp_all
  have whole: "context_options cfg metadata device =
      (if is_configurable cfg \<and> max_context_len cfg \<notin> set (map opt_tokens ?opts)
       then sort_key opt_tokens (?opts @ [make_option cfg metadata device ''existing-unverified'' (max_context_len cfg)])
       else ?opts)"
    by (simp only: context_options_def Let_def is_configurable_def)
  have none: "?vals = []" if "\<not> is_configurable cfg"
    using that accepts_bounds by (simp add: filter_empty_conv)
  show ?thesis
  proof (cases "is_configurable cfg \<and> max_context_len cfg \<notin> set ?vals")
    case True
    let ?new = "make_option cfg metadata device ''existing-unverified'' (max_context_len cfg)"
    have opts: "context_options cfg metadata device = sort_key opt_tokens (?opts @ [?new])"
      using True by (simp only: whole tokens simp_thms if_True)
    have "distinct (map opt_tokens (?opts @ [?new]))" using True sorted(2) tokens by simp
    then have "distinct (map opt_tokens (context_options cfg metadata device))"
      unfolding opts by (simp only: distinct_map distinct_sort set_sort)
    moreover have "sorted (map opt_tokens (context_options cfg metadata device))"
      unfolding opts by (rule sorted_sort_key)
    moreover have "set (context_options cfg metadata device) = insert ?new (set ?opts)"
      unfolding opts by simp
    ultimately show ?thesis
      using True by (simp add: strict_sorted_iff list_all_iff)
  next
    case False
    then have opts: "context_options cfg metadata device = ?opts"
      by (simp only: whole tokens if_False)
    have "is_configurable cfg = (max_context_len cfg \<in> set ?vals)"
      using False none accepts_bounds [of cfg metadata] by auto
    then show ?thesis
      unfolding opts tokens using sorted by (simp add: strict_sorted_iff list_all_iff)
  qed
qed

end
