(* ===== verification/Tools.thy ===== *)
theory Tools
  imports ChatFormat
begin

text \<open>
  \<open>app/tools.py\<close>: tool calling by prompt. The section of the system prompt that describes the
  tools, and the way back: JSON candidates are collected from the model's text with their
  spans, overlapping ones are dropped, and the text outside the accepted spans is what the
  user sees. The JSON decoder is a parameter; it may fail with a \<open>JSONDecodeError\<close>, which the code
  catches, or with another exception (a recursion too deep, an integer with too many digits).
\<close>

section \<open>The prompt\<close>

record tool_definition =
  tool_type :: string
  tool_name :: string
  tool_description :: "string option"
  tool_parameters :: "(string \<times> json) list option"

datatype tool_error =
    NoMatchingTool | UnknownFunction string | ToolAttributeError | EscapedDecoderError

definition empty_parameters :: json where
  "empty_parameters = JObj [(''type'', JStr ''object''), (''properties'', JObj [])]"

text \<open>\<open>tool.function.parameters or {...}\<close>: an empty dict counts as missing.\<close>

definition tool_json :: "tool_definition \<Rightarrow> json" where
  "tool_json t =
     JObj [(''type'', JStr (tool_type t)),
       (''function'', JObj
         [(''name'', JStr (tool_name t)),
          (''description'', JStr (case tool_description t of None \<Rightarrow> [] | Some d \<Rightarrow> d)),
          (''parameters'', case tool_parameters t of
              None \<Rightarrow> empty_parameters | Some kvs \<Rightarrow> if kvs = [] then empty_parameters else JObj kvs)])]"

text \<open>\<open>tool_choice.get("function", {}).get("name")\<close>; \<open>None\<close> when the inner value has no \<open>get\<close>.\<close>

definition chosen_function :: "json \<Rightarrow> json option" where
  "chosen_function choice =
     (let f = get_or choice ''function'' (JObj []) in if is_obj f then Some (get f ''name'') else None)"

datatype tool_policy = CallThis string | CallSome | CallFreely

definition forced_tools ::
  "tool_definition list \<Rightarrow> json \<Rightarrow> (tool_error, tool_policy \<times> tool_definition list) result" where
  "forced_tools tools choice =
     (if is_obj choice \<and> get choice ''type'' = JStr ''function''
      then (case chosen_function choice of
          None \<Rightarrow> Inl ToolAttributeError
        | Some name \<Rightarrow>
            if \<not> truthy name then Inr (CallFreely, tools)
            else let matching = filter (\<lambda>t. JStr (tool_name t) = name) tools
                 in if matching = [] then Inl (UnknownFunction (py_str name))
                    else Inr (CallThis (py_str name), matching))
      else if choice = JStr ''required'' then Inr (CallSome, tools)
      else Inr (CallFreely, tools))"

definition instruction :: "tool_policy \<Rightarrow> string" where
  "instruction p =
     (case p of
        CallThis name \<Rightarrow> ''You MUST call the '' @ [CHR 0x27] @ name @ [CHR 0x27]
          @ '' function. Do not respond with anything else.''
      | CallSome \<Rightarrow> ''You MUST call at least one of the available tools. Do not respond without calling a tool.''
      | CallFreely \<Rightarrow> ''Use the tools when needed. If you don'' @ [CHR 0x27]
          @ ''t need a tool, respond normally.'')"

definition prompt_text :: "string \<Rightarrow> string \<Rightarrow> string" where
  "prompt_text instr tools_str =
     py_join [CHR 0x0A]
       [''You are a helpful assistant with access to the following tools. '' @ instr, [],
        ''# Available Tools'', [], tools_str, [],
        ''# Tool Call Format'', [],
        ''When you need to call a tool, respond with a JSON object in this EXACT format:'',
        ''{\"name\": \"function_name\", \"arguments\": {\"arg1\": \"value1\"}}'', [],
        ''For multiple tool calls, use a JSON array:'',
        ''[{\"name\": \"func1\", \"arguments\": {}}, {\"name\": \"func2\", \"arguments\": {}}]'', [],
        ''IMPORTANT: Output ONLY the JSON when calling tools, no other text.'']"

text \<open>The indenting \<open>json.dumps(..., indent=2)\<close> is the argument \<open>dumps_indented\<close>.\<close>

definition format_tools_for_prompt ::
  "(json \<Rightarrow> string) \<Rightarrow> tool_definition list option \<Rightarrow> json \<Rightarrow> (tool_error, string) result" where
  "format_tools_for_prompt dumps_indented tools choice =
     (if choice = JStr ''none'' then Inr []
      else case tools of
          Some (t # ts) \<Rightarrow>
            bindr (forced_tools (t # ts) choice) (\<lambda>(policy, shown).
              Inr (prompt_text (instruction policy) (dumps_indented (JList (map tool_json shown)))))
        | _ \<Rightarrow> if choice = JStr ''required'' \<or> is_obj choice then Inl NoMatchingTool else Inr [])"

section \<open>Tool calls in parsed JSON\<close>

datatype decode_error = JSONDecodeError | OtherDecoderError

record decoder =
  loads_text :: "string \<Rightarrow> (decode_error, json) result"
  raw_decode :: "string \<Rightarrow> nat \<Rightarrow> (decode_error, json \<times> nat) result"
  dumps_compact :: "json \<Rightarrow> string"   \<comment> \<open>\<open>json.dumps(..., separators=(",", ":"))\<close>\<close>

definition arguments_to_json_string :: "decoder \<Rightarrow> json \<Rightarrow> (tool_error, string) result" where
  "arguments_to_json_string dec arguments =
     (case arguments of
        JNull \<Rightarrow> Inr ''{}''
      | JStr s \<Rightarrow>
          let stripped = py_strip s
          in if stripped = [] then Inr (dumps_compact dec arguments)
             else (case loads_text dec stripped of
                 Inr _ \<Rightarrow> Inr stripped
               | Inl JSONDecodeError \<Rightarrow> Inr (dumps_compact dec arguments)
               | Inl OtherDecoderError \<Rightarrow> Inl EscapedDecoderError)
      | _ \<Rightarrow> Inr (dumps_compact dec arguments))"

fun tool_items_from_json :: "decoder \<Rightarrow> json \<Rightarrow> (tool_error, (string \<times> string) list) result"
  and tool_items_of_list :: "decoder \<Rightarrow> json list \<Rightarrow> (tool_error, (string \<times> string) list) result" where
  "tool_items_from_json dec (JList xs) = tool_items_of_list dec xs"
| "tool_items_from_json dec (JObj kvs) =
     (let v = JObj kvs; f = get v ''function''
      in if has_key v ''name''
         then bindr (arguments_to_json_string dec (get_or v ''arguments'' (JObj [])))
                (\<lambda>a. Inr [(py_str (get v ''name''), a)])
         else if is_obj f \<and> has_key f ''name''
         then bindr (arguments_to_json_string dec
                  (get_or f ''arguments'' (get_or v ''arguments'' (JObj []))))
                (\<lambda>a. Inr [(py_str (get f ''name''), a)])
         else Inr [])"
| "tool_items_from_json dec _ = Inr []"
| "tool_items_of_list dec [] = Inr []"
| "tool_items_of_list dec (x # xs) =
     bindr (tool_items_from_json dec x) (\<lambda>a. bindr (tool_items_of_list dec xs) (\<lambda>b. Inr (a @ b)))"

section \<open>Candidates\<close>

text \<open>
  One match of the fence pattern from position \<open>p\<close>: the opening fence, an optional \<open>json\<close>, white
  space, the shortest body before the next fence, without its trailing white space. A body contains
  no fence, so when none follows, no later opening fence can match either.
\<close>

definition fence :: string where "fence = [CHR 0x60, CHR 0x60, CHR 0x60]"

definition after_opening :: "string \<Rightarrow> nat \<Rightarrow> nat" where
  "after_opening s q =
     (let q1 = (if py_lower (take 4 (drop q s)) = ''json'' then q + 4 else q)
      in q1 + length (takeWhile py_space (drop q1 s)))"

definition next_fence :: "string \<Rightarrow> nat \<Rightarrow> (nat \<times> nat \<times> string) option" where
  "next_fence s p =
     (case py_find (drop p s) fence of
        None \<Rightarrow> None
      | Some i \<Rightarrow>
          let start = p + i; q = after_opening s (start + 3)
          in (case py_find (drop q s) fence of
                None \<Rightarrow> None
              | Some j \<Rightarrow> Some (start, q + j + 3, py_rstrip (take j (drop q s)))))"

lemma after_opening_ge: "q \<le> after_opening s q"
  by (simp add: after_opening_def Let_def)

lemma py_find_end: "py_find t sub = Some i \<Longrightarrow> i + length sub \<le> length t"
  using py_find_Some [of t sub i] by (auto dest: prefix_length_le)

lemma next_fence_forward:
  assumes "next_fence s p = Some (a, b, body)"
  shows "p \<le> a \<and> a + 6 \<le> b \<and> b \<le> length s"
proof -
  from assms obtain i j where i: "py_find (drop p s) fence = Some i" and a: "a = p + i"
    and j: "py_find (drop (after_opening s (a + 3)) s) fence = Some j" and b: "b = after_opening s (a + 3) + j + 3"
    by (auto simp: next_fence_def Let_def split: option.splits)
  with after_opening_ge [of "a + 3" s] py_find_end [OF j] show ?thesis by (simp add: fence_def)
qed

function fenced_blocks :: "string \<Rightarrow> nat \<Rightarrow> (nat \<times> nat \<times> string) list" where
  "fenced_blocks s p =
     (case next_fence s p of
        None \<Rightarrow> []
      | Some (a, b, body) \<Rightarrow> (a, b, body) # fenced_blocks s b)"
  by pat_completeness auto
termination
  by (relation "measure (\<lambda>(s, p). length s - p)") (auto dest!: next_fence_forward)

declare fenced_blocks.simps [simp del]

definition fenced_candidate ::
  "decoder \<Rightarrow> nat \<times> nat \<times> string \<Rightarrow> (tool_error, (nat \<times> nat \<times> json) list) result" where
  "fenced_candidate dec m =
     (case m of (a, b, body) \<Rightarrow>
        (case loads_text dec (py_strip body) of
           Inr v \<Rightarrow> Inr [(a, b, v)]
         | Inl JSONDecodeError \<Rightarrow> Inr []
         | Inl OtherDecoderError \<Rightarrow> Inl EscapedDecoderError))"

definition inline_candidate :: "decoder \<Rightarrow> string \<Rightarrow> nat \<Rightarrow> (tool_error, (nat \<times> nat \<times> json) list) result" where
  "inline_candidate dec s idx =
     (if s ! idx \<notin> {CHR ''{'', CHR ''[''} then Inr []
      else (case raw_decode dec s idx of
          Inr (v, b) \<Rightarrow> Inr [(idx, b, v)]
        | Inl JSONDecodeError \<Rightarrow> Inr []
        | Inl OtherDecoderError \<Rightarrow> Inl EscapedDecoderError))"

fun gather :: "('a \<Rightarrow> (tool_error, 'b list) result) \<Rightarrow> 'a list \<Rightarrow> (tool_error, 'b list) result" where
  "gather f [] = Inr []"
| "gather f (x # xs) = bindr (f x) (\<lambda>a. bindr (gather f xs) (\<lambda>b. Inr (a @ b)))"

text \<open>The sort key \<open>(start, -(end - start))\<close>: two stable sorts, the less significant one first.\<close>

definition candidate_order :: "(nat \<times> nat \<times> json) list \<Rightarrow> (nat \<times> nat \<times> json) list" where
  "candidate_order cs = sort_key (\<lambda>(a, b, v). a) (sort_key (\<lambda>(a, b, v). - (int b - int a)) cs)"

definition json_candidates :: "decoder \<Rightarrow> string \<Rightarrow> (tool_error, (nat \<times> nat \<times> json) list) result" where
  "json_candidates dec s =
     bindr (gather (fenced_candidate dec) (fenced_blocks s 0)) (\<lambda>fenced.
       bindr (gather (inline_candidate dec s) [0..<length s]) (\<lambda>inline.
         Inr (candidate_order (fenced @ inline))))"

section \<open>Removing the accepted spans\<close>

definition span_is_contained :: "nat \<times> nat \<Rightarrow> (nat \<times> nat) list \<Rightarrow> bool" where
  "span_is_contained sp accepted \<longleftrightarrow> list_ex (\<lambda>(a, b). a \<le> fst sp \<and> snd sp \<le> b) accepted"

text \<open>\<open>sorted(spans)\<close> orders pairs by their start and then by their end.\<close>

definition sorted_spans :: "(nat \<times> nat) list \<Rightarrow> (nat \<times> nat) list" where
  "sorted_spans spans = sort_key fst (sort_key snd spans)"

text \<open>The list \<open>merged\<close> is kept with its last element first.\<close>

definition merge_span :: "(nat \<times> nat) list \<Rightarrow> nat \<times> nat \<Rightarrow> (nat \<times> nat) list" where
  "merge_span merged sp =
     (case merged of
        [] \<Rightarrow> [sp]
      | (a, b) # rest \<Rightarrow> if fst sp > b then sp # merged else (a, max b (snd sp)) # rest)"

fun keep_outside :: "string \<Rightarrow> nat \<Rightarrow> (nat \<times> nat) list \<Rightarrow> string" where
  "keep_outside s cursor [] = drop cursor s"
| "keep_outside s cursor ((a, b) # rest) = take (a - cursor) (drop cursor s) @ keep_outside s b rest"

definition remove_spans :: "string \<Rightarrow> (nat \<times> nat) list \<Rightarrow> string" where
  "remove_spans s spans =
     (if spans = [] then s else keep_outside s 0 (rev (foldl merge_span [] (sorted_spans spans))))"

section \<open>Parsing the output\<close>

record tool_call =
  call_id :: string
  call_name :: string
  call_arguments :: string

definition call_key :: "string \<Rightarrow> string \<Rightarrow> string" where
  "call_key name arguments = name @ '':'' @ arguments"

text \<open>
  The inner function \<open>add\<close>; \<open>hexid n\<close> is the text of the n-th identifier drawn, and the state is the
  list of calls with the set \<open>seen\<close> of their keys.
\<close>

definition add_call ::
  "(nat \<Rightarrow> string) \<Rightarrow> string list \<Rightarrow> string \<times> string \<Rightarrow> tool_call list \<times> string list \<Rightarrow> bool \<times> tool_call list \<times> string list"
  where
  "add_call hexid valid_names item st =
     (let (name, arguments) = item; (calls, seen) = st; key = call_key name arguments
      in if valid_names \<noteq> [] \<and> name \<notin> set valid_names then (False, st)
         else if key \<in> set seen then (False, st)
         else (True, calls @ [\<lparr>call_id = ''call-'' @ take 12 (hexid (length calls)), call_name = name,
                call_arguments = arguments\<rparr>], key # seen))"

fun add_items ::
  "(nat \<Rightarrow> string) \<Rightarrow> string list \<Rightarrow> (string \<times> string) list \<Rightarrow> tool_call list \<times> string list \<Rightarrow> bool \<times> tool_call list \<times> string list"
  where
  "add_items hexid names [] st = (False, st)"
| "add_items hexid names (it # its) st =
     (let (here, st') = add_call hexid names it st; (later, st'') = add_items hexid names its st'
      in (here \<or> later, st''))"

fun accept_candidates ::
  "decoder \<Rightarrow> (nat \<Rightarrow> string) \<Rightarrow> string list \<Rightarrow> (nat \<times> nat \<times> json) list \<Rightarrow>
     (tool_call list \<times> string list) \<times> (nat \<times> nat) list \<Rightarrow>
     (tool_error, (tool_call list \<times> string list) \<times> (nat \<times> nat) list) result" where
  "accept_candidates dec hexid names [] acc = Inr acc"
| "accept_candidates dec hexid names ((a, b, v) # cs) (st, spans) =
     (if span_is_contained (a, b) spans then accept_candidates dec hexid names cs (st, spans)
      else bindr (tool_items_from_json dec v) (\<lambda>items.
        let (added, st') = add_items hexid names items st
        in accept_candidates dec hexid names cs (st', if added then spans @ [(a, b)] else spans)))"

text \<open>\<open>re.sub(r"\s+", " ", text).strip()\<close>.\<close>

definition collapse_space :: "string \<Rightarrow> string" where
  "collapse_space s = py_join '' '' (py_words s)"

definition valid_names :: "tool_definition list option \<Rightarrow> string list" where
  "valid_names tools = (case tools of None \<Rightarrow> [] | Some ts \<Rightarrow> map tool_name ts)"

definition parse_tool_calls ::
  "decoder \<Rightarrow> (nat \<Rightarrow> string) \<Rightarrow> string \<Rightarrow> tool_definition list option \<Rightarrow>
     (tool_error, string \<times> tool_call list) result" where
  "parse_tool_calls dec hexid s tools =
     bindr (json_candidates dec s) (\<lambda>cs.
       bindr (accept_candidates dec hexid (valid_names tools) cs (([], []), [])) (\<lambda>((calls, seen), spans).
         Inr (collapse_space (remove_spans s spans), calls)))"

definition detect_incomplete_tool_call :: "string \<Rightarrow> bool" where
  "detect_incomplete_tool_call s \<longleftrightarrow>
     (py_in ''{\"name\"'' s \<or> py_in ''[{'' s) \<and>
     (count_list s (CHR ''{'') > count_list s (CHR ''}'') \<or> count_list s (CHR ''['') > count_list s (CHR '']''))"

section \<open>What is left of the text\<close>

definition covered :: "(nat \<times> nat) list \<Rightarrow> nat \<Rightarrow> bool" where
  "covered spans i \<longleftrightarrow> (\<exists>(a, b) \<in> set spans. a \<le> i \<and> i < b)"

definition characters_outside :: "string \<Rightarrow> (nat \<times> nat) list \<Rightarrow> nat \<Rightarrow> string" where
  "characters_outside s spans c = map ((!) s) (filter (\<lambda>i. \<not> covered spans i) [c..<length s])"

fun chained :: "nat \<Rightarrow> nat \<Rightarrow> (nat \<times> nat) list \<Rightarrow> bool" where
  "chained n c [] \<longleftrightarrow> c \<le> n"
| "chained n c ((a, b) # rest) \<longleftrightarrow> c \<le> a \<and> a \<le> b \<and> b \<le> n \<and> chained n b rest"

lemma covered_simps [simp]:
  "\<not> covered [] i" "covered ((a, b) # rest) i \<longleftrightarrow> a \<le> i \<and> i < b \<or> covered rest i"
  by (auto simp: covered_def)

lemma chained_starts: "chained n c spans \<Longrightarrow> covered spans i \<Longrightarrow> c \<le> i"
  by (induction n c spans rule: chained.induct) auto

lemma slice_nth: "c \<le> a \<Longrightarrow> a \<le> length s \<Longrightarrow> take (a - c) (drop c s) = map ((!) s) [c..<a]"
  by (rule nth_equalityI) auto

lemma keep_outside_eq: "chained (length s) c spans \<Longrightarrow> keep_outside s c spans = characters_outside s spans c"
proof (induction "length s" c spans rule: chained.induct)
  case (1 c)
  then show ?case using slice_nth [of c "length s" s] by (simp add: characters_outside_def)
next
  case (2 c a b rest)
  then have le: "c \<le> a" "a \<le> b" "b \<le> length s" and rest: "chained (length s) b rest" by auto
  have split: "[c..<length s] = [c..<a] @ [a..<b] @ [b..<length s]"
    using le upt_add_eq_append [of c a "length s - a"] upt_add_eq_append [of a b "length s - b"] by simp
  have before: "filter (\<lambda>i. \<not> covered ((a, b) # rest) i) [c..<a] = [c..<a]"
    using le by (auto intro!: filter_True dest!: chained_starts [OF rest])
  have inside: "filter (\<lambda>i. \<not> covered ((a, b) # rest) i) [a..<b] = []"
    by (auto intro!: filter_False)
  have after: "filter (\<lambda>i. \<not> covered ((a, b) # rest) i) [b..<length s] = filter (\<lambda>i. \<not> covered rest i) [b..<length s]"
    by (rule filter_cong) auto
  show ?case
    using 2 le slice_nth [of c a s]
    by (simp only: keep_outside.simps characters_outside_def split filter_append before inside after map_append)
      (simp add: characters_outside_def)
qed

definition merged_ok :: "nat \<Rightarrow> (nat \<times> nat) list \<Rightarrow> bool" where
  "merged_ok n ms \<longleftrightarrow> (\<forall>(a, b) \<in> set ms. a \<le> b \<and> b \<le> n) \<and> sorted_wrt (\<lambda>x y. snd y < fst x) ms"

lemma merged_ok_simps [simp]:
  "merged_ok n []"
  "merged_ok n ((a, b) # ms) \<longleftrightarrow> a \<le> b \<and> b \<le> n \<and> (\<forall>x \<in> set ms. snd x < a) \<and> merged_ok n ms"
  by (auto simp: merged_ok_def)

lemma merge_span_simps [simp]:
  "merge_span [] sp = [sp]"
  "merge_span ((a, b) # rest) (p, q) = (if p > b then (p, q) # (a, b) # rest else (a, max b q) # rest)"
  by (simp_all add: merge_span_def)

lemma merge_span_ok:
  assumes "merged_ok n ms" and "p \<le> q" and "q \<le> n" and "ms \<noteq> [] \<Longrightarrow> fst (hd ms) \<le> p"
  shows "merged_ok n (merge_span ms (p, q))"
    and "covered (merge_span ms (p, q)) i \<longleftrightarrow> covered ms i \<or> p \<le> i \<and> i < q"
    and "fst (hd (merge_span ms (p, q))) \<le> p"
  using assms by (cases ms; force)+

lemma merged_spans:
  assumes "\<forall>(a, b) \<in> set spans. a \<le> b \<and> b \<le> n" and "sorted (map fst spans)"
    and "merged_ok n ms" and "ms \<noteq> [] \<Longrightarrow> spans \<noteq> [] \<Longrightarrow> fst (hd ms) \<le> fst (hd spans)"
  shows "merged_ok n (foldl merge_span ms spans) \<and>
    covered (foldl merge_span ms spans) i = (covered ms i \<or> covered spans i)"
  using assms
proof (induction spans arbitrary: ms)
  case (Cons sp spans)
  obtain p q where sp: "sp = (p, q)" by fastforce
  have pre: "p \<le> q" "q \<le> n" "ms \<noteq> [] \<Longrightarrow> fst (hd ms) \<le> p" using Cons.prems sp by auto
  note step = merge_span_ok [OF Cons.prems(3) pre]
  have later: "fst (hd (merge_span ms (p, q))) \<le> fst (hd spans)" if "spans \<noteq> []"
    using step(3) Cons.prems(2) sp that by (cases spans) (auto intro: order_trans)
  have "merged_ok n (foldl merge_span (merge_span ms (p, q)) spans) \<and>
    covered (foldl merge_span (merge_span ms (p, q)) spans) i = (covered (merge_span ms (p, q)) i \<or> covered spans i)"
    by (rule Cons.IH [OF _ _ step(1)]) (use Cons.prems later in auto)
  with step(2) [of i] sp show ?case by auto
qed simp

lemma merged_chained: "merged_ok n ms \<Longrightarrow> chained n 0 (rev ms)"
proof -
  have "chained n c xs"
    if "\<forall>(a, b) \<in> set xs. a \<le> b \<and> b \<le> n \<and> c \<le> a" "sorted_wrt (\<lambda>x y. snd x < fst y) xs" "c \<le> n" for c xs
    using that
  proof (induction xs arbitrary: c)
    case (Cons x xs)
    then show ?case by (cases x) (auto simp: less_imp_le intro!: Cons.IH)
  qed simp
  moreover assume "merged_ok n ms"
  ultimately show ?thesis by (auto simp: merged_ok_def sorted_wrt_rev)
qed

text \<open>C23: the text that is kept is exactly the characters outside the accepted spans, in their order,
  however the spans overlap or touch.\<close>

theorem remove_spans_keeps_the_rest:
  assumes "\<forall>(a, b) \<in> set spans. a \<le> b \<and> b \<le> length s"
  shows "remove_spans s spans = map ((!) s) (filter (\<lambda>i. \<not> (\<exists>(a, b) \<in> set spans. a \<le> i \<and> i < b)) [0..<length s])"
proof -
  let ?ss = "sorted_spans spans"
  have set: "set ?ss = set spans" and sorted: "sorted (map fst ?ss)" by (simp_all add: sorted_spans_def)
  have merged: "merged_ok (length s) (foldl merge_span [] ?ss)"
    and cov: "covered (foldl merge_span [] ?ss) i = covered spans i" for i
    using merged_spans [of ?ss "length s" "[]" i] assms sorted set
    by (auto simp: merged_ok_def covered_def)
  have "keep_outside s 0 (rev (foldl merge_span [] ?ss)) = characters_outside s (rev (foldl merge_span [] ?ss)) 0"
    by (rule keep_outside_eq [OF merged_chained [OF merged]])
  also have "\<dots> = map ((!) s) (filter (\<lambda>i. \<not> covered spans i) [0..<length s])"
    using cov by (simp add: characters_outside_def covered_def)
  finally have "remove_spans s spans = map ((!) s) (filter (\<lambda>i. \<not> covered spans i) [0..<length s])"
    by (auto simp: remove_spans_def map_nth)
  then show ?thesis by (simp add: covered_def)
qed

lemma remove_spans_keeps_the_rest_witness:
  "remove_spans ''abcdef'' [(3, 5), (0, 1), (1, 2)] = ''cf''"
  using remove_spans_keeps_the_rest [of "[(3, 5), (0, 1), (1, 2)]" "''abcdef''"]
  by (simp add: upt_rec)

section \<open>The calls\<close>

text \<open>What \<open>json.dumps\<close> prints can be read again, the empty object included.\<close>

definition reads_back :: "decoder \<Rightarrow> bool" where
  "reads_back dec \<longleftrightarrow>
     (\<forall>v. \<exists>w. loads_text dec (dumps_compact dec v) = Inr w) \<and> (\<exists>w. loads_text dec ''{}'' = Inr w)"

lemma arguments_readable:
  assumes "reads_back dec" and "arguments_to_json_string dec v = Inr a"
  shows "\<exists>w. loads_text dec a = Inr w"
  using assms
  by (auto simp: arguments_to_json_string_def reads_back_def Let_def
      split: json.splits if_splits sum.splits decode_error.splits)

lemma items_readable:
  "reads_back dec \<Longrightarrow> tool_items_from_json dec v = Inr items \<Longrightarrow> (n, a) \<in> set items \<Longrightarrow>
     \<exists>w. loads_text dec a = Inr w"
  "reads_back dec \<Longrightarrow> tool_items_of_list dec vs = Inr items' \<Longrightarrow> (n, a) \<in> set items' \<Longrightarrow>
     \<exists>w. loads_text dec a = Inr w"
proof (induction dec v and dec vs arbitrary: items and items' rule: tool_items_from_json_tool_items_of_list.induct)
qed (auto simp: bindr_eq_Inr Let_def intro: arguments_readable split: if_splits)

definition calls_ok :: "decoder \<Rightarrow> string list \<Rightarrow> tool_call list \<times> string list \<Rightarrow> bool" where
  "calls_ok dec names st \<longleftrightarrow>
     (\<forall>c \<in> set (fst st). (names \<noteq> [] \<longrightarrow> call_name c \<in> set names) \<and> (\<exists>w. loads_text dec (call_arguments c) = Inr w)
        \<and> call_key (call_name c) (call_arguments c) \<in> set (snd st)) \<and>
     distinct (map (\<lambda>c. call_key (call_name c) (call_arguments c)) (fst st))"

lemma add_call_ok:
  assumes "calls_ok dec names st" and "\<exists>w. loads_text dec (snd item) = Inr w"
  shows "calls_ok dec names (snd (add_call hexid names item st))"
  using assms by (auto simp: calls_ok_def add_call_def Let_def split: prod.splits)

lemma add_items_ok:
  assumes "calls_ok dec names st" and "\<forall>(n, a) \<in> set items. \<exists>w. loads_text dec a = Inr w"
  shows "calls_ok dec names (snd (add_items hexid names items st))"
  using assms
proof (induction items arbitrary: st)
  case (Cons it its)
  then have "calls_ok dec names (snd (add_call hexid names it st))" by (intro add_call_ok) auto
  from Cons.IH [OF this] Cons.prems show ?case by (auto simp: Let_def split: prod.split)
qed simp

lemma accept_candidates_ok:
  assumes "reads_back dec" and "calls_ok dec names (fst acc)"
    and "accept_candidates dec hexid names cs acc = Inr acc'"
  shows "calls_ok dec names (fst acc')"
  using assms
proof (induction dec hexid names cs acc rule: accept_candidates.induct)
  case (2 dec hexid names a b v cs st spans)
  show ?case
  proof (cases "span_is_contained (a, b) spans")
    case False
    with 2(5) obtain items where items: "tool_items_from_json dec v = Inr items"
      by (auto simp: bindr_eq_Inr)
    obtain added st' where st': "add_items hexid names items st = (added, st')"
      by (cases "add_items hexid names items st")
    have "\<forall>(n, a) \<in> set items. \<exists>w. loads_text dec a = Inr w" using items_readable(1) [OF 2(3) items] by blast
    from add_items_ok [OF _ this, of names st hexid] 2(4) st' have "calls_ok dec names st'" by simp
    with "2.IH"(2) [OF False refl st' [symmetric]] 2(3,5) False items st' show ?thesis by simp
  qed (use 2 in simp)
qed simp

text \<open>C24: every tool call found in the output names an offered tool when tools are offered, carries
  arguments that are JSON text, and no call is reported twice.\<close>

theorem parsed_calls_are_offered:
  assumes "reads_back dec" and "parse_tool_calls dec hexid s tools = Inr (rest, calls)"
  shows "(\<forall>c \<in> set calls. (valid_names tools \<noteq> [] \<longrightarrow> call_name c \<in> set (valid_names tools))
      \<and> (\<exists>v. loads_text dec (call_arguments c) = Inr v))
    \<and> distinct (map (\<lambda>c. (call_name c, call_arguments c)) calls)"
proof -
  from assms(2) obtain cs seen spans
    where "accept_candidates dec hexid (valid_names tools) cs (([], []), []) = Inr ((calls, seen), spans)"
    by (auto simp: parse_tool_calls_def bindr_eq_Inr)
  from accept_candidates_ok [OF assms(1) _ this] have ok: "calls_ok dec (valid_names tools) (calls, seen)"
    by (simp add: calls_ok_def)
  have "map (\<lambda>c. call_key (call_name c) (call_arguments c)) calls
      = map (\<lambda>(n, a). call_key n a) (map (\<lambda>c. (call_name c, call_arguments c)) calls)" by simp
  with ok have "distinct (map (\<lambda>c. (call_name c, call_arguments c)) calls)"
    by (simp only: calls_ok_def fst_conv distinct_map)
  with ok show ?thesis by (auto simp: calls_ok_def)
qed

section \<open>An output that is one call\<close>

lemma gather_ok:
  assumes "\<And>x. x \<in> set xs \<Longrightarrow> \<exists>ys. f x = Inr ys \<and> (\<forall>y \<in> set ys. P y)"
  shows "\<exists>zs. gather f xs = Inr zs \<and> (\<forall>z \<in> set zs. P z)"
  using assms
proof (induction xs)
  case (Cons x xs)
  then obtain zs where "gather f xs = Inr zs" "\<forall>z \<in> set zs. P z" by auto
  moreover from Cons.prems [of x] obtain ys where "f x = Inr ys" "\<forall>y \<in> set ys. P y" by auto
  ultimately show ?case by auto
qed simp

lemma gather_mem: "gather f xs = Inr zs \<Longrightarrow> x \<in> set xs \<Longrightarrow> f x = Inr ys \<Longrightarrow> set ys \<subseteq> set zs"
  by (induction xs arbitrary: zs) (auto simp: bindr_eq_Inr)

lemma fenced_blocks_inside:
  "(a, b, body) \<in> set (fenced_blocks s p) \<Longrightarrow> prefix fence (drop a s) \<and> b \<le> length s"
proof (induction s p rule: fenced_blocks.induct)
  case (1 s p)
  show ?case
  proof (cases "next_fence s p")
    case (Some m)
    obtain a' b' body' where m: "m = (a', b', body')" by (cases m) auto
    with Some have "prefix fence (drop a' s)"
      by (auto simp: next_fence_def Let_def add.commute dest!: py_find_Some split: option.splits)
    with 1 Some m next_fence_forward [of s p a' b' body'] show ?thesis
      by (auto simp: fenced_blocks.simps [of s p])
  qed (use 1 in \<open>simp add: fenced_blocks.simps [of s p]\<close>)
qed

lemma candidate_order_head:
  assumes "x \<in> set cs" and "fst x = 0" and "\<And>y. y \<in> set cs \<Longrightarrow> fst y = 0 \<Longrightarrow> y = x"
  shows "\<exists>rest. candidate_order cs = x # rest \<and> set rest \<subseteq> set cs"
proof -
  let ?f = "\<lambda>(a, b, v). a" and ?ys = "candidate_order cs"
  have set: "set ?ys = set cs" and sorted: "sorted (map ?f ?ys)" by (simp_all add: candidate_order_def)
  obtain y rest where ys: "?ys = y # rest" using assms(1) set by (cases ?ys) auto
  have "?f y \<le> ?f x" using sorted ys assms(1) set by (auto simp: sorted_wrt_map)
  with assms(2) have "fst y = 0" by (auto split: prod.splits)
  with assms(3) [of y] ys set have "y = x" by auto
  with ys set show ?thesis by auto
qed
lemma contained_skipped:
  assumes "\<forall>y \<in> set cs. fst (snd y) \<le> n"
  shows "accept_candidates dec hexid names cs (st, [(0, n)]) = Inr (st, [(0, n)])"
  using assms by (induction cs) (auto simp: span_is_contained_def)

lemma collapse_space_Nil [simp]: "collapse_space [] = []"
  by (simp add: collapse_space_def py_words_def)

text \<open>An output that is one JSON object naming an offered tool is read as that call and nothing is
  left of the text, although every bracket inside it starts a candidate of its own and its
  strings may contain fences.\<close>

lemma whole_call_recovered:
  assumes "raw_decode dec s 0 = Inr (JObj kvs, length s)" and "s = CHR ''{'' # s'"
    and "map_of kvs ''name'' = Some (JStr n)" and "map_of kvs ''arguments'' = Some (JObj args)"
    and "valid_names tools = [] \<or> n \<in> set (valid_names tools)"
    and inside: "\<And>i v b. raw_decode dec s i = Inr (v, b) \<Longrightarrow> b \<le> length s"
    and caught: "\<And>i. raw_decode dec s i \<noteq> Inl OtherDecoderError" "\<And>t. loads_text dec t \<noteq> Inl OtherDecoderError"
  shows "parse_tool_calls dec hexid s tools =
    Inr ([], [\<lparr>call_id = ''call-'' @ take 12 (hexid 0), call_name = n, call_arguments = dumps_compact dec (JObj args)\<rparr>])"
proof -
  let ?x = "(0, length s, JObj kvs)"
  let ?P = "\<lambda>y. fst (snd y) \<le> length s \<and> (fst y = 0 \<longrightarrow> y = ?x)"
  have fenced: "\<exists>zs. gather (fenced_candidate dec) (fenced_blocks s 0) = Inr zs \<and> (\<forall>z \<in> set zs. ?P z)"
  proof (rule gather_ok)
    fix m assume "m \<in> set (fenced_blocks s 0)"
    moreover obtain a b body where m: "m = (a, b, body)" by (cases m) auto
    ultimately have "prefix fence (drop a s)" and b: "b \<le> length s"
      using fenced_blocks_inside [of a b body s 0] by simp_all
    with assms(2) have "a \<noteq> 0" by (cases a) (auto simp: fence_def)
    with m b caught(2) [of "py_strip body"] show "\<exists>ys. fenced_candidate dec m = Inr ys \<and> (\<forall>y \<in> set ys. ?P y)"
      by (auto simp: fenced_candidate_def split: sum.split decode_error.split)
  qed
  have inline: "\<exists>zs. gather (inline_candidate dec s) [0..<length s] = Inr zs \<and> (\<forall>z \<in> set zs. ?P z)"
  proof (rule gather_ok)
    fix i
    show "\<exists>ys. inline_candidate dec s i = Inr ys \<and> (\<forall>y \<in> set ys. ?P y)"
      using inside [of i] caught(1) [of i] assms(1)
      by (cases "i = 0") (auto simp: inline_candidate_def split: sum.split decode_error.split)
  qed
  obtain fs zs where fs: "gather (fenced_candidate dec) (fenced_blocks s 0) = Inr fs" "\<forall>z \<in> set fs. ?P z"
    and zs: "gather (inline_candidate dec s) [0..<length s] = Inr zs" "\<forall>z \<in> set zs. ?P z"
    using fenced inline by blast
  have "inline_candidate dec s 0 = Inr [?x]" using assms(1,2) by (simp add: inline_candidate_def)
  from gather_mem [OF zs(1) _ this] assms(2) have "?x \<in> set zs" by auto
  then have x: "?x \<in> set (fs @ zs)" by simp
  have all: "\<forall>y \<in> set (fs @ zs). ?P y" using fs(2) zs(2) by (simp only: set_append ball_Un)
  have "\<exists>rest. candidate_order (fs @ zs) = ?x # rest \<and> set rest \<subseteq> set (fs @ zs)"
  proof (rule candidate_order_head [OF x])
    fix y assume "y \<in> set (fs @ zs)" and "fst y = 0"
    from bspec [OF all this(1)] this(2) show "y = ?x" by (elim conjE) (drule (1) mp)
  qed simp
  then obtain rest where order: "candidate_order (fs @ zs) = ?x # rest" "set rest \<subseteq> set (fs @ zs)" by blast
  have "fst (snd y) \<le> length s" if "y \<in> set rest" for y
    using bspec [OF all subsetD [OF order(2) that]] by (rule conjunct1)
  then have "\<forall>y \<in> set rest. fst (snd y) \<le> length s" by (rule ballI)
  from contained_skipped [OF this] have
    "accept_candidates dec hexid (valid_names tools) (?x # rest) (([], []), [])
      = Inr (([\<lparr>call_id = ''call-'' @ take 12 (hexid 0), call_name = n, call_arguments = dumps_compact dec (JObj args)\<rparr>],
          [call_key n (dumps_compact dec (JObj args))]), [(0, length s)])"
    using assms(3-5)
    by (auto simp: span_is_contained_def arguments_to_json_string_def get_or_def add_call_def py_str_def Let_def)
  moreover have "remove_spans s [(0, length s)] = []"
    by (simp add: remove_spans_def sorted_spans_def)
  ultimately show ?thesis
    using fs(1) zs(1) order(1) by (simp add: parse_tool_calls_def json_candidates_def)
qed

text \<open>A decoder that knows one object, for the witnesses.\<close>

definition sample_call :: "(string \<times> json) list" where
  "sample_call = [(''name'', JStr ''add''), (''arguments'', JObj [(''x'', JInt 1)])]"

definition sample_text :: string where
  "sample_text = ''{\"name\":\"add\",\"arguments\":{\"x\":1}}''"

definition sample_decoder :: decoder where
  "sample_decoder =
     \<lparr>loads_text = (\<lambda>t. if t = [] then Inl JSONDecodeError else Inr (JObj [])),
      raw_decode = (\<lambda>t i. if t = sample_text \<and> i = 0 then Inr (JObj sample_call, length t)
        else if t = sample_text \<and> i = 26 then Inr (JObj [(''x'', JInt 1)], 33) else Inl JSONDecodeError),
      dumps_compact = json_dumps (\<lambda>_. ''0'') '','' '':''\<rparr>"

lemma dumps_not_Nil: "json_dumps (\<lambda>_. ''0'') i k v \<noteq> []"
  by (cases v) (auto simp: show_int_def json_string_def split: pyfloat.split)

lemma sample_decoder_reads_back: "reads_back sample_decoder"
  by (simp add: reads_back_def sample_decoder_def dumps_not_Nil)

lemma sample_parse:
  "parse_tool_calls sample_decoder (\<lambda>_. ''0123456789abcdef'') sample_text None =
     Inr ([], [\<lparr>call_id = ''call-0123456789ab'', call_name = ''add'', call_arguments = ''{\"x\":1}''\<rparr>])"
  by code_simp

lemma whole_call_recovered_witness:
  "parse_tool_calls sample_decoder (\<lambda>_. ''0123456789abcdef'') sample_text None =
     Inr ([], [\<lparr>call_id = ''call-0123456789ab'', call_name = ''add'', call_arguments = ''{\"x\":1}''\<rparr>])"
proof -
  have "dumps_compact sample_decoder (JObj [(''x'', JInt 1)]) = ''{\"x\":1}''" by code_simp
  moreover have "parse_tool_calls sample_decoder (\<lambda>_. ''0123456789abcdef'') sample_text None =
     Inr ([], [\<lparr>call_id = ''call-'' @ take 12 ''0123456789abcdef'', call_name = ''add'',
       call_arguments = dumps_compact sample_decoder (JObj [(''x'', JInt 1)])\<rparr>])"
  proof (rule whole_call_recovered)
    show "raw_decode sample_decoder sample_text 0 = Inr (JObj sample_call, length sample_text)"
      by (simp add: sample_decoder_def)
    show "sample_text = CHR ''{'' # tl sample_text" by (simp add: sample_text_def)
    fix i v b assume "raw_decode sample_decoder sample_text i = Inr (v, b)"
    then show "b \<le> length sample_text"
      by (auto simp: sample_decoder_def sample_text_def split: if_splits)
  qed (simp_all add: sample_call_def sample_decoder_def valid_names_def)
  ultimately show ?thesis by simp
qed

lemma parsed_calls_are_offered_witness:
  "\<exists>v. loads_text sample_decoder ''{\"x\":1}'' = Inr v"
  using parsed_calls_are_offered [OF sample_decoder_reads_back sample_parse] by simp

section \<open>Forced tools and retries\<close>

lemma forced_tool_is_offered:
  assumes "forced_tools tools choice = Inr (CallThis n, shown)"
  shows "shown \<noteq> [] \<and> set shown \<subseteq> set tools \<and> (\<forall>t \<in> set shown. tool_name t = n)"
  using assms
  by (auto simp: forced_tools_def Let_def py_str_def filter_empty_conv dest!: sym [of "JStr _"]
      split: if_splits option.splits)

lemma unforced_tools_all_shown:
  assumes "forced_tools tools choice = Inr (p, shown)" and "\<And>n. p \<noteq> CallThis n"
  shows "shown = tools"
  using assms by (auto simp: forced_tools_def Let_def split: if_splits option.splits)

definition get_retry_prompt :: string where
  "get_retry_prompt =
     py_join [CHR 0x0A]
       [''Your previous response contained a malformed tool call. Please try again.'',
        ''Output ONLY valid JSON in this format:'',
        ''{\"name\": \"function_name\", \"arguments\": {\"param\": \"value\"}}'']"

text \<open>The example the retry shows is itself a complete call, so it is not taken for a truncated one.\<close>

lemma retry_prompt_complete: "\<not> detect_incomplete_tool_call get_retry_prompt"
  by code_simp

lemma closed_braces_complete:
  assumes "count_list s (CHR ''{'') \<le> count_list s (CHR ''}'')" and "count_list s (CHR ''['') \<le> count_list s (CHR '']'')"
  shows "\<not> detect_incomplete_tool_call s"
  using assms by (simp add: detect_incomplete_tool_call_def)

end
