(* ===== verification/LoadSafety.thy ===== *)
theory LoadSafety
  imports ModelRegistry Quantization
begin

text \<open>
  \<open>app/model_load_safety.py\<close>: the conversion profile recorded beside a converted model and
  the routing that keeps an INT4 artifact without a verified profile off the NPU compiler.
  The profile file is the JSON value it parses to, \<open>None\<close> when it is missing or invalid.
\<close>

section \<open>Conversion profiles\<close>

datatype load_error =
    LoadOverflow | BadTarget device_error | NeedsReconversion | CompositeNeedsReconversion | NoSafeTarget

definition base_device :: "string \<Rightarrow> string" where
  "base_device v = py_upper (hd (py_split1 (CHR ''.'') v))"

definition tokens :: "device_expression \<Rightarrow> string list" where
  "tokens e = (if devices e \<noteq> [] then devices e else [kind e])"

definition targets_npu :: "string option \<Rightarrow> bool" where
  "targets_npu device =
     (case device of None \<Rightarrow> False
      | Some d \<Rightarrow> if d = [] then False
          else (case parse_device_expression (Some d) None of
                  Inl _ \<Rightarrow> False
                | Inr e \<Rightarrow> (\<exists>t \<in> set (tokens e). base_device t = ''NPU'')))"

record conversion_profile =
  cp_format :: string
  cp_group :: "int option"
  cp_ratio :: "rat option"
  cp_sym :: "bool option"

definition resolve_conversion_profile ::
  "model_config \<Rightarrow> string option \<Rightarrow> int option \<Rightarrow> rat option \<Rightarrow> bool option \<Rightarrow>
     string option \<Rightarrow> string option \<Rightarrow> conversion_profile" where
  "resolve_conversion_profile cfg fmt grp ratio symm device arch =
     (let f = py_lower (str_or fmt (weight_format cfg))
      in if f \<noteq> ''int4'' then \<lparr>cp_format = f, cp_group = grp, cp_ratio = ratio, cp_sym = symm\<rparr>
         else
           let g = (case grp of Some g \<Rightarrow> g
                    | None \<Rightarrow> if targets_npu device then npu_int4_group_size (Some (source_model cfg)) arch else 128)
           in \<lparr>cp_format = f, cp_group = Some g,
               cp_ratio = Some (case ratio of None \<Rightarrow> 1 | Some r \<Rightarrow> r),
               cp_sym = Some (case symm of None \<Rightarrow> True | Some b \<Rightarrow> b)\<rparr>)"

text \<open>The values may come from an edited file, so they are JSON; only an overflow escapes.\<close>

definition is_npu_compatible_int4_profile ::
  "string \<Rightarrow> json \<Rightarrow> json \<Rightarrow> json \<Rightarrow> (load_error, bool) result" where
  "is_npu_compatible_int4_profile fmt grp ratio symm =
     (case (if grp = JNull then Inr None else map_sum id Some (json_int grp)) of
        Inl NumOverflow \<Rightarrow> Inl LoadOverflow
      | Inl _ \<Rightarrow> Inr False
      | Inr g \<Rightarrow>
          (case (if ratio = JNull then Inr None else map_sum id Some (json_float ratio)) of
             Inl NumOverflow \<Rightarrow> Inl LoadOverflow
           | Inl _ \<Rightarrow> Inr False
           | Inr r \<Rightarrow>
               Inr (py_lower fmt = ''int4'' \<and> (g = Some (-1) \<or> g = Some 128) \<and>
                    (case r of Some (Fin x) \<Rightarrow> \<bar>x - 1\<bar> < 1 / 10 ^ 9 | _ \<Rightarrow> False) \<and>
                    symm = JBool True)))"

definition opt_json :: "('a \<Rightarrow> json) \<Rightarrow> 'a option \<Rightarrow> json" where
  "opt_json f v = (case v of None \<Rightarrow> JNull | Some x \<Rightarrow> f x)"

definition schema_version :: int where "schema_version = 1"

text \<open>\<open>record_load_profile\<close>: the file written, or \<open>None\<close> when there is no converted model.\<close>

definition record_load_profile ::
  "bool \<Rightarrow> model_config \<Rightarrow> conversion_profile \<Rightarrow> (load_error, json option) result" where
  "record_load_profile model_present cfg p =
     (if \<not> model_present then Inr None
      else
        let g = opt_json JInt (cp_group p); r = opt_json (\<lambda>x. JFloat (Fin x)) (cp_ratio p);
            s = opt_json JBool (cp_sym p)
        in bindr (is_npu_compatible_int4_profile (cp_format p) g r s) (\<lambda>ok.
             Inr (Some (JObj
               [(''schema_version'', JInt schema_version), (''model_id'', JStr (model_id cfg)),
                (''source_model'', JStr (source_model cfg)), (''backend'', JStr (backend cfg)),
                (''weight_format'', JStr (py_lower (cp_format p))), (''group_size'', g), (''ratio'', r),
                (''symmetric'', s), (''npu_compatible_int4'', JBool ok)]))))"

definition read_profile :: "model_config \<Rightarrow> json option \<Rightarrow> json option" where
  "read_profile cfg file =
     (case file of
        Some (JObj items) \<Rightarrow>
          (let v = JObj items
           in if json_is_one (get v ''schema_version'') \<and>
                 py_str (get v ''model_id'') = model_id cfg \<and>
                 py_str (get v ''source_model'') = source_model cfg \<and>
                 py_str (get v ''backend'') = backend cfg \<and>
                 py_str (get v ''weight_format'') = weight_format cfg
              then Some v else None)
      | _ \<Rightarrow> None)"

section \<open>Routing a load\<close>

definition available_safe_devices :: "string list \<Rightarrow> string list" where
  "available_safe_devices available =
     filter (\<lambda>d. d \<in> set (map base_device available)) [''GPU'', ''CPU'']"

definition profile_verified :: "json option \<Rightarrow> (load_error, bool) result" where
  "profile_verified p =
     (case p of
        None \<Rightarrow> Inr False
      | Some v \<Rightarrow>
          if get v ''npu_compatible_int4'' \<noteq> JBool True then Inr False
          else is_npu_compatible_int4_profile (py_str (py_or (get v ''weight_format'') (JStr [])))
                 (get v ''group_size'') (get v ''ratio'') (get v ''symmetric''))"

definition safe_load_device ::
  "model_config \<Rightarrow> json option \<Rightarrow> string list \<Rightarrow> string option \<Rightarrow> string list option \<Rightarrow>
     (load_error, string) result" where
  "safe_load_device cfg file discovered device available =
     (case normalize_device device of
        Inl e \<Rightarrow> Inl (BadTarget e)
      | Inr nd \<Rightarrow>
          if py_lower (weight_format cfg) \<noteq> ''int4'' then Inr nd
          else bindr (profile_verified (read_profile cfg file)) (\<lambda>verified.
            if verified then Inr nd
            else case parse_device_expression (Some nd) None of
              Inl e \<Rightarrow> Inl (BadTarget e)
            | Inr e \<Rightarrow>
                if base_device (kind e) = ''NPU'' \<and> devices e = [] then Inl NeedsReconversion
                else if devices e \<noteq> [] then
                  let keep = filter (\<lambda>t. base_device t \<noteq> ''NPU'') (devices e)
                  in if keep \<noteq> [] then Inr (kind e @ '':'' @ py_join '','' keep) else Inl CompositeNeedsReconversion
                else if kind e = ''AUTO'' then
                  let choices = available_safe_devices
                        (case available of None \<Rightarrow> discovered | Some a \<Rightarrow> if a = [] then discovered else a)
                  in if choices = [] then Inl NoSafeTarget
                     else if length choices = 1 then Inr (hd choices)
                     else Inr (''AUTO:'' @ py_join '','' choices)
                else Inr nd))"

section \<open>Targets that cannot reach the NPU\<close>

definition npu_free :: "string \<Rightarrow> bool" where
  "npu_free target \<longleftrightarrow>
     (case parse_device_expression (Some target) None of
        Inl _ \<Rightarrow> False
      | Inr e \<Rightarrow> (\<forall>t \<in> set (tokens e). base_device t \<noteq> ''NPU'') \<and> \<not> (kind e = ''AUTO'' \<and> devices e = []))"

lemma npu_free_normalized:
  assumes "device_ok e" and "\<forall>t \<in> set (tokens e). base_device t \<noteq> ''NPU''"
    and "\<not> (kind e = ''AUTO'' \<and> devices e = [])"
  shows "npu_free (normalized e)"
  using assms by (simp add: npu_free_def parse_normalized)

lemma normalize_device_ok:
  assumes "normalize_device device = Inr nd"
  obtains e where "device_ok e" "nd = normalized e" "parse_device_expression (Some nd) None = Inr e"
proof -
  from assms obtain e where "parse_device_expression device (Some default_device) = Inr e" "nd = normalized e"
    by (auto simp: normalize_device_def bindr_eq_Inr)
  with that [of e] show ?thesis using parse_device_ok parse_normalized by blast
qed

lemma safe_choices:
  assumes "choices = available_safe_devices av" and "choices \<noteq> []"
  shows "npu_free (if length choices = 1 then hd choices else ''AUTO:'' @ py_join '','' choices)"
proof -
  have "npu_free ''GPU''" "npu_free ''CPU''" "npu_free ''AUTO:GPU,CPU''" by code_simp+
  with assms show ?thesis by (auto simp: available_safe_devices_def)
qed

section \<open>Properties\<close>

lemma join_filtered:
  assumes "device_ok e" and "devices e \<noteq> []" and "keep = filter P (devices e)" and "keep \<noteq> []"
  shows "device_ok \<lparr>kind = kind e, devices = keep\<rparr>"
    and "normalized \<lparr>kind = kind e, devices = keep\<rparr> = kind e @ '':'' @ py_join '','' keep"
  using assms by (auto simp: device_ok_def normalized_def list_all_iff)

text \<open>C12: an INT4 artifact without a verified profile never reaches the NPU: whatever device is
  asked for, the target returned is one that no part of can be the NPU, and not the bare
  \<open>AUTO\<close> that would let OpenVINO choose it.\<close>

theorem unverified_int4_never_on_npu:
  assumes "safe_load_device cfg file discovered device available = Inr target"
    and "py_lower (weight_format cfg) = ''int4''"
    and "profile_verified (read_profile cfg file) \<noteq> Inr True"
  shows "npu_free target"
proof -
  from assms(1) obtain nd where nd: "normalize_device device = Inr nd"
    by (auto simp: safe_load_device_def split: sum.splits)
  from normalize_device_ok [OF nd] obtain e where e: "device_ok e" "nd = normalized e"
    "parse_device_expression (Some nd) None = Inr e" .
  have "profile_verified (read_profile cfg file) = Inr False"
    using assms nd by (auto simp: safe_load_device_def bindr_eq_Inr)
  with assms(1,2) nd e(3) have run:
    "(if base_device (kind e) = ''NPU'' \<and> devices e = [] then Inl NeedsReconversion
      else if devices e \<noteq> [] then
        let keep = filter (\<lambda>t. base_device t \<noteq> ''NPU'') (devices e)
        in if keep \<noteq> [] then Inr (kind e @ '':'' @ py_join '','' keep) else Inl CompositeNeedsReconversion
      else if kind e = ''AUTO'' then
        let choices = available_safe_devices
              (case available of None \<Rightarrow> discovered | Some a \<Rightarrow> if a = [] then discovered else a)
        in if choices = [] then Inl NoSafeTarget
           else if length choices = 1 then Inr (hd choices)
           else Inr (''AUTO:'' @ py_join '','' choices)
      else Inr nd) = Inr target"
    by (simp add: safe_load_device_def)
  consider (composite) "devices e \<noteq> []" | (auto) "devices e = []" "kind e = ''AUTO''"
    | (single) "devices e = []" "kind e \<noteq> ''AUTO''" "base_device (kind e) \<noteq> ''NPU''"
    using run by (auto split: if_splits)
  then show ?thesis
  proof cases
    case composite
    define keep where "keep = filter (\<lambda>t. base_device t \<noteq> ''NPU'') (devices e)"
    have keep: "keep \<noteq> []" "target = kind e @ '':'' @ py_join '','' keep"
      using run composite by (auto simp: keep_def [symmetric] Let_def split: if_splits)
    note joined = join_filtered [OF e(1) composite keep_def keep(1)]
    have "\<forall>t \<in> set (tokens \<lparr>kind = kind e, devices = keep\<rparr>). base_device t \<noteq> ''NPU''"
      using keep(1) by (auto simp: tokens_def keep_def)
    with npu_free_normalized [OF joined(1)] keep joined(2) show ?thesis by simp
  next
    case auto
    define choices where "choices = available_safe_devices
        (case available of None \<Rightarrow> discovered | Some a \<Rightarrow> if a = [] then discovered else a)"
    have "base_device ''AUTO'' \<noteq> ''NPU''" by code_simp
    with run auto have "choices \<noteq> []"
      "target = (if length choices = 1 then hd choices else ''AUTO:'' @ py_join '','' choices)"
      by (auto simp: choices_def [symmetric] Let_def split: if_splits)
    with safe_choices [OF choices_def] show ?thesis by simp
  next
    case single
    then have "target = normalized e" using run e(2) by simp
    with single npu_free_normalized [OF e(1)] show ?thesis by (simp add: tokens_def)
  qed
qed

abbreviation phi_config :: model_config where
  "phi_config \<equiv> \<lparr>model_id = ''phi'', model_name = ''Phi'', description = [], backend = ''openvino-genai'',
     model_path = ''models/phi'', source_model = ''microsoft/Phi-4-mini-instruct'', weight_format = ''int4'',
     recommended_device = ''NPU'', max_context_len = 2048, max_output_tokens = 512,
     trust_remote_code = False, recommended_context_len = None, kv_cache_precision = None\<rparr>"

theorem unverified_int4_never_on_npu_witness:
  "safe_load_device phi_config None [] (Some ''auto:npu,gpu'') None = Inr ''AUTO:GPU'' \<and> npu_free ''AUTO:GPU''"
proof -
  have run: "safe_load_device phi_config None [] (Some ''auto:npu,gpu'') None = Inr ''AUTO:GPU''" by code_simp
  have "py_lower (weight_format phi_config) = ''int4''" by code_simp
  from unverified_int4_never_on_npu [OF run this] run show ?thesis
    by (simp add: profile_verified_def read_profile_def)
qed

text \<open>Converting with the default settings is enough for the NPU: an INT4 model converted
  without explicit settings, for any device, records a profile that later lets the model load
  on exactly the device that is asked for.\<close>

lemma default_conversion_is_verified:
  assumes "weight_format cfg = ''int4''"
    and "record_load_profile True cfg (resolve_conversion_profile cfg None None None None dev arch) = Inr file"
  shows "safe_load_device cfg file discovered device available =
    (case normalize_device device of Inl e \<Rightarrow> Inl (BadTarget e) | Inr nd \<Rightarrow> Inr nd)"
proof -
  have low: "py_lower ''int4'' = ''int4''" by code_simp
  obtain g where g: "resolve_conversion_profile cfg None None None None dev arch =
      \<lparr>cp_format = ''int4'', cp_group = Some g, cp_ratio = Some 1, cp_sym = Some True\<rparr>" "g = -1 \<or> g = 128"
    using assms(1) low
    by (auto simp: resolve_conversion_profile_def str_or_def npu_int4_group_size_def Let_def split: option.splits)
  have ok: "is_npu_compatible_int4_profile ''int4'' (JInt g) (JFloat (Fin 1)) (JBool True) = Inr True"
    using g(2) low by (simp add: is_npu_compatible_int4_profile_def json_int_def json_float_def)
  then have stored: "file = Some (JObj
               [(''schema_version'', JInt 1), (''model_id'', JStr (model_id cfg)),
                (''source_model'', JStr (source_model cfg)), (''backend'', JStr (backend cfg)),
                (''weight_format'', JStr ''int4''), (''group_size'', JInt g), (''ratio'', JFloat (Fin 1)),
                (''symmetric'', JBool True), (''npu_compatible_int4'', JBool True)])"
    using assms(2) low by (simp add: record_load_profile_def g opt_json_def schema_version_def Let_def)
  have "profile_verified (read_profile cfg file) = Inr True"
    using ok assms(1) by (simp add: stored read_profile_def json_is_one_def schema_version_def py_str_def
        profile_verified_def py_or_def)
  then show ?thesis
    using low assms(1) by (simp add: safe_load_device_def split: sum.split)
qed

lemma default_conversion_is_verified_witness:
  "\<exists>file. record_load_profile True phi_config
      (resolve_conversion_profile phi_config None None None None (Some ''NPU'') None) = Inr file \<and>
    safe_load_device phi_config file [] (Some ''npu'') None = Inr ''NPU''"
proof -
  let ?r = "record_load_profile True phi_config
      (resolve_conversion_profile phi_config None None None None (Some ''NPU'') None)"
  have "isl ?r = False" by code_simp
  then obtain saved where stored: "?r = Inr saved" by (cases ?r) auto
  have "normalize_device (Some ''npu'') = Inr ''NPU''" by code_simp
  with default_conversion_is_verified [OF _ stored, of "[]" "Some ''npu''" None] stored show ?thesis by simp
qed

end
