(* ===== verification/LoadTarget.thy ===== *)
theory LoadTarget
  imports Prelude
begin

text \<open>
  \<open>app/model_load_target.py\<close>: loading one model so that the newest explicit device
  request wins and a working engine stays until its replacement is ready. The load task
  is a coroutine; its state is the \<open>await\<close> it is suspended at, and everything between
  two awaits is one step, taken when the event it waits for arrives. Device names are in
  normal form; which devices are available, whether the model is on disk and what the
  native build returns come from outside.
\<close>

section \<open>State\<close>

record engine =
  eng_id :: nat
  eng_device :: string
  eng_request :: string  \<comment> \<open>the \<open>current_device\<close> the build was started for\<close>

datatype load_pc =
    AtStart string
  | AtLoadLock string
  | AtConvert string
  | AtCompile string
  | AtHandoff string engine engine  \<comment> \<open>device, replacement, previous engine\<close>

record load_world =
  loaded :: "engine option"
  load_target :: "string option"
  load_task :: "load_pc option"
  load_lock :: bool  \<comment> \<open>\<open>_load_lock\<close> held by this task\<close>
  built :: nat
  closed :: "nat list"
  lost :: "nat list"  \<comment> \<open>quarantined engines, whose worker never stopped\<close>
  load_status :: "string option"
  load_phase :: "string option"

record load_env =
  force_mock :: bool
  auto_convert :: bool
  device_available :: "string \<Rightarrow> bool"
  on_disk :: bool

datatype load_event =
    Schedule string            \<comment> \<open>\<open>schedule_load\<close> with this device\<close>
  | TaskStarts
  | LoadLockGranted
  | ConvertDone bool           \<comment> \<open>whether the artifacts are on disk afterwards\<close>
  | BuildDone "string option"  \<comment> \<open>the device of the engine, \<open>None\<close> for an exception\<close>
  | HandoffGranted
  | Cancel "string option"     \<comment> \<open>\<open>task.cancel()\<close>; the outcome of a build that was running\<close>
  | Quarantine                 \<comment> \<open>\<open>_finish_stream_handle\<close>: a stream did not stop\<close>
  | Recover "string option"    \<comment> \<open>\<open>_recover_cancelled_npu_engine\<close>: the engine is rebuilt in place\<close>

section \<open>The ways out of the task\<close>

text \<open>The \<open>finally\<close> blocks: the locks are released and the task and its target forgotten.\<close>

definition leave_task :: "load_world \<Rightarrow> load_world" where
  "leave_task w = w\<lparr>load_lock := False, load_task := None, load_target := None\<rparr>"

definition close_engine :: "engine \<Rightarrow> load_world \<Rightarrow> load_world" where
  "close_engine e w = w\<lparr>closed := eng_id e # closed w\<rparr>"

definition finish_ready :: "load_world \<Rightarrow> load_world" where
  "finish_ready w = leave_task (w\<lparr>load_status := None, load_phase := Some ''ready''\<rparr>)"

text \<open>\<open>except Exception\<close>: a working engine is kept, otherwise the failure is the status.\<close>

definition fail_load :: "load_world \<Rightarrow> load_world" where
  "fail_load w =
     (case loaded w of
        Some _ \<Rightarrow> finish_ready w
      | None \<Rightarrow> leave_task (w\<lparr>load_status := Some ''error'', load_phase := Some ''error''\<rparr>))"

text \<open>\<open>_inspect_target\<close>: \<open>None\<close> when the device is not available, else whether the model is local.\<close>

definition inspect_target :: "load_env \<Rightarrow> bool \<Rightarrow> string \<Rightarrow> bool option" where
  "inspect_target env disk dev =
     (if force_mock env then Some True
      else if device_available env dev then Some disk else None)"

definition latest_target :: "load_world \<Rightarrow> string \<Rightarrow> string" where
  "latest_target w dev = (case load_target w of Some t \<Rightarrow> t | None \<Rightarrow> dev)"

definition loaded_on :: "load_world \<Rightarrow> string \<Rightarrow> bool" where
  "loaded_on w dev = (case loaded w of None \<Rightarrow> False | Some e \<Rightarrow> eng_device e = dev)"

section \<open>The steps of the task\<close>

text \<open>
  From the head of the loop to waiting for the load lock. No other code runs in between,
  so the target cannot have changed again when it is compared a second time.
\<close>

definition load_top :: "load_env \<Rightarrow> string \<Rightarrow> load_world \<Rightarrow> load_world" where
  "load_top env dev w =
     (let cur = latest_target w dev
      in if loaded_on w cur then finish_ready w
         else (case inspect_target env (on_disk env) cur of
                 None \<Rightarrow> fail_load w
               | Some disk \<Rightarrow>
                   if \<not> disk \<and> \<not> auto_convert env then fail_load w
                   else w\<lparr>load_task := Some (AtLoadLock cur), load_status := Some ''loading'',
                          load_phase := Some ''loading''\<rparr>))"

text \<open>\<open>continue\<close> after a newer request: the inner \<open>finally\<close> runs, then the loop starts over.\<close>

definition retarget :: "load_env \<Rightarrow> string \<Rightarrow> load_world \<Rightarrow> load_world" where
  "retarget env dev w = load_top env dev (w\<lparr>load_lock := False\<rparr>)"

definition start_compile :: "string \<Rightarrow> load_world \<Rightarrow> load_world" where
  "start_compile dev w =
     w\<lparr>load_task := Some (AtCompile dev), load_status := Some ''loading'', load_phase := Some ''loading''\<rparr>"

definition got_load_lock :: "load_env \<Rightarrow> string \<Rightarrow> load_world \<Rightarrow> load_world" where
  "got_load_lock env dev w0 =
     (let w = w0\<lparr>load_lock := True\<rparr>
      in if latest_target w dev \<noteq> dev then retarget env (latest_target w dev) w
         else if loaded_on w dev then finish_ready w
         else (case inspect_target env (on_disk env) dev of
                 None \<Rightarrow> fail_load w
               | Some True \<Rightarrow> start_compile dev w
               | Some False \<Rightarrow>
                   w\<lparr>load_task := Some (AtConvert dev), load_status := Some ''converting'',
                     load_phase := Some ''downloading''\<rparr>))"

definition converted :: "load_env \<Rightarrow> string \<Rightarrow> bool \<Rightarrow> load_world \<Rightarrow> load_world" where
  "converted env dev disk w =
     (if inspect_target env disk dev \<noteq> Some True then fail_load w
      else if latest_target w dev \<noteq> dev then retarget env (latest_target w dev) w
      else start_compile dev w)"

text \<open>Installing the replacement and closing the engine it replaces.\<close>

definition install :: "engine \<Rightarrow> engine option \<Rightarrow> load_world \<Rightarrow> load_world" where
  "install e previous w =
     (let w1 = w\<lparr>loaded := Some e\<rparr>;
          w2 = (case previous of None \<Rightarrow> w1 | Some p \<Rightarrow> close_engine p w1)
      in finish_ready w2)"

definition built_engine :: "load_env \<Rightarrow> string \<Rightarrow> string \<Rightarrow> load_world \<Rightarrow> load_world" where
  "built_engine env dev actual w0 =
     (let e = \<lparr>eng_id = built w0, eng_device = actual, eng_request = dev\<rparr>;
          w = w0\<lparr>built := Suc (built w0)\<rparr>
      in if latest_target w dev \<noteq> dev then retarget env (latest_target w dev) (close_engine e w)
         else (case loaded w of
                 None \<Rightarrow> install e None w
               | Some p \<Rightarrow> w\<lparr>load_task := Some (AtHandoff dev e p)\<rparr>))"

text \<open>
  \<open>_acquire_stable_handoff_lock\<close> after the lock is granted: the pair of engine and lock is
  read again; if the engine changed meanwhile, the wait starts over on the new one.
\<close>

definition got_handoff :: "load_env \<Rightarrow> string \<Rightarrow> engine \<Rightarrow> engine \<Rightarrow> load_world \<Rightarrow> load_world" where
  "got_handoff env dev e p w =
     (case loaded w of
        Some p' \<Rightarrow>
          if p' \<noteq> p then w\<lparr>load_task := Some (AtHandoff dev e p')\<rparr>
          else if latest_target w dev \<noteq> dev
          then retarget env (latest_target w dev) (close_engine e w)
          else install e (Some p) w
      | None \<Rightarrow>
          if latest_target w dev \<noteq> dev
          then retarget env (latest_target w dev) (close_engine e w)
          else install e None w)"

text \<open>
  Cancellation: a running build is awaited and its engine closed before the task ends. A
  task cancelled before its first step never enters the \<open>try\<close> block, so its target stays.
  The conversion a task waits for reports its own cancellation.
\<close>

definition cancel_task :: "string option \<Rightarrow> load_world \<Rightarrow> load_world" where
  "cancel_task outcome w =
     (case load_task w of
        Some (AtCompile dev) \<Rightarrow>
          (case outcome of
             None \<Rightarrow> leave_task w
           | Some actual \<Rightarrow>
               leave_task (close_engine \<lparr>eng_id = built w, eng_device = actual, eng_request = dev\<rparr>
                 (w\<lparr>built := Suc (built w)\<rparr>)))
      | Some (AtHandoff dev e p) \<Rightarrow> leave_task (close_engine e w)
      | Some (AtStart dev) \<Rightarrow> w\<lparr>load_task := None\<rparr>
      | Some (AtConvert dev) \<Rightarrow>
          leave_task (w\<lparr>load_status := Some ''cancelled'', load_phase := Some ''cancelled''\<rparr>)
      | Some _ \<Rightarrow> leave_task w
      | None \<Rightarrow> w)"

definition schedule_load :: "string \<Rightarrow> load_world \<Rightarrow> load_world" where
  "schedule_load dev w =
     (if loaded_on w dev then w\<lparr>load_status := None, load_phase := Some ''ready''\<rparr>
      else if load_task w \<noteq> None then
        w\<lparr>load_target := Some dev,
          load_phase := (if load_target w \<noteq> Some dev then Some ''loading'' else load_phase w)\<rparr>
      else w\<lparr>load_target := Some dev, load_task := Some (AtStart dev),
             load_status := Some ''queued'', load_phase := Some ''queued''\<rparr>)"

text \<open>The two ways a generation request, which holds the model lock, changes the engine.\<close>

definition quarantine :: "load_world \<Rightarrow> load_world" where
  "quarantine w =
     (case loaded w of
        None \<Rightarrow> w
      | Some e \<Rightarrow> w\<lparr>loaded := None, lost := eng_id e # lost w,
                     load_status := Some ''error'', load_phase := Some ''error''\<rparr>)"

definition recover :: "string option \<Rightarrow> load_world \<Rightarrow> load_world" where
  "recover outcome w =
     (case loaded w of
        None \<Rightarrow> w
      | Some e \<Rightarrow>
          (case outcome of
             None \<Rightarrow> (close_engine e w)\<lparr>loaded := None, load_status := Some ''error'', load_phase := Some ''error''\<rparr>
           | Some actual \<Rightarrow>
               (close_engine e w)\<lparr>loaded := Some \<lparr>eng_id = built w, eng_device = actual, eng_request = eng_device e\<rparr>,
                 built := Suc (built w), load_status := None, load_phase := Some ''ready''\<rparr>))"

text \<open>An event that the task is not waiting for does nothing.\<close>

definition load_step :: "load_env \<Rightarrow> load_world \<Rightarrow> load_event \<Rightarrow> load_world" where
  "load_step env w ev =
     (case (ev, load_task w) of
        (Schedule dev, _) \<Rightarrow> schedule_load dev w
      | (TaskStarts, Some (AtStart dev)) \<Rightarrow> load_top env dev w
      | (LoadLockGranted, Some (AtLoadLock dev)) \<Rightarrow> got_load_lock env dev w
      | (ConvertDone disk, Some (AtConvert dev)) \<Rightarrow> converted env dev disk w
      | (BuildDone None, Some (AtCompile dev)) \<Rightarrow> fail_load w
      | (BuildDone (Some actual), Some (AtCompile dev)) \<Rightarrow> built_engine env dev actual w
      | (HandoffGranted, Some (AtHandoff dev e p)) \<Rightarrow> got_handoff env dev e p w
      | (Cancel outcome, Some _) \<Rightarrow> cancel_task outcome w
      | (Quarantine, _) \<Rightarrow> quarantine w
      | (Recover outcome, _) \<Rightarrow> recover outcome w
      | _ \<Rightarrow> w)"

definition idle_world :: load_world where
  "idle_world = \<lparr>loaded = None, load_target = None, load_task = None, load_lock = False, built = 0,
     closed = [], lost = [], load_status = None, load_phase = None\<rparr>"

section \<open>The invariant\<close>

definition pending :: "load_world \<Rightarrow> engine list" where
  "pending w = (case load_task w of Some (AtHandoff _ e _) \<Rightarrow> [e] | _ \<Rightarrow> [])"

definition live_engines :: "load_world \<Rightarrow> engine list" where
  "live_engines w = (case loaded w of None \<Rightarrow> [] | Some e \<Rightarrow> [e]) @ pending w"

definition holds_lock :: "load_pc \<Rightarrow> bool" where
  "holds_lock pc \<longleftrightarrow> (case pc of AtStart _ \<Rightarrow> False | AtLoadLock _ \<Rightarrow> False | _ \<Rightarrow> True)"

text \<open>
  Engines: the ones built are exactly the ones closed, quarantined or alive, each once. The
  load lock is held exactly inside the guarded part, and a running task has a target.
\<close>

definition accounted :: "load_world \<Rightarrow> nat list" where
  "accounted w = closed w @ lost w @ map eng_id (live_engines w)"

definition load_ok :: "load_world \<Rightarrow> bool" where
  "load_ok w \<longleftrightarrow>
     distinct (accounted w) \<and> set (accounted w) = {..<built w} \<and>
     (load_lock w \<longleftrightarrow> (\<exists>pc. load_task w = Some pc \<and> holds_lock pc)) \<and>
     (load_task w \<noteq> None \<longrightarrow> load_target w \<noteq> None) \<and>
     (\<forall>dev e p. load_task w = Some (AtHandoff dev e p) \<longrightarrow> eng_request e = dev)"

lemmas load_defs = leave_task_def close_engine_def finish_ready_def fail_load_def retarget_def
  start_compile_def install_def live_engines_def pending_def accounted_def

lemma holds_lock_simps [simp]:
  "\<not> holds_lock (AtStart d)" "\<not> holds_lock (AtLoadLock d)" "holds_lock (AtConvert d)"
  "holds_lock (AtCompile d)" "holds_lock (AtHandoff d e p)"
  by (simp_all add: holds_lock_def)

text \<open>Outside the hand-over the engines alive are the loaded one alone.\<close>

definition calm :: "load_world \<Rightarrow> bool" where
  "calm w \<longleftrightarrow> distinct (closed w @ lost w @ (case loaded w of None \<Rightarrow> [] | Some e \<Rightarrow> [eng_id e])) \<and>
     set (closed w @ lost w @ (case loaded w of None \<Rightarrow> [] | Some e \<Rightarrow> [eng_id e])) = {..<built w}"

lemma calm_ok:
  assumes "calm w" and "\<And>d e p. load_task w \<noteq> Some (AtHandoff d e p)"
    and "load_lock w \<longleftrightarrow> (\<exists>pc. load_task w = Some pc \<and> holds_lock pc)"
    and "load_task w \<noteq> None \<longrightarrow> load_target w \<noteq> None"
  shows "load_ok w"
  using assms by (auto simp: load_ok_def calm_def load_defs split: option.splits load_pc.splits)

lemma ok_calm:
  assumes "load_ok w" and "\<And>d e p. load_task w \<noteq> Some (AtHandoff d e p)"
  shows "calm w"
  using assms by (auto simp: load_ok_def calm_def load_defs split: option.splits load_pc.splits)

lemma leave_ok: "calm w \<Longrightarrow> load_ok (leave_task w)"
  by (rule calm_ok) (simp_all add: calm_def leave_task_def)

lemma finish_ready_ok: "calm w \<Longrightarrow> load_ok (finish_ready w)"
  unfolding finish_ready_def by (rule leave_ok) (simp add: calm_def)

lemma fail_load_ok: "calm w \<Longrightarrow> load_ok (fail_load w)"
  by (auto simp: fail_load_def calm_def intro!: finish_ready_ok leave_ok split: option.split)

lemma load_top_ok:
  assumes "calm w" and "load_target w \<noteq> None" and "\<not> load_lock w"
  shows "load_ok (load_top env dev w)"
  using assms
  by (auto simp: load_top_def Let_def intro!: finish_ready_ok fail_load_ok calm_ok split: option.split)
    (simp_all add: calm_def)

lemma retarget_ok: "calm w \<Longrightarrow> load_target w \<noteq> None \<Longrightarrow> load_ok (retarget env dev w)"
  unfolding retarget_def by (rule load_top_ok) (simp_all add: calm_def)

lemma start_compile_ok: "calm w \<Longrightarrow> load_target w \<noteq> None \<Longrightarrow> load_lock w \<Longrightarrow> load_ok (start_compile dev w)"
  by (rule calm_ok) (simp_all add: calm_def start_compile_def)

lemma calm_upd [simp]:
  "calm (w\<lparr>load_task := t\<rparr>) = calm w" "calm (w\<lparr>load_lock := b\<rparr>) = calm w"
  "calm (w\<lparr>load_status := s\<rparr>) = calm w" "calm (w\<lparr>load_phase := f\<rparr>) = calm w"
  "calm (w\<lparr>load_target := d\<rparr>) = calm w"
  by (simp_all add: calm_def)

lemma schedule_load_ok: "load_ok w \<Longrightarrow> load_ok (schedule_load dev w)"
  by (auto simp: schedule_load_def load_ok_def accounted_def live_engines_def pending_def split: load_pc.splits)

lemma running_target: "load_ok w \<Longrightarrow> load_task w = Some pc \<Longrightarrow> load_target w \<noteq> None"
  by (simp add: load_ok_def)

lemma running_lock: "load_ok w \<Longrightarrow> load_task w = Some pc \<Longrightarrow> load_lock w = holds_lock pc"
  by (auto simp: load_ok_def)

lemma got_load_lock_ok:
  assumes "load_ok w" and task: "load_task w = Some (AtLoadLock dev)"
  shows "load_ok (got_load_lock env dev w)"
proof -
  have w: "calm w" "load_target w \<noteq> None" using assms ok_calm running_target by auto
  then show ?thesis
    by (auto simp: got_load_lock_def Let_def intro!: retarget_ok finish_ready_ok fail_load_ok start_compile_ok
        calm_ok split: option.split bool.split)
qed

lemma converted_ok:
  assumes "load_ok w" and task: "load_task w = Some (AtConvert dev)"
  shows "load_ok (converted env dev disk w)"
proof -
  have w: "calm w" "load_target w \<noteq> None" "load_lock w"
    using assms ok_calm running_target running_lock [OF assms] by auto
  then show ?thesis
    by (auto simp: converted_def intro!: retarget_ok fail_load_ok start_compile_ok)
qed

text \<open>A fresh engine takes the next identity.\<close>

lemma calm_fresh_closed:
  "calm w \<Longrightarrow> calm (close_engine \<lparr>eng_id = built w, eng_device = a, eng_request = r\<rparr> (w\<lparr>built := Suc (built w)\<rparr>))"
  by (auto simp: calm_def close_engine_def lessThan_Suc split: option.splits)

lemma calm_fresh_loaded:
  "calm w \<Longrightarrow> loaded w = None \<Longrightarrow>
     calm (w\<lparr>built := Suc (built w), loaded := Some \<lparr>eng_id = built w, eng_device = a, eng_request = r\<rparr>\<rparr>)"
  by (auto simp: calm_def lessThan_Suc)

lemma built_engine_ok:
  assumes "load_ok w" and task: "load_task w = Some (AtCompile dev)"
  shows "load_ok (built_engine env dev actual w)"
proof -
  let ?e = "\<lparr>eng_id = built w, eng_device = actual, eng_request = dev\<rparr>"
  have w: "calm w" "load_target w \<noteq> None" "load_lock w"
    using assms ok_calm running_target running_lock [OF assms] by auto
  show ?thesis
  proof (cases "latest_target w dev \<noteq> dev")
    case True
    have "load_ok (retarget env (latest_target w dev) (close_engine ?e (w\<lparr>built := Suc (built w)\<rparr>)))"
      using w by (intro retarget_ok calm_fresh_closed) (simp_all add: close_engine_def)
    with True show ?thesis by (simp add: built_engine_def latest_target_def Let_def)
  next
    case same: False
    show ?thesis
    proof (cases "loaded w")
      case None
      then have "load_ok (install ?e None (w\<lparr>built := Suc (built w)\<rparr>))"
        using w calm_fresh_loaded [of w] by (auto simp: install_def intro!: finish_ready_ok)
      with same None show ?thesis by (simp add: built_engine_def latest_target_def Let_def)
    next
      case (Some p)
      then show ?thesis
        using w same by (auto simp: built_engine_def latest_target_def Let_def load_ok_def calm_def accounted_def
            live_engines_def pending_def lessThan_Suc split: option.splits)
    qed
  qed
qed

lemma handoff_parts:
  assumes "load_ok w" and "load_task w = Some (AtHandoff dev e p)"
  shows "calm (close_engine e w)" and "loaded w = Some q \<Longrightarrow> calm (close_engine q (w\<lparr>loaded := Some e\<rparr>))"
    and "loaded w = None \<Longrightarrow> calm (w\<lparr>loaded := Some e\<rparr>)"
  using assms by (auto simp: load_ok_def calm_def accounted_def live_engines_def pending_def close_engine_def
      split: option.splits)

lemma got_handoff_ok:
  assumes "load_ok w" and task: "load_task w = Some (AtHandoff dev e p)"
  shows "load_ok (got_handoff env dev e p w)"
proof -
  note parts = handoff_parts [OF assms]
  have target: "load_target w \<noteq> None" by (rule running_target [OF assms])
  have retargeted: "load_ok (retarget env d (close_engine e w))" for d
    using parts(1) target by (intro retarget_ok) (simp_all add: close_engine_def)
  show ?thesis
  proof (cases "loaded w")
    case None
    with parts(3) retargeted show ?thesis
      by (auto simp: got_handoff_def install_def intro!: finish_ready_ok)
  next
    case (Some q)
    have "load_ok (w\<lparr>load_task := Some (AtHandoff dev e q)\<rparr>)"
      using assms by (auto simp: load_ok_def accounted_def live_engines_def pending_def)
    with parts(2) [OF Some] Some retargeted show ?thesis
      by (auto simp: got_handoff_def install_def intro!: finish_ready_ok)
  qed
qed

lemma cancel_task_ok:
  assumes "load_ok w"
  shows "load_ok (cancel_task outcome w)"
proof (cases "load_task w")
  case (Some pc)
  show ?thesis
  proof (cases pc)
    case (AtStart dev)
    with Some assms show ?thesis
      by (auto simp: cancel_task_def load_ok_def accounted_def live_engines_def pending_def)
  next
    case (AtHandoff dev e p)
    with Some assms handoff_parts(1) show ?thesis by (auto simp: cancel_task_def intro!: leave_ok)
  next
    case (AtCompile dev)
    with Some assms have "calm w" by (intro ok_calm) auto
    with Some AtCompile calm_fresh_closed [of w] show ?thesis
      by (auto simp: cancel_task_def intro!: leave_ok split: option.split)
  qed (use Some assms ok_calm [of w] in \<open>auto simp: cancel_task_def intro!: leave_ok\<close>)
qed (use assms in \<open>simp add: cancel_task_def\<close>)

lemma quarantine_ok: "load_ok w \<Longrightarrow> load_ok (quarantine w)"
  by (auto simp: quarantine_def load_ok_def accounted_def live_engines_def pending_def split: option.splits load_pc.splits)

lemma recover_ok: "load_ok w \<Longrightarrow> load_ok (recover outcome w)"
  by (auto simp: recover_def load_ok_def accounted_def live_engines_def pending_def close_engine_def lessThan_Suc
      split: option.splits load_pc.splits)

lemmas load_step_oks = schedule_load_ok got_load_lock_ok converted_ok built_engine_ok got_handoff_ok
  cancel_task_ok quarantine_ok recover_ok

lemma load_step_ok:
  assumes ok: "load_ok w"
  shows "load_ok (load_step env w ev)"
proof (cases "load_task w")
  case None
  with ok show ?thesis
    by (cases ev) (auto simp: load_step_def intro: load_step_oks split: option.split)
next
  case (Some pc)
  have top: "load_ok (load_top env dev w)" if "pc = AtStart dev" for dev
    using that ok Some ok_calm [OF ok] running_target [OF ok Some] running_lock [OF ok Some]
    by (intro load_top_ok) auto
  have fail: "load_ok (fail_load w)" if "pc = AtCompile dev" for dev
    using that ok Some by (intro fail_load_ok ok_calm) auto
  show ?thesis
    using ok Some top fail
    by (cases ev) (auto simp: load_step_def intro: load_step_oks split: load_pc.split option.split)
qed

interpretation load_machine: invariant_machine load_ok "load_step env" for env
  by unfold_locales (rule load_step_ok)

lemma idle_world_ok: "load_ok idle_world"
  by (auto simp: load_ok_def idle_world_def accounted_def live_engines_def pending_def)

section \<open>Which engine is installed\<close>

lemma loaded_kept [simp]:
  "loaded (leave_task w) = loaded w" "loaded (finish_ready w) = loaded w" "loaded (fail_load w) = loaded w"
  "loaded (load_top env dev w) = loaded w" "loaded (retarget env dev w) = loaded w"
  "loaded (start_compile dev w) = loaded w" "loaded (got_load_lock env dev w) = loaded w"
  "loaded (converted env dev disk w) = loaded w" "loaded (close_engine e w) = loaded w"
  "loaded (cancel_task c w) = loaded w" "loaded (schedule_load dev w) = loaded w"
  by (auto simp: leave_task_def finish_ready_def fail_load_def load_top_def retarget_def start_compile_def
      got_load_lock_def converted_def close_engine_def cancel_task_def schedule_load_def Let_def
      split: option.split load_pc.split bool.split)

lemma loaded_install [simp]: "loaded (install e p w) = Some e"
  by (auto simp: install_def Let_def split: option.split)

lemma load_step_installs:
  assumes ok: "load_ok w" and ev: "\<And>c. ev \<noteq> Recover c"
    and new: "loaded (load_step env w ev) = Some e" "loaded w \<noteq> Some e"
  shows "load_target w = Some (eng_request e)"
proof -
  consider (built) dev actual where "ev = BuildDone (Some actual)" "load_task w = Some (AtCompile dev)"
      "loaded (built_engine env dev actual w) = Some e"
    | (handed) dev r p where "ev = HandoffGranted" "load_task w = Some (AtHandoff dev r p)"
      "loaded (got_handoff env dev r p w) = Some e"
    using new ev
    by (cases ev; cases "load_task w")
      (auto simp: load_step_def quarantine_def split: option.splits load_pc.splits)
  then show ?thesis
  proof cases
    case built
    with running_target [OF ok built(2)] new show ?thesis
      by (auto simp: built_engine_def latest_target_def Let_def split: if_splits option.splits)
  next
    case handed
    with ok have "eng_request r = dev" by (simp add: load_ok_def)
    with handed running_target [OF ok handed(2)] new show ?thesis
      by (auto simp: got_handoff_def latest_target_def split: if_splits option.splits)
  qed
qed

lemma load_step_target:
  assumes "\<And>d. ev \<noteq> Schedule d"
  shows "load_target (load_step env w ev) = load_target w \<or> load_target (load_step env w ev) = None"
  using assms
  by (cases ev)
    (auto simp: load_step_def load_top_def got_load_lock_def converted_def built_engine_def got_handoff_def
      cancel_task_def quarantine_def recover_def finish_ready_def fail_load_def leave_task_def retarget_def
      start_compile_def install_def close_engine_def Let_def split: option.split load_pc.split bool.split)

section \<open>Runs\<close>

definition load_run :: "load_env \<Rightarrow> load_event list \<Rightarrow> load_world" where
  "load_run env evs = foldl (load_step env) idle_world evs"

lemma load_run_ok: "load_ok (load_run env evs)"
  unfolding load_run_def by (rule load_machine.run_ok) (rule idle_world_ok)

definition quiet :: "load_event \<Rightarrow> bool" where
  "quiet ev \<longleftrightarrow> (case ev of Schedule _ \<Rightarrow> False | Recover _ \<Rightarrow> False | _ \<Rightarrow> True)"

lemma quiet_simps [simp]:
  "\<not> quiet (Schedule d)" "\<not> quiet (Recover c)" "quiet TaskStarts" "quiet LoadLockGranted"
  "quiet (ConvertDone b)" "quiet (BuildDone r)" "quiet HandoffGranted" "quiet (Cancel r)" "quiet Quarantine"
  by (simp_all add: quiet_def)

text \<open>What stays true after a request for \<open>dev\<close> while no newer request and no recovery come.\<close>

definition heading_for :: "string \<Rightarrow> engine option \<Rightarrow> load_world \<Rightarrow> bool" where
  "heading_for dev old w \<longleftrightarrow> load_ok w \<and> load_target w \<in> {Some dev, None} \<and>
     (loaded w \<in> {old, None} \<or> (\<exists>e. loaded w = Some e \<and> eng_request e = dev))"

lemma heading_for_step:
  assumes "heading_for dev old w" and "quiet ev"
  shows "heading_for dev old (load_step env w ev)"
proof -
  from assms(1) have ok: "load_ok w" and target: "load_target w \<in> {Some dev, None}"
    and engine: "loaded w \<in> {old, None} \<or> (\<exists>e. loaded w = Some e \<and> eng_request e = dev)"
    unfolding heading_for_def by blast+
  from assms(2) have ev: "\<And>d. ev \<noteq> Schedule d" "\<And>c. ev \<noteq> Recover c" by auto
  have target': "load_target (load_step env w ev) \<in> {Some dev, None}"
    using load_step_target [OF ev(1), of env w] target by auto
  have "loaded (load_step env w ev) \<in> {loaded w, None}
    \<or> (\<exists>e. loaded (load_step env w ev) = Some e \<and> eng_request e = dev)"
  proof (cases "loaded (load_step env w ev)")
    case (Some e)
    show ?thesis
    proof (cases "loaded w = Some e")
      case False
      with load_step_installs [OF ok ev(2) Some] target Some show ?thesis by auto
    qed (use Some in simp)
  qed simp
  with engine target' load_step_ok [OF ok] show ?thesis
    unfolding heading_for_def by auto
qed

interpretation newest_request: invariant_machine "heading_for dev old"
    "\<lambda>w ev. if quiet ev then load_step env w ev else w" for dev old env
  by unfold_locales (auto intro: heading_for_step)

lemma quiet_run: "list_all quiet evs \<Longrightarrow>
    foldl (\<lambda>w ev. if quiet ev then load_step env w ev else w) w evs = foldl (load_step env) w evs"
  by (induction evs arbitrary: w) auto

text \<open>The events a suspended task waits for, and how far it is from its end.\<close>

definition awaited :: "load_world \<Rightarrow> load_event \<Rightarrow> bool" where
  "awaited w ev \<longleftrightarrow>
     (case (load_task w, ev) of
        (Some (AtStart _), TaskStarts) \<Rightarrow> True
      | (Some (AtLoadLock _), LoadLockGranted) \<Rightarrow> True
      | (Some (AtConvert _), ConvertDone _) \<Rightarrow> True
      | (Some (AtCompile _), BuildDone _) \<Rightarrow> True
      | (Some (AtHandoff _ _ _), HandoffGranted) \<Rightarrow> True
      | _ \<Rightarrow> False)"

primrec all_awaited :: "load_env \<Rightarrow> load_world \<Rightarrow> load_event list \<Rightarrow> bool" where
  "all_awaited env w [] = True"
| "all_awaited env w (ev # evs) \<longleftrightarrow> awaited w ev \<and> all_awaited env (load_step env w ev) evs"

fun task_fuel :: "load_pc option \<Rightarrow> (string \<Rightarrow> bool) \<Rightarrow> (engine \<Rightarrow> bool) \<Rightarrow> nat" where
  "task_fuel None stale moved = 0"
| "task_fuel (Some (AtStart d)) stale moved = 6"
| "task_fuel (Some (AtLoadLock d)) stale moved = 5 + (if stale d then 5 else 0)"
| "task_fuel (Some (AtConvert d)) stale moved = 4 + (if stale d then 5 else 0)"
| "task_fuel (Some (AtCompile d)) stale moved = 3 + (if stale d then 5 else 0)"
| "task_fuel (Some (AtHandoff d e p)) stale moved = 1 + (if stale d then 5 else 0) + (if moved p then 1 else 0)"

definition fuel_left :: "load_world \<Rightarrow> nat" where
  "fuel_left w = task_fuel (load_task w) (\<lambda>d. latest_target w d \<noteq> d) (\<lambda>p. loaded w \<noteq> Some p \<and> loaded w \<noteq> None)"

lemma fuel_left_bound: "fuel_left w \<le> 10"
  by (cases "(load_task w, \<lambda>d. latest_target w d \<noteq> d, \<lambda>p. loaded w \<noteq> Some p \<and> loaded w \<noteq> None)" rule: task_fuel.cases)
    (auto simp: fuel_left_def)

lemma fuel_finished [simp]: "load_task w = None \<Longrightarrow> fuel_left w = 0"
  by (simp add: fuel_left_def)

lemma task_left [simp]:
  "load_task (finish_ready w) = None" "load_task (fail_load w) = None" "load_task (install e p w) = None"
  by (auto simp: finish_ready_def leave_task_def fail_load_def install_def Let_def split: option.split)

lemma latest_target_idem [simp]: "latest_target w (latest_target w d) = latest_target w d"
  by (simp add: latest_target_def split: option.split)

lemma latest_target_upd [simp]:
  "latest_target (w\<lparr>load_task := t\<rparr>) d = latest_target w d"
  "latest_target (w\<lparr>load_status := a\<rparr>) d = latest_target w d"
  "latest_target (w\<lparr>load_phase := a\<rparr>) d = latest_target w d"
  "latest_target (w\<lparr>load_lock := b\<rparr>) d = latest_target w d"
  "latest_target (w\<lparr>built := n\<rparr>) d = latest_target w d"
  by (simp_all add: latest_target_def)

lemma fuel_load_top: "fuel_left (load_top env d w) \<le> 5"
  by (auto simp: load_top_def fuel_left_def Let_def latest_target_def split: option.split)

lemma fuel_retarget: "fuel_left (retarget env d w) \<le> 5"
  unfolding retarget_def by (rule fuel_load_top)

lemma fuel_step:
  assumes "awaited w ev"
  shows "fuel_left (load_step env w ev) < fuel_left w"
proof -
  from assms obtain pc where pc: "load_task w = Some pc" by (auto simp: awaited_def split: option.splits)
  note short = fuel_retarget [THEN le_less_trans]
  show ?thesis
  proof (cases pc)
    case (AtStart d)
    with assms pc have "ev = TaskStarts" by (auto simp: awaited_def split: load_event.splits)
    with AtStart pc fuel_load_top [of env d w] show ?thesis
      by (auto simp: load_step_def fuel_left_def)
  next
    case (AtLoadLock d)
    with assms pc have "ev = LoadLockGranted" by (auto simp: awaited_def split: load_event.splits)
    with AtLoadLock pc show ?thesis
      by (auto simp: load_step_def got_load_lock_def start_compile_def Let_def fuel_left_def [of w]
          intro!: short split: option.split bool.split)
        (auto simp: fuel_left_def latest_target_def split: option.splits)
  next
    case (AtConvert d)
    with assms pc obtain b where "ev = ConvertDone b" by (auto simp: awaited_def split: load_event.splits)
    with AtConvert pc show ?thesis
      by (auto simp: load_step_def converted_def start_compile_def Let_def fuel_left_def [of w]
          intro!: short)
        (auto simp: fuel_left_def latest_target_def split: option.splits)
  next
    case (AtCompile d)
    with assms pc obtain r where "ev = BuildDone r" by (auto simp: awaited_def split: load_event.splits)
    with AtCompile pc show ?thesis
      by (auto simp: load_step_def built_engine_def close_engine_def Let_def fuel_left_def [of w]
          intro!: short split: option.split)
        (auto simp: fuel_left_def latest_target_def split: option.splits)
  next
    case (AtHandoff d e p)
    with assms pc have "ev = HandoffGranted" by (auto simp: awaited_def split: load_event.splits)
    with AtHandoff pc show ?thesis
      by (auto simp: load_step_def got_handoff_def close_engine_def Let_def fuel_left_def [of w]
          intro!: short split: option.split)
        (auto simp: fuel_left_def latest_target_def split: option.splits)
  qed
qed

lemma all_awaited_bound: "all_awaited env w evs \<Longrightarrow> length evs \<le> fuel_left w"
proof (induction evs arbitrary: w)
  case (Cons ev evs)
  then have "length evs \<le> fuel_left (load_step env w ev)" and "awaited w ev" by auto
  with fuel_step [of w ev env] show ?case by simp
qed simp

section \<open>What the task guarantees\<close>


text \<open>C5: the newest accepted request wins: after a request for a device on which the model is
  not loaded, and until another request or a recovery comes, the engine in place is the one
  that was there before, none, or one built for the requested device, whatever older request
  was in flight and however its build, conversion, hand-over or cancellation end.\<close>

theorem newest_request_wins:
  assumes "\<not> loaded_on (load_run env before) dev" and "list_all quiet after"
  shows "loaded (load_run env (before @ Schedule dev # after)) \<in> {loaded (load_run env before), None}
    \<or> (\<exists>e. loaded (load_run env (before @ Schedule dev # after)) = Some e \<and> eng_request e = dev)"
proof -
  let ?w = "load_run env before" and ?s = "schedule_load dev (load_run env before)"
  have "heading_for dev (loaded ?w) ?s"
    using assms(1) schedule_load_ok [OF load_run_ok, of dev env before]
    by (simp add: heading_for_def) (simp add: schedule_load_def)
  from newest_request.run_ok [OF this, of env after]
  have "heading_for dev (loaded ?w) (foldl (load_step env) ?s after)"
    by (simp only: quiet_run [OF assms(2)])
  moreover have "load_run env (before @ Schedule dev # after) = foldl (load_step env) ?s after"
    by (simp add: load_run_def load_step_def)
  ultimately show ?thesis unfolding heading_for_def by simp
qed

abbreviation any_env :: load_env where
  "any_env \<equiv> \<lparr>force_mock = False, auto_convert = True, device_available = (\<lambda>d. True), on_disk = True\<rparr>"

abbreviation cpu_loaded :: "load_event list" where
  "cpu_loaded \<equiv> [Schedule ''CPU'', TaskStarts, LoadLockGranted, BuildDone (Some ''CPU'')]"

abbreviation to_gpu :: "load_event list" where
  "to_gpu \<equiv> [TaskStarts, LoadLockGranted, BuildDone (Some ''GPU''), HandoffGranted]"

theorem newest_request_wins_witness:
  "\<not> loaded_on (load_run any_env cpu_loaded) ''GPU''
   \<and> (loaded (load_run any_env (cpu_loaded @ Schedule ''GPU'' # to_gpu)) \<in> {loaded (load_run any_env cpu_loaded), None}
   \<or> (\<exists>e. loaded (load_run any_env (cpu_loaded @ Schedule ''GPU'' # to_gpu)) = Some e \<and> eng_request e = ''GPU''))"
proof -
  have "\<not> loaded_on (load_run any_env cpu_loaded) ''GPU''" by code_simp
  moreover from this have "loaded (load_run any_env (cpu_loaded @ Schedule ''GPU'' # to_gpu)) \<in> {loaded (load_run any_env cpu_loaded), None}
   \<or> (\<exists>e. loaded (load_run any_env (cpu_loaded @ Schedule ''GPU'' # to_gpu)) = Some e \<and> eng_request e = ''GPU'')"
    by (rule newest_request_wins) simp
  ultimately show ?thesis by (rule conjI)
qed

text \<open>A request for the device in use does not win against an older one in flight: with the
  model on the CPU and a switch to the GPU compiling, a newer request for the CPU is answered
  as ready without touching the recorded target, and the GPU engine is installed after it.\<close>

lemma request_for_current_device_loses:
  "loaded_on (load_run any_env cpu_loaded) ''CPU'' \<and>
   loaded (load_run any_env (cpu_loaded @ [Schedule ''GPU'', TaskStarts, LoadLockGranted, Schedule ''CPU'',
     BuildDone (Some ''GPU''), HandoffGranted])) = Some \<lparr>eng_id = 1, eng_device = ''GPU'', eng_request = ''GPU''\<rparr>"
  by code_simp



lemma cooperative_steps:
  assumes "load_task w = None" and "\<not> loaded_on w dev"
    and "force_mock env \<or> device_available env dev \<and> on_disk env"
  shows "let w' = foldl (load_step env) w [Schedule dev, TaskStarts, LoadLockGranted, BuildDone (Some dev), HandoffGranted]
    in loaded_on w' dev \<and> load_task w' = None \<and> \<not> load_lock w' \<and> load_phase w' = Some ''ready''
      \<and> set (map eng_id (live_engines w)) \<subseteq> set (closed w')"
proof -
  have local: "inspect_target env (on_disk env) dev = Some True"
    using assms(3) by (auto simp: inspect_target_def)
  note [simp] = load_step_def schedule_load_def load_top_def got_load_lock_def start_compile_def
    latest_target_def Let_def local
  define v where "v = foldl (load_step env) w [Schedule dev, TaskStarts, LoadLockGranted]"
  have v: "load_task v = Some (AtCompile dev)" "loaded v = loaded w" "load_target v = Some dev" "closed v = closed w"
    using assms(1,2) by (simp_all add: v_def loaded_on_def split: option.split)
  have "let w' = foldl (load_step env) v [BuildDone (Some dev), HandoffGranted]
    in loaded_on w' dev \<and> load_task w' = None \<and> \<not> load_lock w' \<and> load_phase w' = Some ''ready''
      \<and> set (map eng_id (live_engines w)) \<subseteq> set (closed w')"
    using v assms(1)
    by (cases "loaded w") (simp_all add: built_engine_def got_handoff_def install_def finish_ready_def
        leave_task_def close_engine_def loaded_on_def live_engines_def pending_def)
  then show ?thesis by (simp add: v_def del: load_step_def Let_def)
qed

text \<open>A load succeeds when its surroundings do: for a local model on an available device and
  no task running, the request followed by the grants and a successful build leaves an engine
  of that request loaded, no task and no lock behind, and the previous engine closed.\<close>

lemma cooperative_load_completes:
  assumes "load_task (load_run env evs) = None" and "\<not> loaded_on (load_run env evs) dev"
    and "force_mock env \<or> device_available env dev \<and> on_disk env"
  shows "let w = load_run env (evs @ [Schedule dev, TaskStarts, LoadLockGranted, BuildDone (Some dev), HandoffGranted])
    in loaded_on w dev \<and> load_task w = None \<and> \<not> load_lock w \<and> load_phase w = Some ''ready''
      \<and> set (map eng_id (live_engines (load_run env evs))) \<subseteq> set (closed w)"
  using cooperative_steps [OF assms] by (simp only: load_run_def foldl_append)

lemma cooperative_load_completes_witness:
  "loaded_on (load_run any_env (cpu_loaded @ [Schedule ''GPU'', TaskStarts, LoadLockGranted, BuildDone (Some ''GPU''),
     HandoffGranted])) ''GPU''"
proof -
  have "load_task (load_run any_env cpu_loaded) = None" and "\<not> loaded_on (load_run any_env cpu_loaded) ''GPU''"
    by code_simp+
  from cooperative_load_completes [OF this] show ?thesis unfolding Let_def by simp
qed

end
