(* ===== verification/Handoff.thy ===== *)
theory Handoff
  imports Prelude
begin

text \<open>
  Who may use an engine: \<open>app/engine_handoff_safety.py\<close> (the lease every generation takes,
  the guarded unload), the hand-over of \<open>app/model_load_target.py\<close>, and the parts of
  \<open>app/model_manager.py\<close> that replace an engine (\<open>configure_context\<close>) or take it away after
  a cancelled stream. One managed model; engines and locks are numbered in the order they
  are created. The event loop runs the code between two awaits without interruption, so
  each rule of the step relation is one such stretch. A lock that is taken and released
  in one stretch (the hand-overs) is free before and after it.
\<close>

section \<open>State\<close>

datatype request =
    Fresh                    \<comment> \<open>not started\<close>
  | Waiting nat nat          \<comment> \<open>read this engine and this lock, waits for the lock\<close>
  | Running nat nat          \<comment> \<open>inside the lease\<close>
  | Recovering nat nat       \<comment> \<open>lease held while the NPU pipeline is rebuilt\<close>
  | Served
  | Refused                  \<comment> \<open>\<open>ModelNotLoaded\<close>\<close>

datatype preparer =
    NoPrep
  | Compiling                        \<comment> \<open>the load task, load lock held\<close>
  | HandingOver nat nat nat          \<comment> \<open>replacement, previous engine, its lock\<close>
  | ContextBuild "nat option"        \<comment> \<open>\<open>configure_context\<close>: engine read before the build\<close>
  | ContextWait "nat option" "nat option" nat  \<comment> \<open>that engine, replacement, lock\<close>

record handoff =
  engine_slot :: "nat option"       \<comment> \<open>\<open>engines.get(model_id)\<close>\<close>
  lock_slot :: "nat option"         \<comment> \<open>\<open>locks.get(model_id)\<close>\<close>
  lock_owner :: "nat \<Rightarrow> nat option"
  requests :: "nat \<Rightarrow> request"
  preparing :: preparer
  load_active :: bool               \<comment> \<open>a load task that is not done\<close>
  closed_engines :: "nat list"
  next_engine :: nat
  next_lock :: nat
  shutting_down :: bool

definition handoff_start :: handoff where
  "handoff_start = \<lparr>engine_slot = None, lock_slot = None, lock_owner = (\<lambda>_. None), requests = (\<lambda>_. Fresh),
     preparing = NoPrep, load_active = False, closed_engines = [], next_engine = 0, next_lock = 0,
     shutting_down = False\<rparr>"

section \<open>Operations\<close>

definition close_one :: "nat \<Rightarrow> handoff \<Rightarrow> handoff" where
  "close_one e s = s\<lparr>closed_engines := e # closed_engines s\<rparr>"

definition set_request :: "nat \<Rightarrow> request \<Rightarrow> handoff \<Rightarrow> handoff" where
  "set_request r q s = s\<lparr>requests := (requests s)(r := q)\<rparr>"

definition set_owner :: "nat \<Rightarrow> nat option \<Rightarrow> handoff \<Rightarrow> handoff" where
  "set_owner l x s = s\<lparr>lock_owner := (lock_owner s)(l := x)\<rparr>"

text \<open>\<open>get_lock\<close>: \<open>setdefault\<close> with a new lock.\<close>

definition get_lock :: "handoff \<Rightarrow> nat \<times> handoff" where
  "get_lock s = (case lock_slot s of
     Some l \<Rightarrow> (l, s)
   | None \<Rightarrow> (next_lock s, s\<lparr>lock_slot := Some (next_lock s), next_lock := Suc (next_lock s)\<rparr>))"

text \<open>The head of the lease's loop.\<close>

definition take_ticket :: "nat \<Rightarrow> handoff \<Rightarrow> handoff" where
  "take_ticket r s = (case engine_slot s of
     None \<Rightarrow> set_request r Refused s
   | Some e \<Rightarrow> (let (l, s1) = get_lock s in set_request r (Waiting e l) s1))"

text \<open>After the lock is granted: both are read again; if either changed the lock is given back.\<close>

definition lease_granted :: "nat \<Rightarrow> nat \<Rightarrow> nat \<Rightarrow> handoff \<Rightarrow> handoff" where
  "lease_granted r e l s =
     (let (l', s1) = get_lock s
      in if engine_slot s1 = Some e \<and> l' = l then set_owner l (Some r) (set_request r (Running e l) s1)
         else take_ticket r s1)"

definition release :: "nat \<Rightarrow> nat \<Rightarrow> handoff \<Rightarrow> handoff" where
  "release r l s = set_owner l None (set_request r Served s)"

text \<open>\<open>_finish_stream_handle\<close> when the worker did not stop in time.\<close>

definition quarantine_engine :: "nat \<Rightarrow> handoff \<Rightarrow> handoff" where
  "quarantine_engine e s = (if engine_slot s = Some e then s\<lparr>engine_slot := None\<rparr> else s)"

text \<open>\<open>_recover_cancelled_npu_engine\<close>: close first, then rebuild in a worker.\<close>

definition start_recovery :: "nat \<Rightarrow> nat \<Rightarrow> nat \<Rightarrow> handoff \<Rightarrow> handoff" where
  "start_recovery r e l s =
     (if engine_slot s = Some e then set_request r (Recovering e l) (close_one e s) else release r l s)"

definition fresh_engine :: "handoff \<Rightarrow> nat \<times> handoff" where
  "fresh_engine s = (next_engine s, s\<lparr>next_engine := Suc (next_engine s)\<rparr>)"

definition end_recovery :: "bool \<Rightarrow> nat \<Rightarrow> nat \<Rightarrow> nat \<Rightarrow> handoff \<Rightarrow> handoff" where
  "end_recovery success r e l s =
     (if \<not> success then release r l (s\<lparr>engine_slot := None\<rparr>)
      else let (n, s1) = fresh_engine s
           in if engine_slot s1 = Some e then release r l (s1\<lparr>engine_slot := Some n\<rparr>)
              else release r l (close_one n s1))"

text \<open>The replacement goes in together with a new lock, then the previous engine is closed.\<close>

definition put_engine :: "nat \<Rightarrow> handoff \<Rightarrow> handoff" where
  "put_engine n s = s\<lparr>engine_slot := Some n, lock_slot := Some (next_lock s), next_lock := Suc (next_lock s)\<rparr>"

definition load_done :: "handoff \<Rightarrow> handoff" where
  "load_done s = s\<lparr>preparing := NoPrep, load_active := False\<rparr>"

text \<open>The head of the loop of \<open>_acquire_stable_handoff_lock\<close>.\<close>

definition seek_handoff :: "nat \<Rightarrow> handoff \<Rightarrow> handoff" where
  "seek_handoff n s = (case engine_slot s of
     None \<Rightarrow> load_done (put_engine n s)
   | Some p \<Rightarrow> (let (l, s1) = get_lock s in s1\<lparr>preparing := HandingOver n p l\<rparr>))"

definition handoff_granted :: "nat \<Rightarrow> nat \<Rightarrow> nat \<Rightarrow> handoff \<Rightarrow> handoff" where
  "handoff_granted n p l s =
     (let (l', s1) = get_lock s
      in if engine_slot s1 = Some p \<and> l' = l then load_done (close_one p (put_engine n s1))
         else seek_handoff n s1)"

text \<open>The load task's \<open>except\<close> branch, from its guarded part and from the checks before it.\<close>

definition load_rejected :: "handoff \<Rightarrow> handoff" where
  "load_rejected s = (if engine_slot s = None then s\<lparr>lock_slot := None\<rparr> else s)\<lparr>load_active := False\<rparr>"

definition load_failed :: "handoff \<Rightarrow> handoff" where
  "load_failed s = load_done (load_rejected s)"

text \<open>\<open>configure_context\<close> after its lock is granted: only the engine is compared again.\<close>

definition context_dropped :: "nat option \<Rightarrow> handoff \<Rightarrow> handoff" where
  "context_dropped rep s = (case rep of None \<Rightarrow> s | Some n \<Rightarrow> close_one n s)\<lparr>preparing := NoPrep\<rparr>"

definition context_granted :: "nat option \<Rightarrow> nat option \<Rightarrow> handoff \<Rightarrow> handoff" where
  "context_granted old rep s =
     (if engine_slot s \<noteq> old then context_dropped rep s
      else (case (rep, old) of
              (Some n, Some e) \<Rightarrow> close_one e (put_engine n (s\<lparr>preparing := NoPrep\<rparr>))
            | _ \<Rightarrow> s\<lparr>preparing := NoPrep\<rparr>))"

text \<open>\<open>unload_when_idle\<close>: \<open>None\<close> for \<open>ModelBusyError\<close>.\<close>

definition unload_engine :: "handoff \<Rightarrow> handoff" where
  "unload_engine s =
     (let s1 = s\<lparr>engine_slot := None, lock_slot := None\<rparr>
      in case engine_slot s of None \<Rightarrow> s1 | Some e \<Rightarrow> close_one e s1)"

definition unload_when_idle :: "handoff \<Rightarrow> handoff option" where
  "unload_when_idle s =
     (if shutting_down s then Some (unload_engine s)
      else if load_active s then None
      else case lock_slot s of
        None \<Rightarrow> Some (unload_engine s)
      | Some l \<Rightarrow> if lock_owner s l \<noteq> None then None else Some (unload_engine s))"

section \<open>Steps\<close>

fun loader_running :: "preparer \<Rightarrow> bool" where
  "loader_running Compiling = True"
| "loader_running (HandingOver n p l) = True"
| "loader_running _ = False"

inductive handoff_step :: "handoff \<Rightarrow> handoff \<Rightarrow> bool" where
  Arrive: "requests s r = Fresh \<Longrightarrow> handoff_step s (take_ticket r s)"
| Grant: "requests s r = Waiting e l \<Longrightarrow> lock_owner s l = None \<Longrightarrow> handoff_step s (lease_granted r e l s)"
| Finish: "requests s r = Running e l \<Longrightarrow> handoff_step s (release r l s)"
| Quarantine: "requests s r = Running e l \<Longrightarrow> handoff_step s (release r l (quarantine_engine e s))"
| Recover: "requests s r = Running e l \<Longrightarrow> handoff_step s (start_recovery r e l s)"
| Recovered: "requests s r = Recovering e l \<Longrightarrow> handoff_step s (end_recovery success r e l s)"
| Schedule: "handoff_step s (s\<lparr>load_active := True\<rparr>)"
| Compile: "preparing s = NoPrep \<Longrightarrow> load_active s \<Longrightarrow> handoff_step s (s\<lparr>preparing := Compiling\<rparr>)"
| Built: "preparing s = Compiling \<Longrightarrow> fresh_engine s = (n, s1) \<Longrightarrow> handoff_step s (seek_handoff n s1)"
| Discard: "preparing s = Compiling \<Longrightarrow> fresh_engine s = (n, s1) \<Longrightarrow>
    handoff_step s ((close_one n s1)\<lparr>preparing := NoPrep\<rparr>)"
| LoadFailed: "preparing s = Compiling \<Longrightarrow> handoff_step s (load_failed s)"
| Handoff: "preparing s = HandingOver n p l \<Longrightarrow> lock_owner s l = None \<Longrightarrow>
    handoff_step s (handoff_granted n p l s)"
| HandoffAbort: "preparing s = HandingOver n p l \<Longrightarrow>
    handoff_step s ((close_one n s)\<lparr>preparing := NoPrep\<rparr>)"
| LoadGone: "\<not> loader_running (preparing s) \<Longrightarrow> handoff_step s (s\<lparr>load_active := False\<rparr>)"
| LoadRejected: "\<not> loader_running (preparing s) \<Longrightarrow> load_active s \<Longrightarrow> handoff_step s (load_rejected s)"
| Context: "preparing s = NoPrep \<Longrightarrow> \<not> load_active s \<Longrightarrow>
    handoff_step s (s\<lparr>preparing := ContextBuild (engine_slot s)\<rparr>)"
| ContextBuilt: "preparing s = ContextBuild (Some e) \<Longrightarrow> fresh_engine s = (n, s1) \<Longrightarrow> get_lock s1 = (l, s2) \<Longrightarrow>
    handoff_step s (s2\<lparr>preparing := ContextWait (Some e) (Some n) l\<rparr>)"
| ContextKept: "preparing s = ContextBuild old \<Longrightarrow> get_lock s = (l, s1) \<Longrightarrow>
    handoff_step s (s1\<lparr>preparing := ContextWait old None l\<rparr>)"
| ContextDiscard: "preparing s = ContextBuild old \<Longrightarrow> fresh_engine s = (n, s1) \<Longrightarrow>
    handoff_step s ((close_one n s1)\<lparr>preparing := NoPrep\<rparr>)"
| ContextFailed: "preparing s = ContextBuild old \<Longrightarrow> handoff_step s (s\<lparr>preparing := NoPrep\<rparr>)"
| ContextGranted: "preparing s = ContextWait old rep l \<Longrightarrow> lock_owner s l = None \<Longrightarrow>
    handoff_step s (context_granted old rep s)"
| ContextAbort: "preparing s = ContextWait old rep l \<Longrightarrow> handoff_step s (context_dropped rep s)"
| Unload: "unload_when_idle s = Some s' \<Longrightarrow> handoff_step s s'"
| Shutdown: "handoff_step s (s\<lparr>shutting_down := True\<rparr>)"

declare handoff_step.intros [intro]

inductive handoff_reach :: "handoff \<Rightarrow> bool" where
  Start: "handoff_reach handoff_start"
| Step: "handoff_reach s \<Longrightarrow> handoff_step s s' \<Longrightarrow> handoff_reach s'"

section \<open>The invariant\<close>

fun holding :: "request \<Rightarrow> (nat \<times> nat) option" where
  "holding (Running e l) = Some (e, l)"
| "holding (Recovering e l) = Some (e, l)"
| "holding _ = None"

lemma holding_Some: "holding q = Some (e, l) \<longleftrightarrow> q = Running e l \<or> q = Recovering e l"
  by (cases q) auto

text \<open>The lease: whoever holds it holds the current lock and uses the current engine.\<close>

definition leases_ok :: "handoff \<Rightarrow> bool" where
  "leases_ok s \<longleftrightarrow>
     (\<forall>r e l. holding (requests s r) = Some (e, l) \<longrightarrow>
        engine_slot s = Some e \<and> lock_slot s = Some l \<and> lock_owner s l = Some r) \<and>
     (\<forall>l r. lock_owner s l = Some r \<longrightarrow> (\<exists>e. holding (requests s r) = Some (e, l)))"

text \<open>Only an engine that is being rebuilt is both current and closed.\<close>

definition engines_ok :: "handoff \<Rightarrow> bool" where
  "engines_ok s \<longleftrightarrow>
     (\<forall>e. engine_slot s = Some e \<longrightarrow> e < next_engine s) \<and>
     (\<forall>e. engine_slot s = Some e \<longrightarrow> e \<in> set (closed_engines s) \<longrightarrow> (\<exists>r l. requests s r = Recovering e l)) \<and>
     (\<forall>e \<in> set (closed_engines s). e < next_engine s) \<and>
     (\<forall>l. lock_slot s = Some l \<longrightarrow> l < next_lock s)"

definition unused :: "handoff \<Rightarrow> nat \<Rightarrow> bool" where
  "unused s n \<longleftrightarrow> n < next_engine s \<and> n \<notin> set (closed_engines s) \<and> engine_slot s \<noteq> Some n"

definition preparer_ok :: "handoff \<Rightarrow> bool" where
  "preparer_ok s \<longleftrightarrow> (case preparing s of
     HandingOver n p l \<Rightarrow> unused s n
   | ContextBuild old \<Rightarrow> (\<forall>e. old = Some e \<longrightarrow> e < next_engine s)
   | ContextWait old rep l \<Rightarrow> (\<forall>n. rep = Some n \<longrightarrow> unused s n) \<and>
       (\<forall>e. old = Some e \<longrightarrow> e < next_engine s \<and> (engine_slot s = Some e \<longrightarrow> lock_slot s = Some l))
   | _ \<Rightarrow> True)"

definition handoff_ok :: "handoff \<Rightarrow> bool" where
  "handoff_ok s \<longleftrightarrow> shutting_down s \<or> leases_ok s \<and> engines_ok s \<and> preparer_ok s"

lemmas op_defs = close_one_def set_request_def set_owner_def release_def fresh_engine_def put_engine_def
  load_done_def quarantine_engine_def

lemmas ok_defs = leases_ok_def engines_ok_def preparer_ok_def unused_def

lemma get_lock_ok:
  assumes "leases_ok s" "engines_ok s" "preparer_ok s" and "get_lock s = (l, s1)"
  shows "leases_ok s1 \<and> engines_ok s1 \<and> preparer_ok s1 \<and> lock_slot s1 = Some l \<and>
    engine_slot s1 = engine_slot s \<and> requests s1 = requests s \<and> lock_owner s1 = lock_owner s \<and>
    preparing s1 = preparing s \<and> shutting_down s1 = shutting_down s \<and> closed_engines s1 = closed_engines s \<and>
    next_engine s1 = next_engine s"
  using assms by (auto simp: get_lock_def ok_defs split: option.splits preparer.splits)

abbreviation all_ok :: "handoff \<Rightarrow> bool" where
  "all_ok s \<equiv> leases_ok s \<and> engines_ok s \<and> preparer_ok s"

lemma held:
  assumes "leases_ok s" and "holding (requests s r) = Some (e, l)"
  shows "engine_slot s = Some e" and "lock_slot s = Some l" and "lock_owner s l = Some r"
  using assms unfolding leases_ok_def by blast+

lemma held_unique:
  assumes "leases_ok s" and "holding (requests s r) = Some x" and "holding (requests s r') = Some y"
  shows "r' = r" and "y = x"
proof -
  obtain e l e' l' where xy: "x = (e, l)" "y = (e', l')" by fastforce
  note a = held [OF assms(1), of r e l] and b = held [OF assms(1), of r' e' l']
  show "r' = r" "y = x" using a b assms(2,3) xy by auto
qed

lemma free_lock: "leases_ok s \<Longrightarrow> lock_slot s = Some l \<Longrightarrow> lock_owner s l = None \<Longrightarrow> holding (requests s r) = None"
  by (cases "holding (requests s r)") (auto simp: leases_ok_def)

lemma no_engine: "leases_ok s \<Longrightarrow> engine_slot s = None \<Longrightarrow> holding (requests s r) = None"
  by (cases "holding (requests s r)") (auto simp: leases_ok_def)

text \<open>With nobody inside a lease, the engine and the lock can be exchanged freely.\<close>

definition nobody :: "handoff \<Rightarrow> bool" where
  "nobody s \<longleftrightarrow> (\<forall>r. holding (requests s r) = None)"

lemma nobody_free: "all_ok s \<Longrightarrow> nobody s \<Longrightarrow> lock_owner s l = None"
  by (cases "lock_owner s l") (auto simp: leases_ok_def nobody_def)

lemma nobody_current:
  assumes "all_ok s" "nobody s" "engine_slot s = Some e"
  shows "e \<notin> set (closed_engines s)"
proof
  assume "e \<in> set (closed_engines s)"
  with assms obtain r l where "requests s r = Recovering e l" unfolding engines_ok_def by blast
  with assms(2) show False unfolding nobody_def by (metis holding.simps(2) option.distinct(1))
qed

lemma nobody_ok: "nobody s \<Longrightarrow> (\<And>l. lock_owner s l = None) \<Longrightarrow> leases_ok s"
  by (simp add: leases_ok_def nobody_def)

lemma preparer_ok_upd [simp]:
  "preparer_ok (set_request r q s) = preparer_ok s" "preparer_ok (set_owner l x s) = preparer_ok s"
  by (simp_all add: preparer_ok_def unused_def set_request_def set_owner_def split: preparer.split)

lemma nobodyI:
  "all_ok s \<Longrightarrow> engine_slot s = None \<Longrightarrow> nobody s"
  "all_ok s \<Longrightarrow> lock_slot s = Some l \<Longrightarrow> lock_owner s l = None \<Longrightarrow> nobody s"
  unfolding nobody_def using no_engine free_lock by blast+

text \<open>A request that holds no lease may change between states that hold none.\<close>

lemma holding_upd: "holding (requests s r) = None \<Longrightarrow> holding q = None \<Longrightarrow>
    holding (if x = r then q else requests s x) = holding (requests s x)"
  by simp

lemma set_request_ok:
  assumes "all_ok s" and "holding (requests s r) = None" and "holding q = None"
  shows "all_ok (set_request r q s)"
proof (intro conjI)
  from assms show "leases_ok (set_request r q s)"
    by (simp add: leases_ok_def set_request_def holding_upd)
  have "requests s x = Recovering e l \<Longrightarrow> x \<noteq> r" for x e l
    using assms(2) by auto
  with assms(1) show "engines_ok (set_request r q s)"
    unfolding engines_ok_def set_request_def by simp metis
qed (use assms in simp)

lemma take_ticket_ok:
  assumes "all_ok s" and "holding (requests s r) = None"
  shows "all_ok (take_ticket r s)"
proof (cases "engine_slot s")
  case None
  with assms show ?thesis by (simp add: take_ticket_def set_request_ok)
next
  case (Some e)
  obtain l s1 where g: "get_lock s = (l, s1)" by fastforce
  from get_lock_ok [OF _ _ _ this] assms Some g show ?thesis
    by (simp add: take_ticket_def set_request_ok)
qed

lemma lease_granted_ok:
  assumes "all_ok s" and "requests s r = Waiting e l" and "lock_owner s l = None"
  shows "all_ok (lease_granted r e l s)"
proof -
  obtain l' s1 where g: "get_lock s = (l', s1)" by fastforce
  note f = get_lock_ok [OF _ _ _ this]
  show ?thesis
  proof (cases "engine_slot s1 = Some e \<and> l' = l")
    case True
    from assms f have ok: "all_ok s1" and free: "lock_owner s1 l' = None" "lock_slot s1 = Some l'"
      using True by auto
    have "nobody s1" by (rule nobodyI(2) [OF ok free(2,1)])
    then have "all_ok (set_owner l (Some r) (set_request r (Running e l) s1))"
      using ok True free nobody_free [OF ok \<open>nobody s1\<close>] nobody_current [OF ok \<open>nobody s1\<close>]
      by (auto simp: set_owner_def set_request_def ok_defs nobody_def split: preparer.splits)
    with True g show ?thesis by (simp add: lease_granted_def)
  next
    case False
    with assms f g show ?thesis
      by (auto simp: lease_granted_def intro!: take_ticket_ok)
  qed
qed

lemma release_nobody:
  assumes ok: "all_ok s" and held: "holding (requests s r) = Some (e, l)"
  shows "nobody (release r l s)" and "\<And>x. lock_owner (release r l s) x = None"
proof -
  have only: "x = r" if "holding (requests s x) = Some y" for x y
    using held_unique(1) [OF _ held that] ok by simp
  have "holding (requests s x) = None" if "x \<noteq> r" for x
    using only that by (cases "holding (requests s x)") auto
  then show "nobody (release r l s)"
    by (simp add: nobody_def release_def set_owner_def set_request_def)
  show "lock_owner (release r l s) x = None" for x
  proof (cases "lock_owner s x")
    case (Some y)
    with ok obtain e' where "holding (requests s y) = Some (e', x)" unfolding leases_ok_def by blast
    with only held have "x = l" by fastforce
    then show ?thesis by (simp add: release_def set_owner_def)
  qed (simp add: release_def set_owner_def set_request_def)
qed

lemma release_keeps [simp]:
  "engine_slot (release r l s) = engine_slot s" "lock_slot (release r l s) = lock_slot s"
  "closed_engines (release r l s) = closed_engines s" "next_engine (release r l s) = next_engine s"
  "next_lock (release r l s) = next_lock s" "preparing (release r l s) = preparing s"
  "shutting_down (release r l s) = shutting_down s" "preparer_ok (release r l s) = preparer_ok s"
  by (simp_all add: release_def) (simp_all add: set_owner_def set_request_def)


lemma release_ok:
  assumes "all_ok s" and "holding (requests s r) = Some (e, l)" and "e \<notin> set (closed_engines s)"
  shows "all_ok (release r l s)"
proof (intro conjI)
  show "leases_ok (release r l s)"
    by (rule nobody_ok) (use release_nobody [OF assms(1,2)] in auto)
  have "engine_slot s = Some e" using assms held(1) by blast
  with assms show "engines_ok (release r l s)" by (simp add: engines_ok_def)
qed (use assms in simp)

lemma running_open:
  assumes "all_ok s" and "requests s r = Running e l"
  shows "e \<notin> set (closed_engines s)" and "engine_slot s = Some e"
proof -
  show slot: "engine_slot s = Some e" using assms held(1) [of s r e l] by simp
  show "e \<notin> set (closed_engines s)"
  proof
    assume "e \<in> set (closed_engines s)"
    with assms slot obtain r' l' where "requests s r' = Recovering e l'" unfolding engines_ok_def by blast
    with assms have "r' = r" using held_unique(1) [of s r "(e, l)" r' "(e, l')"] by simp
    with assms(2) \<open>requests s r' = Recovering e l'\<close> show False by simp
  qed
qed

lemma quarantine_release_ok:
  assumes "all_ok s" and "requests s r = Running e l"
  shows "all_ok (release r l (quarantine_engine e s))"
proof (intro conjI)
  have slot: "engine_slot s = Some e" by (rule running_open [OF assms])
  have eq: "release r l (quarantine_engine e s) = (release r l s)\<lparr>engine_slot := None\<rparr>"
    using slot by (simp add: release_def quarantine_engine_def set_owner_def set_request_def)
  have "nobody (release r l s)" and "\<And>x. lock_owner (release r l s) x = None"
    using release_nobody [OF assms(1)] assms(2) by auto
  then show "leases_ok (release r l (quarantine_engine e s))"
    unfolding eq by (intro nobody_ok) (auto simp: nobody_def)
  from assms slot show "engines_ok (release r l (quarantine_engine e s))" "preparer_ok (release r l (quarantine_engine e s))"
    by (auto simp: engines_ok_def preparer_ok_def unused_def quarantine_engine_def split: preparer.split)
qed

lemma start_recovery_ok:
  assumes "all_ok s" and "requests s r = Running e l"
  shows "all_ok (start_recovery r e l s)"
proof -
  note run = running_open [OF assms]
  have eq: "start_recovery r e l s = set_request r (Recovering e l) (close_one e s)"
    using run by (simp add: start_recovery_def)
  have same: "holding (if x = r then Recovering e l else requests s x) = holding (requests s x)" for x
    using assms(2) by simp
  show ?thesis unfolding eq
  proof (intro conjI)
    show "leases_ok (set_request r (Recovering e l) (close_one e s))"
      using assms(1) by (simp add: leases_ok_def set_request_def close_one_def same)
    show "engines_ok (set_request r (Recovering e l) (close_one e s))"
      using assms(1) run by (auto simp: engines_ok_def set_request_def close_one_def)
    show "preparer_ok (set_request r (Recovering e l) (close_one e s))"
      unfolding preparer_ok_upd using assms(1) run
      by (auto simp: close_one_def preparer_ok_def unused_def split: preparer.splits)
  qed
qed

lemma end_recovery_ok:
  assumes ok: "all_ok s" and req: "requests s r = Recovering e l"
  shows "all_ok (end_recovery success r e l s)"
proof -
  have held: "holding (requests s r) = Some (e, l)" and slot: "engine_slot s = Some e"
    using assms held(1) [of s r e l] by auto
  define w where "w = release r l s"
  have w: "nobody w" "\<And>x. lock_owner w x = None" "engines_ok (w\<lparr>engine_slot := None\<rparr>)" "preparer_ok w"
    "next_engine w = next_engine s" "closed_engines w = closed_engines s" "preparing w = preparing s"
    using release_nobody [OF ok held] ok by (auto simp: w_def engines_ok_def)
  show ?thesis
  proof (cases success)
    case False
    then have "end_recovery success r e l s = w\<lparr>engine_slot := None\<rparr>"
      by (simp add: end_recovery_def w_def release_def set_owner_def set_request_def)
    with w show ?thesis
      by (auto simp: leases_ok_def nobody_def preparer_ok_def unused_def split: preparer.splits)
  next
    case True
    then have "end_recovery success r e l s = w\<lparr>engine_slot := Some (next_engine s), next_engine := Suc (next_engine s)\<rparr>"
      using slot by (simp add: end_recovery_def fresh_engine_def w_def release_def set_owner_def set_request_def)
    with w show ?thesis
      by (auto simp: leases_ok_def engines_ok_def nobody_def preparer_ok_def unused_def less_Suc_eq split: preparer.splits)
  qed
qed

text \<open>Putting a new engine and a new lock in place, with nobody inside a lease.\<close>

lemma put_engine_ok:
  assumes "all_ok s" and "nobody s" and "unused s n" and "\<And>old rep l. preparing s \<noteq> ContextWait old rep l"
    and "\<And>m p l. preparing s \<noteq> HandingOver m p l"
  shows "all_ok (put_engine n s)"
  using assms nobody_free [OF assms(1,2)]
  by (auto simp: put_engine_def leases_ok_def engines_ok_def nobody_def preparer_ok_def unused_def split: preparer.splits)

lemma close_other_ok:
  assumes "all_ok s" and "engine_slot s \<noteq> Some e" and "e < next_engine s"
    and "\<And>old rep l. preparing s \<noteq> ContextWait old rep l" and "\<And>m p l. preparing s \<noteq> HandingOver m p l"
  shows "all_ok (close_one e s)"
  using assms by (auto simp: close_one_def leases_ok_def engines_ok_def preparer_ok_def unused_def split: preparer.splits)


lemma idle_ok: "all_ok s \<Longrightarrow> all_ok (s\<lparr>preparing := NoPrep\<rparr>)" "all_ok (s\<lparr>load_active := b\<rparr>) = all_ok s"
  "all_ok (s\<lparr>preparing := NoPrep, load_active := b\<rparr>) = all_ok (s\<lparr>preparing := NoPrep\<rparr>)"
  by (auto simp: leases_ok_def engines_ok_def preparer_ok_def unused_def split: preparer.split)

lemma still [simp]:
  "nobody (s\<lparr>preparing := p\<rparr>) = nobody s" "nobody (s\<lparr>load_active := b\<rparr>) = nobody s"
  "unused (s\<lparr>preparing := p\<rparr>) = unused s" "unused (s\<lparr>load_active := b\<rparr>) = unused s"
  by (simp_all add: nobody_def unused_def fun_eq_iff)

lemma moves:
  "put_engine n (s\<lparr>preparing := p\<rparr>) = (put_engine n s)\<lparr>preparing := p\<rparr>"
  "close_one e (s\<lparr>preparing := p\<rparr>) = (close_one e s)\<lparr>preparing := p\<rparr>"
  by (cases s; simp add: put_engine_def close_one_def)+

lemma load_done_ok [simp]: "all_ok (load_done s) = all_ok (s\<lparr>preparing := NoPrep\<rparr>)"
  unfolding load_done_def by (rule idle_ok(3))

lemma leases_upd [simp]:
  "leases_ok (s\<lparr>next_engine := m\<rparr>) = leases_ok s" "leases_ok (s\<lparr>preparing := p\<rparr>) = leases_ok s"
  by (simp_all add: leases_ok_def)

lemma fresh_ok:
  assumes "all_ok s" and "fresh_engine s = (n, s1)"
  shows "all_ok s1" and "unused s1 n" and "preparing s1 = preparing s" and "engine_slot s1 = engine_slot s"
    and "next_engine s1 = Suc n" and "shutting_down s1 = shutting_down s"
proof -
  from assms(2) have eq: "n = next_engine s" "s1 = s\<lparr>next_engine := Suc (next_engine s)\<rparr>"
    by (auto simp: fresh_engine_def)
  show "preparing s1 = preparing s" "engine_slot s1 = engine_slot s" "next_engine s1 = Suc n"
    "shutting_down s1 = shutting_down s" by (simp_all add: eq)
  from assms(1) show "unused s1 n" by (auto simp: eq unused_def engines_ok_def)
  have "engines_ok s1" using assms(1) by (fastforce simp: eq engines_ok_def less_Suc_eq)
  moreover have "preparer_ok s1"
    using assms(1) by (auto simp: eq preparer_ok_def unused_def less_Suc_eq split: preparer.splits)
  ultimately show "all_ok s1" using assms(1) by (simp add: eq)
qed

lemma drop_ok:
  assumes "all_ok s" and "unused s n"
  shows "all_ok ((close_one n s)\<lparr>preparing := NoPrep\<rparr>)"
proof -
  have "all_ok (close_one n (s\<lparr>preparing := NoPrep\<rparr>))"
    using assms idle_ok(1) [OF assms(1)] by (intro close_other_ok) (auto simp: unused_def)
  then show ?thesis unfolding moves .
qed

lemma replace_ok:
  assumes "all_ok s" and "nobody s" and "unused s n" and "engine_slot s = Some p"
  shows "all_ok (close_one p (put_engine n (s\<lparr>preparing := NoPrep\<rparr>)))"
proof -
  have "p < next_engine s" "p \<noteq> n" using assms by (auto simp: engines_ok_def unused_def)
  moreover have "all_ok (put_engine n (s\<lparr>preparing := NoPrep\<rparr>))"
    using assms idle_ok(1) [OF assms(1)] by (intro put_engine_ok) auto
  ultimately show ?thesis by (intro close_other_ok) (auto simp: put_engine_def)
qed

lemma seek_handoff_ok:
  assumes "all_ok s" and "unused s n"
  shows "all_ok (seek_handoff n s)"
proof (cases "engine_slot s")
  case None
  then have "all_ok (put_engine n (s\<lparr>preparing := NoPrep\<rparr>))"
    using assms idle_ok(1) [OF assms(1)] nobodyI(1) [OF assms(1)] by (intro put_engine_ok) auto
  then have "all_ok (load_done (put_engine n s))" unfolding load_done_ok moves .
  with None show ?thesis by (simp only: seek_handoff_def option.case)
next
  case (Some p)
  obtain l s1 where g: "get_lock s = (l, s1)" by fastforce
  from get_lock_ok [OF _ _ _ this] assms Some g show ?thesis
    by (auto simp: seek_handoff_def leases_ok_def engines_ok_def preparer_ok_def unused_def)
qed

lemma handoff_granted_ok:
  assumes "all_ok s" and prep: "preparing s = HandingOver n p l" and "lock_owner s l = None"
  shows "all_ok (handoff_granted n p l s)"
proof -
  have n: "unused s n" using assms by (simp add: preparer_ok_def)
  obtain l' s1 where g: "get_lock s = (l', s1)" by fastforce
  note f = get_lock_ok [OF _ _ _ this]
  with assms n have ok: "all_ok s1" and n1: "unused s1 n" and same: "lock_slot s1 = Some l'" "lock_owner s1 = lock_owner s"
    by (auto simp: unused_def)
  show ?thesis
  proof (cases "engine_slot s1 = Some p \<and> l' = l")
    case True
    with ok same assms(3) have "nobody s1" by (intro nobodyI(2)) auto
    from replace_ok [OF ok this n1] True have "all_ok (load_done (close_one p (put_engine n s1)))"
      unfolding load_done_ok moves by simp
    with True g show ?thesis by (simp add: handoff_granted_def del: load_done_ok)
  next
    case False
    with g ok n1 show ?thesis by (auto simp: handoff_granted_def intro!: seek_handoff_ok)
  qed
qed

lemma load_rejected_ok:
  assumes "all_ok s"
  shows "all_ok (load_rejected s)"
proof (cases "engine_slot s")
  case None
  with assms have "nobody s" by (rule nobodyI(1))
  with None assms nobody_free [OF assms this] show ?thesis
    by (auto simp: load_rejected_def leases_ok_def engines_ok_def preparer_ok_def unused_def nobody_def split: preparer.splits)
qed (use assms idle_ok(2) in \<open>simp add: load_rejected_def\<close>)

lemma load_failed_ok: "all_ok s \<Longrightarrow> all_ok (load_failed s)"
  unfolding load_failed_def load_done_ok by (intro idle_ok load_rejected_ok)

lemma context_dropped_ok:
  assumes "all_ok s" and "preparing s = ContextWait old rep l"
  shows "all_ok (context_dropped rep s)"
  using assms drop_ok [OF assms(1)] idle_ok(1) [OF assms(1)]
  by (cases rep) (simp_all add: context_dropped_def preparer_ok_def)

lemma context_granted_ok:
  assumes ok: "all_ok s" and prep: "preparing s = ContextWait old rep l" and free: "lock_owner s l = None"
  shows "all_ok (context_granted old rep s)"
proof (cases "engine_slot s = old")
  case False
  with context_dropped_ok [OF ok prep] show ?thesis by (simp add: context_granted_def)
next
  case True
  show ?thesis
  proof (cases "\<exists>n e. rep = Some n \<and> old = Some e")
    case True
    then obtain n e where ne: "rep = Some n" "old = Some e" by blast
    with ok prep \<open>engine_slot s = old\<close> have "unused s n" "lock_slot s = Some l" by (auto simp: preparer_ok_def)
    with replace_ok [OF ok nobodyI(2) [OF ok _ free]] ne \<open>engine_slot s = old\<close> show ?thesis
      by (simp add: context_granted_def)
  next
    case False
    with True idle_ok(1) [OF ok] show ?thesis
      by (auto simp: context_granted_def split: option.split)
  qed
qed

lemma unload_ok:
  assumes ok: "all_ok s" and "unload_when_idle s = Some s'" and "\<not> shutting_down s"
  shows "all_ok s'"
proof -
  from assms have s': "s' = unload_engine s"
    and free: "lock_slot s = None \<or> (\<exists>l. lock_slot s = Some l \<and> lock_owner s l = None)"
    by (auto simp: unload_when_idle_def split: if_splits option.splits)
  have nobody: "nobody s"
  proof (cases "lock_slot s")
    case None
    then show ?thesis
      unfolding nobody_def using ok held(2) by (metis not_Some_eq old.prod.exhaust)
  qed (use free nobodyI(2) [OF ok] in auto)
  with nobody_free [OF ok] ok show ?thesis
    by (auto simp: s' unload_engine_def close_one_def leases_ok_def engines_ok_def nobody_def preparer_ok_def
        unused_def Let_def split: option.splits preparer.splits)
qed

lemma handoff_start_ok: "handoff_ok handoff_start"
  by (simp add: handoff_ok_def handoff_start_def leases_ok_def engines_ok_def preparer_ok_def)

lemmas step_oks = set_request_ok take_ticket_ok lease_granted_ok release_ok quarantine_release_ok start_recovery_ok
  end_recovery_ok seek_handoff_ok drop_ok load_failed_ok load_rejected_ok handoff_granted_ok context_granted_ok
  context_dropped_ok idle_ok(1)

lemma step_keeps_ok:
  assumes "handoff_step s s'" and ok: "all_ok s" and up: "\<not> shutting_down s"
  shows "all_ok s' \<or> shutting_down s'"
  using assms(1)
proof (cases rule: handoff_step.cases)
  case (Arrive r)
  with ok show ?thesis by (simp only:) (intro disjI1 take_ticket_ok; simp)
next
  case (Grant r e l)
  with ok show ?thesis by (simp only:) (intro disjI1 lease_granted_ok; simp)
next
  case (Finish r e l)
  with release_ok [OF ok, of r e l] running_open(1) [OF ok, of r e l] show ?thesis by (simp only: holding.simps) blast
next
  case (Quarantine r e l)
  with quarantine_release_ok [OF ok, of r e l] show ?thesis by (simp only:) blast
next
  case (Recover r e l)
  with start_recovery_ok [OF ok, of r e l] show ?thesis by (simp only:) blast
next
  case (Recovered r e l success)
  with end_recovery_ok [OF ok, of r e l success] show ?thesis by (simp only:) blast
next
  case Schedule
  with ok show ?thesis by (simp only: idle_ok(2) simp_thms)
next
  case Compile
  have "all_ok (s\<lparr>preparing := Compiling\<rparr>)"
    using ok by (simp add: engines_ok_def preparer_ok_def)
  with Compile show ?thesis by (simp only: simp_thms)
next
  case (Built n s1)
  with fresh_ok [OF ok, of n s1] seek_handoff_ok [of s1 n] show ?thesis by (simp only:) blast
next
  case (Discard n s1)
  with fresh_ok [OF ok, of n s1] drop_ok [of s1 n] show ?thesis by (simp only:) blast
next
  case LoadFailed
  with load_failed_ok [OF ok] show ?thesis by (simp only:) blast
next
  case (Handoff n p l)
  with handoff_granted_ok [OF ok, of n p l] show ?thesis by (simp only:) blast
next
  case (HandoffAbort n p l)
  with ok have "unused s n" by (simp add: preparer_ok_def)
  with HandoffAbort drop_ok [OF ok] show ?thesis by (simp only:) blast
next
  case LoadGone
  with ok show ?thesis by (simp only: idle_ok(2) simp_thms)
next
  case LoadRejected
  with load_rejected_ok [OF ok] show ?thesis by (simp only:) blast
next
  case Context
  have "all_ok (s\<lparr>preparing := ContextBuild (engine_slot s)\<rparr>)"
    using ok by (simp add: engines_ok_def preparer_ok_def)
  with Context show ?thesis by (simp only: simp_thms)
next
  case (ContextBuilt e n s1 l s2)
  note f = fresh_ok [OF ok ContextBuilt(3)]
  from f(1) have "leases_ok s1" "engines_ok s1" "preparer_ok s1" by blast+
  note g = get_lock_ok [OF this ContextBuilt(4)]
  have "e < next_engine s" using ok ContextBuilt(2) by (simp add: preparer_ok_def)
  with f g have "all_ok (s2\<lparr>preparing := ContextWait (Some e) (Some n) l\<rparr>)"
    using ContextBuilt(3) by (auto simp: engines_ok_def preparer_ok_def unused_def fresh_engine_def)
  with ContextBuilt(1) show ?thesis by (simp only: simp_thms)
next
  case (ContextKept old l s1)
  from ok have "leases_ok s" "engines_ok s" "preparer_ok s" by blast+
  note g = get_lock_ok [OF this ContextKept(3)]
  have "\<forall>e. old = Some e \<longrightarrow> e < next_engine s" using ok ContextKept(2) by (simp add: preparer_ok_def)
  with g have "all_ok (s1\<lparr>preparing := ContextWait old None l\<rparr>)"
    by (auto simp: engines_ok_def preparer_ok_def unused_def)
  with ContextKept(1) show ?thesis by (simp only: simp_thms)
next
  case (ContextDiscard old n s1)
  with fresh_ok [OF ok, of n s1] drop_ok [of s1 n] show ?thesis by (simp only:) blast
next
  case ContextFailed
  with idle_ok(1) [OF ok] show ?thesis by (simp only: simp_thms)
next
  case (ContextGranted old rep l)
  with context_granted_ok [OF ok, of old rep l] show ?thesis by (simp only:) blast
next
  case (ContextAbort old rep l)
  with context_dropped_ok [OF ok, of old rep l] show ?thesis by (simp only:) blast
next
  case Unload
  with unload_ok [OF ok _ up] show ?thesis by blast
next
  case Shutdown
  then show ?thesis by simp
qed


section \<open>Every reachable state\<close>

lemma get_lock_flag: "shutting_down (snd (get_lock s)) = shutting_down s"
  by (simp add: get_lock_def split: option.split)

lemma take_ticket_flag [simp]: "shutting_down (take_ticket r s) = shutting_down s"
  using get_lock_flag [of s] by (auto simp: take_ticket_def set_request_def split: option.split prod.split)

lemma seek_handoff_flag [simp]: "shutting_down (seek_handoff n s) = shutting_down s"
  using get_lock_flag [of s]
  by (auto simp: seek_handoff_def load_done_def put_engine_def split: option.split prod.split)

lemma step_keeps_shutdown: "handoff_step s s' \<Longrightarrow> shutting_down s \<Longrightarrow> shutting_down s'"
  by (induction rule: handoff_step.induct)
    (auto simp: op_defs lease_granted_def start_recovery_def end_recovery_def handoff_granted_def load_failed_def
      load_rejected_def context_granted_def context_dropped_def unload_when_idle_def unload_engine_def Let_def
      get_lock_def split: option.splits prod.split)

lemma handoff_step_ok: "handoff_step s s' \<Longrightarrow> handoff_ok s \<Longrightarrow> handoff_ok s'"
  unfolding handoff_ok_def using step_keeps_ok step_keeps_shutdown by blast

lemma handoff_reach_ok: "handoff_reach s \<Longrightarrow> handoff_ok s"
  by (induction rule: handoff_reach.induct) (auto intro: handoff_start_ok handoff_step_ok)

text \<open>C3: no generation ever runs on a closed or replaced engine, and no two run on a model at
  once: in every state reached by any interleaving of requests, cancelled streams, pipeline
  recoveries, device switches, context changes and unloads before shutdown, a request
  inside its lease uses the engine that is current, open and guarded by the lock it holds,
  and no other request is inside a lease.\<close>

theorem lease_on_current_engine:
  assumes "handoff_reach s" and "\<not> shutting_down s" and "requests s r = Running e l"
  shows "engine_slot s = Some e \<and> e \<notin> set (closed_engines s) \<and> lock_slot s = Some l \<and> lock_owner s l = Some r
    \<and> {r'. holding (requests s r') \<noteq> None} = {r}"
proof -
  from assms(1,2) have ok: "all_ok s" using handoff_reach_ok unfolding handoff_ok_def by blast
  then have leases: "leases_ok s" by blast
  have h: "holding (requests s r) = Some (e, l)" using assms(3) by simp
  have "{r'. holding (requests s r') \<noteq> None} = {r}"
  proof (intro equalityI subsetI)
    fix r' assume "r' \<in> {r'. holding (requests s r') \<noteq> None}"
    then obtain y where "holding (requests s r') = Some y" by auto
    from held_unique(1) [OF leases h this] show "r' \<in> {r}" by simp
  next
    fix r' assume "r' \<in> {r}"
    with h show "r' \<in> {r'. holding (requests s r') \<noteq> None}" by simp
  qed
  moreover note running_open [OF ok assms(3)] held(2,3) [OF leases h]
  ultimately show ?thesis by (intro conjI)
qed

text \<open>The first load, then two requests: the first is inside its lease, the second queued.\<close>

definition first_lease :: handoff where
  "first_lease =
     (let s1 = handoff_start\<lparr>load_active := True\<rparr>\<lparr>preparing := Compiling\<rparr>;
          s2 = seek_handoff 0 (snd (fresh_engine s1))
      in take_ticket 1 (lease_granted 0 0 0 (take_ticket 0 s2)))"

lemmas lease_eval = handoff_start_def fresh_engine_def seek_handoff_def load_done_def put_engine_def take_ticket_def
  lease_granted_def get_lock_def set_request_def set_owner_def

lemma first_lease_reach: "handoff_reach first_lease"
proof -
  let ?s1 = "handoff_start\<lparr>load_active := True\<rparr>"
  let ?s2 = "?s1\<lparr>preparing := Compiling\<rparr>"
  let ?s3 = "seek_handoff 0 (snd (fresh_engine ?s2))"
  let ?s4 = "take_ticket 0 ?s3"
  let ?s5 = "lease_granted 0 0 0 ?s4"
  have "handoff_reach ?s1" by (rule handoff_reach.Step [OF handoff_reach.Start handoff_step.Schedule])
  then have "handoff_reach ?s2" by (rule handoff_reach.Step) (rule handoff_step.Compile; simp add: handoff_start_def)
  then have "handoff_reach ?s3" by (rule handoff_reach.Step) (rule handoff_step.Built; simp add: fresh_engine_def handoff_start_def)
  then have "handoff_reach ?s4" by (rule handoff_reach.Step) (rule handoff_step.Arrive; simp add: lease_eval)
  then have "handoff_reach ?s5" by (rule handoff_reach.Step) (rule handoff_step.Grant; simp add: lease_eval)
  then show ?thesis
    unfolding first_lease_def Let_def
    by (rule handoff_reach.Step) (rule handoff_step.Arrive; simp add: lease_eval)
qed

theorem lease_on_current_engine_witness:
  "engine_slot first_lease = Some 0 \<and> 0 \<notin> set (closed_engines first_lease) \<and>
   {r'. holding (requests first_lease r') \<noteq> None} = {0} \<and> requests first_lease 1 = Waiting 0 0"
proof -
  have "requests first_lease 0 = Running 0 0" "\<not> shutting_down first_lease" "requests first_lease 1 = Waiting 0 0"
    by (simp_all add: first_lease_def lease_eval)
  with lease_on_current_engine [OF first_lease_reach] show ?thesis by blast
qed

text \<open>A queued request is not starved by a switch: if the lock it waits for and the current
  one are free and the engine and lock in place stay as they are, its next grant, or the one
  after it when it had queued on a replaced engine, puts it on the current engine.\<close>

lemma queued_request_settles:
  assumes "engine_slot s = Some e'" and "lock_slot s = Some l'" and "requests s r = Waiting e l"
  shows "let s1 = lease_granted r e l s in
    requests s1 r = Running e' l' \<or>
    requests s1 r = Waiting e' l' \<and> requests (lease_granted r e' l' s1) r = Running e' l'"
  using assms
  by (auto simp: lease_granted_def take_ticket_def get_lock_def set_request_def set_owner_def Let_def)

lemma queued_request_settles_witness:
  "let s = handoff_granted 1 0 0 (release 0 0 (seek_handoff 1 (snd (fresh_engine (first_lease\<lparr>preparing := Compiling\<rparr>)))));
       s1 = lease_granted 1 0 0 s
   in requests s1 1 = Running 1 1 \<or> requests s1 1 = Waiting 1 1 \<and> requests (lease_granted 1 1 1 s1) 1 = Running 1 1"
  unfolding Let_def
  by (rule queued_request_settles [unfolded Let_def])
    (simp_all add: first_lease_def lease_eval handoff_granted_def release_def close_one_def)

end
