(* ===== verification/EmbeddingLifecycle.thy ===== *)
theory EmbeddingLifecycle
  imports Prelude
begin

text \<open>
  \<open>app/embedding_lifecycle_safety.py\<close>: embeddings run in worker threads without the model
  lock, so closing an engine is coordinated by a reference count. Each event is one
  section under the \<open>guard\<close> or one native call outside it; threads interleave freely
  between events. The native pipeline is represented by \<open>_closed\<close> of
  \<open>runtime/openvino_engine.py\<close>.
\<close>

section \<open>State and steps\<close>

datatype embed_call =
    NotCalled
  | Entered       \<comment> \<open>counted, waits for the operation lock\<close>
  | Inside        \<comment> \<open>in the native \<open>embed\<close>, operation lock held\<close>
  | Returned      \<comment> \<open>native call over, not yet in the \<open>finally\<close> section\<close>
  | MustClose     \<comment> \<open>\<open>close_now\<close>\<close>
  | ClosedIt      \<comment> \<open>native close done, flags not yet reset\<close>
  | Finished
  | TurnedAway    \<comment> \<open>\<open>RuntimeError\<close>: unloading\<close>

datatype close_call = NotClosing | CloseNow | CloserClosed | CloserDone

record lifecycle =
  active :: nat
  close_pending :: bool
  idle :: bool
  engine_closed :: bool
  operation :: "nat option"
  calls :: "nat \<Rightarrow> embed_call"
  closers :: "nat \<Rightarrow> close_call"

datatype lifecycle_event =
    EmbedCall nat
  | OperationLocked nat
  | NativeReturns nat
  | Leave nat
  | FinalClose nat
  | FinalReset nat
  | CloseCall nat
  | CloserCloses nat
  | CloserResets nat

definition new_lifecycle :: lifecycle where
  "new_lifecycle = \<lparr>active = 0, close_pending = False, idle = True, engine_closed = False, operation = None,
     calls = (\<lambda>_. NotCalled), closers = (\<lambda>_. NotClosing)\<rparr>"

definition set_call :: "nat \<Rightarrow> embed_call \<Rightarrow> lifecycle \<Rightarrow> lifecycle" where
  "set_call t c s = s\<lparr>calls := (calls s)(t := c)\<rparr>"

definition set_closer :: "nat \<Rightarrow> close_call \<Rightarrow> lifecycle \<Rightarrow> lifecycle" where
  "set_closer t c s = s\<lparr>closers := (closers s)(t := c)\<rparr>"

text \<open>The three guarded sections.\<close>

definition embed_enter :: "nat \<Rightarrow> lifecycle \<Rightarrow> lifecycle" where
  "embed_enter t s =
     (if close_pending s \<or> engine_closed s then set_call t TurnedAway s
      else set_call t Entered (s\<lparr>active := Suc (active s), idle := False\<rparr>))"

definition embed_leave :: "nat \<Rightarrow> lifecycle \<Rightarrow> lifecycle" where
  "embed_leave t s =
     (let s1 = s\<lparr>active := active s - 1\<rparr>
      in if active s1 = 0
         then if close_pending s1 then set_call t MustClose s1 else set_call t Finished (s1\<lparr>idle := True\<rparr>)
         else set_call t Finished s1)"

definition close_with_lifecycle :: "nat \<Rightarrow> lifecycle \<Rightarrow> lifecycle" where
  "close_with_lifecycle t s =
     (if engine_closed s then set_closer t CloserDone (s\<lparr>idle := True\<rparr>)
      else let s1 = s\<lparr>close_pending := True, idle := False\<rparr>
           in if active s1 > 0 then set_closer t CloserDone s1 else set_closer t CloseNow s1)"

definition reset_flags :: "lifecycle \<Rightarrow> lifecycle" where
  "reset_flags s = s\<lparr>close_pending := False, idle := True\<rparr>"

fun lifecycle_step :: "lifecycle \<Rightarrow> lifecycle_event \<Rightarrow> lifecycle" where
  "lifecycle_step s (EmbedCall t) = (if calls s t = NotCalled then embed_enter t s else s)"
| "lifecycle_step s (OperationLocked t) =
     (if calls s t = Entered \<and> operation s = None then set_call t Inside (s\<lparr>operation := Some t\<rparr>) else s)"
| "lifecycle_step s (NativeReturns t) =
     (if calls s t = Inside then set_call t Returned (s\<lparr>operation := None\<rparr>) else s)"
| "lifecycle_step s (Leave t) = (if calls s t = Returned then embed_leave t s else s)"
| "lifecycle_step s (FinalClose t) =
     (if calls s t = MustClose then set_call t ClosedIt (s\<lparr>engine_closed := True\<rparr>) else s)"
| "lifecycle_step s (FinalReset t) =
     (if calls s t = ClosedIt then set_call t Finished (reset_flags s) else s)"
| "lifecycle_step s (CloseCall c) = (if closers s c = NotClosing then close_with_lifecycle c s else s)"
| "lifecycle_step s (CloserCloses c) =
     (if closers s c = CloseNow then set_closer c CloserClosed (s\<lparr>engine_closed := True\<rparr>) else s)"
| "lifecycle_step s (CloserResets c) =
     (if closers s c = CloserClosed then set_closer c CloserDone (reset_flags s) else s)"

text \<open>\<open>count_tokens_after_deferred_close\<close>: the engine's own \<open>count_tokens\<close> refuses when closed.\<close>

definition embedding_count_tokens :: "lifecycle \<Rightarrow> string \<Rightarrow> nat option" where
  "embedding_count_tokens s t = (if engine_closed s then None else Some (max 1 (length t div 4)))"

definition count_tokens_after_close :: "lifecycle \<Rightarrow> string \<Rightarrow> nat" where
  "count_tokens_after_close s t =
     (case embedding_count_tokens s t of Some n \<Rightarrow> n | None \<Rightarrow> max 1 (length t div 4))"

section \<open>The invariant\<close>

definition counted :: "embed_call \<Rightarrow> bool" where
  "counted c \<longleftrightarrow> c \<in> {Entered, Inside, Returned}"

definition in_flight :: "lifecycle \<Rightarrow> nat set" where
  "in_flight s = {t. counted (calls s t)}"

definition closing :: "lifecycle \<Rightarrow> bool" where
  "closing s \<longleftrightarrow> (\<exists>t. calls s t = MustClose) \<or> (\<exists>c. closers s c = CloseNow)"

text \<open>The count is the number of calls in flight; a close is either done or somebody's job.\<close>

definition lifecycle_ok :: "lifecycle \<Rightarrow> bool" where
  "lifecycle_ok s \<longleftrightarrow>
     finite (in_flight s) \<and> active s = card (in_flight s) \<and>
     (\<forall>t. calls s t = Inside \<longleftrightarrow> operation s = Some t) \<and>
     (engine_closed s \<longrightarrow> in_flight s = {}) \<and>
     (closing s \<longrightarrow> in_flight s = {} \<and> (close_pending s \<or> engine_closed s)) \<and>
     ((\<exists>t. calls s t = ClosedIt) \<or> (\<exists>c. closers s c = CloserClosed) \<longrightarrow> engine_closed s) \<and>
     (close_pending s \<and> \<not> engine_closed s \<and> in_flight s = {} \<longrightarrow> closing s) \<and>
     ((\<exists>c. closers s c \<noteq> NotClosing) \<longrightarrow> close_pending s \<or> engine_closed s) \<and>
     (idle s \<longrightarrow> in_flight s = {} \<and> (close_pending s \<longrightarrow> engine_closed s))"

lemma counted_simps [simp]:
  "counted Entered" "counted Inside" "counted Returned" "\<not> counted NotCalled" "\<not> counted MustClose"
  "\<not> counted ClosedIt" "\<not> counted Finished" "\<not> counted TurnedAway"
  by (simp_all add: counted_def)

lemma in_flight_upd:
  "in_flight (set_call t c s) = (if counted c then insert t (in_flight s) else in_flight s - {t})"
  by (auto simp: in_flight_def set_call_def)

lemma in_flight_other [simp]:
  "in_flight (set_closer k c s) = in_flight s" "in_flight (s\<lparr>active := n\<rparr>) = in_flight s"
  "in_flight (s\<lparr>idle := b\<rparr>) = in_flight s" "in_flight (s\<lparr>close_pending := b\<rparr>) = in_flight s"
  "in_flight (s\<lparr>engine_closed := b\<rparr>) = in_flight s" "in_flight (s\<lparr>operation := x\<rparr>) = in_flight s"
  "in_flight (reset_flags s) = in_flight s"
  by (simp_all add: in_flight_def set_closer_def reset_flags_def)

lemma in_flight_iff: "t \<in> in_flight s \<longleftrightarrow> counted (calls s t)"
  by (simp add: in_flight_def)

lemma set_call_fields [simp]:
  "active (set_call t c s) = active s" "close_pending (set_call t c s) = close_pending s"
  "idle (set_call t c s) = idle s" "engine_closed (set_call t c s) = engine_closed s"
  "operation (set_call t c s) = operation s" "closers (set_call t c s) = closers s"
  "calls (set_call t c s) = (calls s)(t := c)"
  by (simp_all add: set_call_def)

lemma set_closer_fields [simp]:
  "active (set_closer t k s) = active s" "close_pending (set_closer t k s) = close_pending s"
  "idle (set_closer t k s) = idle s" "engine_closed (set_closer t k s) = engine_closed s"
  "operation (set_closer t k s) = operation s" "calls (set_closer t k s) = calls s"
  "closers (set_closer t k s) = (closers s)(t := k)"
  by (simp_all add: set_closer_def)

lemma okD:
  assumes "lifecycle_ok s"
  shows "finite (in_flight s)" "active s = card (in_flight s)"
    "calls s t = Inside \<longleftrightarrow> operation s = Some t"
    "engine_closed s \<Longrightarrow> in_flight s = {}"
    "closing s \<Longrightarrow> in_flight s = {} \<and> (close_pending s \<or> engine_closed s)"
    "calls s t = ClosedIt \<Longrightarrow> engine_closed s" "closers s c = CloserClosed \<Longrightarrow> engine_closed s"
    "close_pending s \<Longrightarrow> \<not> engine_closed s \<Longrightarrow> in_flight s = {} \<Longrightarrow> closing s"
    "closers s c \<noteq> NotClosing \<Longrightarrow> close_pending s \<or> engine_closed s"
    "idle s \<Longrightarrow> in_flight s = {} \<and> (close_pending s \<longrightarrow> engine_closed s)"
  using assms unfolding lifecycle_ok_def by blast+

lemma not_inside: "lifecycle_ok s \<Longrightarrow> calls s t \<noteq> Inside \<Longrightarrow> operation s \<noteq> Some t"
  by (simp add: okD(3) [symmetric])

lemma active_none: "lifecycle_ok s \<Longrightarrow> active s = 0 \<longleftrightarrow> in_flight s = {}"
  using okD(1,2) by simp

lemma closing_upd:
  "closing (set_closer k c s) \<longleftrightarrow> (\<exists>t. calls s t = MustClose) \<or> c = CloseNow \<or> (\<exists>j. j \<noteq> k \<and> closers s j = CloseNow)"
  "closing (set_call t d s) \<longleftrightarrow> d = MustClose \<or> (\<exists>u. u \<noteq> t \<and> calls s u = MustClose) \<or> (\<exists>j. closers s j = CloseNow)"
  by (auto simp: closing_def)

lemma closingI: "calls s t = MustClose \<Longrightarrow> closing s" "closers s c = CloseNow \<Longrightarrow> closing s"
  by (auto simp: closing_def)

lemma closing_keeps:
  "calls s t \<noteq> MustClose \<Longrightarrow> c \<noteq> MustClose \<Longrightarrow> closing (set_call t c s) = closing s"
  "closers s k \<noteq> CloseNow \<Longrightarrow> d \<noteq> CloseNow \<Longrightarrow> closing (set_closer k d s) = closing s"
  unfolding closing_upd by (metis closing_def)+

lemma closing_other [simp]:
  "closing (s\<lparr>active := n\<rparr>) = closing s" "closing (s\<lparr>idle := b\<rparr>) = closing s" "closing (s\<lparr>close_pending := b\<rparr>) = closing s"
  "closing (s\<lparr>engine_closed := b\<rparr>) = closing s" "closing (s\<lparr>operation := x\<rparr>) = closing s" "closing (reset_flags s) = closing s"
  by (simp_all add: closing_def reset_flags_def)

lemma embed_call_ok:
  assumes ok: "lifecycle_ok s" and "calls s t = NotCalled"
  shows "lifecycle_ok (embed_enter t s)"
proof (cases "close_pending s \<or> engine_closed s")
  case True
  have "in_flight (set_call t TurnedAway s) = in_flight s" and "closing (set_call t TurnedAway s) = closing s"
    using assms(2) by (simp_all add: in_flight_upd in_flight_iff closing_keeps)
  with True ok assms(2) show ?thesis
    by (simp add: embed_enter_def lifecycle_ok_def) (metis embed_call.distinct)
next
  case False
  then have "\<not> closing s" and "closers s c = NotClosing" and "calls s u \<noteq> ClosedIt" for c u
    using okD [OF ok] by blast+
  then have "\<not> closing (embed_enter t s)"
    using False by (auto simp: embed_enter_def closing_def)
  moreover have "in_flight (embed_enter t s) = insert t (in_flight s)" "t \<notin> in_flight s"
    using False assms(2) by (simp_all add: embed_enter_def in_flight_upd in_flight_iff)
  ultimately show ?thesis
    using False okD(1-3) [OF ok] not_inside [OF ok, of t] \<open>\<And>c. closers s c = NotClosing\<close> \<open>\<And>u. calls s u \<noteq> ClosedIt\<close> assms(2)
    by (simp add: lifecycle_ok_def embed_enter_def)
qed

lemma operation_locked_ok:
  assumes ok: "lifecycle_ok s" and c: "calls s t = Entered" and "operation s = None"
  shows "lifecycle_ok (set_call t Inside (s\<lparr>operation := Some t\<rparr>))"
proof -
  have "in_flight (set_call t Inside (s\<lparr>operation := Some t\<rparr>)) = in_flight s"
    using c by (auto simp: in_flight_upd in_flight_iff)
  moreover have "closing (set_call t Inside (s\<lparr>operation := Some t\<rparr>)) = closing s"
    using c by (simp add: closing_keeps)
  ultimately show ?thesis using ok c assms(3) by (simp add: lifecycle_ok_def) metis
qed

lemma native_returns_ok:
  assumes ok: "lifecycle_ok s" and c: "calls s t = Inside"
  shows "lifecycle_ok (set_call t Returned (s\<lparr>operation := None\<rparr>))"
proof -
  have "in_flight (set_call t Returned (s\<lparr>operation := None\<rparr>)) = in_flight s"
    using c by (auto simp: in_flight_upd in_flight_iff)
  moreover have "closing (set_call t Returned (s\<lparr>operation := None\<rparr>)) = closing s"
    using c by (simp add: closing_keeps)
  moreover have "operation s = Some t" using ok c by (simp add: lifecycle_ok_def)
  ultimately show ?thesis using ok c by (simp add: lifecycle_ok_def) (metis option.inject)
qed

lemma embed_leave_ok:
  assumes ok: "lifecycle_ok s" and c: "calls s t = Returned"
  shows "lifecycle_ok (embed_leave t s)"
proof -
  have t: "t \<in> in_flight s" and fin: "finite (in_flight s)" and n: "active s = card (in_flight s)"
    using okD(1,2) [OF ok] c by (simp_all add: in_flight_iff)
  then have open_: "\<not> engine_closed s" "\<not> closing s" "\<not> idle s"
    using okD(4,5,10) [OF ok] by blast+
  have flight: "in_flight (embed_leave t s) = in_flight s - {t}"
    by (simp add: embed_leave_def Let_def in_flight_upd)
  have card: "active (embed_leave t s) = card (in_flight s - {t})"
    using t fin n by (simp add: embed_leave_def Let_def)
  have last: "active s - 1 = 0 \<longleftrightarrow> in_flight s - {t} = {}"
    using t fin n by (metis card_0_eq card_Diff_singleton finite_Diff)
  show ?thesis
    using flight card last open_ ok c fin not_inside [OF ok, of t]
    by (simp add: lifecycle_ok_def embed_leave_def Let_def closing_upd closing_def split: if_splits)
qed

lemma final_close_ok:
  assumes ok: "lifecycle_ok s" and c: "calls s t = MustClose"
  shows "lifecycle_ok (set_call t ClosedIt (s\<lparr>engine_closed := True\<rparr>))"
proof -
  have "in_flight s = {}" using okD(5) [OF ok closingI(1) [OF c]] by simp
  with ok c not_inside [OF ok, of t] show ?thesis by (simp add: lifecycle_ok_def in_flight_upd)
qed

lemma reset_ok:
  assumes ok: "lifecycle_ok s" and "engine_closed s"
  shows "calls s t = ClosedIt \<Longrightarrow> lifecycle_ok (set_call t Finished (reset_flags s))"
    and "closers s c = CloserClosed \<Longrightarrow> lifecycle_ok (set_closer c CloserDone (reset_flags s))"
proof -
  have none: "in_flight s = {}" using okD(4) [OF ok assms(2)] .
  show "calls s t = ClosedIt \<Longrightarrow> lifecycle_ok (set_call t Finished (reset_flags s))"
    using ok assms(2) none not_inside [OF ok, of t]
    by (simp add: lifecycle_ok_def in_flight_upd) (simp add: reset_flags_def)
  show "closers s c = CloserClosed \<Longrightarrow> lifecycle_ok (set_closer c CloserDone (reset_flags s))"
    using ok assms(2) none by (simp add: lifecycle_ok_def) (simp add: reset_flags_def)
qed

lemma close_call_ok:
  assumes ok: "lifecycle_ok s" and c: "closers s k = NotClosing"
  shows "lifecycle_ok (close_with_lifecycle k s)"
proof (cases "engine_closed s")
  case True
  with ok c show ?thesis
    by (simp add: close_with_lifecycle_def lifecycle_ok_def closing_keeps)
next
  case False
  have n: "active s = 0 \<longleftrightarrow> in_flight s = {}" by (rule active_none [OF ok])
  show ?thesis
  proof (cases "in_flight s = {}")
    case True
    then have "close_with_lifecycle k s = set_closer k CloseNow (s\<lparr>close_pending := True, idle := False\<rparr>)"
      using False n by (simp add: close_with_lifecycle_def)
    with ok c True False show ?thesis by (simp add: lifecycle_ok_def closing_upd)
  next
    case busy: False
    then have "close_with_lifecycle k s = set_closer k CloserDone (s\<lparr>close_pending := True, idle := False\<rparr>)"
      using False n by (simp add: close_with_lifecycle_def)
    with ok c busy False show ?thesis by (simp add: lifecycle_ok_def closing_keeps)
  qed
qed

lemma closer_closes_ok:
  assumes ok: "lifecycle_ok s" and c: "closers s k = CloseNow"
  shows "lifecycle_ok (set_closer k CloserClosed (s\<lparr>engine_closed := True\<rparr>))"
proof -
  have "in_flight s = {}" using okD(5) [OF ok closingI(2) [OF c]] by simp
  with ok show ?thesis by (simp add: lifecycle_ok_def)
qed

lemmas step_intros = embed_call_ok operation_locked_ok native_returns_ok embed_leave_ok final_close_ok
  close_call_ok closer_closes_ok

lemma lifecycle_step_ok:
  assumes ok: "lifecycle_ok s"
  shows "lifecycle_ok (lifecycle_step s ev)"
proof (cases ev)
  case (FinalReset t)
  with ok reset_ok(1) [OF ok okD(6) [OF ok, of t], of t] show ?thesis by simp
next
  case (CloserResets c)
  with ok reset_ok(2) [OF ok okD(7) [OF ok, of c], of c] show ?thesis by simp
qed (auto simp: ok intro: step_intros)

interpretation embeddings: invariant_machine lifecycle_ok lifecycle_step
  by unfold_locales (rule lifecycle_step_ok)

lemma new_lifecycle_ok: "lifecycle_ok new_lifecycle"
  by (simp add: lifecycle_ok_def new_lifecycle_def in_flight_def closing_def)

definition lifecycle_run :: "lifecycle_event list \<Rightarrow> lifecycle" where
  "lifecycle_run evs = foldl lifecycle_step new_lifecycle evs"

lemma lifecycle_run_ok: "lifecycle_ok (lifecycle_run evs)"
  unfolding lifecycle_run_def by (rule embeddings.run_ok) (rule new_lifecycle_ok)

text \<open>A close that was asked for stays asked for.\<close>

lemma closer_known: "closers s c \<noteq> NotClosing \<Longrightarrow> closers (lifecycle_step s ev) c \<noteq> NotClosing"
  by (cases ev) (auto simp: embed_enter_def embed_leave_def close_with_lifecycle_def reset_flags_def Let_def)

lemma close_remembered: "closers s c \<noteq> NotClosing \<Longrightarrow> closers (foldl lifecycle_step s evs) c \<noteq> NotClosing"
  by (induction evs arbitrary: s) (simp_all add: closer_known del: lifecycle_step.simps)

lemma close_called: "closers (lifecycle_step s (CloseCall c)) c \<noteq> NotClosing"
  by (auto simp: close_with_lifecycle_def Let_def)

section \<open>Properties\<close>

text \<open>C19: an embedding never reaches a closed pipeline and two never run in it at once, however
  the threads interleave: in every run, while a call is in the native embed the engine is
  open and that call alone holds the operation lock; a closed engine has no call in flight.\<close>

theorem embedding_never_on_closed_engine:
  assumes "calls (lifecycle_run evs) t = Inside"
  shows "\<not> engine_closed (lifecycle_run evs) \<and> {u. calls (lifecycle_run evs) u = Inside} = {t}"
proof -
  note ok = lifecycle_run_ok [of evs]
  have op: "operation (lifecycle_run evs) = Some t" using okD(3) [OF ok] assms by blast
  have "t \<in> in_flight (lifecycle_run evs)" using assms by (simp add: in_flight_iff)
  with okD(4) [OF ok] op okD(3) [OF ok] show ?thesis by auto
qed

theorem embedding_never_on_closed_engine_witness:
  "\<not> engine_closed (lifecycle_run [EmbedCall 0, EmbedCall 1, OperationLocked 1, CloseCall 0, OperationLocked 0]) \<and>
   {u. calls (lifecycle_run [EmbedCall 0, EmbedCall 1, OperationLocked 1, CloseCall 0, OperationLocked 0]) u = Inside} = {1}"
  by (rule embedding_never_on_closed_engine)
    (simp add: lifecycle_run_def new_lifecycle_def embed_enter_def close_with_lifecycle_def)

text \<open>C20: a close request is never lost: after a call of close, at every later point of every
  run the engine is closed, or it accepts no new call and either calls are still in flight
  or some thread is about to close it; when the last call leaves, that thread is it.\<close>

theorem close_is_never_lost:
  "let s = lifecycle_run (before @ CloseCall c # after) in
     engine_closed s \<or> close_pending s \<and> (in_flight s \<noteq> {} \<or> closing s)"
proof -
  have "closers (lifecycle_run (before @ CloseCall c # after)) c \<noteq> NotClosing"
    unfolding lifecycle_run_def by (simp del: lifecycle_step.simps) (rule close_remembered, rule close_called)
  with okD(8,9) [OF lifecycle_run_ok, of "before @ CloseCall c # after"] show ?thesis
    by (auto simp: Let_def)
qed

theorem close_is_never_lost_witness:
  "let s = lifecycle_run ([EmbedCall 0] @ CloseCall 0 # [OperationLocked 0]) in
     engine_closed s \<or> close_pending s \<and> (in_flight s \<noteq> {} \<or> closing s)"
  by (rule close_is_never_lost)

end
