(* ===== verification/OutputTransaction.thy ===== *)
theory OutputTransaction
  imports ModelArtifacts
begin

text \<open>
  \<open>runtime/model_output_transaction.py\<close>: publishing a converted model. The three paths the
  transaction owns are slots of the file system. Every call that touches the disk takes the
  next fate from a script: it works, it fails, it removes only part of a tree, or the
  process is killed there. What the converter leaves in the staging directory, and how it
  ends, comes from outside. The lock file keeps other processes out and is not modelled.
\<close>

section \<open>Disk, fates and actions\<close>

datatype slot = Final | Staging | Backup

datatype node = Link | Plain | Tree files

type_synonym disk = "slot \<Rightarrow> node option"

datatype fate =
    Works
  | Fails bool                    \<comment> \<open>\<open>OSError\<close>, transient or not\<close>
  | FailsLeaving "string set"     \<comment> \<open>\<open>rmtree\<close> fails, these names are still there\<close>
  | Killed
  | KilledLeaving "string set"

datatype transaction_error = ReparsePoint | OsFailure | Incomplete string | BodyFailed

datatype ending = Ok | Raised transaction_error | Dead

type_synonym action = "disk \<Rightarrow> fate list \<Rightarrow> ending \<times> disk \<times> fate list"

definition next_fate :: "fate list \<Rightarrow> fate \<times> fate list" where
  "next_fate fates = (case fates of [] \<Rightarrow> (Works, []) | f # rest \<Rightarrow> (f, rest))"

definition and_then :: "action \<Rightarrow> action \<Rightarrow> action" where
  "and_then a b d fates = (case a d fates of (Ok, d1, fs1) \<Rightarrow> b d1 fs1 | r \<Rightarrow> r)"

definition done_with :: action where "done_with d fates = (Ok, d, fates)"
definition raise_error :: "transaction_error \<Rightarrow> action" where "raise_error e d fates = (Raised e, d, fates)"

definition reject_reparse_point :: "slot \<Rightarrow> action" where
  "reject_reparse_point s d = (if d s = Some Link then raise_error ReparsePoint d else done_with d)"

definition remaining :: "string set \<Rightarrow> node \<Rightarrow> node" where
  "remaining keep n = (case n of Tree f \<Rightarrow> Tree (f |` keep) | _ \<Rightarrow> n)"

text \<open>\<open>_remove_path\<close>; the retry after clearing the read-only bit is part of the fate.\<close>

definition remove_path :: "slot \<Rightarrow> action" where
  "remove_path s d fates =
     (case d s of
        None \<Rightarrow> (Ok, d, fates)
      | Some Link \<Rightarrow> (Raised ReparsePoint, d, fates)
      | Some n \<Rightarrow>
          (case next_fate fates of (f, rest) \<Rightarrow>
             (case f of
                Works \<Rightarrow> (Ok, d(s := None), rest)
              | Fails _ \<Rightarrow> (Raised OsFailure, d, rest)
              | FailsLeaving keep \<Rightarrow> (Raised OsFailure, d(s := Some (remaining keep n)), rest)
              | Killed \<Rightarrow> (Dead, d, rest)
              | KilledLeaving keep \<Rightarrow> (Dead, d(s := Some (remaining keep n)), rest))))"

text \<open>\<open>_replace_path\<close>: a rename, tried again while the failure is transient.\<close>

definition replace_attempts :: nat where "replace_attempts = 5"

fun replace_from :: "nat \<Rightarrow> slot \<Rightarrow> slot \<Rightarrow> action" where
  "replace_from 0 src dst d fates = (Raised OsFailure, d, fates)"
| "replace_from (Suc n) src dst d fates =
     (case next_fate fates of (f, rest) \<Rightarrow>
        (case f of
           Works \<Rightarrow> if d src = None \<or> d dst \<noteq> None then (Raised OsFailure, d, rest)
                    else (Ok, d(dst := d src, src := None), rest)
         | Fails transient \<Rightarrow> if transient then replace_from n src dst d rest else (Raised OsFailure, d, rest)
         | FailsLeaving _ \<Rightarrow> (Raised OsFailure, d, rest)
         | Killed \<Rightarrow> (Dead, d, rest)
         | KilledLeaving _ \<Rightarrow> (Dead, d, rest)))"

definition replace_path :: "slot \<Rightarrow> slot \<Rightarrow> action" where
  "replace_path = replace_from replace_attempts"

definition tree_of :: "node option \<Rightarrow> files option" where
  "tree_of n = (case n of Some (Tree f) \<Rightarrow> Some f | _ \<Rightarrow> None)"

definition model_ready :: "parsers \<Rightarrow> node option \<Rightarrow> bool" where
  "model_ready ps n = ready (validate_openvino_model_dir ps True (tree_of n))"

section \<open>The transaction\<close>

definition recover_stale_backup :: "parsers \<Rightarrow> action" where
  "recover_stale_backup ps d =
     (if d Backup = None then done_with d
      else and_then (reject_reparse_point Backup) (\<lambda>d.
        if model_ready ps (d Final) then remove_path Backup d
        else if model_ready ps (d Backup)
        then and_then (remove_path Final) (replace_path Backup Final) d
        else remove_path Backup d) d)"

text \<open>
  The \<open>except\<close> branch of the publication: whatever is at the final path is removed, errors
  suppressed, and the previous model is moved back if it was moved; then the error goes on.
\<close>

definition suppressed :: "action \<Rightarrow> action" where
  "suppressed a d fates = (case a d fates of (Raised _, d1, fs1) \<Rightarrow> (Ok, d1, fs1) | r \<Rightarrow> r)"

definition undo_publication :: "bool \<Rightarrow> transaction_error \<Rightarrow> action" where
  "undo_publication moved e =
     and_then (suppressed (remove_path Final))
       (and_then (\<lambda>d. if moved \<and> d Backup \<noteq> None then suppressed (replace_path Backup Final) d else done_with d)
          (raise_error e))"

definition publish_with :: "bool \<Rightarrow> action" where
  "publish_with moved d fates =
     (case replace_path Staging Final d fates of
        (Ok, d1, fs1) \<Rightarrow> (if moved then suppressed (remove_path Backup) else done_with) d1 fs1
      | (Raised e, d1, fs1) \<Rightarrow> undo_publication moved e d1 fs1
      | (Dead, d1, fs1) \<Rightarrow> (Dead, d1, fs1))"

definition publish_staged_output :: "parsers \<Rightarrow> action" where
  "publish_staged_output ps =
     and_then (reject_reparse_point Staging) (\<lambda>d.
       let v = validate_openvino_model_dir ps True (tree_of (d Staging))
       in if \<not> ready v then raise_error (Incomplete (reason v)) d
          else if d Final = None then publish_with False d
          else and_then (reject_reparse_point Final)
                 (and_then (replace_path Final Backup) (publish_with True)) d)"

text \<open>The converter: it writes the staging directory, then returns, raises or dies.\<close>

datatype converter = Returns "node option" | Raises "node option" | Dies "node option"

fun run_converter :: "converter \<Rightarrow> action" where
  "run_converter (Returns n) d fates = (Ok, d(Staging := n), fates)"
| "run_converter (Raises n) d fates = (Raised BodyFailed, d(Staging := n), fates)"
| "run_converter (Dies n) d fates = (Dead, d(Staging := n), fates)"

definition cleaned_up :: "action \<Rightarrow> action" where
  "cleaned_up a d fates =
     (case a d fates of
        (Raised e, d1, fs1) \<Rightarrow> and_then (suppressed (remove_path Staging)) (raise_error e) d1 fs1
      | r \<Rightarrow> r)"

definition staged_model_output :: "parsers \<Rightarrow> converter \<Rightarrow> action" where
  "staged_model_output ps body =
     and_then (reject_reparse_point Final)
       (and_then (recover_stale_backup ps)
          (and_then (remove_path Staging)
             (cleaned_up (and_then (run_converter body) (publish_staged_output ps)))))"

section \<open>What single actions can do\<close>

lemma replace_from_result:
  "replace_from n src dst d fates = (r, d', rest) \<Longrightarrow>
     (r = Ok \<and> d' = d(dst := d src, src := None) \<and> d src \<noteq> None \<and> d dst = None) \<or> (r \<noteq> Ok \<and> d' = d)"
  by (induction n src dst d fates rule: replace_from.induct) (auto split: prod.splits fate.splits if_splits)

lemma replace_result:
  assumes "replace_path src dst d fates = (r, d', rest)"
  obtains (moved) "r = Ok" "d' = d(dst := d src, src := None)" "d src \<noteq> None" "d dst = None"
    | (kept) "r \<noteq> Ok" "d' = d"
  using assms unfolding replace_path_def by (auto dest!: replace_from_result)

text \<open>What is left of a slot after a removal, complete or not.\<close>

definition leftover :: "node option \<Rightarrow> node option \<Rightarrow> bool" where
  "leftover n n' \<longleftrightarrow> n' = None \<or> n' = n \<or> (\<exists>f keep. n = Some (Tree f) \<and> n' = Some (Tree (f |` keep)))"

lemma remove_result:
  assumes "remove_path s d fates = (r, d', rest)"
  obtains n' where "d' = d(s := n')" "leftover (d s) n'" "r = Ok \<Longrightarrow> n' = None"
proof (cases "d s")
  case None
  with assms that [of None] show ?thesis
    by (simp add: remove_path_def leftover_def) (metis fun_upd_triv)
next
  case (Some n)
  have keep: "leftover (Some n) (Some (remaining k n))" for k
    by (cases n) (auto simp: leftover_def remaining_def)
  from assms Some have "(r = Ok \<longrightarrow> d' = d(s := None)) \<and>
      (d' = d \<or> d' = d(s := None) \<or> (\<exists>k. d' = d(s := Some (remaining k n))))"
    by (cases n) (auto simp: remove_path_def split: prod.splits fate.splits)
  then consider "d' = d(s := None)" | "r \<noteq> Ok" "d' = d" | k where "r \<noteq> Ok" "d' = d(s := Some (remaining k n))"
    by blast
  then show ?thesis
  proof cases
    case 1
    with that [of None] show ?thesis by (simp add: leftover_def)
  next
    case 2
    with that [of "d s"] show ?thesis by (simp add: leftover_def)
  next
    case 3
    with that [of "Some (remaining k n)"] keep [of k] Some show ?thesis by simp
  qed
qed

lemma not_ready_None [simp]: "\<not> model_ready ps None"
  by (simp add: model_ready_def tree_of_def validate_ready)

lemma leftover_not_ready:
  assumes "leftover n n'" and "\<not> model_ready ps n"
  shows "\<not> model_ready ps n'"
proof -
  have "\<not> model_ready ps (Some (Tree (f |` keep)))" if "n = Some (Tree f)" for f keep
    using that assms(2) ready_after_deletion [of ps True f keep] by (auto simp: model_ready_def tree_of_def)
  with assms show ?thesis by (auto simp: leftover_def)
qed

lemma and_then_result:
  assumes "and_then a b d fates = (r, d', rest)"
  obtains (through) d1 fs1 where "a d fates = (Ok, d1, fs1)" "b d1 fs1 = (r, d', rest)"
    | (stopped) "a d fates = (r, d', rest)" "r \<noteq> Ok"
  using assms by (auto simp: and_then_def split: prod.splits ending.splits)

lemma suppressed_result:
  assumes "suppressed a d fates = (r, d', rest)"
  obtains r0 where "a d fates = (r0, d', rest)" "r = Dead \<longleftrightarrow> r0 = Dead" "r = Ok \<or> r = Dead"
  using assms by (auto simp: suppressed_def split: prod.splits ending.splits)

section \<open>The model on disk\<close>

text \<open>Model \<open>v\<close> is in place, or the next transaction will put it back.\<close>

definition kept :: "parsers \<Rightarrow> files \<Rightarrow> disk \<Rightarrow> bool" where
  "kept ps v d \<longleftrightarrow> d Final = Some (Tree v) \<or> \<not> model_ready ps (d Final) \<and> d Backup = Some (Tree v)"

definition good :: "parsers \<Rightarrow> files \<Rightarrow> bool" where
  "good ps v \<longleftrightarrow> model_ready ps (Some (Tree v))"

lemma kept_staging [simp]: "kept ps v (d(Staging := n)) = kept ps v d"
  by (simp add: kept_def)

lemma remove_staging_kept:
  "remove_path Staging d fates = (r, d', rest) \<Longrightarrow> kept ps v d' = kept ps v d"
  by (elim remove_result) simp

lemma remove_final_kept:
  assumes "remove_path Final d fates = (r, d', rest)" and "kept ps v d" and "\<not> model_ready ps (d Final)"
    and "good ps v"
  shows "kept ps v d'" and "r = Ok \<Longrightarrow> d' Final = None" and "d' Backup = d Backup" and "\<not> model_ready ps (d' Final)"
  using assms by (auto elim!: remove_result simp: kept_def good_def dest: leftover_not_ready)

lemma recover_result:
  assumes v: "good ps v" "kept ps v d" and run: "recover_stale_backup ps d fates = (r, d', rest)"
  shows "kept ps v d'" and "r = Ok \<Longrightarrow> d' Final = Some (Tree v) \<and> d' Backup = None"
proof -
  have "kept ps v d' \<and> (r = Ok \<longrightarrow> d' Final = Some (Tree v) \<and> d' Backup = None)"
  proof (cases "d Backup = None")
    case True
    with run v show ?thesis by (auto simp: recover_stale_backup_def done_with_def kept_def)
  next
    case backup: False
    show ?thesis
    proof (cases "d Backup = Some Link")
      case True
      with run v show ?thesis
        by (auto simp: recover_stale_backup_def and_then_def reject_reparse_point_def raise_error_def)
    next
      case False
      show ?thesis
      proof (cases "model_ready ps (d Final)")
        case True
        with run backup False have "remove_path Backup d fates = (r, d', rest)"
          by (simp add: recover_stale_backup_def and_then_def reject_reparse_point_def done_with_def)
        with True v show ?thesis by (auto elim!: remove_result simp: kept_def)
      next
        case bad: False
        with v have "d Backup = Some (Tree v)" by (auto simp: kept_def good_def)
        with bad v run have "and_then (remove_path Final) (replace_path Backup Final) d fates = (r, d', rest)"
          by (simp add: recover_stale_backup_def and_then_def reject_reparse_point_def done_with_def good_def)
        then show ?thesis
        proof (cases rule: and_then_result)
          case (through d1 fs1)
          note f = remove_final_kept [OF through(1) v(2) bad v(1)]
          from through(2) show ?thesis
            using f \<open>d Backup = Some (Tree v)\<close> by (cases rule: replace_result) (auto simp: kept_def)
        next
          case stopped
          with remove_final_kept [OF stopped(1) v(2) bad v(1)] show ?thesis by blast
        qed
      qed
    qed
  qed
  then show "kept ps v d'" and "r = Ok \<Longrightarrow> d' Final = Some (Tree v) \<and> d' Backup = None" by blast+
qed

text \<open>The staged model was published: it is complete and it is at the final path.\<close>

definition published :: "parsers \<Rightarrow> disk \<Rightarrow> disk \<Rightarrow> bool" where
  "published ps staged d \<longleftrightarrow> (\<exists>n. staged Staging = Some (Tree n) \<and> good ps n \<and> d Final = Some (Tree n))"

lemma undo_result:
  assumes "undo_publication moved e d fates = (r, d', rest)"
    and "d Final = None" and "moved \<Longrightarrow> d Backup = Some (Tree v)" and "\<not> moved \<Longrightarrow> False"
  shows "kept ps v d' \<and> r \<noteq> Ok"
proof -
  have gone: "suppressed (remove_path Final) d fates = (Ok, d, fates)"
    using assms(2) by (simp add: suppressed_def remove_path_def)
  define undo where "undo = suppressed (replace_path Backup Final) d fates"
  obtain r1 d1 fs1 where b: "undo = (r1, d1, fs1)" by (cases undo)
  have "kept ps v d1" and "r1 = Ok \<or> r1 = Dead"
  proof -
    from b obtain r0 where r0: "replace_path Backup Final d fates = (r0, d1, fs1)" "r1 = Ok \<or> r1 = Dead"
      unfolding undo_def by (rule suppressed_result)
    then show "r1 = Ok \<or> r1 = Dead" by blast
    from r0(1) assms(2,3,4) show "kept ps v d1"
      by (cases rule: replace_result) (auto simp: kept_def)
  qed
  with assms(1) gone b assms(3,4) show ?thesis
    by (auto simp: undo_publication_def and_then_def undo_def raise_error_def split: if_splits)
qed

lemma publish_with_result:
  assumes "publish_with True d fates = (r, d', rest)"
    and "d Final = None" and "d Backup = Some (Tree v)" and "d Staging = Some (Tree n)" and "good ps n"
  shows "(kept ps v d' \<and> r \<noteq> Ok) \<or> published ps d d'"
proof -
  obtain r1 d1 fs1 where p: "replace_path Staging Final d fates = (r1, d1, fs1)" by (cases "replace_path Staging Final d fates")
  from p show ?thesis
  proof (cases rule: replace_result)
    case moved
    with assms p have "suppressed (remove_path Backup) d1 fs1 = (r, d', rest)" by (simp add: publish_with_def)
    then obtain r0 where "remove_path Backup d1 fs1 = (r0, d', rest)" by (rule suppressed_result)
    with moved have "d' Final = d Staging" by (auto elim!: remove_result)
    with assms(4,5) show ?thesis by (simp add: published_def)
  next
    case kept
    show ?thesis
    proof (cases r1)
      case (Raised e)
      with assms p kept undo_result [of True e d fs1 r d' rest v ps] show ?thesis by (simp add: publish_with_def)
    next
      case Dead
      with assms p kept show ?thesis by (auto simp: publish_with_def kept_def)
    qed (use kept in simp)
  qed
qed

lemma publish_result:
  assumes "publish_staged_output ps d fates = (r, d', rest)"
    and "d Final = Some (Tree v)" and "d Backup = None" and "good ps v"
  shows "(kept ps v d' \<and> r \<noteq> Ok) \<or> published ps d d'"
proof (cases "d Staging = Some Link \<or> \<not> ready (validate_openvino_model_dir ps True (tree_of (d Staging)))")
  case True
  with assms show ?thesis
    by (auto simp: publish_staged_output_def and_then_def reject_reparse_point_def raise_error_def done_with_def kept_def
        split: if_splits)
next
  case False
  then obtain n where n: "d Staging = Some (Tree n)" "good ps n"
    by (auto simp: validate_ready tree_of_def good_def model_ready_def split: option.splits node.splits)
  from assms False have run: "and_then (replace_path Final Backup) (publish_with True) d fates = (r, d', rest)"
    by (simp add: publish_staged_output_def and_then_def reject_reparse_point_def done_with_def)
  then show ?thesis
  proof (cases rule: and_then_result)
    case (through d1 fs1)
    from through(1) have "d1 = d(Backup := d Final, Final := None)" by (cases rule: replace_result) auto
    with publish_with_result [OF through(2), of v n ps] n assms(2) show ?thesis
      by (auto simp: published_def)
  next
    case stopped
    then have "d' = d" by (cases rule: replace_result) auto
    with assms stopped show ?thesis by (simp add: kept_def)
  qed
qed

lemma cleaned_up_result:
  assumes "cleaned_up a d fates = (r, d', rest)"
  obtains r0 d0 fs0 where "a d fates = (r0, d0, fs0)" "r = Ok \<longrightarrow> r0 = Ok" "\<forall>x. x \<noteq> Staging \<longrightarrow> d' x = d0 x"
proof -
  obtain r0 d0 fs0 where a: "a d fates = (r0, d0, fs0)" by (cases "a d fates")
  show ?thesis
  proof (cases r0)
    case (Raised e)
    obtain r1 d1 fs1 where s: "suppressed (remove_path Staging) d0 fs0 = (r1, d1, fs1)"
      by (cases "suppressed (remove_path Staging) d0 fs0")
    then obtain r2 where "remove_path Staging d0 fs0 = (r2, d1, fs1)" and r1: "r1 = Ok \<or> r1 = Dead"
      by (rule suppressed_result)
    then have "x \<noteq> Staging \<Longrightarrow> d1 x = d0 x" for x by (auto elim!: remove_result)
    with assms a Raised s r1 that [OF a] show ?thesis
      by (auto simp: cleaned_up_def and_then_def raise_error_def)
  qed (use assms a that in \<open>auto simp: cleaned_up_def\<close>)
qed

fun left_by :: "converter \<Rightarrow> node option" where
  "left_by (Returns n) = n"
| "left_by (Raises n) = n"
| "left_by (Dies n) = n"

definition delivers :: "parsers \<Rightarrow> converter \<Rightarrow> disk \<Rightarrow> bool" where
  "delivers ps body d \<longleftrightarrow> (\<exists>n. left_by body = Some (Tree n) \<and> good ps n \<and> d Final = Some (Tree n))"

lemma transaction_result:
  assumes v: "good ps v" "kept ps v d" and run: "staged_model_output ps body d fates = (r, d', rest)"
  shows "(kept ps v d' \<and> r \<noteq> Ok) \<or> delivers ps body d'"
proof -
  from run show ?thesis
    unfolding staged_model_output_def
  proof (cases rule: and_then_result)
    case stopped
    then show ?thesis using v by (auto simp: reject_reparse_point_def raise_error_def done_with_def split: if_splits)
  next
    case (through d1 fs1)
    then have d1: "d1 = d" by (auto simp: reject_reparse_point_def raise_error_def done_with_def split: if_splits)
    from through(2) show ?thesis
    proof (cases rule: and_then_result)
      case stopped
      with recover_result(1) [OF v] d1 show ?thesis by blast
    next
      case (through d2 fs2)
      with recover_result [OF v] d1 have d2: "d2 Final = Some (Tree v)" "d2 Backup = None" by blast+
      from through(2) show ?thesis
      proof (cases rule: and_then_result)
        case stopped
        with d2 show ?thesis by (auto elim!: remove_result simp: kept_def)
      next
        case (through d3 fs3)
        then have d3: "d3 Final = Some (Tree v)" "d3 Backup = None" using d2 by (auto elim!: remove_result)
        from through(2) obtain r0 d0 fs0 where inner:
          "and_then (run_converter body) (publish_staged_output ps) d3 fs3 = (r0, d0, fs0)"
          "r = Ok \<longrightarrow> r0 = Ok" "\<forall>x. x \<noteq> Staging \<longrightarrow> d' x = d0 x" by (rule cleaned_up_result)
        have "(kept ps v d0 \<and> r0 \<noteq> Ok) \<or> delivers ps body d0"
        proof (cases body)
          case (Returns n)
          with inner(1) have "publish_staged_output ps (d3(Staging := n)) fs3 = (r0, d0, fs0)"
            by (simp add: and_then_def)
          from publish_result [OF this _ _ v(1)] d3 Returns show ?thesis
            by (auto simp: published_def delivers_def)
        qed (use inner(1) d3 in \<open>auto simp: and_then_def kept_def\<close>)
        with inner(2,3) show ?thesis by (auto simp: kept_def delivers_def)
      qed
    qed
  qed
qed

section \<open>Properties\<close>

definition attempt :: "parsers \<Rightarrow> disk \<Rightarrow> converter \<times> fate list \<Rightarrow> disk" where
  "attempt ps d a = (case a of (body, fates) \<Rightarrow> case staged_model_output ps body d fates of (_, d', _) \<Rightarrow> d')"

definition produced :: "(converter \<times> fate list) list \<Rightarrow> files set" where
  "produced as = {n. \<exists>a \<in> set as. left_by (fst a) = Some (Tree n)}"

lemma attempt_kept:
  assumes "good ps v" and "kept ps v d"
  shows "\<exists>w. good ps w \<and> (w = v \<or> left_by (fst a) = Some (Tree w)) \<and> kept ps w (attempt ps d a)"
proof -
  obtain body fates r d' rest where a: "a = (body, fates)" "staged_model_output ps body d fates = (r, d', rest)"
    by (metis prod.collapse)
  from transaction_result [OF assms a(2)] assms(1) show ?thesis
    by (auto simp: attempt_def a delivers_def kept_def)
qed

lemma attempts_kept:
  "good ps v \<Longrightarrow> kept ps v d \<Longrightarrow>
     \<exists>w. good ps w \<and> (w = v \<or> w \<in> produced as) \<and> kept ps w (foldl (attempt ps) d as)"
proof (induction as arbitrary: v d)
  case (Cons a as)
  from attempt_kept [OF Cons.prems, of a] obtain w
    where w: "good ps w" "w = v \<or> left_by (fst a) = Some (Tree w)" "kept ps w (attempt ps d a)" by blast
  from Cons.IH [OF w(1,3)] w(2) show ?case by (auto simp: produced_def)
qed auto

text \<open>C4: a runnable model is never lost by converting it again: starting from a complete
  model on disk, after any number of conversions, each of which may fail, be cancelled or
  have the process killed at any of its file operations (removals half done included),
  either it or a complete model that one of them delivered is in place, or it is in the
  backup and nothing complete is at the final path.\<close>

theorem model_survives_conversions:
  assumes "good ps v" and "d Final = Some (Tree v)"
  shows "\<exists>w. good ps w \<and> (w = v \<or> w \<in> produced as) \<and> kept ps w (foldl (attempt ps) d as)"
  by (rule attempts_kept) (use assms in \<open>simp_all add: kept_def\<close>)

text \<open>An interrupted publication is undone before the next conversion starts: whenever the
  model is in place or in the backup, the recovery at the entry of a transaction, meeting no
  fault, leaves it at the final path and the backup gone.\<close>

lemma interrupted_publication_recovered:
  assumes "good ps v" and "kept ps v d" and "d Final \<noteq> Some Link" and "d Backup \<noteq> Some Link"
  shows "recover_stale_backup ps d [] = (Ok, d(Final := Some (Tree v), Backup := None), [])"
proof (cases "model_ready ps (d Final)")
  case True
  with assms have f: "d Final = Some (Tree v)" by (auto simp: kept_def)
  with True assms show ?thesis
    by (cases "d Backup" rule: option.exhaust; cases "the (d Backup)")
      (auto simp: recover_stale_backup_def done_with_def and_then_def reject_reparse_point_def remove_path_def
        next_fate_def fun_eq_iff)
next
  case False
  with assms have b: "d Backup = Some (Tree v)" and g: "model_ready ps (Some (Tree v))"
    by (auto simp: kept_def good_def)
  have "remove_path Final d [] = (Ok, d(Final := None), [])"
    using assms(3) by (cases "d Final" rule: option.exhaust; cases "the (d Final)")
      (auto simp: remove_path_def next_fate_def fun_eq_iff)
  with False b g assms(4) show ?thesis
    by (auto simp: recover_stale_backup_def done_with_def and_then_def reject_reparse_point_def replace_path_def
        replace_attempts_def numeral_eq_Suc next_fate_def fun_eq_iff)
qed

lemma undo_not_ok: "undo_publication moved e d fates \<noteq> (Ok, d', rest)"
  by (auto simp: undo_publication_def and_then_def raise_error_def split: prod.splits ending.splits if_splits)

lemma publish_with_ok:
  assumes "publish_with moved d fates = (Ok, d', rest)"
  shows "d' Final = d Staging"
proof -
  obtain r1 d1 fs1 where p: "replace_path Staging Final d fates = (r1, d1, fs1)" by (cases "replace_path Staging Final d fates")
  with assms undo_not_ok have "r1 = Ok" by (auto simp: publish_with_def split: ending.splits)
  with p have d1: "d1 Final = d Staging" by (auto elim!: replace_result)
  from assms p \<open>r1 = Ok\<close> consider "d' = d1" | "suppressed (remove_path Backup) d1 fs1 = (Ok, d', rest)"
    by (auto simp: publish_with_def done_with_def split: if_splits)
  then show ?thesis
  proof cases
    case 2
    then obtain r0 where "remove_path Backup d1 fs1 = (r0, d', rest)" by (rule suppressed_result)
    with d1 show ?thesis by (auto elim!: remove_result)
  qed (use d1 in simp)
qed

lemma publish_ok:
  assumes "publish_staged_output ps d fates = (Ok, d', rest)"
  shows "published ps d d'"
proof -
  from assms have r: "ready (validate_openvino_model_dir ps True (tree_of (d Staging)))"
    by (auto simp: publish_staged_output_def and_then_def reject_reparse_point_def raise_error_def done_with_def
        Let_def split: if_splits)
  then obtain n where n: "d Staging = Some (Tree n)" "good ps n"
    by (auto simp: validate_ready tree_of_def good_def model_ready_def split: option.splits node.splits)
  have "d' Final = d Staging"
  proof (cases "d Final = None")
    case True
    with assms r n have "publish_with False d fates = (Ok, d', rest)"
      by (simp add: publish_staged_output_def and_then_def reject_reparse_point_def done_with_def)
    then show ?thesis by (rule publish_with_ok)
  next
    case False
    with assms r n obtain d1 fs1 where "replace_path Final Backup d fates = (Ok, d1, fs1)" "publish_with True d1 fs1 = (Ok, d', rest)"
      by (auto simp: publish_staged_output_def and_then_def reject_reparse_point_def done_with_def raise_error_def
          split: if_splits prod.splits ending.splits)
    from this(1) have "d1 Staging = d Staging" by (auto elim!: replace_result)
    with publish_with_ok [OF \<open>publish_with True d1 fs1 = (Ok, d', rest)\<close>] show ?thesis by simp
  qed
  with n show ?thesis by (simp add: published_def)
qed

text \<open>C18: success means published: when a transaction ends normally, whatever was on disk
  before, the directory the converter returned is complete and is at the final path.\<close>

theorem success_means_published:
  assumes "staged_model_output ps body d fates = (Ok, d', rest)"
  shows "\<exists>n. body = Returns (Some (Tree n)) \<and> model_ready ps (Some (Tree n)) \<and> d' Final = Some (Tree n)"
proof -
  from assms obtain d3 fs3 where "cleaned_up (and_then (run_converter body) (publish_staged_output ps)) d3 fs3 = (Ok, d', rest)"
    unfolding staged_model_output_def by (elim and_then_result; simp)
  then obtain d0 fs0 where inner: "and_then (run_converter body) (publish_staged_output ps) d3 fs3 = (Ok, d0, fs0)"
    and "\<forall>x. x \<noteq> Staging \<longrightarrow> d' x = d0 x" by (rule cleaned_up_result) auto
  moreover from inner obtain n where b: "body = Returns n" and "publish_staged_output ps (d3(Staging := n)) fs3 = (Ok, d0, fs0)"
    by (cases body) (auto simp: and_then_def)
  moreover from this(2) have "published ps (d3(Staging := n)) d0" by (rule publish_ok)
  ultimately show ?thesis by (auto simp: published_def good_def)
qed

text \<open>A complete model, and a conversion killed between the two renames.\<close>

definition demo_parsers :: parsers where
  "demo_parsers = \<lparr>xml_root = (\<lambda>b. Some ''net''), json_text = (\<lambda>b. Some (JObj []))\<rparr>"

definition demo_model :: "string \<Rightarrow> files" where
  "demo_model weights = [''openvino_model.xml'' \<mapsto> File ''<net></net>'', ''openvino_model.bin'' \<mapsto> File weights,
     ''config.json'' \<mapsto> File ''{}'']"

definition demo_disk :: disk where
  "demo_disk = (\<lambda>_. None)(Final := Some (Tree (demo_model ''a'')))"

lemma demo_good: "w \<noteq> [] \<Longrightarrow> good demo_parsers (demo_model w)"
  unfolding good_def model_ready_def tree_of_def validate_ready
  by (auto simp: ir_markers_def marker_failure_None demo_model_def demo_parsers_def valid_ir_xml_probe_def
      valid_ir_xml_full_def has_bytes_def xml_probe_bytes_def nonempty_file_def valid_config_def max_config_bytes_def
      local_name_def bin_name_def)

theorem model_survives_conversions_witness:
  "\<exists>w. good demo_parsers w \<and> (w = demo_model ''a'' \<or> w \<in> produced [(Returns (Some (Tree (demo_model ''b''))), [Works, Killed])])
     \<and> kept demo_parsers w (foldl (attempt demo_parsers) demo_disk [(Returns (Some (Tree (demo_model ''b''))), [Works, Killed])])"
  by (rule model_survives_conversions) (simp_all add: demo_good demo_disk_def)

lemma interrupted_publication_recovered_witness:
  "recover_stale_backup demo_parsers ((\<lambda>_. None)(Backup := Some (Tree (demo_model ''a'')))) []
     = (Ok, ((\<lambda>_. None)(Backup := Some (Tree (demo_model ''a''))))(Final := Some (Tree (demo_model ''a'')), Backup := None), [])"
  by (rule interrupted_publication_recovered) (simp_all add: demo_good kept_def)



lemma demo_success:
  "staged_model_output demo_parsers (Returns (Some (Tree (demo_model ''b'')))) demo_disk []
     = (Ok, (demo_disk(Staging := None, Final := Some (Tree (demo_model ''b'')), Backup := None)), [])"
proof -
  have "ready (validate_openvino_model_dir demo_parsers True (Some (demo_model ''b'')))"
    using demo_good [of "''b''"] by (simp add: good_def model_ready_def tree_of_def)
  then show ?thesis
    by (auto simp: staged_model_output_def and_then_def reject_reparse_point_def done_with_def recover_stale_backup_def
        remove_path_def cleaned_up_def publish_staged_output_def publish_with_def replace_path_def replace_attempts_def
        numeral_eq_Suc next_fate_def suppressed_def demo_disk_def tree_of_def Let_def fun_eq_iff)
qed

theorem success_means_published_witness:
  "\<exists>n. Returns (Some (Tree (demo_model ''b''))) = Returns (Some (Tree n)) \<and> model_ready demo_parsers (Some (Tree n))
     \<and> (demo_disk(Staging := None, Final := Some (Tree (demo_model ''b'')), Backup := None)) Final = Some (Tree n)"
  by (rule success_means_published [OF demo_success])

end
