(* ===== verification/Lifecycle.thy ===== *)
theory Lifecycle
  imports LoadTarget
begin

text \<open>
  \<open>app/lifecycle_safety.py\<close> with the conversion and deletion of \<open>app/model_manager_core.py\<close>, the
  storage guard of \<open>app/storage_state.py\<close> and the shutdown guard of \<open>app/desktop_shutdown_safety.py\<close>: loading,
  converting, deleting and shutting down one catalogued model. The load task is the machine
  of \<open>LoadTarget\<close>; conversions are tasks of their own, numbered in the order they are created; a deletion runs on a
  worker thread between two sections of the guard lock. What the converter does to the model's
  directory is the transaction of \<open>OutputTransaction\<close>: a failed conversion leaves it as it was.
\<close>

section \<open>State\<close>

datatype conv_pc =
    ConvCreated
  | ConvQueued     \<comment> \<open>waiting for \<open>_convert_lock\<close>\<close>
  | ConvRunning    \<comment> \<open>the converter process runs\<close>
  | ConvStopping   \<comment> \<open>cancelled: the lock is released, the process is being terminated\<close>
  | ConvDone bool  \<comment> \<open>whether the task was cancelled\<close>

datatype lock_holder = HeldByLoad | HeldBy nat

datatype deletion_pc = BeforeChecks | RemovingTree

record life =
  world :: load_world
  present :: bool                    \<comment> \<open>\<open>registry.is_downloaded\<close>\<close>
  conv_slot :: "nat option"          \<comment> \<open>\<open>convert_tasks.get(model_id)\<close>\<close>
  convs :: "nat \<Rightarrow> conv_pc option"
  forced :: "nat \<Rightarrow> bool"           \<comment> \<open>whether the conversion was given a \<open>weight_format\<close>\<close>
  conv_count :: nat
  convert_lock :: "lock_holder option"
  followup :: "(string \<times> string option) option"  \<comment> \<open>device and draft model of the deferred load\<close>
  load_stopping :: bool              \<comment> \<open>the load task waits for its cancelled converter process\<close>
  callback :: "nat option"           \<comment> \<open>\<open>_post_conversion_callbacks.get(model_id)\<close>\<close>
  hooks :: "nat list"                \<comment> \<open>\<open>add_done_callback\<close> registrations that have not run\<close>
  shutting :: bool
  deletion :: "deletion_pc option"   \<comment> \<open>the model is in \<open>_cleaning_models\<close> while this is set\<close>

record life_env =
  load_base :: load_env
  has_source :: bool
  draft_ok :: "string option \<Rightarrow> bool"  \<comment> \<open>\<open>_resolve_draft_model_path\<close> returns\<close>
  through_link :: bool                 \<comment> \<open>the directory is a symbolic link or a junction\<close>

datatype life_error =
    StorageCleanupActive | ServerShuttingDown | BadDraftModel | LoadedModel | StillPreparing
  | StillLoading | StillConverting | UnsafeLink | NotUnloadable

definition unfinished :: "conv_pc option \<Rightarrow> bool" where
  "unfinished t \<longleftrightarrow> (case t of None \<Rightarrow> False | Some (ConvDone _) \<Rightarrow> False | Some _ \<Rightarrow> True)"

text \<open>\<open>_active(self.convert_tasks.get(model_id))\<close>.\<close>

definition active_conversion :: "life \<Rightarrow> nat option" where
  "active_conversion s =
     (case conv_slot s of None \<Rightarrow> None | Some c \<Rightarrow> if unfinished (convs s c) then Some c else None)"

definition disk_env :: "life_env \<Rightarrow> life \<Rightarrow> load_env" where
  "disk_env env s = (load_base env)\<lparr>on_disk := present s\<rparr>"

definition set_load_status :: "string option \<Rightarrow> life \<Rightarrow> life" where
  "set_load_status st s = s\<lparr>world := (world s)\<lparr>load_status := st\<rparr>\<rparr>"

definition set_load_phase :: "string option \<Rightarrow> life \<Rightarrow> life" where
  "set_load_phase ph s = s\<lparr>world := (world s)\<lparr>load_phase := ph\<rparr>\<rparr>"

definition show_both :: "string option \<Rightarrow> string option \<Rightarrow> life \<Rightarrow> life" where
  "show_both st ph s = set_load_phase ph (set_load_status st s)"

section \<open>Requests\<close>

definition remember_post_conversion_load :: "nat \<Rightarrow> string \<Rightarrow> string option \<Rightarrow> life \<Rightarrow> life" where
  "remember_post_conversion_load c dev draft s0 =
     (let s = s0\<lparr>followup := Some (dev, draft)\<rparr>
      in if callback s = Some c then s
         else s\<lparr>callback := Some c, hooks := hooks s @ [c]\<rparr>)"

text \<open>The scheduler of \<open>model_load_target.py\<close>, with the draft model that it resolves before a new task.\<close>

definition device_authoritative_schedule_load ::
  "life_env \<Rightarrow> string \<Rightarrow> string option \<Rightarrow> life \<Rightarrow> life_error option \<times> life" where
  "device_authoritative_schedule_load env dev draft s =
     (if \<not> loaded_on (world s) dev \<and> load_task (world s) = None \<and> \<not> draft_ok env draft
      then (Some BadDraftModel, s)
      else (None, s\<lparr>world := schedule_load dev (world s)\<rparr>))"

definition coordinated_schedule_load ::
  "life_env \<Rightarrow> string \<Rightarrow> string option \<Rightarrow> life \<Rightarrow> life_error option \<times> life" where
  "coordinated_schedule_load env dev draft s =
     (case active_conversion s of
        Some c \<Rightarrow>
          let shown = (case load_phase (world s) of None \<Rightarrow> ''converting'' | Some p \<Rightarrow> p);
              phase = (if shown \<in> {''queued'', ''downloading'', ''converting'', ''finalizing''}
                       then shown else ''converting'')
          in (None, set_load_phase (Some phase) (remember_post_conversion_load c dev draft s))
      | None \<Rightarrow> device_authoritative_schedule_load env dev draft s)"

text \<open>
  The composed \<open>manager.schedule_load\<close>: the storage guard outside, the shutdown guard below it.
\<close>

definition request_load :: "life_env \<Rightarrow> string \<Rightarrow> string option \<Rightarrow> life \<Rightarrow> life_error option \<times> life" where
  "request_load env dev draft s =
     (if deletion s \<noteq> None then (Some StorageCleanupActive, s)
      else if shutting s then (Some ServerShuttingDown, s)
      else coordinated_schedule_load env dev draft s)"

text \<open>
  \<open>schedule_convert\<close> of the core, called with \<open>load_after=False\<close>; \<open>force\<close> is \<open>weight_format\<close>
  being given. The second component is the task it returns.
\<close>

definition core_schedule_convert :: "bool \<Rightarrow> life \<Rightarrow> (life_error + nat option) \<times> life" where
  "core_schedule_convert force s =
     (if loaded (world s) \<noteq> None then (Inl LoadedModel, s)
      else if present s \<and> \<not> force then (Inr None, set_load_phase (Some ''ready'') s)
      else let c = conv_count s
           in (Inr (Some c),
               (show_both (Some ''queued_convert'') (Some ''queued'') s)
                 \<lparr>conv_slot := Some c, convs := (convs s)(c := Some ConvCreated),
                  forced := (forced s)(c := force), conv_count := Suc c\<rparr>))"

definition coordinated_schedule_convert ::
  "life_env \<Rightarrow> string \<Rightarrow> bool \<Rightarrow> bool \<Rightarrow> life \<Rightarrow> life_error option \<times> life" where
  "coordinated_schedule_convert env dev load_after force s =
     (case active_conversion s of
        Some c \<Rightarrow> (None, if load_after then remember_post_conversion_load c dev None s else s)
      | None \<Rightarrow>
          (case core_schedule_convert force (set_load_phase None s) of
             (Inl e, s') \<Rightarrow> (Some e, s')
           | (Inr task, s') \<Rightarrow>
               if \<not> load_after then (None, s')
               else (case task of
                   Some c \<Rightarrow> (None, remember_post_conversion_load c dev None s')
                 | None \<Rightarrow> request_load env dev None s')))"

definition request_convert ::
  "life_env \<Rightarrow> string \<Rightarrow> bool \<Rightarrow> bool \<Rightarrow> life \<Rightarrow> life_error option \<times> life" where
  "request_convert env dev load_after force s =
     (if deletion s \<noteq> None then (Some StorageCleanupActive, s)
      else if shutting s then (Some ServerShuttingDown, s)
      else coordinated_schedule_convert env dev load_after force s)"

text \<open>\<open>resume_after_conversion\<close>, run by the event loop after the conversion \<open>c\<close> is done.\<close>

definition resume_after_conversion :: "life_env \<Rightarrow> nat \<Rightarrow> bool \<Rightarrow> life \<Rightarrow> life" where
  "resume_after_conversion env c cancelled s0 =
     (if callback s0 \<noteq> Some c then s0
      else let s = s0\<lparr>callback := None, followup := None\<rparr>
           in (case followup s0 of
                 None \<Rightarrow> s
               | Some (dev, draft) \<Rightarrow>
                   if shutting s \<or> cancelled \<or> load_status (world s) = Some ''error'' then s
                   else (case request_load env dev draft s of
                       (None, s') \<Rightarrow> s'
                     | (Some _, s') \<Rightarrow> show_both (Some ''error'') (Some ''error'') s')))"

section \<open>Conversions\<close>

text \<open>The \<open>finally\<close> block of \<open>_convert_task\<close> pops whichever task the table holds.\<close>

definition set_conv :: "nat \<Rightarrow> conv_pc \<Rightarrow> life \<Rightarrow> life" where
  "set_conv c pc s = s\<lparr>convs := (convs s)(c := Some pc)\<rparr>"

definition leave_conversion :: "nat \<Rightarrow> bool \<Rightarrow> life \<Rightarrow> life" where
  "leave_conversion c cancelled s = (set_conv c (ConvDone cancelled) s)\<lparr>conv_slot := None\<rparr>"

definition conversion_granted :: "life_env \<Rightarrow> nat \<Rightarrow> life \<Rightarrow> life" where
  "conversion_granted env c s =
     (if present s \<and> \<not> forced s c then leave_conversion c False (show_both None (Some ''ready'') s)
      else if \<not> has_source env then leave_conversion c False (show_both (Some ''error'') (Some ''error'') s)
      else (set_conv c ConvRunning (show_both (Some ''converting'') (Some ''downloading'') s))
             \<lparr>convert_lock := Some (HeldBy c)\<rparr>)"

definition conversion_finished :: "nat \<Rightarrow> bool \<Rightarrow> life \<Rightarrow> life" where
  "conversion_finished c converted_ok s0 =
     (let s = s0\<lparr>convert_lock := None\<rparr>
      in if converted_ok then leave_conversion c False (show_both None (Some ''ready'') (s\<lparr>present := True\<rparr>))
         else leave_conversion c False (show_both (Some ''error'') (Some ''error'') s))"

text \<open>
  Cancellation: before its first step the coroutine is not entered, so the table keeps the
  finished task. While the process runs, leaving \<open>async with\<close> releases the lock first, then
  the process is terminated.
\<close>

definition cancel_conversion :: "nat \<Rightarrow> life \<Rightarrow> life" where
  "cancel_conversion c s =
     (case convs s c of
        Some ConvCreated \<Rightarrow> set_conv c (ConvDone True) s
      | Some ConvQueued \<Rightarrow> leave_conversion c True (show_both (Some ''cancelled'') (Some ''cancelled'') s)
      | Some ConvRunning \<Rightarrow> (set_conv c ConvStopping s)\<lparr>convert_lock := None\<rparr>
      | _ \<Rightarrow> s)"

definition conversion_stopped :: "nat \<Rightarrow> life \<Rightarrow> life" where
  "conversion_stopped c s = leave_conversion c True (show_both (Some ''cancelled'') (Some ''cancelled'') s)"

text \<open>The conversion that a load task awaits itself; it is in no table but pops it all the same.\<close>

definition load_conversion_over :: "life_env \<Rightarrow> bool \<Rightarrow> life \<Rightarrow> life" where
  "load_conversion_over env disk s0 =
     (let s = s0\<lparr>present := disk, conv_slot := None,
                convert_lock := (if convert_lock s0 = Some HeldByLoad then None else convert_lock s0)\<rparr>
      in s\<lparr>world := load_step (disk_env env s) (world s) (ConvertDone disk)\<rparr>)"

definition load_conversion_granted :: "life_env \<Rightarrow> life \<Rightarrow> life" where
  "load_conversion_granted env s =
     (if present s \<or> \<not> has_source env then load_conversion_over env (present s) s
      else s\<lparr>convert_lock := Some HeldByLoad\<rparr>)"

definition load_converts :: "life \<Rightarrow> bool" where
  "load_converts s \<longleftrightarrow> (case load_task (world s) of Some (AtConvert _) \<Rightarrow> True | _ \<Rightarrow> False)"

definition cancel_load :: "life_env \<Rightarrow> string option \<Rightarrow> life \<Rightarrow> life" where
  "cancel_load env outcome s =
     (let cancelled = s\<lparr>world := load_step (disk_env env s) (world s) (Cancel outcome)\<rparr>
      in if load_stopping s then s
         else if \<not> load_converts s then cancelled
         else if convert_lock s = Some HeldByLoad then s\<lparr>convert_lock := None, load_stopping := True\<rparr>
         else cancelled\<lparr>conv_slot := None\<rparr>)"

definition load_stopped :: "life_env \<Rightarrow> life \<Rightarrow> life" where
  "load_stopped env s =
     s\<lparr>world := load_step (disk_env env s) (world s) (Cancel None), conv_slot := None, load_stopping := False\<rparr>"

section \<open>Deletion, unloading and shutdown\<close>

text \<open>\<open>_external_mutation\<close>: entering the guarded scope.\<close>

definition begin_deletion :: "life \<Rightarrow> life_error option \<times> life" where
  "begin_deletion s =
     (if deletion s \<noteq> None then (Some StorageCleanupActive, s)
      else (None, s\<lparr>deletion := Some BeforeChecks\<rparr>))"

definition guarded_delete :: "life_env \<Rightarrow> life \<Rightarrow> life_error option \<times> life" where
  "guarded_delete env s =
     (let refused = (\<lambda>e. (Some e, s\<lparr>deletion := None\<rparr>))
      in if loaded (world s) \<noteq> None then refused LoadedModel
         else if load_status (world s) \<in> Some ` {''queued'', ''loading'', ''queued_convert'', ''converting''}
         then refused StillPreparing
         else if load_task (world s) \<noteq> None then refused StillLoading
         else if active_conversion s \<noteq> None then refused StillConverting
         else if through_link env then refused UnsafeLink
         else (None, s\<lparr>followup := None, callback := None, deletion := Some RemovingTree\<rparr>))"

definition delete_tree :: "life \<Rightarrow> life" where
  "delete_tree s =
     (show_both None None s)\<lparr>present := False, conv_slot := None, deletion := None\<rparr>"

definition unload_world :: "load_world \<Rightarrow> load_world" where
  "unload_world w =
     (case loaded w of
        None \<Rightarrow> w\<lparr>load_status := None, load_phase := None\<rparr>
      | Some e \<Rightarrow> (close_engine e w)\<lparr>loaded := None, load_status := None, load_phase := None\<rparr>)"

definition request_unload :: "life \<Rightarrow> life_error option \<times> life" where
  "request_unload s =
     (if load_task (world s) \<noteq> None then (Some NotUnloadable, s)
      else (None, s\<lparr>world := unload_world (world s)\<rparr>))"

definition begin_shutdown :: "life \<Rightarrow> life" where
  "begin_shutdown s = s\<lparr>shutting := True, followup := None\<rparr>"

text \<open>
  The end of \<open>shutdown\<close>, after it has cancelled the task of each table and waited for it.
\<close>

definition end_shutdown :: "life \<Rightarrow> life" where
  "end_shutdown s =
     s\<lparr>world := unload_world (world s), conv_slot := None, callback := None\<rparr>"

text \<open>The end of \<open>cancel_operation\<close> (\<open>app/model_cancellation.py\<close>), when the cancelled task has finished.\<close>

definition forget_deferred_load :: "life \<Rightarrow> life" where
  "forget_deferred_load s = s\<lparr>followup := None, callback := None\<rparr>"

section \<open>The machine\<close>

datatype life_event =
    RequestLoad string "string option"
  | RequestConvert string bool bool    \<comment> \<open>device, \<open>load_after\<close>, whether a weight format is given\<close>
  | RequestUnload
  | BeginDeletion | CheckDeletion | RemoveTree
  | BeginShutdown | EndShutdown
  | LoadEvent load_event
  | CancelLoad "string option"
  | LoadStopped
  | LoadConversionGranted
  | LoadConversionEnds bool
  | ConversionStarts nat
  | ConversionGranted nat
  | ConversionEnds nat bool
  | CancelConversion nat
  | ConversionStopped nat
  | CallbackRuns nat
  | CancellationEnds

text \<open>What a load task does without the lifecycle's help.\<close>

definition own_load_event :: "load_event \<Rightarrow> bool" where
  "own_load_event ev \<longleftrightarrow> (case ev of Schedule _ \<Rightarrow> False | ConvertDone _ \<Rightarrow> False | Cancel _ \<Rightarrow> False | _ \<Rightarrow> True)"

definition life_step :: "life_env \<Rightarrow> life \<Rightarrow> life_event \<Rightarrow> life" where
  "life_step env s ev =
     (case ev of
        RequestLoad dev draft \<Rightarrow> snd (request_load env dev draft s)
      | RequestConvert dev load_after force \<Rightarrow> snd (request_convert env dev load_after force s)
      | RequestUnload \<Rightarrow> snd (request_unload s)
      | BeginDeletion \<Rightarrow> snd (begin_deletion s)
      | CheckDeletion \<Rightarrow> if deletion s = Some BeforeChecks then snd (guarded_delete env s) else s
      | RemoveTree \<Rightarrow> if deletion s = Some RemovingTree then delete_tree s else s
      | BeginShutdown \<Rightarrow> begin_shutdown s
      | EndShutdown \<Rightarrow>
          if shutting s \<and> load_task (world s) = None \<and> active_conversion s = None then end_shutdown s else s
      | LoadEvent le \<Rightarrow>
          if own_load_event le then s\<lparr>world := load_step (disk_env env s) (world s) le\<rparr> else s
      | CancelLoad outcome \<Rightarrow> cancel_load env outcome s
      | LoadStopped \<Rightarrow> if load_stopping s then load_stopped env s else s
      | LoadConversionGranted \<Rightarrow>
          if load_converts s \<and> \<not> load_stopping s \<and> convert_lock s = None then load_conversion_granted env s else s
      | LoadConversionEnds fine \<Rightarrow>
          if load_converts s \<and> convert_lock s = Some HeldByLoad
          then load_conversion_over env (fine \<or> present s) s else s
      | ConversionStarts c \<Rightarrow> if convs s c = Some ConvCreated then set_conv c ConvQueued s else s
      | ConversionGranted c \<Rightarrow>
          if convs s c = Some ConvQueued \<and> convert_lock s = None then conversion_granted env c s else s
      | ConversionEnds c fine \<Rightarrow> if convs s c = Some ConvRunning then conversion_finished c fine s else s
      | CancelConversion c \<Rightarrow> cancel_conversion c s
      | ConversionStopped c \<Rightarrow> if convs s c = Some ConvStopping then conversion_stopped c s else s
      | CallbackRuns c \<Rightarrow>
          (case convs s c of
             Some (ConvDone cancelled) \<Rightarrow>
               if c \<in> set (hooks s)
               then resume_after_conversion env c cancelled (s\<lparr>hooks := remove1 c (hooks s)\<rparr>) else s
           | _ \<Rightarrow> s)
      | CancellationEnds \<Rightarrow> forget_deferred_load s)"

definition life_run :: "life_env \<Rightarrow> life \<Rightarrow> life_event list \<Rightarrow> life" where
  "life_run env s evs = foldl (life_step env) s evs"

definition first_life :: "bool \<Rightarrow> life" where
  "first_life on_disk_at_first =
     \<lparr>world = idle_world, present = on_disk_at_first, conv_slot = None, convs = (\<lambda>_. None), forced = (\<lambda>_. False),
      conv_count = 0, convert_lock = None, followup = None, load_stopping = False, callback = None, hooks = [],
      shutting = False, deletion = None\<rparr>"

section \<open>What the load task does in between\<close>

lemma own_events [simp]:
  "own_load_event TaskStarts" "own_load_event LoadLockGranted" "own_load_event (BuildDone r)"
  "own_load_event HandoffGranted" "own_load_event Quarantine" "own_load_event (Recover r)"
  "\<not> own_load_event (Schedule d)" "\<not> own_load_event (ConvertDone b)" "\<not> own_load_event (Cancel r)"
  by (simp_all add: own_load_event_def)

lemma own_event_cases:
  assumes "own_load_event ev"
  obtains "ev = TaskStarts" | "ev = LoadLockGranted" | r where "ev = BuildDone r" | "ev = HandoffGranted"
    | "ev = Quarantine" | r where "ev = Recover r"
  using assms by (cases ev) auto

lemma own_step_idle:
  assumes "own_load_event ev" and "load_task w = None"
  shows "load_task (load_step env w ev) = None"
    and "loaded w = None \<Longrightarrow> loaded (load_step env w ev) = None"
  using assms by (auto elim!: own_event_cases simp: load_step_def quarantine_def recover_def close_engine_def split: option.split)

lemma own_step_converting:
  assumes "own_load_event ev" and "load_task w = Some (AtConvert d)"
  shows "load_task (load_step env w ev) = Some (AtConvert d)"
  using assms by (auto elim!: own_event_cases simp: load_step_def quarantine_def recover_def close_engine_def split: option.split)

text \<open>
  Without automatic conversion a load task waits for the load lock only while its artifacts
  are on disk, so it never converts.
\<close>

definition local_pc :: "load_env \<Rightarrow> load_pc option \<Rightarrow> bool" where
  "local_pc env pc \<longleftrightarrow>
     (case pc of Some (AtConvert _) \<Rightarrow> False | Some (AtLoadLock _) \<Rightarrow> on_disk env \<or> force_mock env | _ \<Rightarrow> True)"

lemma local_pc_simps [simp]:
  "local_pc env None" "local_pc env (Some (AtStart d))" "local_pc env (Some (AtCompile d))"
  "local_pc env (Some (AtHandoff d e p))" "\<not> local_pc env (Some (AtConvert d))"
  "local_pc env (Some (AtLoadLock d)) \<longleftrightarrow> on_disk env \<or> force_mock env"
  by (simp_all add: local_pc_def)

lemma local_pc_top:
  assumes "\<not> auto_convert env" and "local_pc env (load_task w)"
  shows "local_pc env (load_task (load_top env dev w))"
  using assms by (auto simp: load_top_def inspect_target_def Let_def split: option.split)

lemma local_pc_retarget:
  assumes "\<not> auto_convert env" and "local_pc env (load_task w)"
  shows "local_pc env (load_task (retarget env dev w))"
  unfolding retarget_def by (rule local_pc_top) (use assms in simp_all)

lemma load_task_close [simp]: "load_task (close_engine e w) = load_task w"
  by (simp add: close_engine_def)

lemma local_pc_step:
  assumes "\<not> auto_convert env" and "local_pc env (load_task w)" and "own_load_event ev"
  shows "local_pc env (load_task (load_step env w ev))"
  using assms(3)
proof (cases rule: own_event_cases)
  case 2
  with assms show ?thesis
    by (auto simp: load_step_def got_load_lock_def start_compile_def inspect_target_def Let_def
        intro!: local_pc_retarget split: option.split load_pc.split)
next
  case 3
  with assms show ?thesis
    by (auto simp: load_step_def built_engine_def Let_def intro!: local_pc_retarget
        split: option.split load_pc.split)
next
  case 4
  with assms show ?thesis
    by (auto simp: load_step_def got_handoff_def intro!: local_pc_retarget split: option.split load_pc.split)
qed (use assms in \<open>auto simp: load_step_def quarantine_def recover_def close_engine_def
    intro!: local_pc_top split: option.split load_pc.split\<close>)

lemma local_pc_cancel:
  "local_pc env (load_task w) \<Longrightarrow> local_pc env (load_task (load_step env w (Cancel r)))"
  by (cases "load_task w")
    (auto simp: load_step_def cancel_task_def leave_task_def close_engine_def split: load_pc.splits option.split)

lemma local_pc_schedule [simp]: "local_pc env (load_task (schedule_load dev w)) = local_pc env (load_task w)"
  by (auto simp: schedule_load_def)

section \<open>The invariant\<close>

definition tables_ok :: "life \<Rightarrow> bool" where
  "tables_ok s \<longleftrightarrow>
     (\<forall>c\<ge>conv_count s. convs s c = None) \<and> (\<forall>c\<in>set (hooks s). convs s c \<noteq> None)"

text \<open>A deferred load has a callback that will look at it, and none is left once the server stops.\<close>

definition followup_ok :: "life \<Rightarrow> bool" where
  "followup_ok s \<longleftrightarrow>
     (followup s \<noteq> None \<longrightarrow> \<not> shutting s \<and> callback s \<noteq> None) \<and>
     (\<forall>c. callback s = Some c \<longrightarrow> c \<in> set (hooks s))"

definition lock_ok :: "life \<Rightarrow> bool" where
  "lock_ok s \<longleftrightarrow>
     (\<forall>c. convert_lock s = Some (HeldBy c) \<longleftrightarrow> convs s c = Some ConvRunning) \<and>
     (convert_lock s = Some HeldByLoad \<longrightarrow> load_converts s \<and> \<not> load_stopping s) \<and>
     (load_stopping s \<longrightarrow> load_converts s)"

definition deletion_ok :: "life \<Rightarrow> bool" where
  "deletion_ok s \<longleftrightarrow>
     (deletion s = Some RemovingTree \<longrightarrow>
        loaded (world s) = None \<and> load_task (world s) = None \<and> active_conversion s = None)"

definition local_ok :: "life_env \<Rightarrow> life \<Rightarrow> bool" where
  "local_ok env s \<longleftrightarrow>
     (\<not> auto_convert (load_base env) \<longrightarrow>
        local_pc (disk_env env s) (load_task (world s)) \<and>
        (\<forall>c. unfinished (convs s c) \<longrightarrow> conv_slot s = Some c))"

definition life_ok :: "life_env \<Rightarrow> life \<Rightarrow> bool" where
  "life_ok env s \<longleftrightarrow>
     load_ok (world s) \<and> tables_ok s \<and> followup_ok s \<and> lock_ok s \<and> deletion_ok s \<and> local_ok env s"

lemma unfinished_simps [simp]:
  "\<not> unfinished None" "\<not> unfinished (Some (ConvDone b))" "unfinished (Some ConvCreated)"
  "unfinished (Some ConvQueued)" "unfinished (Some ConvRunning)" "unfinished (Some ConvStopping)"
  by (simp_all add: unfinished_def)

lemma unfinished_known: "unfinished t \<Longrightarrow> t \<noteq> None"
  by (cases t) auto

text \<open>The status and phase shown play no part in the invariant.\<close>

lemma load_ok_shown [simp]:
  "load_ok (w\<lparr>load_status := a\<rparr>) = load_ok w" "load_ok (w\<lparr>load_phase := a\<rparr>) = load_ok w"
  by (simp_all add: load_ok_def accounted_def live_engines_def pending_def)

lemma unload_world_ok: "load_ok w \<Longrightarrow> load_task w = None \<Longrightarrow> load_ok (unload_world w)"
  by (auto simp: unload_world_def load_ok_def accounted_def live_engines_def pending_def close_engine_def
      split: option.split)

lemma load_task_unload [simp]: "load_task (unload_world w) = load_task w"
  by (simp add: unload_world_def close_engine_def split: option.split)

lemma loaded_unload [simp]: "loaded (unload_world w) = None"
  by (simp add: unload_world_def split: option.split)

lemma schedule_load_converts [simp]:
  "load_task (schedule_load dev w) = Some (AtConvert d) \<longleftrightarrow> load_task w = Some (AtConvert d)"
  by (auto simp: schedule_load_def)

lemma load_converts_eq: "load_converts s \<longleftrightarrow> (\<exists>d. load_task (world s) = Some (AtConvert d))"
  by (auto simp: load_converts_def split: option.split load_pc.split)

lemma disk_env_simps [simp]:
  "auto_convert (disk_env env s) = auto_convert (load_base env)" "on_disk (disk_env env s) = present s"
  "force_mock (disk_env env s) = force_mock (load_base env)"
  by (simp_all add: disk_env_def)

lemmas ok_defs = tables_ok_def followup_ok_def lock_ok_def deletion_ok_def local_ok_def

lemma active_conversion_upd [simp]:
  "active_conversion (s\<lparr>world := w\<rparr>) = active_conversion s"
  "active_conversion (s\<lparr>followup := f\<rparr>) = active_conversion s"
  "active_conversion (s\<lparr>callback := b\<rparr>) = active_conversion s"
  "active_conversion (s\<lparr>hooks := hs\<rparr>) = active_conversion s"
  "active_conversion (s\<lparr>deletion := d\<rparr>) = active_conversion s"
  "active_conversion (s\<lparr>shutting := b2\<rparr>) = active_conversion s"
  by (simp_all add: active_conversion_def split: option.split)

lemma active_conversion_Some:
  "active_conversion s = Some c \<longleftrightarrow> conv_slot s = Some c \<and> unfinished (convs s c)"
  by (auto simp: active_conversion_def split: option.splits if_splits)

lemma disk_env_upd [simp]:
  "disk_env env (s\<lparr>world := w\<rparr>) = disk_env env s" "disk_env env (s\<lparr>followup := f\<rparr>) = disk_env env s"
  "disk_env env (s\<lparr>callback := b\<rparr>) = disk_env env s" "disk_env env (s\<lparr>hooks := hs\<rparr>) = disk_env env s"
  by (simp_all add: disk_env_def)

text \<open>The world may be replaced by one whose task is at a place that is as good.\<close>

lemma world_ok:
  assumes "life_ok env s" and "load_ok w"
    and "load_converts s \<Longrightarrow> load_converts (s\<lparr>world := w\<rparr>)"
    and "deletion s = Some RemovingTree \<Longrightarrow> loaded (world s) = None \<Longrightarrow> load_task (world s) = None \<Longrightarrow>
      loaded w = None \<and> load_task w = None"
    and "\<not> auto_convert (load_base env) \<Longrightarrow> local_pc (disk_env env s) (load_task (world s)) \<Longrightarrow>
      local_pc (disk_env env s) (load_task w)"
  shows "life_ok env (s\<lparr>world := w\<rparr>)"
  using assms by (auto simp: life_ok_def ok_defs)

lemma shown_ok [simp]:
  "life_ok env (set_load_phase ph s) = life_ok env s" "life_ok env (set_load_status st s) = life_ok env s"
  "life_ok env (show_both st ph s) = life_ok env s"
  by (auto simp: life_ok_def ok_defs load_converts_def set_load_status_def set_load_phase_def show_both_def)

lemma shown_fields [simp]:
  "deletion (show_both st ph s) = deletion s" "active_conversion (show_both st ph s) = active_conversion s"
  "shutting (show_both st ph s) = shutting s" "convs (show_both st ph s) = convs s"
  "deletion (set_load_phase ph s) = deletion s" "active_conversion (set_load_phase ph s) = active_conversion s"
  "shutting (set_load_phase ph s) = shutting s" "convs (set_load_phase ph s) = convs s"
  "conv_count (show_both st ph s) = conv_count s" "forced (show_both st ph s) = forced s"
  "conv_slot (show_both st ph s) = conv_slot s" "present (show_both st ph s) = present s"
  "convert_lock (show_both st ph s) = convert_lock s"
  by (simp_all add: show_both_def set_load_phase_def set_load_status_def)

lemma remember_fields [simp]:
  "world (remember_post_conversion_load c dev draft s) = world s"
  "convs (remember_post_conversion_load c dev draft s) = convs s"
  "conv_slot (remember_post_conversion_load c dev draft s) = conv_slot s"
  "conv_count (remember_post_conversion_load c dev draft s) = conv_count s"
  "present (remember_post_conversion_load c dev draft s) = present s"
  "convert_lock (remember_post_conversion_load c dev draft s) = convert_lock s"
  "load_stopping (remember_post_conversion_load c dev draft s) = load_stopping s"
  "deletion (remember_post_conversion_load c dev draft s) = deletion s"
  "shutting (remember_post_conversion_load c dev draft s) = shutting s"
  "followup (remember_post_conversion_load c dev draft s) = Some (dev, draft)"
  "callback (remember_post_conversion_load c dev draft s) = Some c"
  "set (hooks (remember_post_conversion_load c dev draft s)) \<subseteq> insert c (set (hooks s))"
  by (auto simp: remember_post_conversion_load_def Let_def)

lemma active_remember [simp]:
  "active_conversion (remember_post_conversion_load c dev draft s) = active_conversion s"
  by (simp add: active_conversion_def split: option.split)

lemma remember_hook: "followup_ok s \<Longrightarrow> c \<in> set (hooks (remember_post_conversion_load c dev draft s))"
  by (simp add: remember_post_conversion_load_def followup_ok_def Let_def)

lemma remember_ok:
  assumes "life_ok env s" and "\<not> shutting s" and "unfinished (convs s c)"
  shows "life_ok env (remember_post_conversion_load c dev draft s)"
proof -
  let ?s = "remember_post_conversion_load c dev draft s"
  have "convs s c \<noteq> None" using assms(3) by (rule unfinished_known)
  moreover have "\<forall>c'\<in>set (hooks ?s). c' = c \<or> c' \<in> set (hooks s)"
    using remember_fields(12) [of c dev draft s] by blast
  ultimately have "tables_ok ?s"
    using assms(1) by (auto simp: life_ok_def tables_ok_def)
  moreover have "followup_ok ?s"
    using assms(1,2) remember_hook [of s c dev draft] by (simp add: life_ok_def followup_ok_def [of ?s])
  ultimately show ?thesis
    using assms(1)
    by (simp add: life_ok_def lock_ok_def deletion_ok_def local_ok_def load_converts_def disk_env_def)
qed

lemma schedule_world_ok:
  assumes "life_ok env s" and "deletion s = None"
  shows "life_ok env (s\<lparr>world := schedule_load dev (world s)\<rparr>)"
  using assms
  by (intro world_ok) (auto simp: life_ok_def load_converts_eq intro: schedule_load_ok)

lemma request_load_ok:
  assumes "life_ok env s"
  shows "life_ok env (snd (request_load env dev draft s))"
  using assms
  by (auto simp: request_load_def coordinated_schedule_load_def device_authoritative_schedule_load_def
      active_conversion_Some Let_def intro!: remember_ok schedule_world_ok split: option.split)

text \<open>A new conversion takes the next number; the table names no unfinished one when it is created.\<close>

definition new_conversion :: "bool \<Rightarrow> life \<Rightarrow> life" where
  "new_conversion force s =
     s\<lparr>conv_slot := Some (conv_count s), convs := (convs s)(conv_count s := Some ConvCreated),
       forced := (forced s)(conv_count s := force), conv_count := Suc (conv_count s)\<rparr>"

lemma new_conversion_ok:
  assumes "life_ok env s" and "deletion s = None" and "active_conversion s = None"
  shows "life_ok env (new_conversion force s)"
  using assms
  by (auto simp: life_ok_def ok_defs load_converts_def new_conversion_def disk_env_def active_conversion_def
      split: option.splits if_splits)

lemma core_schedule_convert_ok:
  assumes "life_ok env s" and "deletion s = None" and "active_conversion s = None"
    and "core_schedule_convert force s = (r, s')"
  shows "life_ok env s' \<and> shutting s' = shutting s \<and> (\<forall>c. r = Inr (Some c) \<longrightarrow> unfinished (convs s' c))"
proof -
  let ?q = "show_both (Some ''queued_convert'') (Some ''queued'') s"
  have "life_ok env (new_conversion force ?q)"
    by (rule new_conversion_ok) (use assms in simp_all)
  moreover have "core_schedule_convert force s =
      (if loaded (world s) \<noteq> None then (Inl LoadedModel, s)
       else if present s \<and> \<not> force then (Inr None, set_load_phase (Some ''ready'') s)
       else (Inr (Some (conv_count s)), new_conversion force ?q))"
    by (simp add: core_schedule_convert_def new_conversion_def Let_def)
  ultimately show ?thesis
    using assms(1,4) by (auto simp: new_conversion_def split: if_splits)
qed

lemma request_convert_ok:
  assumes "life_ok env s"
  shows "life_ok env (snd (request_convert env dev load_after force s))"
proof (cases "deletion s \<noteq> None \<or> shutting s")
  case False
  show ?thesis
  proof (cases "active_conversion s")
    case (Some c)
    then have "unfinished (convs s c)" by (simp add: active_conversion_Some)
    with False assms Some show ?thesis
      by (auto simp: request_convert_def coordinated_schedule_convert_def intro!: remember_ok)
  next
    case None
    obtain r s' where core: "core_schedule_convert force (set_load_phase None s) = (r, s')" by fastforce
    with False None assms have "life_ok env s' \<and> \<not> shutting s' \<and> (\<forall>c. r = Inr (Some c) \<longrightarrow> unfinished (convs s' c))"
      using core_schedule_convert_ok [OF _ _ _ core, of env] by simp
    with False None core show ?thesis
      by (auto simp: request_convert_def coordinated_schedule_convert_def intro!: remember_ok request_load_ok
          split: sum.split option.split)
  qed
qed (use assms in \<open>auto simp: request_convert_def\<close>)
text \<open>Conversions change their own entry, the table, the lock and what is on disk.\<close>

lemma set_conv_fields [simp]:
  "world (set_conv c pc s) = world s" "convs (set_conv c pc s) = (convs s)(c := Some pc)"
  "conv_slot (set_conv c pc s) = conv_slot s" "conv_count (set_conv c pc s) = conv_count s"
  "present (set_conv c pc s) = present s" "convert_lock (set_conv c pc s) = convert_lock s"
  "load_stopping (set_conv c pc s) = load_stopping s" "deletion (set_conv c pc s) = deletion s"
  "shutting (set_conv c pc s) = shutting s" "followup (set_conv c pc s) = followup s"
  "callback (set_conv c pc s) = callback s" "hooks (set_conv c pc s) = hooks s"
  by (simp_all add: set_conv_def)

lemma local_ok_slot: "local_ok env s \<Longrightarrow> \<not> auto_convert (load_base env) \<Longrightarrow> unfinished (convs s c) \<Longrightarrow> conv_slot s = Some c"
  by (simp add: local_ok_def)

lemma known_conversion: "tables_ok s \<Longrightarrow> convs s c \<noteq> None \<Longrightarrow> c < conv_count s"
  by (auto simp: tables_ok_def not_le [symmetric])

text \<open>A conversion that goes on: its entry stays unfinished and the table is not touched.\<close>

lemma moved_conversion_ok:
  assumes ok: "life_ok env s" and live: "unfinished (convs s c)" and pc: "unfinished (Some pc)"
    and lock: "lock_ok ((set_conv c pc s)\<lparr>convert_lock := l\<rparr>)"
  shows "life_ok env ((set_conv c pc s)\<lparr>convert_lock := l\<rparr>)"
proof -
  let ?s = "(set_conv c pc s)\<lparr>convert_lock := l\<rparr>"
  have "active_conversion ?s = active_conversion s"
    using live pc by (simp add: active_conversion_def split: option.split)
  moreover have "tables_ok ?s"
    using ok known_conversion [of s c] unfinished_known [OF live] by (auto simp: life_ok_def tables_ok_def)
  moreover have "conv_slot s = Some c'" if "unfinished (convs ?s c')" "\<not> auto_convert (load_base env)" for c'
    using that local_ok_slot [of env s c] local_ok_slot [of env s c'] ok live
    by (cases "c' = c") (auto simp: life_ok_def)
  ultimately show ?thesis
    using ok lock
    by (simp add: life_ok_def followup_ok_def deletion_ok_def local_ok_def disk_env_def)
qed

text \<open>A conversion that ends: the table is empty afterwards and the model may have appeared.\<close>

lemma ended_conversion_ok:
  assumes ok: "life_ok env s" and live: "unfinished (convs s c)" and disk: "present s \<Longrightarrow> d"
    and lock: "lock_ok ((leave_conversion c b s)\<lparr>convert_lock := l, present := d\<rparr>)"
  shows "life_ok env ((leave_conversion c b s)\<lparr>convert_lock := l, present := d\<rparr>)"
proof -
  let ?s = "(leave_conversion c b s)\<lparr>convert_lock := l, present := d\<rparr>"
  have "tables_ok ?s"
    using ok known_conversion [of s c] unfinished_known [OF live]
    by (auto simp: life_ok_def tables_ok_def leave_conversion_def)
  moreover have "deletion_ok ?s"
    using ok by (auto simp: life_ok_def deletion_ok_def leave_conversion_def active_conversion_def)
  moreover have "local_ok env ?s"
  proof -
    have "\<not> unfinished (convs ?s c')" if "\<not> auto_convert (load_base env)" for c'
      using local_ok_slot [of env s c] local_ok_slot [of env s c'] ok live that
      by (auto simp: life_ok_def leave_conversion_def)
    moreover have "local_pc (disk_env env ?s) pc" if "local_pc (disk_env env s) pc" for pc
      using that disk by (auto simp: local_pc_def leave_conversion_def split: option.splits load_pc.splits)
    ultimately show ?thesis using ok by (auto simp: life_ok_def local_ok_def leave_conversion_def)
  qed
  ultimately show ?thesis
    using ok lock by (auto simp: life_ok_def followup_ok_def leave_conversion_def)
qed

text \<open>The lock after each of these changes.\<close>

lemma lock_kept:
  assumes "lock_ok s" and "convs s c \<noteq> Some ConvRunning" and "pc \<noteq> ConvRunning"
    and "convs s' = (convs s)(c := Some pc)" "convert_lock s' = convert_lock s"
    "world s' = world s" "load_stopping s' = load_stopping s"
  shows "lock_ok s'"
  using assms by (auto simp: lock_ok_def load_converts_def)

lemma lock_released:
  assumes "lock_ok s" and "convs s c = Some ConvRunning" and "pc \<noteq> ConvRunning"
    and "convs s' = (convs s)(c := Some pc)" "convert_lock s' = None"
    "world s' = world s" "load_stopping s' = load_stopping s"
  shows "lock_ok s'"
proof -
  have "convert_lock s = Some (HeldBy c)" using assms(1,2) by (simp add: lock_ok_def)
  then have "convs s c' \<noteq> Some ConvRunning" if "c' \<noteq> c" for c'
    using assms(1) that by (auto simp: lock_ok_def)
  with assms show ?thesis by (auto simp: lock_ok_def load_converts_def)
qed

lemma lock_taken:
  assumes "lock_ok s" and "convert_lock s = None"
    and "convs s' = (convs s)(c := Some ConvRunning)" "convert_lock s' = Some (HeldBy c)"
    "world s' = world s" "load_stopping s' = load_stopping s"
  shows "lock_ok s'"
proof -
  have "convs s c' \<noteq> Some ConvRunning" for c'
    using assms(1,2) by (auto simp: lock_ok_def)
  with assms show ?thesis by (auto simp: lock_ok_def load_converts_def)
qed

lemma world_shown: "world (show_both st ph s) = (world s)\<lparr>load_status := st, load_phase := ph\<rparr>"
  by (simp add: show_both_def set_load_phase_def set_load_status_def)

lemma lock_ok_shown [simp]: "lock_ok (show_both st ph s) = lock_ok s"
  by (simp add: lock_ok_def load_converts_def show_both_def set_load_phase_def set_load_status_def)

lemma load_stopping_shown [simp]: "load_stopping (show_both st ph s) = load_stopping s"
  by (simp add: show_both_def set_load_phase_def set_load_status_def)

lemma life_ok_lock: "life_ok env s \<Longrightarrow> lock_ok s"
  by (simp add: life_ok_def)

lemma conversion_started_ok:
  assumes "life_ok env s" and "convs s c = Some ConvCreated"
  shows "life_ok env (set_conv c ConvQueued s)"
proof -
  have "life_ok env ((set_conv c ConvQueued s)\<lparr>convert_lock := convert_lock s\<rparr>)"
    by (rule moved_conversion_ok [OF assms(1)], use assms(2) in simp, simp,
        rule lock_kept [OF life_ok_lock [OF assms(1)], of c ConvQueued], use assms(2) in simp_all)
  moreover have "(set_conv c ConvQueued s)\<lparr>convert_lock := convert_lock s\<rparr> = set_conv c ConvQueued s"
    by (rule life.equality) simp_all
  ultimately show ?thesis by simp
qed

lemma queued_conversion_ended_ok:
  assumes ok: "life_ok env s" and pc: "convs s c = Some ConvQueued"
  shows "life_ok env (leave_conversion c b (show_both st ph s))"
proof -
  let ?t = "show_both st ph s"
  have "life_ok env ((leave_conversion c b ?t)\<lparr>convert_lock := convert_lock s, present := present s\<rparr>)"
    by (rule ended_conversion_ok, use ok pc in simp, use pc in simp, simp,
        rule lock_kept [of ?t c "ConvDone b"])
      (use ok pc in \<open>simp_all add: life_ok_lock leave_conversion_def\<close>)
  moreover have "(leave_conversion c b ?t)\<lparr>convert_lock := convert_lock s, present := present s\<rparr> = leave_conversion c b ?t"
    by (rule life.equality) (simp_all add: leave_conversion_def)
  ultimately show ?thesis by simp
qed

lemma conversion_granted_ok:
  assumes ok: "life_ok env s" and pc: "convs s c = Some ConvQueued" and free: "convert_lock s = None"
  shows "life_ok env (conversion_granted env c s)"
proof -
  have "life_ok env ((set_conv c ConvRunning (show_both st ph s))\<lparr>convert_lock := Some (HeldBy c)\<rparr>)" for st ph
    by (rule moved_conversion_ok, use ok pc in simp, use pc in simp, simp, rule lock_taken [of "show_both st ph s" _ c])
      (use ok pc free in \<open>simp_all add: life_ok_lock\<close>)
  with queued_conversion_ended_ok [OF ok pc] show ?thesis by (simp add: conversion_granted_def)
qed

lemma conversion_ended_ok:
  assumes ok: "life_ok env s" and pc: "convs s c = Some ConvRunning \<or> convs s c = Some ConvStopping"
    and s': "s' = (leave_conversion c b (show_both st ph s))
      \<lparr>convert_lock := (if convs s c = Some ConvRunning then None else convert_lock s), present := d\<rparr>"
    and disk: "present s \<Longrightarrow> d"
  shows "life_ok env s'"
proof -
  let ?q = "show_both st ph s"
  have live: "unfinished (convs ?q c)" using pc by auto
  have lock: "lock_ok ?q" using life_ok_lock [OF ok] by simp
  have "lock_ok s'"
  proof (cases "convs s c = Some ConvRunning")
    case True
    show ?thesis
      by (rule lock_released [OF lock, of c "ConvDone b"]) (simp_all add: s' True leave_conversion_def)
  next
    case False
    show ?thesis
      by (rule lock_kept [OF lock, of c "ConvDone b"]) (simp_all add: s' False leave_conversion_def)
  qed
  with ok live disk show ?thesis
    unfolding s' by (intro ended_conversion_ok) simp_all
qed

lemma conversion_finished_ok:
  assumes "life_ok env s" and "convs s c = Some ConvRunning"
  shows "life_ok env (conversion_finished c fine s)"
proof (cases fine)
  case True
  show ?thesis
    by (rule conversion_ended_ok [OF assms(1), where c = c and b = False and st = None and ph = "Some ''ready''" and d = True])
      (use True assms in \<open>auto simp: conversion_finished_def Let_def leave_conversion_def set_conv_def show_both_def
        set_load_phase_def set_load_status_def\<close>)
next
  case False
  show ?thesis
    by (rule conversion_ended_ok [OF assms(1), where c = c and b = False and st = "Some ''error''" and ph = "Some ''error''" and d = "present s"])
      (use False assms in \<open>auto simp: conversion_finished_def Let_def leave_conversion_def set_conv_def show_both_def
        set_load_phase_def set_load_status_def\<close>)
qed

lemma conversion_stopped_ok:
  assumes "life_ok env s" and "convs s c = Some ConvStopping"
  shows "life_ok env (conversion_stopped c s)"
  by (rule conversion_ended_ok [OF assms(1), where c = c and b = True and st = "Some ''cancelled''"
        and ph = "Some ''cancelled''" and d = "present s"])
    (use assms in \<open>auto simp: conversion_stopped_def leave_conversion_def set_conv_def show_both_def
      set_load_phase_def set_load_status_def\<close>)

text \<open>A task cancelled before its first step leaves a finished entry in the table.\<close>

lemma cancelled_early_ok:
  assumes ok: "life_ok env s" and pc: "convs s c = Some ConvCreated"
  shows "life_ok env (set_conv c (ConvDone True) s)"
proof -
  let ?s = "set_conv c (ConvDone True) s"
  have "tables_ok ?s"
    using ok known_conversion [of s c] pc by (auto simp: life_ok_def tables_ok_def)
  moreover have "lock_ok ?s"
    by (rule lock_kept [OF life_ok_lock [OF ok], of c "ConvDone True"]) (use pc in simp_all)
  moreover have "deletion_ok ?s"
    using ok by (auto simp: life_ok_def deletion_ok_def active_conversion_def split: option.splits if_splits)
  ultimately show ?thesis
    using ok by (simp add: life_ok_def followup_ok_def local_ok_def disk_env_def)
qed

lemma cancel_conversion_ok:
  assumes ok: "life_ok env s"
  shows "life_ok env (cancel_conversion c s)"
proof -
  have "life_ok env ((set_conv c ConvStopping s)\<lparr>convert_lock := None\<rparr>)" if pc: "convs s c = Some ConvRunning"
    by (rule moved_conversion_ok [OF ok], use pc in simp, simp,
        rule lock_released [OF life_ok_lock [OF ok] pc, of ConvStopping]) simp_all
  then show ?thesis
    using ok queued_conversion_ended_ok [OF ok] cancelled_early_ok [OF ok]
    by (auto simp: cancel_conversion_def split: option.split conv_pc.split)
qed

text \<open>
  The conversion of the load task itself happens with automatic conversion only, and not while a
  deletion removes the files.
\<close>

lemma load_converts_auto:
  assumes "life_ok env s" and "load_converts s"
  shows "auto_convert (load_base env)" and "deletion s \<noteq> Some RemovingTree"
  using assms by (auto simp: life_ok_def local_ok_def deletion_ok_def load_converts_eq)

lemma load_world_changed_ok:
  assumes ok: "life_ok env s" and conv: "load_converts s" and w: "load_ok w"
    and s': "world s' = w" "convs s' = convs s" "conv_count s' = conv_count s" "followup s' = followup s"
      "callback s' = callback s" "hooks s' = hooks s" "shutting s' = shutting s" "deletion s' = deletion s"
    and lock: "convert_lock s' = (if convert_lock s = Some HeldByLoad then None else convert_lock s)"
    and stop: "load_stopping s' \<Longrightarrow> load_converts s'"
  shows "life_ok env s'"
proof -
  have "(convert_lock s' = Some (HeldBy c)) = (convs s' c = Some ConvRunning)" for c
    using life_ok_lock [OF ok] s'(2) lock by (auto simp: lock_ok_def)
  then have "lock_ok s'" using lock stop by (simp add: lock_ok_def)
  then show ?thesis
    using ok load_converts_auto [OF ok conv] w s'
    by (simp add: life_ok_def tables_ok_def followup_ok_def deletion_ok_def local_ok_def)
qed

lemma life_load_ok: "life_ok env s \<Longrightarrow> load_ok (world s)"
  by (simp add: life_ok_def)

lemma load_conversion_over_ok:
  assumes "life_ok env s" and "load_converts s" and "\<not> load_stopping s"
  shows "life_ok env (load_conversion_over env disk s)"
  by (rule load_world_changed_ok [OF assms(1,2) load_step_ok [OF life_load_ok [OF assms(1)]]])
    (auto simp: load_conversion_over_def Let_def assms(3))

lemma load_conversion_granted_ok:
  assumes ok: "life_ok env s" and "load_converts s" and "\<not> load_stopping s" and "convert_lock s = None"
  shows "life_ok env (load_conversion_granted env s)"
proof -
  have "life_ok env (s\<lparr>convert_lock := Some HeldByLoad\<rparr>)"
    using assms load_converts_auto [OF ok]
    by (auto simp: life_ok_def tables_ok_def followup_ok_def lock_ok_def deletion_ok_def local_ok_def load_converts_def)
  with load_conversion_over_ok [OF assms(1,2,3)] show ?thesis by (simp add: load_conversion_granted_def)
qed

lemma load_step_idle_cancel: "load_task w = None \<Longrightarrow> load_step env w (Cancel r) = w"
  by (simp add: load_step_def)

lemma cancel_load_ok:
  assumes ok: "life_ok env s"
  shows "life_ok env (cancel_load env outcome s)"
proof -
  let ?w = "load_step (disk_env env s) (world s) (Cancel outcome)"
  have w: "load_ok ?w" by (rule load_step_ok [OF life_load_ok [OF ok]])
  have "life_ok env (s\<lparr>world := ?w\<rparr>)" if "\<not> load_converts s"
    by (rule world_ok [OF ok w]) (use that local_pc_cancel in \<open>auto simp: load_step_idle_cancel\<close>)
  moreover have "life_ok env (s\<lparr>world := ?w, conv_slot := None\<rparr>)"
    if "load_converts s" "\<not> load_stopping s" "convert_lock s \<noteq> Some HeldByLoad"
    by (rule load_world_changed_ok [OF ok that(1) w]) (use that in simp_all)
  moreover have "life_ok env (s\<lparr>convert_lock := None, load_stopping := True\<rparr>)"
    if "load_converts s" "convert_lock s = Some HeldByLoad"
    by (rule load_world_changed_ok [OF ok that(1) life_load_ok [OF ok]])
      (use that in \<open>simp_all add: load_converts_def\<close>)
  ultimately show ?thesis using ok by (simp add: cancel_load_def Let_def)
qed

lemma load_stopped_ok:
  assumes ok: "life_ok env s" and stopping: "load_stopping s"
  shows "life_ok env (load_stopped env s)"
proof -
  have conv: "load_converts s" and lock: "convert_lock s \<noteq> Some HeldByLoad"
    using life_ok_lock [OF ok] stopping by (auto simp: lock_ok_def)
  show ?thesis
    by (rule load_world_changed_ok [OF ok conv load_step_ok [OF life_load_ok [OF ok]]])
      (simp_all add: load_stopped_def lock)
qed

lemma own_load_event_ok:
  assumes ok: "life_ok env s" and own: "own_load_event ev"
  shows "life_ok env (s\<lparr>world := load_step (disk_env env s) (world s) ev\<rparr>)"
  by (rule world_ok [OF ok load_step_ok [OF life_load_ok [OF ok]]])
    (use own in \<open>auto simp: load_converts_eq own_step_converting own_step_idle intro: local_pc_step\<close>)

lemma guarded_delete_ok:
  assumes "life_ok env s"
  shows "life_ok env (snd (guarded_delete env s))"
proof -
  have "life_ok env (s\<lparr>deletion := None\<rparr>)"
    using assms by (simp add: life_ok_def tables_ok_def followup_ok_def lock_ok_def deletion_ok_def local_ok_def
        load_converts_def disk_env_def)
  moreover have "life_ok env (s\<lparr>followup := None, callback := None, deletion := Some RemovingTree\<rparr>)"
    if "loaded (world s) = None" "load_task (world s) = None" "active_conversion s = None"
    using assms that by (simp add: life_ok_def tables_ok_def followup_ok_def lock_ok_def deletion_ok_def local_ok_def
        load_converts_def disk_env_def)
  ultimately show ?thesis by (simp add: guarded_delete_def Let_def)
qed

lemma deleting_idle:
  assumes "life_ok env s" and "deletion s = Some RemovingTree"
  shows "loaded (world s) = None" and "load_task (world s) = None" and "active_conversion s = None"
  using assms by (simp_all add: life_ok_def deletion_ok_def)

lemma no_active_conversion:
  assumes "life_ok env s" and "active_conversion s = None" and "\<not> auto_convert (load_base env)"
  shows "\<not> unfinished (convs s c)"
proof
  assume "unfinished (convs s c)"
  with assms(1,3) have "active_conversion s = Some c"
    using local_ok_slot [of env s c] active_conversion_Some [of s c] by (simp add: life_ok_def)
  with assms(2) show False by simp
qed

lemma delete_tree_ok:
  assumes ok: "life_ok env s" and del: "deletion s = Some RemovingTree"
  shows "life_ok env (delete_tree s)"
proof -
  note idle = deleting_idle [OF ok del]
  have "\<not> unfinished (convs s c)" if "\<not> auto_convert (load_base env)" for c
    by (rule no_active_conversion [OF ok idle(3) that])
  moreover have "life_ok env (show_both None None s)" using ok by simp
  ultimately show ?thesis
    using idle unfolding delete_tree_def
    by (simp add: life_ok_def tables_ok_def followup_ok_def lock_ok_def deletion_ok_def local_ok_def
        load_converts_def world_shown)
qed

lemma unloaded_ok:
  assumes "life_ok env s" and "load_task (world s) = None"
  shows "life_ok env (s\<lparr>world := unload_world (world s)\<rparr>)"
  using assms by (intro world_ok) (auto simp: load_converts_eq life_load_ok intro: unload_world_ok)

lemma end_shutdown_ok:
  assumes ok: "life_ok env s" and "shutting s" "load_task (world s) = None" "active_conversion s = None"
  shows "life_ok env (end_shutdown s)"
proof -
  have "life_ok env (s\<lparr>world := unload_world (world s)\<rparr>)" by (rule unloaded_ok) fact+
  moreover have "\<not> unfinished (convs s c)" if "\<not> auto_convert (load_base env)" for c
    by (rule no_active_conversion [OF ok assms(4) that])
  ultimately show ?thesis
    using assms(2,3) unfolding end_shutdown_def
    by (simp add: life_ok_def tables_ok_def followup_ok_def lock_ok_def deletion_ok_def local_ok_def
        load_converts_def disk_env_def active_conversion_def)
qed

lemma field_changes_ok:
  assumes "life_ok env s"
  shows "life_ok env (begin_shutdown s)" and "life_ok env (forget_deferred_load s)"
    and "deletion s = None \<Longrightarrow> life_ok env (s\<lparr>deletion := Some BeforeChecks\<rparr>)"
  using assms
  by (simp_all add: begin_shutdown_def forget_deferred_load_def life_ok_def tables_ok_def followup_ok_def
      lock_ok_def deletion_ok_def local_ok_def load_converts_def disk_env_def)

text \<open>A callback leaves the list; if it is the registered one it takes the deferred load with it.\<close>

lemma callback_ok:
  assumes ok: "life_ok env s"
  shows "life_ok env (resume_after_conversion env c b (s\<lparr>hooks := remove1 c (hooks s)\<rparr>))"
proof (cases "callback s = Some c")
  case True
  have "life_ok env (s\<lparr>hooks := remove1 c (hooks s), callback := None, followup := None\<rparr>)"
    using ok set_remove1_subset [of c "hooks s"]
    by (auto simp: life_ok_def tables_ok_def followup_ok_def lock_ok_def deletion_ok_def local_ok_def
        load_converts_def disk_env_def dest!: subsetD)
  then have resumed: "life_ok env (snd (request_load env dev draft
      (s\<lparr>hooks := remove1 c (hooks s), callback := None, followup := None\<rparr>)))" for dev draft
    by (rule request_load_ok)
  have "life_ok env (case request_load env dev draft
        (s\<lparr>hooks := remove1 c (hooks s), callback := None, followup := None\<rparr>) of
      (None, s') \<Rightarrow> s' | (Some _, s') \<Rightarrow> show_both (Some ''error'') (Some ''error'') s')" for dev draft
    using resumed [of dev draft] by (auto split: prod.split option.split)
  with True \<open>life_ok env (s\<lparr>hooks := remove1 c (hooks s), callback := None, followup := None\<rparr>)\<close> show ?thesis
    by (simp add: resume_after_conversion_def Let_def split: option.split)
next
  case False
  then have "life_ok env (s\<lparr>hooks := remove1 c (hooks s)\<rparr>)"
    using ok set_remove1_subset [of c "hooks s"]
    by (auto simp: life_ok_def tables_ok_def followup_ok_def lock_ok_def deletion_ok_def local_ok_def
        load_converts_def disk_env_def)
  with False show ?thesis by (simp add: resume_after_conversion_def)
qed

lemma load_conversion_ends_ok:
  assumes "life_ok env s" and "load_converts s" and "convert_lock s = Some HeldByLoad"
  shows "life_ok env (load_conversion_over env disk s)"
  by (rule load_conversion_over_ok [OF assms(1,2)]) (use assms life_ok_lock [of env s] in \<open>simp add: lock_ok_def\<close>)

lemma life_step_ok:
  assumes "life_ok env s"
  shows "life_ok env (life_step env s ev)"
  using assms
  by (cases ev)
    (auto simp: life_step_def begin_deletion_def request_unload_def
      intro: request_load_ok request_convert_ok unloaded_ok field_changes_ok guarded_delete_ok delete_tree_ok
        end_shutdown_ok own_load_event_ok cancel_load_ok load_stopped_ok load_conversion_granted_ok
        load_conversion_ends_ok conversion_started_ok conversion_granted_ok conversion_finished_ok
        cancel_conversion_ok conversion_stopped_ok callback_ok
      split: option.split conv_pc.split)

interpretation lifecycle: invariant_machine "life_ok env" "life_step env" for env
  by unfold_locales (rule life_step_ok)

lemma first_life_ok: "life_ok env (first_life d)"
  by (simp add: first_life_def life_ok_def tables_ok_def followup_ok_def lock_ok_def deletion_ok_def local_ok_def
      load_converts_def idle_world_ok) (simp add: idle_world_def)

lemma life_run_ok: "life_ok env (life_run env (first_life d) evs)"
  unfolding life_run_def by (rule lifecycle.run_ok [OF first_life_ok])

section \<open>Deferred loads\<close>

text \<open>The events that do not speak for or against the load that waits for the conversion \<open>c\<close>.\<close>

definition keeps_waiting :: "nat \<Rightarrow> life_event \<Rightarrow> bool" where
  "keeps_waiting c ev \<longleftrightarrow>
     (case ev of
        RequestLoad _ _ \<Rightarrow> False
      | RequestConvert _ load_after _ \<Rightarrow> \<not> load_after
      | CheckDeletion \<Rightarrow> False
      | BeginShutdown \<Rightarrow> False
      | EndShutdown \<Rightarrow> False
      | CallbackRuns c' \<Rightarrow> c' \<noteq> c
      | CancellationEnds \<Rightarrow> False
      | _ \<Rightarrow> True)"

definition load_waits :: "nat \<Rightarrow> string \<Rightarrow> string option \<Rightarrow> life \<Rightarrow> bool" where
  "load_waits c dev draft s \<longleftrightarrow>
     followup s = Some (dev, draft) \<and> callback s = Some c \<and> \<not> shutting s"

lemma load_waits_request_convert:
  assumes "load_waits c dev draft s"
  shows "load_waits c dev draft (snd (request_convert env d False force s))"
  using assms
  by (auto simp: request_convert_def coordinated_schedule_convert_def core_schedule_convert_def Let_def
      load_waits_def set_load_phase_def show_both_def set_load_status_def split: option.split)

lemma load_waits_step:
  assumes "load_waits c dev draft s" and "keeps_waiting c ev"
  shows "load_waits c dev draft (life_step env s ev)"
proof (cases ev)
  case (RequestConvert d la force)
  with assms load_waits_request_convert show ?thesis by (simp add: life_step_def keeps_waiting_def)
qed (use assms in \<open>auto simp: life_step_def keeps_waiting_def load_waits_def request_unload_def begin_deletion_def
    delete_tree_def show_both_def set_load_status_def set_load_phase_def cancel_load_def load_stopped_def Let_def
    load_conversion_granted_def load_conversion_over_def conversion_granted_def conversion_finished_def
    leave_conversion_def cancel_conversion_def conversion_stopped_def set_conv_def resume_after_conversion_def
    split: option.split conv_pc.split\<close>)

interpretation waiting_load: invariant_machine "load_waits c dev draft"
    "\<lambda>s ev. if keeps_waiting c ev then life_step env s ev else s" for c dev draft env
  by unfold_locales (auto intro: load_waits_step)

lemma waiting_run: "list_all (keeps_waiting c) evs \<Longrightarrow>
    foldl (\<lambda>s ev. if keeps_waiting c ev then life_step env s ev else s) s evs = life_run env s evs"
  unfolding life_run_def by (induction evs arbitrary: s) auto

lemma load_waits_requested:
  assumes "active_conversion s = Some c" and "deletion s = None" and "\<not> shutting s"
  shows "load_waits c dev draft (life_step env s (RequestLoad dev draft))"
  using assms
  by (simp add: life_step_def request_load_def coordinated_schedule_load_def Let_def load_waits_def
      set_load_phase_def)

section \<open>What the lifecycle guarantees\<close>


definition quiet_env :: life_env where
  "quiet_env = \<lparr>load_base = \<lparr>force_mock = False, auto_convert = False, device_available = (\<lambda>_. True), on_disk = False\<rparr>,
     has_source = True, draft_ok = (\<lambda>d. d = None), through_link = False\<rparr>"

definition converting_env :: life_env where
  "converting_env = quiet_env\<lparr>load_base := (load_base quiet_env)\<lparr>auto_convert := True\<rparr>\<rparr>"

lemmas life_eval = life_run_def life_step_def first_life_def idle_world_def request_load_def coordinated_schedule_load_def
  device_authoritative_schedule_load_def remember_post_conversion_load_def request_convert_def
  coordinated_schedule_convert_def core_schedule_convert_def request_unload_def unload_world_def begin_deletion_def
  guarded_delete_def delete_tree_def show_both_def set_load_status_def set_load_phase_def active_conversion_def
  conversion_granted_def conversion_finished_def leave_conversion_def set_conv_def load_conversion_granted_def
  load_conversion_over_def load_converts_def resume_after_conversion_def load_step_def schedule_load_def
  load_top_def got_load_lock_def converted_def built_engine_def install_def start_compile_def finish_ready_def
  leave_task_def close_engine_def loaded_on_def latest_target_def inspect_target_def disk_env_def quiet_env_def
  converting_env_def Let_def


text \<open>A load requested during a conversion is not forgotten: as long as it is recorded, its
  callback is registered on a conversion task and has not run; and once the shutdown has begun
  none is recorded.\<close>

lemma deferred_load_has_callback:
  assumes "followup (life_run env (first_life d) evs) \<noteq> None"
  shows "\<not> shutting (life_run env (first_life d) evs)
    \<and> (\<exists>c. callback (life_run env (first_life d) evs) = Some c
        \<and> c \<in> set (hooks (life_run env (first_life d) evs))
        \<and> convs (life_run env (first_life d) evs) c \<noteq> None)"
  using life_run_ok [of env d evs] assms by (auto simp: life_ok_def followup_ok_def tables_ok_def)



lemma deferred_load_has_callback_witness:
  "callback (life_run quiet_env (first_life False) [RequestConvert ''CPU'' True False]) = Some 0"
  using deferred_load_has_callback [of quiet_env False "[RequestConvert ''CPU'' True False]"]
  by (simp add: life_eval)

text \<open>With automatic conversion the guards of a deletion do not see every conversion. A load task
  that converts the model itself pops the table entry of another conversion that waits for the
  lock; that conversion then runs although no table names it, and the deletion of the files
  it is replacing is accepted.\<close>

lemma automatic_conversion_defeats_deletion_guard:
  "\<exists>evs. deletion (life_run converting_env (first_life False) evs) = Some RemovingTree
     \<and> convs (life_run converting_env (first_life False) evs) 0 = Some ConvRunning"
proof (intro exI)
  let ?evs = "[RequestLoad ''CPU'' None, LoadEvent TaskStarts, LoadEvent LoadLockGranted, LoadConversionGranted,
    RequestConvert ''CPU'' False True, ConversionStarts 0, LoadConversionEnds True,
    LoadEvent (BuildDone (Some ''CPU'')), ConversionGranted 0, RequestUnload, BeginDeletion, CheckDeletion]"
  show "deletion (life_run converting_env (first_life False) ?evs) = Some RemovingTree
      \<and> convs (life_run converting_env (first_life False) ?evs) 0 = Some ConvRunning"
    by (simp add: life_eval)
qed

text \<open>The converter can replace the files of a loaded model although a conversion of a loaded model
  is refused: the request is compared with the engines only, not with a load in flight.\<close>

lemma conversion_overtakes_load:
  "\<exists>evs e. loaded (world (life_run quiet_env (first_life True) evs)) = Some e
     \<and> convs (life_run quiet_env (first_life True) evs) 0 = Some ConvRunning"
proof (intro exI)
  let ?evs = "[RequestLoad ''CPU'' None, LoadEvent TaskStarts, LoadEvent LoadLockGranted,
    RequestConvert ''CPU'' False True, ConversionStarts 0, ConversionGranted 0, LoadEvent (BuildDone (Some ''CPU''))]"
  show "loaded (world (life_run quiet_env (first_life True) ?evs))
        = Some \<lparr>eng_id = 0, eng_device = ''CPU'', eng_request = ''CPU''\<rparr>
      \<and> convs (life_run quiet_env (first_life True) ?evs) 0 = Some ConvRunning"
    by (simp add: life_eval)
qed

text \<open>The engines stay accounted for under the whole lifecycle.\<close>

lemma lifecycle_engines_accounted:
  "distinct (accounted (world (life_run env (first_life d) evs)))
   \<and> set (accounted (world (life_run env (first_life d) evs))) = {..<built (world (life_run env (first_life d) evs))}"
  using life_load_ok [OF life_run_ok] by (simp add: load_ok_def)

end
