(* ===== verification/Watchdog.thy ===== *)
theory Watchdog
  imports StructuredProgress
begin

text \<open>
  \<open>app/model_preparation_timeouts.py\<close>: the stage-aware watchdogs of loads and conversions, over the
  status and progress tables of \<open>StructuredProgress\<close>. The download, conversion and finalization
  stages are timed from the last progress, loading and compilation from the start of the stage.
  Once a timeout is recorded, status and progress are frozen until the cancelled task is gone. Both
  clocks are arguments of the calls; times are rationals.
\<close>

section \<open>Stages\<close>

datatype stage = Download | Conversion | Finalization | Compilation | Loading

datatype operation_kind = LoadOperation | ConvertOperation

record timeouts =
  download_stall :: rat
  conversion_stall :: rat
  finalization_stall :: rat
  loading_limit :: rat
  compilation_limit :: rat

text \<open>\<open>_env_seconds\<close>: an unset, unreadable or unreasonable setting is replaced by the default.\<close>

definition env_seconds :: "string option \<Rightarrow> rat \<Rightarrow> rat" where
  "env_seconds raw default_value =
     (case raw of
        None \<Rightarrow> default_value
      | Some t \<Rightarrow>
          if py_strip t = [] then default_value
          else (case py_float_str (py_strip t) of
              Some (Fin r) \<Rightarrow> if 1 \<le> r \<and> r \<le> 86400 then r else default_value
            | _ \<Rightarrow> default_value))"

definition timeouts_from_env :: "(string \<Rightarrow> string option) \<Rightarrow> timeouts" where
  "timeouts_from_env getenv =
     \<lparr>download_stall = env_seconds (getenv ''OV_LLM_DOWNLOAD_STALL_TIMEOUT_SECONDS'') 600,
      conversion_stall = env_seconds (getenv ''OV_LLM_CONVERSION_STALL_TIMEOUT_SECONDS'') 900,
      finalization_stall = env_seconds (getenv ''OV_LLM_FINALIZATION_STALL_TIMEOUT_SECONDS'') 300,
      loading_limit = env_seconds (getenv ''OV_LLM_LOADING_TIMEOUT_SECONDS'') 1800,
      compilation_limit = env_seconds (getenv ''OV_LLM_COMPILATION_TIMEOUT_SECONDS'') 1800\<rparr>"

fun timeout_for :: "timeouts \<Rightarrow> stage \<Rightarrow> rat" where
  "timeout_for c Download = download_stall c"
| "timeout_for c Conversion = conversion_stall c"
| "timeout_for c Finalization = finalization_stall c"
| "timeout_for c Loading = loading_limit c"
| "timeout_for c Compilation = compilation_limit c"

definition is_inactivity_timeout :: "stage \<Rightarrow> bool" where
  "is_inactivity_timeout st \<longleftrightarrow> st \<in> {Download, Conversion, Finalization}"

definition classify_stage :: "string \<Rightarrow> string \<Rightarrow> stage option" where
  "classify_stage ph msg =
     (let p = py_lower (py_strip ph); m = py_lower (py_strip msg)
      in if p \<in> {''resolving'', ''downloading''} then Some Download
         else if p = ''converting'' then Some Conversion
         else if p = ''finalizing'' then Some Finalization
         else if py_in ''compil'' m then Some Compilation
         else if p \<in> {''queued'', ''loading''} then Some Loading
         else None)"

section \<open>State\<close>

record heartbeat =
  hb_operation :: "string option"
  hb_stage :: stage
  hb_started :: rat
  hb_progress :: rat
  hb_at :: rat

record timeout_record =
  to_kind :: operation_kind
  to_operation :: "string option"
  to_stage :: stage
  to_timeout :: rat
  to_elapsed :: rat
  to_last :: rat
  to_at :: rat
  to_inactivity :: bool
  to_task :: nat
  to_cleanup_pending :: bool

record watched =
  tables :: prep
  beats :: "string \<Rightarrow> heartbeat option"
  timed_out :: "string \<Rightarrow> timeout_record option"

record watch_env =
  prep_part :: prep_env
  limits :: timeouts
  iso_time :: "rat \<Rightarrow> string"
  model_name :: "string \<Rightarrow> string"

definition record_heartbeat :: "rat \<Rightarrow> rat \<Rightarrow> string \<Rightarrow> string \<Rightarrow> string \<Rightarrow> string option \<Rightarrow> watched \<Rightarrow> watched" where
  "record_heartbeat mclk epoch mid ph msg op s =
     (case classify_stage ph msg of
        None \<Rightarrow> s
      | Some st \<Rightarrow>
          let started = (case beats s mid of
                Some h \<Rightarrow> if hb_stage h = st \<and> hb_operation h = op then hb_started h else mclk
              | None \<Rightarrow> mclk)
          in s\<lparr>beats := (beats s)(mid \<mapsto>
               \<lparr>hb_operation = op, hb_stage = st, hb_started = started, hb_progress = mclk, hb_at = epoch\<rparr>)\<rparr>)"

section \<open>The guarded status and progress operations\<close>

definition guarded_set_status :: "int \<Rightarrow> string \<Rightarrow> string \<Rightarrow> string option \<Rightarrow> watched \<Rightarrow> watched" where
  "guarded_set_status now mid st err s =
     (if timed_out s mid \<noteq> None then s else s\<lparr>tables := set_status now mid st err (tables s)\<rparr>)"

definition guarded_clear_status :: "string \<Rightarrow> watched \<Rightarrow> watched" where
  "guarded_clear_status mid s =
     (if timed_out s mid \<noteq> None then s else s\<lparr>tables := clear_status mid (tables s)\<rparr>)"

definition forget_timeout :: "string \<Rightarrow> watched \<Rightarrow> watched" where
  "forget_timeout mid s = s\<lparr>timed_out := (timed_out s)(mid := None), beats := (beats s)(mid := None)\<rparr>"

text \<open>\<open>payload.get("operation_id")\<close>, an empty one counting as missing.\<close>

definition shown_operation :: "prep \<Rightarrow> string \<Rightarrow> string option" where
  "shown_operation t mid =
     (case progress t mid of None \<Rightarrow> None | Some p \<Rightarrow> if pr_operation p = [] then None else Some (pr_operation p))"

definition guarded_set_progress ::
  "watch_env \<Rightarrow> bool \<Rightarrow> int \<Rightarrow> rat \<Rightarrow> rat \<Rightarrow> string \<Rightarrow> string \<Rightarrow> string \<Rightarrow> pyfloat option \<Rightarrow> string option
     \<Rightarrow> watched \<Rightarrow> watched" where
  "guarded_set_progress env active_op now mclk epoch mid ph msg pc extra s0 =
     (if timed_out s0 mid \<noteq> None \<and> \<not> (ph = ''ready'' \<and> \<not> active_op) then s0
      else
        let s = (if timed_out s0 mid \<noteq> None then forget_timeout mid s0 else s0);
            t = set_progress (prep_part env) now mid ph msg pc extra (tables s)
        in record_heartbeat mclk epoch mid ph msg (shown_operation t mid) (s\<lparr>tables := t\<rparr>))"

definition guarded_clear_progress :: "bool \<Rightarrow> string \<Rightarrow> watched \<Rightarrow> watched" where
  "guarded_clear_progress active_op mid s =
     (if timed_out s mid \<noteq> None \<and> active_op then s
      else (forget_timeout mid s)\<lparr>tables := clear_progress mid (tables s)\<rparr>)"

section \<open>The message\<close>

definition two_digits :: "int \<Rightarrow> string" where
  "two_digits n = (if n < 10 then ''0'' @ show_int n else show_int n)"

definition duration_label :: "rat \<Rightarrow> string" where
  "duration_label seconds =
     (let total = max 1 (py_round seconds)
      in if total < 60 then show_int total @ '' second'' @ (if total \<noteq> 1 then ''s'' else [])
         else if total div 60 < 60 then show_int (total div 60) @ ''m '' @ two_digits (total mod 60) @ ''s''
         else show_int (total div 60 div 60) @ ''h '' @ two_digits (total div 60 mod 60) @ ''m'')"

fun stage_label :: "stage \<Rightarrow> string" where
  "stage_label Download = ''download''"
| "stage_label Conversion = ''conversion''"
| "stage_label Finalization = ''conversion finalization''"
| "stage_label Compilation = ''OpenVINO compilation''"
| "stage_label Loading = ''model loading''"

definition timeout_message :: "watch_env \<Rightarrow> timeout_record \<Rightarrow> string \<Rightarrow> string" where
  "timeout_message env r name =
     name @ '' timed out during '' @ stage_label (to_stage r) @ '' after '' @ duration_label (to_elapsed r) @ '' ''
     @ (if to_inactivity r then ''without new progress'' else ''in this stage'')
     @ ''. Last successful progress: '' @ iso_time env (to_last r) @ ''. ''
     @ (if is_inactivity_timeout (to_stage r)
        then ''Downloaded cache entries and incomplete OpenVINO output were preserved.''
        else ''Converted model files and any previously loaded engine were preserved.'')
     @ '' Use Resume preparation or Retry failed stage after cleanup completes.''"

text \<open>\<open>publish_timeout\<close> writes past the guards.\<close>

definition publish_timeout :: "watch_env \<Rightarrow> int \<Rightarrow> string \<Rightarrow> timeout_record \<Rightarrow> watched \<Rightarrow> watched" where
  "publish_timeout env now mid r s =
     (let msg = timeout_message env r (model_name env mid)
      in s\<lparr>tables := set_progress (prep_part env) now mid ''error'' msg None None
             (set_status now mid ''error'' (Some msg) (tables s))\<rparr>)"

section \<open>The watcher\<close>

datatype watch_outcome = KeepWatching | StopWatching | CancelTarget

definition stage_matches :: "operation_kind \<Rightarrow> stage \<Rightarrow> bool" where
  "stage_matches kind st \<longleftrightarrow> (kind = ConvertOperation) = is_inactivity_timeout st"

definition elapsed_in_stage :: "rat \<Rightarrow> heartbeat \<Rightarrow> rat" where
  "elapsed_in_stage mclk h =
     mclk - (if is_inactivity_timeout (hb_stage h) then hb_progress h else hb_started h)"

definition effective_timeout :: "watch_env \<Rightarrow> heartbeat \<Rightarrow> rat" where
  "effective_timeout env h = max (1 / 1000) (timeout_for (limits env) (hb_stage h))"

definition new_record ::
  "watch_env \<Rightarrow> operation_kind \<Rightarrow> nat \<Rightarrow> string option \<Rightarrow> rat \<Rightarrow> rat \<Rightarrow> heartbeat \<Rightarrow> timeout_record" where
  "new_record env kind target op c e h =
     \<lparr>to_kind = kind, to_operation = (if hb_operation h \<noteq> None then hb_operation h else op),
      to_stage = hb_stage h, to_timeout = effective_timeout env h, to_elapsed = elapsed_in_stage c h,
      to_last = hb_at h, to_at = e, to_inactivity = is_inactivity_timeout (hb_stage h),
      to_task = target, to_cleanup_pending = True\<rparr>"

text \<open>
  One round of \<open>_watch_operation\<close> after its sleep. \<open>target\<close> is the identity of the watched task, \<open>gone\<close>
  whether it is done, \<open>op\<close> the operation it was started for.
\<close>

definition watch_round ::
  "watch_env \<Rightarrow> operation_kind \<Rightarrow> nat \<Rightarrow> bool \<Rightarrow> string option \<Rightarrow> int \<Rightarrow> rat \<Rightarrow> rat \<Rightarrow> string \<Rightarrow> watched
     \<Rightarrow> watch_outcome \<times> watched" where
  "watch_round env kind target gone op now mclk epoch mid s =
     (if gone \<or> timed_out s mid \<noteq> None then (StopWatching, s)
      else case beats s mid of
          None \<Rightarrow> (KeepWatching, s)
        | Some h \<Rightarrow>
            if op \<noteq> None \<and> hb_operation h \<noteq> None \<and> hb_operation h \<noteq> op then (StopWatching, s)
            else if \<not> stage_matches kind (hb_stage h) then (KeepWatching, s)
            else if elapsed_in_stage mclk h < effective_timeout env h then (KeepWatching, s)
            else
              let r = new_record env kind target op mclk epoch h
              in (CancelTarget, publish_timeout env now mid r (s\<lparr>timed_out := (timed_out s)(mid \<mapsto> r)\<rparr>)))"

text \<open>
  The end of \<open>run_with_preparation_watchdog\<close>: the result of the target, \<open>None\<close> when it was cancelled,
  \<open>outer\<close> telling whether the waiting task is being cancelled itself. The second component is
  what the wrapper returns, \<open>None\<close> when it raises \<open>CancelledError\<close>.
\<close>

definition mark_cleanup_complete :: "string \<Rightarrow> watched \<Rightarrow> watched" where
  "mark_cleanup_complete mid s =
     s\<lparr>timed_out := (timed_out s)(mid := map_option (\<lambda>r. r\<lparr>to_cleanup_pending := False\<rparr>) (timed_out s mid))\<rparr>"

definition target_ended :: "nat \<Rightarrow> bool \<Rightarrow> bool \<Rightarrow> string \<Rightarrow> watched \<Rightarrow> watched \<times> bool" where
  "target_ended target target_cancelled outer mid s =
     (let mine = (case timed_out s mid of None \<Rightarrow> False | Some r \<Rightarrow> to_task r = target);
          s' = (if mine then mark_cleanup_complete mid s else s)
      in (s', \<not> target_cancelled \<or> mine \<and> \<not> outer))"

section \<open>Interleavings\<close>

datatype watch_event =
    WSetStatus string string "string option"
  | WClearStatus string
  | WSetProgress bool rat rat string string string "pyfloat option" "string option"
      \<comment> \<open>whether an operation of the model is active, both clocks, and the arguments\<close>
  | WClearProgress bool string
  | WRound operation_kind nat bool "string option" rat rat string
  | WTargetEnded nat bool bool string

fun watch_step :: "watch_env \<Rightarrow> watched \<Rightarrow> int \<times> watch_event \<Rightarrow> watched" where
  "watch_step env s (now, WSetStatus mid st err) = guarded_set_status now mid st err s"
| "watch_step env s (now, WClearStatus mid) = guarded_clear_status mid s"
| "watch_step env s (now, WSetProgress act mclk epoch mid ph msg pc extra) =
     guarded_set_progress env act now mclk epoch mid ph msg pc extra s"
| "watch_step env s (now, WClearProgress act mid) = guarded_clear_progress act mid s"
| "watch_step env s (now, WRound kind target gone op mclk epoch mid) =
     snd (watch_round env kind target gone op now mclk epoch mid s)"
| "watch_step env s (now, WTargetEnded target cancelled outer mid) = fst (target_ended target cancelled outer mid s)"

definition watch_run :: "watch_env \<Rightarrow> watched \<Rightarrow> (int \<times> watch_event) list \<Rightarrow> watched" where
  "watch_run env s es = foldl (watch_step env) s es"

section \<open>A recorded timeout\<close>

lemma set_status_other [simp]:
  "progress (set_status now m st err t) = progress t" "progress (clear_status m t) = progress t"
  "m' \<noteq> m \<Longrightarrow> statuses (set_status now m st err t) m' = statuses t m'"
  "m' \<noteq> m \<Longrightarrow> statuses (clear_status m t) m' = statuses t m'"
  "statuses (set_status now m st err t) m = Some \<lparr>st_status = st, st_error = err, st_updated = now\<rparr>"
  by (simp_all add: set_status_def clear_status_def)

lemma clear_progress_other [simp]:
  "statuses (clear_progress m t) = statuses t" "m' \<noteq> m \<Longrightarrow> progress (clear_progress m t) m' = progress t m'"
  by (simp_all add: clear_progress_def)

lemma heartbeat_tables [simp]:
  "tables (record_heartbeat c e mid ph msg op s) = tables s"
  "timed_out (record_heartbeat c e mid ph msg op s) = timed_out s"
  by (simp_all add: record_heartbeat_def Let_def split: option.split)

text \<open>
  What the server does to a model whose operation is still being cancelled: it is not done, so no
  caller finds it inactive.
\<close>

definition still_active :: "string \<Rightarrow> int \<times> watch_event \<Rightarrow> bool" where
  "still_active mid e \<longleftrightarrow>
     (case snd e of
        WSetProgress act _ _ m _ _ _ _ \<Rightarrow> m = mid \<longrightarrow> act
      | WClearProgress act m \<Rightarrow> m = mid \<longrightarrow> act
      | _ \<Rightarrow> True)"

definition frozen :: "string \<Rightarrow> progress_entry option \<Rightarrow> status_override option \<Rightarrow> watched \<Rightarrow> bool" where
  "frozen mid p st s \<longleftrightarrow>
     timed_out s mid \<noteq> None \<and> progress (tables s) mid = p \<and> statuses (tables s) mid = st"

lemma watch_round_timeout:
  assumes "\<not> gone" and "timed_out s mid = None" and "beats s mid = Some h"
    and "\<not> (op \<noteq> None \<and> hb_operation h \<noteq> None \<and> hb_operation h \<noteq> op)"
    and "stage_matches kind (hb_stage h)" and "\<not> elapsed_in_stage c h < effective_timeout env h"
  shows "watch_round env kind target gone op now c e mid s =
    (CancelTarget, publish_timeout env now mid (new_record env kind target op c e h)
       (s\<lparr>timed_out := (timed_out s)(mid \<mapsto> new_record env kind target op c e h)\<rparr>))"
  unfolding watch_round_def Let_def using assms by auto

lemma watch_round_cases:
  obtains "watch_round env kind target gone op now c e mid s = (KeepWatching, s)"
    | "watch_round env kind target gone op now c e mid s = (StopWatching, s)"
    | r where "watch_round env kind target gone op now c e mid s =
        (CancelTarget, publish_timeout env now mid r (s\<lparr>timed_out := (timed_out s)(mid \<mapsto> r)\<rparr>))"
      "timed_out s mid = None" "to_task r = target"
proof (cases "gone \<or> timed_out s mid \<noteq> None")
  case False
  show ?thesis
  proof (cases "beats s mid")
    case None
    with False show ?thesis by (intro that(1)) (simp add: watch_round_def)
  next
    case (Some h)
    consider "op \<noteq> None \<and> hb_operation h \<noteq> None \<and> hb_operation h \<noteq> op"
      | "\<not> (op \<noteq> None \<and> hb_operation h \<noteq> None \<and> hb_operation h \<noteq> op)"
        "\<not> stage_matches kind (hb_stage h) \<or> elapsed_in_stage c h < effective_timeout env h"
      | "\<not> (op \<noteq> None \<and> hb_operation h \<noteq> None \<and> hb_operation h \<noteq> op)"
        "stage_matches kind (hb_stage h)" "\<not> elapsed_in_stage c h < effective_timeout env h" by blast
    then show ?thesis
    proof cases
      case 1
      with False Some show ?thesis by (intro that(2)) (simp add: watch_round_def)
    next
      case 2
      with False Some show ?thesis by (intro that(1)) (auto simp: watch_round_def)
    next
      case 3
      with False Some show ?thesis by (intro that(3) [OF watch_round_timeout]) (auto simp: new_record_def)
    qed
  qed
qed (simp add: that(2) watch_round_def)

lemma frozen_step:
  assumes "frozen mid p st s" and "still_active mid e"
  shows "frozen mid p st (watch_step env s e)"
proof -
  obtain now ev where e: "e = (now, ev)" by (cases e)
  show ?thesis
  proof (cases ev)
    case (WSetStatus m w er)
    with assms e show ?thesis by (cases "m = mid") (auto simp: frozen_def guarded_set_status_def)
  next
    case (WClearStatus m)
    with assms e show ?thesis by (cases "m = mid") (auto simp: frozen_def guarded_clear_status_def)
  next
    case (WRound kind target gone op c ep m)
    show ?thesis
      by (rule watch_round_cases [of env kind target gone op now c ep m s])
        (use assms WRound e in \<open>auto simp: frozen_def publish_timeout_def Let_def\<close>)
  next
    case (WTargetEnded target cancelled outer m)
    with assms e show ?thesis
      by (auto simp: frozen_def target_ended_def mark_cleanup_complete_def Let_def)
  qed (use assms e in \<open>auto simp: frozen_def still_active_def
      guarded_set_progress_def guarded_clear_progress_def forget_timeout_def Let_def\<close>)
qed

interpretation frozen_report: invariant_machine "frozen mid p st"
    "\<lambda>s e. if still_active mid e then watch_step env s e else s" for mid p st env
  by unfold_locales (auto intro: frozen_step)

lemma active_run: "list_all (still_active mid) es \<Longrightarrow>
    foldl (\<lambda>s e. if still_active mid e then watch_step env s e else s) s es = watch_run env s es"
  unfolding watch_run_def by (induction es arbitrary: s) auto

text \<open>A timeout is reported once and stays reported: when the watcher cancels an operation, the
  model is shown in error with the timeout's message, and until the cancelled operation is gone
  nothing that the manager, the readers of the converter's output or other watchers do
  replaces that report.\<close>

lemma timeout_report_survives:
  assumes "watch_round env kind target gone op now c e mid s = (CancelTarget, s1)"
    and "list_all (still_active mid) es"
  shows "\<exists>r p. to_task r = target
    \<and> statuses (tables (watch_run env s1 es)) mid
        = Some \<lparr>st_status = ''error'', st_error = Some (timeout_message env r (model_name env mid)), st_updated = now\<rparr>
    \<and> progress (tables (watch_run env s1 es)) mid = Some p \<and> pr_phase p = ''error''
    \<and> timed_out (watch_run env s1 es) mid \<noteq> None"
proof -
  obtain r where r: "s1 = publish_timeout env now mid r (s\<lparr>timed_out := (timed_out s)(mid \<mapsto> r)\<rparr>)" "to_task r = target"
    by (rule watch_round_cases [of env kind target gone op now c e mid s]) (use assms(1) in auto)
  let ?msg = "timeout_message env r (model_name env mid)"
  have st: "statuses (tables s1) mid = Some \<lparr>st_status = ''error'', st_error = Some ?msg, st_updated = now\<rparr>"
    and out: "timed_out s1 mid \<noteq> None"
    by (simp_all add: r(1) publish_timeout_def Let_def)
  obtain p where p: "progress (tables s1) mid = Some p" "pr_phase p = ''error''"
    using set_progress_entry [of "prep_part env" now mid "''error''" ?msg None None
        "set_status now mid ''error'' (Some ?msg) (tables s)"]
    by (auto simp: r(1) publish_timeout_def Let_def)
  have "frozen mid (progress (tables s1) mid) (statuses (tables s1) mid) s1"
    using out by (simp add: frozen_def)
  from frozen_report.run_ok [OF this, of env es]
  have "frozen mid (progress (tables s1) mid) (statuses (tables s1) mid) (watch_run env s1 es)"
    by (simp only: active_run [OF assms(2)])
  with st p r(2) show ?thesis unfolding frozen_def by metis
qed

section \<open>Steady and stalled conversions\<close>

text \<open>
  A conversion is steady when every round of a watcher comes less than \<open>T\<close> after the last report of a
  conversion stage. \<open>seen\<close> is the time of that report.
\<close>

fun steady :: "rat \<Rightarrow> string \<Rightarrow> rat \<Rightarrow> (int \<times> watch_event) list \<Rightarrow> bool" where
  "steady T mid seen [] \<longleftrightarrow> True"
| "steady T mid seen ((now, WSetProgress act c ep m ph msg pc extra) # es) \<longleftrightarrow>
     (if m = mid \<and> classify_stage ph msg \<noteq> None then seen \<le> c \<and> steady T mid c es else steady T mid seen es)"
| "steady T mid seen ((now, WRound kind target gone op c ep m) # es) \<longleftrightarrow>
     (m = mid \<longrightarrow> kind = ConvertOperation \<and> c < seen + T) \<and> steady T mid seen es"
| "steady T mid seen (_ # es) \<longleftrightarrow> steady T mid seen es"

definition reported_since :: "string \<Rightarrow> rat \<Rightarrow> watched \<Rightarrow> bool" where
  "reported_since mid seen s \<longleftrightarrow>
     timed_out s mid = None \<and> (\<forall>h. beats s mid = Some h \<longrightarrow> seen \<le> hb_progress h)"

lemma patient_round:
  assumes "reported_since mid seen s" and "c < seen + T" and "\<And>st. T \<le> timeout_for (limits env) st"
  shows "snd (watch_round env ConvertOperation target gone op now c e mid s) = s"
proof -
  have "\<not> (stage_matches ConvertOperation (hb_stage h) \<and> \<not> elapsed_in_stage c h < effective_timeout env h)"
    if "beats s mid = Some h" for h
  proof (cases "stage_matches ConvertOperation (hb_stage h)")
    case True
    then have "elapsed_in_stage c h = c - hb_progress h"
      by (simp add: stage_matches_def elapsed_in_stage_def)
    moreover have "seen \<le> hb_progress h" using assms(1) that by (simp add: reported_since_def)
    moreover have "T \<le> effective_timeout env h"
      using assms(3) [of "hb_stage h"] by (simp add: effective_timeout_def)
    ultimately show ?thesis using assms(2) by simp
  qed simp
  then show ?thesis by (auto simp: watch_round_def split: option.split)
qed

lemma watch_round_frame:
  assumes "m \<noteq> mid"
  shows "timed_out (snd (watch_round env kind target gone op now c e m s)) mid = timed_out s mid"
    and "beats (snd (watch_round env kind target gone op now c e m s)) = beats s"
  by (rule watch_round_cases [of env kind target gone op now c e m s]; use assms in
      \<open>simp add: publish_timeout_def Let_def\<close>)+

lemma steady_run:
  assumes "reported_since mid seen s" and "steady T mid seen es" and "\<And>st. T \<le> timeout_for (limits env) st"
  shows "timed_out (watch_run env s es) mid = None"
  using assms(1,2)
proof (induction es arbitrary: s seen)
  case (Cons e es)
  obtain now ev where e: "e = (now, ev)" by (cases e)
  have go: ?case if "reported_since mid seen' (watch_step env s e)" "steady T mid seen' es" for seen'
    using Cons.IH [OF that] by (simp add: watch_run_def)
  show ?case
  proof (cases ev)
    case (WSetProgress act c ep m ph msg pc extra)
    show ?thesis
    proof (cases "m = mid \<and> classify_stage ph msg \<noteq> None")
      case True
      with Cons.prems WSetProgress e show ?thesis
        by (intro go [of c]) (auto simp: reported_since_def guarded_set_progress_def record_heartbeat_def Let_def)
    next
      case False
      with Cons.prems WSetProgress e show ?thesis
        by (intro go [of seen])
          (auto simp: reported_since_def guarded_set_progress_def record_heartbeat_def forget_timeout_def Let_def
            split: option.splits)
    qed
  next
    case (WRound kind target gone op c ep m)
    show ?thesis
    proof (cases "m = mid")
      case True
      with Cons.prems WRound e have "watch_step env s e = s" by (auto intro: patient_round [OF _ _ assms(3)])
      with Cons.prems WRound e True show ?thesis by (intro go [of seen]) auto
    next
      case False
      with Cons.prems WRound e show ?thesis
        by (intro go [of seen]) (auto simp: reported_since_def watch_round_frame)
    qed
  next
    case (WSetStatus m st err)
    with Cons.prems e show ?thesis
      by (intro go [of seen]) (auto simp: reported_since_def guarded_set_status_def split: option.splits)
  next
    case (WClearStatus m)
    with Cons.prems e show ?thesis
      by (intro go [of seen]) (auto simp: reported_since_def guarded_clear_status_def split: option.splits)
  next
    case (WClearProgress act m)
    with Cons.prems e show ?thesis
      by (intro go [of seen]) (auto simp: reported_since_def guarded_clear_progress_def forget_timeout_def split: option.splits)
  next
    case (WTargetEnded target cancelled outer m)
    with Cons.prems e show ?thesis
      by (intro go [of seen]) (auto simp: reported_since_def target_ended_def mark_cleanup_complete_def Let_def split: option.splits)
  qed
qed (simp add: reported_since_def watch_run_def)

text \<open>A conversion that reports often enough is never stopped: while every round of a watcher comes
  less than the shortest of the limits after the last report, no timeout is recorded, whatever
  else happens to this and other models.\<close>

lemma steady_conversion_not_stopped:
  assumes "timed_out s mid = None" and "\<And>h. beats s mid = Some h \<Longrightarrow> seen \<le> hb_progress h"
    and "steady T mid seen es" and "\<And>st. T \<le> timeout_for (limits env) st"
  shows "timed_out (watch_run env s es) mid = None"
  by (rule steady_run [OF _ assms(3,4)]) (use assms(1,2) in \<open>simp add: reported_since_def\<close>)

text \<open>The rounds of one watcher at the given times, nothing else happening to the model.\<close>

definition rounds :: "operation_kind \<Rightarrow> nat \<Rightarrow> string option \<Rightarrow> string \<Rightarrow> rat list \<Rightarrow> (int \<times> watch_event) list" where
  "rounds kind target op mid ts = map (\<lambda>c. (0, WRound kind target False op c c mid)) ts"

definition stage_reference :: "heartbeat \<Rightarrow> rat" where
  "stage_reference h = (if is_inactivity_timeout (hb_stage h) then hb_progress h else hb_started h)"

lemma recorded_stays:
  assumes "timed_out s mid = Some r"
  shows "timed_out (watch_run env s (rounds kind target op mid ts)) mid = Some r"
  using assms unfolding watch_run_def rounds_def
  by (induction ts) (auto simp: watch_round_def)


text \<open>
  A load is timed from the start of its stage, and waiting for another load counts: reports of the
  queue do not move the start.
\<close>

lemma queue_reports_do_not_extend:
  assumes "beats s mid = Some h" and "hb_stage h = Loading" and "classify_stage ph msg = Some Loading"
    and "hb_operation h = op"
  shows "\<exists>h'. beats (record_heartbeat c e mid ph msg op s) mid = Some h' \<and> hb_stage h' = Loading
    \<and> hb_started h' = hb_started h"
  using assms by (simp add: record_heartbeat_def)

section \<open>Instances\<close>

definition demo_watch :: watch_env where
  "demo_watch = \<lparr>prep_part = demo_env,
     limits = \<lparr>download_stall = 900, conversion_stall = 900, finalization_stall = 900, loading_limit = 900,
       compilation_limit = 900\<rparr>,
     iso_time = (\<lambda>_. ''1970-01-01T00:00:00Z''), model_name = (\<lambda>_. ''Model'')\<rparr>"

definition demo_beat :: heartbeat where
  "demo_beat = \<lparr>hb_operation = None, hb_stage = Conversion, hb_started = 0, hb_progress = 0, hb_at = 0\<rparr>"

definition demo_watched :: watched where
  "demo_watched = \<lparr>tables = empty_prep, beats = [''m'' \<mapsto> demo_beat], timed_out = Map.empty\<rparr>"

lemma demo_limits [simp]: "timeout_for (limits demo_watch) st = 900"
  by (cases st) (simp_all add: demo_watch_def)

lemma demo_watched_simps [simp]: "timed_out demo_watched m = None" "beats demo_watched ''m'' = Some demo_beat"
  by (simp_all add: demo_watched_def)

lemma timeout_report_survives_witness:
  "\<exists>p. progress (tables (watch_run demo_watch
        (snd (watch_round demo_watch ConvertOperation 7 False None 5 1000 1000 ''m'' demo_watched))
        [(6, WSetStatus ''m'' ''loading'' None), (6, WSetProgress True 1001 1001 ''m'' ''ready'' ''done'' None None)])) ''m'' = Some p
     \<and> pr_phase p = ''error''"
proof -
  have "fst (watch_round demo_watch ConvertOperation 7 False None 5 1000 1000 ''m'' demo_watched) = CancelTarget"
    by (subst watch_round_timeout [where h = demo_beat])
      (simp_all add: demo_beat_def stage_matches_def is_inactivity_timeout_def elapsed_in_stage_def effective_timeout_def
        demo_watch_def)
  then have "watch_round demo_watch ConvertOperation 7 False None 5 1000 1000 ''m'' demo_watched
      = (CancelTarget, snd (watch_round demo_watch ConvertOperation 7 False None 5 1000 1000 ''m'' demo_watched))"
    by (metis prod.collapse)
  from timeout_report_survives [OF this, of "[(6, WSetStatus ''m'' ''loading'' None),
      (6, WSetProgress True 1001 1001 ''m'' ''ready'' ''done'' None None)]"]
  show ?thesis by (auto simp: still_active_def)
qed

lemma steady_conversion_not_stopped_witness:
  "timed_out (watch_run demo_watch demo_watched
     [(1, WRound ConvertOperation 7 False None 500 500 ''m''),
      (2, WSetProgress True 600 600 ''m'' ''converting'' ''Saving'' None None),
      (3, WRound ConvertOperation 7 False None 1400 1400 ''m'')]) ''m'' = None"
proof -
  have stage: "classify_stage ''converting'' ''Saving'' \<noteq> None" by code_simp
  show ?thesis
    by (rule steady_conversion_not_stopped [where seen = 0 and T = 900])
      (use stage in \<open>simp_all add: demo_beat_def\<close>)
qed


end
