(* ===== verification/Cancellation.thy ===== *)
theory Cancellation
  imports StructuredProgress
begin

text \<open>
  \<open>app/model_cancellation.py\<close>: cancelling the preparation a client names by its operation. The call
  is one section before and one after the await of the cancelled task; in between anything may
  happen to the tables of \<open>StructuredProgress\<close>, so the second section takes the state it finds.
\<close>

section \<open>Whether an operation can be cancelled\<close>

definition precompile_phases :: "string list" where
  "precompile_phases = [''queued'', ''resolving'', ''downloading'', ''converting'', ''finalizing'']"

definition terminal_phases :: "string list" where
  "terminal_phases = [''ready'', ''cancelled'', ''error'']"

text \<open>\<open>_progress_identity\<close>: operation, phase and type of what is shown.\<close>

definition progress_identity :: "prep \<Rightarrow> string \<Rightarrow> string option \<times> string \<times> string option" where
  "progress_identity s mid =
     (case progress s mid of
        None \<Rightarrow> (None, ''idle'', None)
      | Some p \<Rightarrow>
          (if pr_operation p = [] then None else Some (pr_operation p),
           py_lower (or_word (pr_phase p) ''idle''),
           if pr_type p \<in> {''load'', ''convert''} then Some (pr_type p) else None))"

datatype cancel_mode = CancelConversionMode | CancelPreparationMode

datatype capability = CanCancel cancel_mode | CannotCancel string

record preparation =
  tables :: prep
  load_active :: bool
  convert_active :: bool
  deferred :: bool  \<comment> \<open>a post-conversion load or its callback is registered\<close>

definition capability_of :: "preparation \<Rightarrow> string \<Rightarrow> capability" where
  "capability_of s mid =
     (let (op, ph, ty) = progress_identity (tables s) mid
      in if op = None then CannotCancel ''No model preparation operation is active.''
         else if ph \<in> set terminal_phases then CannotCancel ''The model preparation operation has already finished.''
         else if convert_active s then CanCancel CancelConversionMode
         else if load_active s \<and> ph \<in> set precompile_phases
         then CanCancel (if ph \<in> {''downloading'', ''converting'', ''finalizing''} then CancelConversionMode
                         else CancelPreparationMode)
         else if load_active s \<and> ph = ''loading''
         then CannotCancel (''Native OpenVINO compilation has started. Let loading finish, then unload ''
                @ ''the model if it is no longer needed.'')
         else CannotCancel (''The '' @ (if ty = Some ''convert'' then ''conversion'' else ''preparation'')
                @ '' task is no longer active.''))"

section \<open>The two sections of \<open>cancel_operation\<close>\<close>

datatype conflict =
    NoActiveOperation | StaleOperation string | NativeLoadInProgress string | NotCancellable string
  | TaskFinished | OperationReplaced | CancellationIncomplete | UnknownModel

datatype cancelled_task = TheConversion | TheLoad

datatype cancel_start =
    Refused conflict
  | AlreadyCancelled
  | Cancelling cancelled_task cancel_mode

definition begin_cancel :: "(string \<Rightarrow> bool) \<Rightarrow> string \<Rightarrow> string \<Rightarrow> preparation \<Rightarrow> cancel_start" where
  "begin_cancel in_catalog mid op s =
     (if \<not> in_catalog mid then Refused UnknownModel
      else
        let (cur, ph, ty) = progress_identity (tables s) mid
        in case cur of
             None \<Rightarrow> Refused NoActiveOperation
           | Some c \<Rightarrow>
               if c \<noteq> op then Refused (StaleOperation c)
               else if ph = ''cancelled'' then AlreadyCancelled
               else (case capability_of s mid of
                   CannotCancel why \<Rightarrow>
                     Refused (if ph = ''loading'' then NativeLoadInProgress why else NotCancellable why)
                 | CanCancel m \<Rightarrow>
                     if convert_active s then Cancelling TheConversion m
                     else if load_active s then Cancelling TheLoad m
                     else Refused TaskFinished))"

text \<open>After the task has ended; the deferred load is dropped first.\<close>

definition end_cancel ::
  "prep_env \<Rightarrow> int \<Rightarrow> (string \<Rightarrow> string) \<Rightarrow> string \<Rightarrow> string \<Rightarrow> preparation \<Rightarrow> (conflict, unit) result \<times> preparation" where
  "end_cancel env now name mid op s0 =
     (let s = s0\<lparr>deferred := False\<rparr>; (cur, ph, ty) = progress_identity (tables s) mid
      in if cur = Some op \<and> ph \<in> {''ready'', ''error''} then (Inl TaskFinished, s)
         else
           let t = (if cur = Some op \<and> ph \<noteq> ''cancelled''
                    then set_progress env now mid ''cancelled'' (''Model preparation cancelled for '' @ name mid @ ''.'') None None
                           (set_status now mid ''cancelled'' None (tables s))
                    else tables s);
               (cur', ph', ty') = progress_identity t mid; s' = s\<lparr>tables := t\<rparr>
           in if cur' \<noteq> Some op then (Inl OperationReplaced, s')
              else if ph' \<noteq> ''cancelled'' then (Inl CancellationIncomplete, s')
              else (Inr (), s'))"

section \<open>What a cancellation does\<close>

lemma capability_needs_operation:
  assumes "capability_of s mid = CanCancel m"
  shows "\<exists>p. progress (tables s) mid = Some p \<and> pr_operation p \<noteq> [] \<and> py_lower (or_word (pr_phase p) ''idle'') \<notin> set terminal_phases
    \<and> (convert_active s \<or> load_active s \<and> py_lower (or_word (pr_phase p) ''idle'') \<in> set precompile_phases)"
  using assms by (auto simp: capability_of_def progress_identity_def Let_def split: option.splits if_splits)

lemma stale_cancel_refused:
  assumes "progress (tables s) mid = Some p" and "pr_operation p \<noteq> op"
  shows "\<exists>c. begin_cancel in_catalog mid op s = Refused c"
  using assms by (auto simp: begin_cancel_def progress_identity_def Let_def split: option.split)

lemma native_load_not_cancelled:
  assumes "progress (tables s) mid = Some p" and "py_lower (pr_phase p) = ''loading''" and "\<not> convert_active s"
  shows "\<exists>c. begin_cancel in_catalog mid op s = Refused c"
  using assms
  by (auto simp: begin_cancel_def capability_of_def progress_identity_def or_word_def terminal_phases_def
      precompile_phases_def Let_def py_lower_def split: option.split if_splits)

lemma begun_cancel_is_current:
  assumes "begin_cancel in_catalog mid op s = Cancelling t m"
  shows "(\<exists>p. progress (tables s) mid = Some p \<and> pr_operation p = op \<and> op \<noteq> [])
    \<and> (t = TheConversion \<longleftrightarrow> convert_active s) \<and> (t = TheLoad \<longrightarrow> load_active s)"
  using assms
  by (auto simp: begin_cancel_def progress_identity_def Let_def split: option.splits if_splits capability.splits)

lemma cancelled_lower [simp]: "py_lower (or_word ''cancelled'' ''idle'') = ''cancelled''"
  by code_simp

lemma end_cancel_success:
  assumes "end_cancel env now name mid op s = (Inr (), s')"
  shows "\<exists>p. progress (tables s') mid = Some p \<and> pr_operation p = op \<and> py_lower (or_word (pr_phase p) ''idle'') = ''cancelled''"
    and "\<not> deferred s'"
  using assms by (auto simp: end_cancel_def progress_identity_def Let_def split: option.splits if_splits prod.splits)


lemma valid_cancelled:
  assumes "ph \<in> set valid_phases" and "py_lower (or_word ph ''idle'') = ''cancelled''"
  shows "ph = ''cancelled''"
proof -
  have "list_all (\<lambda>ph. py_lower (or_word ph ''idle'') = ''cancelled'' \<longrightarrow> ph = ''cancelled'') valid_phases" by code_simp
  with assms show ?thesis by (auto simp: list_all_iff)
qed

lemma end_cancel_shown:
  assumes "plain_ellipsis env" and "shown_ok (tables s)" and "end_cancel env now name mid op s = (r, s')"
  shows "shown_ok (tables s')"
proof -
  have st: "shown_ok (set_status now mid ''cancelled'' None (tables s))"
    using assms(2) by (simp add: shown_ok_def set_status_def)
  have "''cancelled'' \<in> set valid_phases" by code_simp
  from set_progress_shown [OF assms(1) this st] assms(2,3) show ?thesis
    by (auto simp: end_cancel_def Let_def split: prod.splits if_splits)
qed

text \<open>A cancellation that is reported as successful is final: the operation the client named is shown as
  cancelled, no load is left waiting behind it, and whatever the readers of its converter
  still deliver changes neither.\<close>

lemma successful_cancellation_is_final:
  assumes "plain_ellipsis env" and "shown_ok (tables s)"
    and "end_cancel env now name mid op s = (Inr (), s')" and "list_all (\<lambda>(t, e). is_read e) es"
  shows "\<not> deferred s' \<and> (\<exists>p. progress (foldl (prep_step env) (tables s') es) mid = Some p
    \<and> pr_operation p = op \<and> pr_phase p = ''cancelled'')"
proof -
  obtain p where p: "progress (tables s') mid = Some p" "pr_operation p = op"
    "py_lower (or_word (pr_phase p) ''idle'') = ''cancelled''" using end_cancel_success [OF assms(3)] by blast
  have "pr_phase p \<in> set valid_phases"
    using end_cancel_shown [OF assms(1,2,3)] p(1) by (auto simp: shown_ok_def entry_ok_def)
  from valid_cancelled [OF this p(3)] have ph: "pr_phase p = ''cancelled''" .
  have "progress (foldl (prep_step env) (tables s') es) mid = Some p"
    using assms(4)
  proof (induction es rule: rev_induct)
    case (snoc x es)
    obtain t e where x: "x = (t, e)" by (cases x)
    let ?s = "foldl (prep_step env) (tables s') es"
    from snoc have IH: "progress ?s mid = Some p" and e: "is_read e" by (auto simp: x)
    then have "terminal ?s mid" by (simp add: terminal_def terminal_states_def ph)
    from terminal_step [OF this e, of env t] IH show ?case by (simp add: x)
  qed (simp add: p(1))
  with p ph end_cancel_success(2) [OF assms(3)] show ?thesis by blast
qed

definition waiting_tables :: prep where
  "waiting_tables = prep_run demo_env [(1, SetProgress ''m'' ''queued'' ''x'' None None)]"

lemma successful_cancellation_is_final_witness:
  "\<exists>s' p. end_cancel demo_env 2 (\<lambda>_. ''M'') ''m'' ''load-ab'' \<lparr>tables = waiting_tables, load_active = False,
        convert_active = False, deferred = True\<rparr> = (Inr (), s')
     \<and> progress (foldl (prep_step demo_env) (tables s') [(3, ReadLine ''m'' ''M'' (Raw ''9%''))]) ''m'' = Some p
     \<and> pr_phase p = ''cancelled''"
proof -
  let ?s = "\<lparr>tables = waiting_tables, load_active = False, convert_active = False, deferred = True\<rparr>"
  have plain: "plain_ellipsis demo_env" by code_simp
  have "shown_ok empty_prep" by (simp add: shown_ok_def empty_prep_def)
  moreover have "''queued'' \<in> set valid_phases" by code_simp
  ultimately have "shown_ok waiting_tables"
    using set_progress_shown [OF plain] by (simp add: waiting_tables_def prep_run_def)
  moreover have "fst (end_cancel demo_env 2 (\<lambda>_. ''M'') ''m'' ''load-ab'' ?s) = Inr ()" by code_simp
  then obtain s' where s': "end_cancel demo_env 2 (\<lambda>_. ''M'') ''m'' ''load-ab'' ?s = (Inr (), s')"
    by (cases "end_cancel demo_env 2 (\<lambda>_. ''M'') ''m'' ''load-ab'' ?s") auto
  ultimately show ?thesis
    using successful_cancellation_is_final [OF plain _ s', of "[(3, ReadLine ''m'' ''M'' (Raw ''9%''))]"]
    by (auto simp: is_read_def)
qed

end
