(* ===== verification/EventLog.thy ===== *)
theory EventLog
  imports Prelude
begin

text \<open>
  The activity log of \<open>app/model_manager_core.py\<close> with the cursors and the telemetry cache of
  \<open>app/status_split.py\<close>: what a client that follows \<open>next_cursor\<close> gets to see of a log that keeps only the
  last 50 entries, and how old a cached telemetry answer can be.
\<close>

section \<open>The log and its pages\<close>

record event =
  ev_time :: int
  ev_level :: string
  ev_message :: string
  ev_id :: "int option"

record event_log =
  events :: "event list"
  event_sequence :: int

definition max_events :: nat where "max_events = 50"

definition start_log :: event_log where "start_log = \<lparr>events = [], event_sequence = 0\<rparr>"

text \<open>\<open>deque(maxlen=50).append\<close>.\<close>

definition append_bounded :: "event list \<Rightarrow> event \<Rightarrow> event list" where
  "append_bounded es e = (let es' = es @ [e] in drop (length es' - max_events) es')"

definition emit_event :: "int \<Rightarrow> string \<Rightarrow> string \<Rightarrow> event_log \<Rightarrow> event_log" where
  "emit_event now level message s =
     (let es = append_bounded (events s) \<lparr>ev_time = now, ev_level = level, ev_message = message, ev_id = None\<rparr>;
          n = event_sequence s + 1
      in \<lparr>events = (if es = [] then [] else butlast es @ [(List.last es)\<lparr>ev_id := Some n\<rparr>]), event_sequence = n\<rparr>)"

definition event_id :: "event \<Rightarrow> int" where
  "event_id e = (case ev_id e of Some i \<Rightarrow> i | None \<Rightarrow> 0)"

text \<open>The normalisation of entries that carry no usable id.\<close>

fun number_events :: "int \<Rightarrow> event list \<Rightarrow> event list" where
  "number_events next_missing [] = []"
| "number_events next_missing (e # es) =
     (let e' = (if event_id e < 1 then e\<lparr>ev_id := Some next_missing\<rparr> else e)
      in e' # number_events (max (next_missing + 1) (event_id e' + 1)) es)"

record page =
  page_data :: "event list"
  page_cursor :: int
  next_cursor :: int
  latest_cursor :: int
  has_more :: bool
  reset_required :: bool

definition recent_events_page :: "int \<Rightarrow> int \<Rightarrow> event_log \<Rightarrow> page" where
  "recent_events_page cursor limit s =
     (let safe_cursor = max cursor 0;
          safe_limit = min (max limit 1) 100;
          es = number_events (max (event_sequence s - int (length (events s)) + 1) 1) (events s);
          latest = (if es = [] then event_sequence s else max (event_sequence s) (event_id (List.last es)));
          first = (if es = [] then latest + 1 else event_id (hd es));
          reset = (safe_cursor > latest \<or> es \<noteq> [] \<and> safe_cursor > 0 \<and> safe_cursor < first - 1);
          candidates = (if reset then es else filter (\<lambda>e. event_id e > safe_cursor) es);
          data = take (nat safe_limit) candidates
      in \<lparr>page_data = data, page_cursor = safe_cursor,
          next_cursor = (if data \<noteq> [] then event_id (List.last data) else if reset then latest else safe_cursor),
          latest_cursor = latest, has_more = length candidates > length data, reset_required = reset\<rparr>)"

section \<open>What a page holds\<close>

text \<open>The log keeps the end of the history \<open>h\<close>, whose entries are numbered from 1.\<close>

definition numbered :: "event list \<Rightarrow> bool" where
  "numbered h \<longleftrightarrow> (\<forall>i < length h. ev_id (h ! i) = Some (int i + 1))"

definition log_ok :: "event_log \<Rightarrow> event list \<Rightarrow> bool" where
  "log_ok s h \<longleftrightarrow> numbered h \<and> event_sequence s = int (length h) \<and> events s = drop (length h - max_events) h"

lemma numbered_Nil [simp]: "numbered []"
  by (simp add: numbered_def)

lemma numbered_snoc: "numbered h \<Longrightarrow> ev_id e = Some (int (length h) + 1) \<Longrightarrow> numbered (h @ [e])"
  by (auto simp: numbered_def nth_append less_Suc_eq)

lemma start_log_ok: "log_ok start_log []"
  by (simp add: log_ok_def start_log_def)

lemma emit_event_ok:
  assumes "log_ok s h"
  shows "log_ok (emit_event now level message s)
    (h @ [\<lparr>ev_time = now, ev_level = level, ev_message = message, ev_id = Some (int (length h) + 1)\<rparr>])"
proof -
  let ?e = "\<lparr>ev_time = now, ev_level = level, ev_message = message, ev_id = None\<rparr>"
  have "append_bounded (events s) ?e = drop (Suc (length h) - max_events) h @ [?e]"
  proof (cases "length h < max_events")
    case False
    then have "length h - (length h - 50 + 49) + (length h - 50) = length h - 49" by (simp add: max_events_def)
    with assms show ?thesis by (simp add: append_bounded_def log_ok_def Let_def max_events_def)
  qed (use assms in \<open>simp add: append_bounded_def log_ok_def Let_def max_events_def\<close>)
  with assms show ?thesis
    by (auto simp: log_ok_def emit_event_def numbered_snoc max_events_def Let_def)
qed

lemma numbered_id: "numbered h \<Longrightarrow> i < length h \<Longrightarrow> event_id (h ! i) = int i + 1"
  by (simp add: numbered_def event_id_def)

lemma number_events_id: "(\<And>e. e \<in> set es \<Longrightarrow> 1 \<le> event_id e) \<Longrightarrow> number_events n es = es"
proof (induction es arbitrary: n)
  case (Cons e es)
  then have "1 \<le> event_id e" "number_events m es = es" for m by simp_all
  then show ?case by (simp add: Let_def)
qed simp

lemma filter_numbered:
  assumes "numbered h" and "0 \<le> c"
  shows "filter (\<lambda>e. event_id e > c) (drop d h) = drop (max (nat c) d) h"
proof (induction "length h - d" arbitrary: d)
  case 0
  then show ?case by simp
next
  case (Suc n)
  then have d: "d < length h" by simp
  have IH: "filter (\<lambda>e. event_id e > c) (drop (Suc d) h) = drop (max (nat c) (Suc d)) h"
    using Suc.hyps by simp
  have D: "drop d h = h ! d # drop (Suc d) h" using d by (simp add: Cons_nth_drop_Suc)
  show ?case
  proof (cases "event_id (h ! d) > c")
    case True
    then have "max (nat c) d = d" "max (nat c) (Suc d) = Suc d"
      using assms d by (auto simp: numbered_id)
    with True IH D show ?thesis by simp
  next
    case False
    then have "max (nat c) d = nat c" "max (nat c) (Suc d) = nat c"
      using assms d by (auto simp: numbered_id)
    with False IH D show ?thesis by simp
  qed
qed

definition page_limit :: "int \<Rightarrow> nat" where
  "page_limit limit = nat (min (max limit 1) 100)"

text \<open>Where a page starts in the history: behind the cursor, or at the oldest entry that is kept.\<close>

definition page_start :: "nat \<Rightarrow> int \<Rightarrow> nat" where
  "page_start n c = max (nat c) (n - max_events)"

lemma recent_events_page_eq:
  assumes "log_ok s h" and "0 \<le> c" and "c \<le> event_sequence s"
  shows "recent_events_page c limit s =
     \<lparr>page_data = take (page_limit limit) (drop (page_start (length h) c) h), page_cursor = c,
      next_cursor = int (min (page_start (length h) c + page_limit limit) (length h)), latest_cursor = int (length h),
      has_more = page_start (length h) c + page_limit limit < length h,
      reset_required = (0 < c \<and> c < int (length h) - int max_events)\<rparr>"
proof -
  let ?n = "length h"
  let ?es = "drop (?n - max_events) h"
  have h: "numbered h" and s: "event_sequence s = int ?n" "events s = ?es"
    using assms(1) by (auto simp: log_ok_def)
  have "1 \<le> event_id e" if "e \<in> set ?es" for e
    using that h by (auto simp: in_set_conv_nth numbered_id)
  then have num: "number_events m ?es = ?es" for m by (rule number_events_id)
  have first: "event_id (hd ?es) = int (?n - max_events) + 1" if "?es \<noteq> []"
    using that h by (simp add: hd_drop_conv_nth numbered_id)
  have latest: "event_id (List.last ?es) = int ?n" if "?es \<noteq> []"
    using that h by (cases h rule: rev_cases) (auto simp: numbered_def event_id_def)
  have cand: "filter (\<lambda>e. event_id e > c) ?es = drop (page_start ?n c) h"
    using filter_numbered [OF h assms(2)] by (simp add: page_start_def)
  have lim: "0 < page_limit limit" by (simp add: page_limit_def)
  have end_id: "event_id (List.last (take l (drop k h))) = int (min (k + l) ?n)" if "k < ?n" "0 < l" for k l
  proof -
    have "List.last (take l (drop k h)) = h ! (min (k + l) ?n - 1)"
      using that by (auto simp: last_conv_nth min_def intro: arg_cong [where f = "(!) h"])
    then show ?thesis using that h by (simp add: numbered_id of_nat_diff)
  qed
  have c: "nat c \<le> ?n" using assms(3) s by simp
  show ?thesis
  proof (cases "?es = []")
    case True
    then have "h = []" by (cases h) (auto simp: max_events_def)
    with True assms(2,3) s num show ?thesis
      by (simp add: recent_events_page_def page_start_def max_events_def)
  next
    case False
    then have "0 < ?n" by auto
    let ?r = "0 < c \<and> c < int (?n - max_events)"
    have k: "?r \<Longrightarrow> page_start ?n c = ?n - max_events" by (auto simp: page_start_def)
    have r: "?r \<longleftrightarrow> 0 < c \<and> c < int ?n - int max_events" by (auto simp: max_events_def)
    have at_end: "page_start ?n c = ?n \<Longrightarrow> c = int ?n" "page_start ?n c \<le> ?n"
      using c assms(2) \<open>0 < ?n\<close> by (auto simp: page_start_def max_events_def)
    have data: "(if ?r then ?es else filter (\<lambda>e. event_id e > c) ?es) = drop (page_start ?n c) h"
      by (auto simp: cand k)
    let ?data = "take (page_limit limit) (drop (page_start ?n c) h)"
    have "recent_events_page c limit s =
       \<lparr>page_data = ?data, page_cursor = c,
        next_cursor = (if ?data \<noteq> [] then event_id (List.last ?data) else if ?r then int ?n else c), latest_cursor = int ?n,
        has_more = length (drop (page_start ?n c) h) > length ?data, reset_required = ?r\<rparr>"
      using assms(2,3) False s num first [OF False] latest [OF False]
      by (simp add: recent_events_page_def Let_def page_limit_def data cong: if_cong)
    moreover have "(if ?data \<noteq> [] then event_id (List.last ?data) else if ?r then int ?n else c)
        = int (min (page_start ?n c + page_limit limit) ?n)"
      using at_end end_id [OF _ lim] lim by (cases "page_start ?n c = ?n") auto
    ultimately show ?thesis using r by auto
  qed
qed

section \<open>A client that follows the cursor\<close>

record client =
  cursor :: int
  received :: "event list"
  announced :: "(int \<times> int) list"  \<comment> \<open>cursor and first shown entry of each page that asked for a reset\<close>

datatype log_event = Emit int string string | Poll int

definition poll :: "int \<Rightarrow> event_log \<Rightarrow> client \<Rightarrow> client" where
  "poll limit s c =
     (let p = recent_events_page (cursor c) limit s
      in c\<lparr>cursor := next_cursor p, received := received c @ page_data p,
           announced := announced c @ (if reset_required p then [(cursor c, event_id (hd (page_data p)))] else [])\<rparr>)"

fun session_step :: "event_log \<times> client \<Rightarrow> log_event \<Rightarrow> event_log \<times> client" where
  "session_step (s, c) (Emit now level message) = (emit_event now level message s, c)"
| "session_step (s, c) (Poll limit) = (s, poll limit s c)"

definition session_run :: "log_event list \<Rightarrow> event_log \<times> client" where
  "session_run = foldl session_step (start_log, \<lparr>cursor = 0, received = [], announced = []\<rparr>)"

text \<open>Everything emitted in a run, whether it is still kept or not.\<close>

fun emitted_by :: "event list \<Rightarrow> log_event \<Rightarrow> event list" where
  "emitted_by h (Emit now level message) =
     h @ [\<lparr>ev_time = now, ev_level = level, ev_message = message, ev_id = Some (int (length h) + 1)\<rparr>]"
| "emitted_by h (Poll limit) = h"

definition emitted :: "log_event list \<Rightarrow> event list" where
  "emitted = foldl emitted_by []"

definition accounted :: "event list \<Rightarrow> client \<Rightarrow> nat \<Rightarrow> bool" where
  "accounted h c i \<longleftrightarrow> h ! i \<in> set (received c)
     \<or> (\<exists>(a, b) \<in> set (announced c). a \<le> int i \<and> int i + 1 < b)
     \<or> (\<forall>e \<in> set (received c). int i + 1 < event_id e)"

definition session_ok :: "event list \<Rightarrow> event_log \<times> client \<Rightarrow> bool" where
  "session_ok h sc \<longleftrightarrow>
     (case sc of (s, c) \<Rightarrow> log_ok s h \<and> 0 \<le> cursor c \<and> cursor c \<le> int (length h)
        \<and> set (received c) \<subseteq> set h \<and> sorted_wrt (<) (map event_id (received c))
        \<and> (\<forall>e \<in> set (received c). 1 \<le> event_id e \<and> event_id e \<le> cursor c)
        \<and> (\<forall>i < nat (cursor c). accounted h c i))"

lemma page_limit_pos: "0 < page_limit limit"
  by (simp add: page_limit_def)

lemma numbered_sorted: "numbered h \<Longrightarrow> sorted_wrt (<) (map event_id h)"
  by (auto simp: sorted_wrt_iff_nth_less numbered_id)

lemma slice_members: "x \<in> set (take l (drop k h)) \<longleftrightarrow> (\<exists>i. k \<le> i \<and> i < k + l \<and> i < length h \<and> x = h ! i)"
proof
  assume "x \<in> set (take l (drop k h))"
  then obtain j where "j < length (take l (drop k h))" "x = take l (drop k h) ! j" by (auto simp: in_set_conv_nth)
  then show "\<exists>i. k \<le> i \<and> i < k + l \<and> i < length h \<and> x = h ! i"
    by (intro exI [of _ "k + j"]) auto
next
  assume "\<exists>i. k \<le> i \<and> i < k + l \<and> i < length h \<and> x = h ! i"
  then obtain i where i: "k \<le> i" "i < k + l" "i < length h" "x = h ! i" by blast
  then have "take l (drop k h) ! (i - k) = x" "i - k < length (take l (drop k h))" by auto
  then show "x \<in> set (take l (drop k h))" by (metis nth_mem)
qed

lemma poll_ok:
  assumes "session_ok h (s, c)"
  shows "session_ok h (s, poll limit s c)"
proof -
  from assms have s: "log_ok s h" and cur: "0 \<le> cursor c" "cursor c \<le> int (length h)"
    and sub: "set (received c) \<subseteq> set h" and sorted: "sorted_wrt (<) (map event_id (received c))"
    and ids: "\<And>e. e \<in> set (received c) \<Longrightarrow> 1 \<le> event_id e \<and> event_id e \<le> cursor c"
    and acc: "\<And>i. i < nat (cursor c) \<Longrightarrow> accounted h c i"
    by (auto simp: session_ok_def)
  then have h: "numbered h" and n: "event_sequence s = int (length h)" by (auto simp: log_ok_def)
  let ?k = "page_start (length h) (cursor c)" and ?l = "page_limit limit"
  let ?data = "take ?l (drop ?k h)" and ?c = "poll limit s c"
  have k: "nat (cursor c) \<le> ?k" by (simp add: page_start_def)
  have P: "cursor ?c = int (min (?k + ?l) (length h))" "received ?c = received c @ ?data"
    "announced ?c = announced c @ (if 0 < cursor c \<and> cursor c < int (length h) - int max_events
       then [(cursor c, event_id (hd ?data))] else [])"
    using recent_events_page_eq [OF s cur(1)] cur(2) n by (simp_all add: poll_def Let_def)
  have data: "\<exists>i. ?k \<le> i \<and> i < min (?k + ?l) (length h) \<and> e = h ! i \<and> event_id e = int i + 1"
    if "e \<in> set ?data" for e
    using that h by (auto simp: slice_members numbered_id)
  have "sorted_wrt (<) (map event_id ?data)"
    using numbered_sorted [OF h] by (simp add: sorted_wrt_take sorted_wrt_drop flip: take_map drop_map)
  moreover have "event_id x < event_id y" if "x \<in> set (received c)" "y \<in> set ?data" for x y
    using ids [OF that(1)] data [OF that(2)] k by auto
  ultimately have "sorted_wrt (<) (map event_id (received ?c))"
    using sorted by (auto simp: P sorted_wrt_append)
  moreover have "set (received ?c) \<subseteq> set h" using sub by (auto simp: P slice_members)
  moreover have "\<forall>e \<in> set (received ?c). 1 \<le> event_id e \<and> event_id e \<le> cursor ?c"
    using ids data cur k by (fastforce simp: P)
  moreover have "accounted h ?c i" if i: "i < nat (cursor ?c)" for i
  proof -
    have later: "int i + 1 < event_id e" if "e \<in> set ?data" "i < ?k" for e
      using data [OF that(1)] that(2) by auto
    have iN: "i < ?k + ?l" "i < length h" using i by (auto simp: P)
    consider "?k \<le> i" | "i < nat (cursor c)" | "nat (cursor c) \<le> i" "i < ?k" by linarith
    then show ?thesis
    proof cases
      case 1
      with iN show ?thesis by (auto simp: accounted_def P slice_members)
    next
      case 2
      with acc [of i] later k show ?thesis by (auto simp: accounted_def P)
    next
      case 3
      then have ke: "?k = length h - max_events" by (auto simp: page_start_def max_def split: if_splits)
      show ?thesis
      proof (cases "cursor c = 0")
        case True
        then have "received c = []" using ids by (cases "received c") fastforce+
        with later 3 show ?thesis by (auto simp: accounted_def P)
      next
        case False
        with cur 3 ke have r: "0 < cursor c" "cursor c < int (length h) - int max_events" by auto
        have "?data \<noteq> []" using iN 3 page_limit_pos [of limit] ke by (auto simp: max_events_def)
        from data [OF hd_in_set [OF this]] 3 have "int i + 1 < event_id (hd ?data)" by auto
        with r 3 show ?thesis by (auto simp: accounted_def P)
      qed
    qed
  qed
  ultimately show ?thesis using s by (simp add: session_ok_def P)
qed

lemma emit_ok:
  assumes "session_ok h (s, c)"
  shows "session_ok (emitted_by h (Emit now level message)) (emit_event now level message s, c)"
proof -
  have "accounted (h @ [e]) c i" if "accounted h c i" "i < length h" for e i
    using that by (auto simp: accounted_def nth_append)
  with assms emit_event_ok [of s h now level message] show ?thesis by (auto simp: session_ok_def)
qed

lemma session_run_ok: "session_ok (emitted es) (session_run es)"
proof (induction es rule: rev_induct)
  case Nil
  then show ?case by (simp add: session_ok_def session_run_def emitted_def start_log_ok)
next
  case (snoc e es)
  obtain s c where sc: "session_run es = (s, c)" by fastforce
  with snoc have "session_ok (emitted es) (s, c)" by simp
  then show ?case using sc emit_ok poll_ok
    by (cases e) (simp_all add: session_run_def emitted_def)
qed

text \<open>C29: a client that follows \<open>next_cursor\<close> receives events in their order and none twice, and of the
  events between the first one it received and its cursor it misses only those that a page
  announced by \<open>reset_required\<close>.\<close>

theorem events_delivered_once:
  "case session_run es of (s, c) \<Rightarrow>
     sorted_wrt (<) (map event_id (received c)) \<and> set (received c) \<subseteq> set (emitted es)
     \<and> list_all (accounted (emitted es) c) [0..<nat (cursor c)]"
  using session_run_ok [of es] by (auto simp: session_ok_def list_all_iff)

text \<open>Without a reset a poll moves on by its limit, so polling reaches the end of the log.\<close>

lemma poll_advances:
  assumes "session_ok h (s, c)"
  shows "cursor (poll limit s c) = int (length h) \<or> cursor c + 1 \<le> cursor (poll limit s c)
    \<and> int (length h) - int max_events < cursor (poll limit s c)"
proof -
  from assms have s: "log_ok s h" "0 \<le> cursor c" "cursor c \<le> event_sequence s" by (auto simp: session_ok_def log_ok_def)
  from page_limit_pos [of limit] recent_events_page_eq [OF this] show ?thesis
    by (auto simp: poll_def Let_def page_start_def)
qed

lemma polls_reach_end:
  assumes "session_ok h (s, c)"
  shows "cursor (((poll limit s) ^^ (Suc max_events)) c) = int (length h)"
proof -
  have ok: "session_ok h (s, ((poll limit s) ^^ n) c)" for n
    by (induction n) (use assms poll_ok in auto)
  have "cursor (((poll limit s) ^^ (Suc n)) c) = int (length h)
      \<or> int (length h) - int max_events + int n < cursor (((poll limit s) ^^ (Suc n)) c)" for n
  proof (induction n)
    case 0
    then show ?case using poll_advances [OF assms, of limit] by auto
  next
    case (Suc n)
    have "cursor (((poll limit s) ^^ (Suc (Suc n))) c) \<le> int (length h)"
      using ok [of "Suc (Suc n)"] by (simp add: session_ok_def)
    with Suc poll_advances [OF ok [of "Suc n"], of limit] show ?case by auto
  qed
  from this [of max_events] ok [of "Suc max_events"] show ?thesis by (auto simp: session_ok_def)
qed

text \<open>A client whose cursor is still 0 is not told that events were dropped before its first page.\<close>

lemma loss_before_first_poll:
  assumes "log_ok s h" and "max_events < length h"
  shows "\<not> reset_required (recent_events_page 0 limit s)
    \<and> event_id (hd (page_data (recent_events_page 0 limit s))) = int (length h) - int max_events + 1"
proof -
  have n: "numbered h" "event_sequence s = int (length h)" using assms(1) by (auto simp: log_ok_def)
  then show ?thesis
    using assms recent_events_page_eq [OF assms(1), of 0 limit] page_limit_pos [of limit]
    by (simp add: page_start_def hd_take hd_drop_conv_nth numbered_id max_events_def)
qed

section \<open>The telemetry cache\<close>

text \<open>
  \<open>'r\<close> stands for the collected readings, \<open>'m\<close> for the request counters, \<open>'a\<close> for the advisor's summary. A
  request is named by a number; the lock serves its waiters in their order.
\<close>

definition telemetry_ttl :: rat where "telemetry_ttl = 5"

record ('r, 'a) telemetry_payload =
  readings :: 'r
  cached_advisor :: 'a

record ('r, 'm, 'a) telemetry_view =
  shown_readings :: 'r
  shown_metrics :: 'm
  shown_advisor :: 'a
  cache_hit :: bool
  cache_stale :: bool
  age_seconds :: rat

datatype ('r, 'm, 'a) telemetry_answer = View "('r, 'm, 'a) telemetry_view" | Unavailable

record ('r, 'm, 'a) telemetry =
  payload :: "('r, 'a) telemetry_payload option"
  refreshed_monotonic :: rat
  lock_queue :: "(nat \<times> bool) list"
  collecting :: "(nat \<times> rat) option"
  answers :: "(nat \<times> rat \<times> ('r, 'm, 'a) telemetry_answer) list"

definition empty_telemetry :: "('r, 'm, 'a) telemetry" where
  "empty_telemetry = \<lparr>payload = None, refreshed_monotonic = 0, lock_queue = [], collecting = None, answers = []\<rparr>"

definition cache_view :: "('r, 'a) telemetry_payload \<Rightarrow> rat \<Rightarrow> 'm \<Rightarrow> rat \<Rightarrow> bool \<Rightarrow> bool \<Rightarrow> ('r, 'm, 'a) telemetry_answer" where
  "cache_view p refreshed live now hit stale =
     View \<lparr>shown_readings = readings p, shown_metrics = live, shown_advisor = cached_advisor p,
       cache_hit = hit, cache_stale = stale, age_seconds = of_int (py_round (max (now - refreshed) 0 * 1000)) / 1000\<rparr>"

definition answer :: "nat \<Rightarrow> rat \<Rightarrow> ('r, 'm, 'a) telemetry_answer \<Rightarrow> ('r, 'm, 'a) telemetry \<Rightarrow> ('r, 'm, 'a) telemetry" where
  "answer i now a s = s\<lparr>answers := answers s @ [(i, now, a)]\<rparr>"

text \<open>The check in front of the lock and, with the lock held, the same check again.\<close>

definition current_payload :: "bool \<Rightarrow> rat \<Rightarrow> ('r, 'm, 'a) telemetry \<Rightarrow> ('r, 'a) telemetry_payload option" where
  "current_payload refresh now s =
     (if \<not> refresh \<and> now - refreshed_monotonic s < telemetry_ttl then payload s else None)"

definition telemetry_request :: "nat \<Rightarrow> bool \<Rightarrow> rat \<Rightarrow> 'm \<Rightarrow> ('r, 'm, 'a) telemetry \<Rightarrow> ('r, 'm, 'a) telemetry" where
  "telemetry_request i refresh now live s =
     (case current_payload refresh now s of
        Some p \<Rightarrow> answer i now (cache_view p (refreshed_monotonic s) live now True False) s
      | None \<Rightarrow> s\<lparr>lock_queue := lock_queue s @ [(i, refresh)]\<rparr>)"

definition telemetry_locked :: "rat \<Rightarrow> 'm \<Rightarrow> ('r, 'm, 'a) telemetry \<Rightarrow> ('r, 'm, 'a) telemetry" where
  "telemetry_locked now live s =
     (case (collecting s, lock_queue s) of
        (None, (i, refresh) # q) \<Rightarrow>
          (let s' = s\<lparr>lock_queue := q\<rparr>
           in case current_payload refresh now s of
                Some p \<Rightarrow> answer i now (cache_view p (refreshed_monotonic s) live now True False) s'
              | None \<Rightarrow> s'\<lparr>collecting := Some (i, now)\<rparr>)
      | _ \<Rightarrow> s)"

text \<open>The end of the collection: \<open>None\<close> when any part of it raised; \<open>finished\<close> is the clock after it.\<close>

definition telemetry_collected ::
  "('r, 'a) telemetry_payload option \<Rightarrow> rat \<Rightarrow> 'm \<Rightarrow> ('r, 'm, 'a) telemetry \<Rightarrow> ('r, 'm, 'a) telemetry" where
  "telemetry_collected outcome finished live s =
     (case collecting s of
        None \<Rightarrow> s
      | Some (i, now) \<Rightarrow>
          (let s' = s\<lparr>collecting := None\<rparr>
           in case outcome of
                Some p \<Rightarrow> answer i finished (cache_view p finished live finished False False)
                            (s'\<lparr>payload := Some p, refreshed_monotonic := finished\<rparr>)
              | None \<Rightarrow>
                  answer i now (case payload s of
                      Some p \<Rightarrow> cache_view p (refreshed_monotonic s) live now True True
                    | None \<Rightarrow> Unavailable) s'))"

datatype ('r, 'm, 'a) telemetry_event =
    Request nat bool rat 'm
  | LockGranted rat 'm
  | Collected "('r, 'a) telemetry_payload option" rat 'm

fun telemetry_step :: "('r, 'm, 'a) telemetry \<Rightarrow> ('r, 'm, 'a) telemetry_event \<Rightarrow> ('r, 'm, 'a) telemetry" where
  "telemetry_step s (Request i refresh now live) = telemetry_request i refresh now live s"
| "telemetry_step s (LockGranted now live) = telemetry_locked now live s"
| "telemetry_step s (Collected outcome finished live) = telemetry_collected outcome finished live s"

definition telemetry_run :: "('r, 'm, 'a) telemetry_event list \<Rightarrow> ('r, 'm, 'a) telemetry" where
  "telemetry_run = foldl telemetry_step empty_telemetry"

text \<open>What the collections of a run produced, and when.\<close>

definition produced :: "('r, 'm, 'a) telemetry_event list \<Rightarrow> (('r, 'a) telemetry_payload \<times> rat) set" where
  "produced es = {(p, t). \<exists>live. Collected (Some p) t live \<in> set es}"

definition answer_ok :: "(('r, 'a) telemetry_payload \<times> rat) set \<Rightarrow> rat \<Rightarrow> ('r, 'm, 'a) telemetry_answer \<Rightarrow> bool" where
  "answer_ok P now a \<longleftrightarrow>
     (case a of
        Unavailable \<Rightarrow> True
      | View v \<Rightarrow> \<exists>(p, t) \<in> P. shown_readings v = readings p \<and> shown_advisor v = cached_advisor p
          \<and> (\<not> cache_stale v \<longrightarrow> now - t < telemetry_ttl))"

definition telemetry_ok :: "('r, 'm, 'a) telemetry_event list \<Rightarrow> ('r, 'm, 'a) telemetry \<Rightarrow> bool" where
  "telemetry_ok es s \<longleftrightarrow> (\<forall>p. payload s = Some p \<longrightarrow> (p, refreshed_monotonic s) \<in> produced es)
     \<and> (\<forall>(i, now, a) \<in> set (answers s). answer_ok (produced es) now a)"

lemma answer_ok_mono: "answer_ok P now a \<Longrightarrow> P \<subseteq> Q \<Longrightarrow> answer_ok Q now a"
  by (fastforce simp: answer_ok_def split: telemetry_answer.splits)

lemma produced_snoc: "produced es \<subseteq> produced (es @ [e])"
  by (auto simp: produced_def)

lemma current_payload_Some:
  "current_payload refresh now s = Some p \<longleftrightarrow> \<not> refresh \<and> now - refreshed_monotonic s < telemetry_ttl \<and> payload s = Some p"
  by (simp add: current_payload_def)

lemma cached_view_ok:
  assumes "(p, t) \<in> P" and "stale \<or> now - t < telemetry_ttl"
  shows "answer_ok P now (cache_view p t live now' hit stale)"
  using assms by (auto simp: answer_ok_def cache_view_def)

lemma answers_answer [simp]: "answers (answer i now a s) = answers s @ [(i, now, a)]"
  "payload (answer i now a s) = payload s" "refreshed_monotonic (answer i now a s) = refreshed_monotonic s"
  by (simp_all add: answer_def)

lemma telemetry_step_ok:
  assumes "telemetry_ok es s"
  shows "telemetry_ok (es @ [e]) (telemetry_step s e)"
proof -
  let ?P = "produced (es @ [e])"
  have payload: "payload s = Some p \<Longrightarrow> (p, refreshed_monotonic s) \<in> ?P" for p
    using assms produced_snoc [of es e] by (auto simp: telemetry_ok_def)
  have answers: "(i, now, a) \<in> set (answers s) \<Longrightarrow> answer_ok ?P now a" for i now a
    using assms answer_ok_mono [OF _ produced_snoc [of es e]] by (fastforce simp: telemetry_ok_def)
  note ok = payload answers
  note [intro] = cached_view_ok
  show ?thesis
  proof (cases e)
    case (Request i refresh now live)
    then show ?thesis using ok
      by (auto simp: telemetry_ok_def telemetry_request_def current_payload_Some split: option.split)
  next
    case (LockGranted now live)
    then show ?thesis using ok
      by (auto simp: telemetry_ok_def telemetry_locked_def current_payload_Some Let_def split: option.split list.split)
  next
    case (Collected outcome finished live)
    then have "outcome = Some p \<Longrightarrow> (p, finished) \<in> ?P" for p by (auto simp: produced_def)
    moreover have "answer_ok ?P now Unavailable" for now by (simp add: answer_ok_def)
    ultimately show ?thesis using ok Collected
      by (auto simp: telemetry_ok_def telemetry_collected_def Let_def telemetry_ttl_def split: option.split)
  qed
qed

text \<open>Whatever requests, collections and failures interleave, every answer shows what one collection produced,
  and unless it is marked stale that collection ended less than the cache's five seconds before.\<close>

lemma telemetry_is_fresh_or_marked:
  "list_all (\<lambda>(i, now, a). answer_ok (produced es) now a) (answers (telemetry_run es))"
proof -
  have "telemetry_ok es (telemetry_run es)"
  proof (induction es rule: rev_induct)
    case Nil
    then show ?case by (simp add: telemetry_ok_def telemetry_run_def empty_telemetry_def)
  next
    case (snoc e es)
    from telemetry_step_ok [OF this] show ?case by (simp add: telemetry_run_def)
  qed
  then show ?thesis by (auto simp: telemetry_ok_def list_all_iff)
qed

text \<open>Once something was collected, a failing collection is answered from it.\<close>

lemma payload_kept: "payload s \<noteq> None \<Longrightarrow> payload (telemetry_step s e) \<noteq> None"
  by (cases e) (auto simp: telemetry_request_def telemetry_locked_def telemetry_collected_def answer_def Let_def
      split: option.split list.split)

lemma failure_answered_stale:
  assumes "collecting s = Some (i, now)" and "payload s = Some p"
  shows "\<exists>v. answers (telemetry_step s (Collected None t live)) = answers s @ [(i, now, View v)] \<and> cache_stale v
    \<and> shown_readings v = readings p"
  using assms by (simp add: telemetry_collected_def cache_view_def)

end
