(* ===== verification/ChatCompletions.thy ===== *)
theory ChatCompletions
  imports StopStream Tools
begin

text \<open>
  The chat endpoint of \<open>app/server.py\<close> behind the prompt builder: generation parameters, the answer
  with its retries of truncated tool calls, and the server-sent events of a stream. A handler is the list of
  its observable actions in order; what runs in its \<open>finally\<close> blocks when the client goes away is \<open>closed_after\<close>.
\<close>

section \<open>Requests and generation parameters\<close>

record gen_params =
  max_new_tokens :: int
  temperature :: rat
  top_p :: rat
  do_sample :: bool
  seed :: "int option"
  gen_stop :: "string list option"
  response_format :: "json option"
  lora_path :: "string option"
  lora_alpha :: "rat option"

record generation_request =
  rq_max_tokens :: "int option"
  rq_temperature :: "rat option"
  rq_top_p :: "rat option"
  rq_seed :: "int option"
  rq_stop :: json
  rq_format :: "json option"
  rq_lora_path :: "string option"
  rq_lora_alpha :: "rat option"
  rq_tools :: "tool_definition list option"
  rq_use_tools :: bool
  rq_include_usage :: bool
  rq_context :: int  \<comment> \<open>\<open>max_context_len\<close> of the model\<close>

text \<open>\<open>'e\<close>: what the engine, the prompt builder or the token counter raises.\<close>

datatype 'e chat_failure = EngineFailed 'e | External 'e | NoRoom int int | BadToolText tool_error

definition params_for :: "generation_request \<Rightarrow> int \<Rightarrow> ('e chat_failure, gen_params) result" where
  "params_for rq prompt_tokens =
     (let available = rq_context rq - prompt_tokens - 8
      in if available < 1 then Inl (NoRoom prompt_tokens (rq_context rq))
         else
           let requested = (case rq_max_tokens rq of Some n \<Rightarrow> if n = 0 then 512 else n | None \<Rightarrow> 512);
               temp = (case rq_temperature rq of None \<Rightarrow> 7 / 10 | Some t \<Rightarrow> t);
               stops = normalize_stop (rq_stop rq)
           in Inr \<lparr>max_new_tokens = min requested available, temperature = temp,
                top_p = (case rq_top_p rq of None \<Rightarrow> 1 | Some p \<Rightarrow> p), do_sample = temp > 0, seed = rq_seed rq,
                gen_stop = (if stops = [] then None else Some stops), response_format = rq_format rq,
                lora_path = rq_lora_path rq, lora_alpha = rq_lora_alpha rq\<rparr>)"

definition params_stop :: "gen_params \<Rightarrow> string list" where
  "params_stop p = (case gen_stop p of None \<Rightarrow> [] | Some ss \<Rightarrow> ss)"

section \<open>Actions\<close>

datatype 'f action =
    Yield 'f
  | OpenStream
  | CloseStream
  | BuildPrompt string
  | ReleasePrompt string
  | RecordRequest int int

text \<open>
  The engine, seen from a handler: what \<open>generate\<close> returns for the n-th attempt, what the prompt builder makes
  of a conversation, and the count of tokens, which needs the engine once more and may fail.
\<close>

record 'e serving =
  generate :: "nat \<Rightarrow> string \<Rightarrow> gen_params \<Rightarrow> ('e, string \<times> int) result"
  build_prompt :: "message list \<Rightarrow> ('e, string \<times> int) result"
  count_tokens :: "string \<Rightarrow> ('e, int) result"
  json_decoder :: decoder
  hexid :: "nat \<Rightarrow> string"

section \<open>The answer in one piece\<close>

definition retry_messages :: "message list \<Rightarrow> string \<Rightarrow> message list" where
  "retry_messages ms answer =
     ms @ [(''assistant'', Plain (JStr answer)), (''user'', Plain (JStr get_retry_prompt))]"

text \<open>
  The loop over the attempts, \<open>left\<close> of them after this one. \<open>replaced\<close> is what happens to the old prompt once the new one
  is built: nothing in the chat endpoint, its release in the Responses endpoint. The result comes with the
  prompt that is current then, which the \<open>finally\<close> block releases.
\<close>

fun attempts ::
  "'e serving \<Rightarrow> generation_request \<Rightarrow> (string \<Rightarrow> 'f action list) \<Rightarrow> nat \<Rightarrow> nat \<Rightarrow> message list \<Rightarrow> string \<Rightarrow> int \<Rightarrow> gen_params \<Rightarrow>
     'f action list \<times> string \<times> ('e chat_failure, string \<times> int \<times> int \<times> gen_params) result" where
  "attempts sv rq replaced n left ms prompt pt ps =
     (case generate sv n prompt ps of
        Inl e \<Rightarrow> ([], prompt, Inl (EngineFailed e))
      | Inr (answer, tokens) \<Rightarrow>
          (case left of
             0 \<Rightarrow> ([], prompt, Inr (answer, tokens, pt, ps))
           | Suc left' \<Rightarrow>
               if rq_use_tools rq \<and> detect_incomplete_tool_call answer then
                 let ms' = retry_messages ms answer
                 in case build_prompt sv ms' of
                      Inl e \<Rightarrow> ([], prompt, Inl (External e))
                    | Inr (prompt', pt') \<Rightarrow>
                        let here = BuildPrompt prompt' # replaced prompt
                        in case params_for rq pt' of
                             Inl e \<Rightarrow> (here, prompt', Inl e)
                           | Inr ps' \<Rightarrow>
                               let (later, p, r) = attempts sv rq replaced (Suc n) left' ms' prompt' pt' ps'
                               in (here @ later, p, r)
               else ([], prompt, Inr (answer, tokens, pt, ps))))"

declare attempts.simps [simp del]

definition max_retries :: nat where "max_retries = 2"

record chat_completion =
  answer_content :: "string option"
  answer_calls :: "tool_call list option"
  finish_reason :: string
  usage_prompt :: int
  usage_completion :: int

definition finish_chat ::
  "'e serving \<Rightarrow> generation_request \<Rightarrow> string \<times> int \<times> int \<times> gen_params \<Rightarrow> ('e chat_failure, chat_completion) result" where
  "finish_chat sv rq res =
     (let (answer, tokens, pt, ps) = res;
          plain = \<lparr>answer_content = Some answer, answer_calls = None, finish_reason = ''stop'', usage_prompt = pt,
                   usage_completion = tokens\<rparr>
      in if rq_use_tools rq then
           (case parse_tool_calls (json_decoder sv) (hexid sv) answer (rq_tools rq) of
              Inl e \<Rightarrow> Inl (BadToolText e)
            | Inr (remaining, parsed) \<Rightarrow>
                Inr (if parsed = [] then plain
                     else plain\<lparr>answer_calls := Some parsed, finish_reason := ''tool_calls'',
                            answer_content := (if remaining = [] then None else Some remaining)\<rparr>))
         else if params_stop ps \<noteq> [] then
           (let (truncated, hit) = truncate_at_stop answer (params_stop ps)
            in if hit then
                 (case count_tokens sv truncated of
                    Inl e \<Rightarrow> Inl (External e)
                  | Inr n \<Rightarrow> Inr (plain\<lparr>answer_content := Some truncated, usage_completion := n\<rparr>))
               else Inr plain)
         else Inr plain)"

definition complete_chat ::
  "'e serving \<Rightarrow> generation_request \<Rightarrow> message list \<Rightarrow> string \<Rightarrow> int \<Rightarrow> gen_params \<Rightarrow>
     'f action list \<times> ('e chat_failure, chat_completion) result" where
  "complete_chat sv rq ms prompt pt ps =
     (let (tr, current, r) = attempts sv rq (\<lambda>_. []) 0 max_retries ms prompt pt ps;
          result = bindr r (finish_chat sv rq);
          recorded = (case result of Inl e \<Rightarrow> [] | Inr c \<Rightarrow> [RecordRequest (usage_prompt c) (usage_completion c)])
      in (tr @ recorded @ [ReleasePrompt current], result))"

section \<open>The answer as a stream\<close>

datatype stream_end = Exhausted | Failing | Cancelled

datatype chat_delta =
    RoleDelta "string option"  \<comment> \<open>with the role\<close>
  | ContentDelta string
  | CallDelta nat tool_call
  | NoDelta

datatype chat_frame =
    Chunk chat_delta "string option"
  | UsageChunk int int
  | DoneFrame

text \<open>The loop over the engine's pieces: what the stop streamer lets through, until it has seen a stop.\<close>

fun streamed_texts :: "char stop_streamer \<Rightarrow> string list \<Rightarrow> stream_end \<Rightarrow> string list \<times> char stop_streamer \<times> stream_end" where
  "streamed_texts st [] fin = ([], st, fin)"
| "streamed_texts st (p # ps) fin =
     (let (out, st') = feed st p; here = (if out = [] then [] else [out])
      in if stopped st' then (here, st', Exhausted)
         else let (later, st'', fin') = streamed_texts st' ps fin in (here @ later, st'', fin'))"

definition visible_texts :: "string list \<Rightarrow> string list \<Rightarrow> stream_end \<Rightarrow> string list \<times> stream_end" where
  "visible_texts stop pieces fin =
     (let (texts, st, fin') = streamed_texts (new_streamer stop) pieces fin; tail_text = fst (flush st)
      in (if fin' = Exhausted \<and> tail_text \<noteq> [] then texts @ [tail_text] else texts, fin'))"

fun content_chunks :: "string list \<Rightarrow> chat_frame list" where
  "content_chunks [] = []"
| "content_chunks (t # ts) = Chunk (RoleDelta (Some t)) None # map (\<lambda>t. Chunk (ContentDelta t) None) ts"

definition call_chunks :: "tool_call list \<Rightarrow> chat_frame list" where
  "call_chunks calls =
     Chunk (RoleDelta None) None # map (\<lambda>(i, c). Chunk (CallDelta i c) None) (zip [0..<length calls] calls)"

definition error_note :: string where
  "error_note = [CHR 0x0A, CHR 0x0A] @ ''[error: generation failed; see server logs for the request ID]''"

text \<open>Frames, full text, finish reason and end of the part between the \<open>try\<close> and its handlers.\<close>

definition stream_body ::
  "'e serving \<Rightarrow> generation_request \<Rightarrow> gen_params \<Rightarrow> string list \<Rightarrow> stream_end \<Rightarrow> chat_frame list \<times> string \<times> string \<times> stream_end" where
  "stream_body sv rq ps pieces fin =
     (if rq_use_tools rq then
        let full = concat pieces
        in if fin \<noteq> Exhausted then ([], full, ''stop'', fin)
           else case parse_tool_calls (json_decoder sv) (hexid sv) full (rq_tools rq) of
                  Inl e \<Rightarrow> ([], full, ''stop'', Failing)
                | Inr (remaining, parsed) \<Rightarrow>
                    if parsed \<noteq> [] then (call_chunks parsed, full, ''tool_calls'', Exhausted)
                    else ([Chunk (RoleDelta (Some (if remaining = [] then full else remaining))) None], full, ''stop'', Exhausted)
      else
        let (texts, fin') = visible_texts (params_stop ps) pieces fin
        in (content_chunks texts, concat texts, ''stop'', fin'))"

definition stream_chat ::
  "'e serving \<Rightarrow> generation_request \<Rightarrow> string \<Rightarrow> int \<Rightarrow> gen_params \<Rightarrow> string list \<Rightarrow> stream_end \<Rightarrow> chat_frame action list" where
  "stream_chat sv rq prompt pt ps pieces fin =
     (let (frames, full, reason, fin') = stream_body sv rq ps pieces fin
      in OpenStream # map Yield frames
         @ (if fin' = Failing then [Yield (Chunk (ContentDelta error_note) None)] else [])
         @ CloseStream # (if fin' = Cancelled then [] else
             Yield (Chunk NoDelta (Some reason))
             # (if fin' = Failing then [Yield DoneFrame]
                else case count_tokens sv full of
                       Inl e \<Rightarrow> []
                     | Inr n \<Rightarrow> RecordRequest pt n # (if rq_include_usage rq then [Yield (UsageChunk pt n)] else []) @ [Yield DoneFrame]))
         @ [ReleasePrompt prompt])"

text \<open>
  \<open>aclose\<close> while the handler is suspended at its yield number \<open>n\<close>, counted from 0: only the \<open>finally\<close> blocks still run.
\<close>

fun closed_after :: "string \<Rightarrow> nat \<Rightarrow> bool \<Rightarrow> 'f action list \<Rightarrow> 'f action list" where
  "closed_after prompt n is_open [] = []"
| "closed_after prompt n is_open (Yield f # as) =
     (case n of
        0 \<Rightarrow> Yield f # (if is_open then [CloseStream] else []) @ [ReleasePrompt prompt]
      | Suc m \<Rightarrow> Yield f # closed_after prompt m is_open as)"
| "closed_after prompt n is_open (OpenStream # as) = OpenStream # closed_after prompt n True as"
| "closed_after prompt n is_open (CloseStream # as) = CloseStream # closed_after prompt n False as"
| "closed_after prompt n is_open (a # as) = a # closed_after prompt n is_open as"

section \<open>Parameters fit the context\<close>

lemma params_fit:
  assumes "params_for rq pt = Inr ps" and "\<And>n. rq_max_tokens rq = Some n \<Longrightarrow> 0 \<le> n"
  shows "1 \<le> max_new_tokens ps \<and> pt + max_new_tokens ps + 8 \<le> rq_context rq"
  using assms by (auto simp: params_for_def Let_def split: if_splits option.splits)

lemma params_stop_for: "params_for rq pt = Inr ps \<Longrightarrow> params_stop ps = normalize_stop (rq_stop rq)"
  by (auto simp: params_for_def params_stop_def Let_def split: if_splits)

section \<open>What is streamed\<close>

lemma feed_stopped: "stopped (snd (feed st p)) \<Longrightarrow> \<not> stopped st \<Longrightarrow> stop_list (snd (feed st p)) \<noteq> []"
  by (auto simp: feed_def Let_def split: prod.splits bool.splits if_splits)

lemma streamed_texts_feed:
  assumes "streamed_texts st pieces Exhausted = (texts, st', fin')" and "feed_all st pieces = (out, st'')"
    and "\<not> stopped st"
  shows "concat texts = out \<and> st' = st'' \<and> fin' = Exhausted"
  using assms
proof (induction pieces arbitrary: st texts out st' st'' fin')
  case (Cons p ps)
  obtain o1 s1 where f: "feed st p = (o1, s1)" by fastforce
  obtain ts s2 f2 where s: "streamed_texts s1 ps Exhausted = (ts, s2, f2)" by (metis prod_cases3)
  obtain o2 s3 where a: "feed_all s1 ps = (o2, s3)" by fastforce
  show ?case
  proof (cases "stopped s1")
    case True
    with feed_stopped [of st p] f Cons.prems(3) have "stop_list s1 \<noteq> []" by simp
    then have "feed_all s1 ps = ([], s1)" using True feed_all_stopped [of s1] by simp
    with True f Cons.prems show ?thesis by (auto simp: Let_def split: if_splits)
  next
    case False
    with Cons.IH [OF s a] Cons.prems f s a show ?thesis by (auto simp: Let_def split: if_splits)
  qed
qed simp

lemma visible_texts_stream:
  "concat (fst (visible_texts stop pieces Exhausted)) = fst (stream_text stop pieces)"
  "snd (visible_texts stop pieces Exhausted) = Exhausted"
proof -
  obtain ts st f where s: "streamed_texts (new_streamer stop) pieces Exhausted = (ts, st, f)" by (metis prod_cases3)
  obtain out st' where a: "feed_all (new_streamer stop) pieces = (out, st')" by fastforce
  have "\<not> stopped (new_streamer stop)" by (simp add: new_streamer_def)
  from streamed_texts_feed [OF s a this] s a
  show "concat (fst (visible_texts stop pieces Exhausted)) = fst (stream_text stop pieces)"
    "snd (visible_texts stop pieces Exhausted) = Exhausted"
    by (auto simp: visible_texts_def stream_text_def Let_def split: prod.split)
qed

lemma visible_texts_separate:
  assumes "separate_stops stop"
  shows "concat (fst (visible_texts stop pieces Exhausted)) = fst (truncate_at_stop (concat pieces) stop)"
  by (simp add: visible_texts_stream stream_text_separate [OF assms])

fun shown_text :: "chat_frame action \<Rightarrow> string" where
  "shown_text (Yield (Chunk (RoleDelta (Some t)) r)) = t"
| "shown_text (Yield (Chunk (ContentDelta t) r)) = t"
| "shown_text a = []"

text \<open>What a client that appends the deltas has at the end.\<close>

definition assembled :: "chat_frame action list \<Rightarrow> string" where
  "assembled as = concat (map shown_text as)"

lemma assembled_simps [simp]:
  "assembled [] = []" "assembled (a # as) = shown_text a @ assembled as" "assembled (xs @ ys) = assembled xs @ assembled ys"
  by (simp_all add: assembled_def)

lemma assembled_content: "assembled (map Yield (content_chunks ts)) = concat ts"
proof (cases ts)
  case (Cons t ts')
  have "assembled (map Yield (map (\<lambda>t. Chunk (ContentDelta t) None) xs)) = concat xs" for xs
    by (induction xs) simp_all
  with Cons show ?thesis by simp
qed simp

lemma assembled_after:
  "assembled (CloseStream # Yield (Chunk NoDelta (Some reason)) # RecordRequest pt n
     # (if b then [Yield (UsageChunk pt n)] else []) @ [Yield DoneFrame] @ [ReleasePrompt prompt]) = []"
  by simp

lemma attempts_answered:
  assumes "generate sv n prompt ps = Inr (answer, tokens)" and "\<not> rq_use_tools rq \<or> \<not> detect_incomplete_tool_call answer"
  shows "attempts sv rq replaced n left ms prompt pt ps = ([], prompt, Inr (answer, tokens, pt, ps))"
  using assms by (cases left) (auto simp: attempts.simps)


definition demo_serving :: "string \<Rightarrow> unit serving" where
  "demo_serving answer = \<lparr>generate = (\<lambda>_ _ _. Inr (answer, 3)), build_prompt = (\<lambda>_. Inl ()),
     count_tokens = (\<lambda>t. Inr (int (length t))), json_decoder = sample_decoder, hexid = (\<lambda>_. ''0123456789abcdef'')\<rparr>"

definition demo_generation :: "json \<Rightarrow> bool \<Rightarrow> generation_request" where
  "demo_generation stop use_tools = \<lparr>rq_max_tokens = None, rq_temperature = None, rq_top_p = None, rq_seed = None,
     rq_stop = stop, rq_format = None, rq_lora_path = None, rq_lora_alpha = None, rq_tools = None,
     rq_use_tools = use_tools, rq_include_usage = True, rq_context = 2048\<rparr>"

lemma demo_stop_separate: "separate_stops (normalize_stop (rq_stop (demo_generation (JStr ''STOP'') b)))"
  by (simp add: separate_stops_def normalize_stop_def demo_generation_def)


section \<open>Whatever happens to a stream\<close>

text \<open>The engine's stream is closed when it was opened, and the prompt is released, once and at the very end.\<close>

fun released :: "string \<Rightarrow> bool \<Rightarrow> 'f action list \<Rightarrow> bool" where
  "released p is_open [] = False"
| "released p is_open (OpenStream # as) \<longleftrightarrow> \<not> is_open \<and> released p True as"
| "released p is_open (CloseStream # as) \<longleftrightarrow> is_open \<and> released p False as"
| "released p is_open (ReleasePrompt q # as) \<longleftrightarrow> \<not> is_open \<and> q = p \<and> as = []"
| "released p is_open (a # as) \<longleftrightarrow> released p is_open as"

lemma released_yields [simp]: "released p b (map Yield fs @ as) = released p b as"
  by (induction fs) simp_all

lemma closed_after_released: "released p b as \<Longrightarrow> released p b (closed_after p n b as)"
  by (induction p n b as rule: closed_after.induct) (auto split: nat.split)

text \<open>However the generation ends and wherever the client goes away, the engine's stream is closed
  if it was opened, and then the images of the prompt are released, once.\<close>

lemma stream_always_released:
  "released prompt False (stream_chat sv rq prompt pt ps pieces fin)
   \<and> (\<forall>n. released prompt False (closed_after prompt n False (stream_chat sv rq prompt pt ps pieces fin)))"
proof -
  have "released prompt False (stream_chat sv rq prompt pt ps pieces fin)"
    by (simp add: stream_chat_def split: prod.split sum.split)
  then show ?thesis by (blast intro: closed_after_released)
qed

section \<open>Where the two forms of the answer differ\<close>

text \<open>
  With tools in the request the stream drops the text around a call and, when there is no call, shows the text with
  all white space collapsed; the answer in one piece has both as they were.
\<close>

lemma tools_differ:
  assumes "rq_use_tools rq" and "parse_tool_calls (json_decoder sv) (hexid sv) (concat pieces) (rq_tools rq) = Inr (remaining, parsed)"
    and "count_tokens sv (concat pieces) = Inr k"
  shows "finish_chat sv rq (concat pieces, n, pt, ps) = Inr c \<Longrightarrow>
      answer_content c = (if parsed = [] then Some (concat pieces) else if remaining = [] then None else Some remaining)"
    and "assembled (stream_chat sv rq prompt pt ps pieces Exhausted) =
      (if parsed \<noteq> [] then [] else if remaining = [] then concat pieces else remaining)"
proof -
  show "answer_content c = (if parsed = [] then Some (concat pieces) else if remaining = [] then None else Some remaining)"
    if "finish_chat sv rq (concat pieces, n, pt, ps) = Inr c"
    using that assms by (auto simp: finish_chat_def Let_def)
  have "assembled (map Yield (call_chunks parsed)) = []"
    by (simp add: call_chunks_def assembled_def o_def split_beta)
  with assms show "assembled (stream_chat sv rq prompt pt ps pieces Exhausted) =
      (if parsed \<noteq> [] then [] else if remaining = [] then concat pieces else remaining)"
    by (simp add: stream_chat_def stream_body_def Let_def)
qed

lemma tools_collapse_answer:
  "parse_tool_calls sample_decoder (\<lambda>_. []) (''a'' @ [CHR 0x0A] @ ''  b'') None = Inr (''a b'', [])"
  by code_simp

end
