(* ===== verification/Responses.thy ===== *)
theory Responses
  imports ChatCompletions
begin

text \<open>
  \<open>app/responses_api.py\<close> with the request translations of \<open>app/openai_api.py\<close>: the Responses endpoint over the
  same engine, its output items, and the events of its stream. The fields of a response that only echo the request
  are left out.
\<close>

section \<open>Translating the request\<close>

definition chat_tool_choice :: "json \<Rightarrow> json" where
  "chat_tool_choice choice =
     (if \<not> is_obj choice then choice
      else
        let name = get choice ''name'';
            name' = (if name = JNull \<and> is_obj (get choice ''function'') then get (get choice ''function'') ''name'' else name)
        in JObj [(''type'', JStr ''function''), (''function'', JObj [(''name'', name')])])"

text \<open>\<open>None\<close>: the validator raises.\<close>

definition validate_tool_choice :: "json \<Rightarrow> json option" where
  "validate_tool_choice choice =
     (case choice of
        JNull \<Rightarrow> Some choice
      | JStr s \<Rightarrow> if s \<in> {''auto'', ''none'', ''required''} then Some choice else None
      | _ \<Rightarrow>
          if \<not> is_obj choice \<or> get choice ''type'' \<noteq> JStr ''function'' then None
          else
            let name = get choice ''name'';
                name' = (if name = JNull \<and> is_obj (get choice ''function'') then get (get choice ''function'') ''name'' else name)
            in if is_str name' \<and> name' \<noteq> JStr [] then Some choice else None)"

definition alnum :: "string \<Rightarrow> bool" where
  "alnum s \<longleftrightarrow> s \<noteq> [] \<and> list_all (\<lambda>c. is_digit c \<or> lower_char c \<in> set ''abcdefghijklmnopqrstuvwxyz'') s"

definition validate_format :: "json \<Rightarrow> json option" where
  "validate_format value =
     (if value = JNull then Some value
      else
        let ty = get_or value ''type'' (JStr ''text'')
        in if ty \<notin> {JStr ''text'', JStr ''json_object'', JStr ''json_schema''} then None
           else if ty = JStr ''json_schema'' then
             (case get value ''name'' of
                JStr name \<Rightarrow>
                  if is_obj (get value ''schema'') \<and> name \<noteq> [] \<and> length name \<le> 64
                    \<and> alnum (filter (\<lambda>c. c \<noteq> CHR ''_'' \<and> c \<noteq> CHR ''-'') name)
                  then Some value else None
              | _ \<Rightarrow> None)
           else Some value)"

text \<open>\<open>response_format\<close> is the chat form, \<open>text_format\<close> the Responses form; at most one of them is given.\<close>

definition generation_response_format :: "json \<Rightarrow> json \<Rightarrow> json" where
  "generation_response_format response_fmt text_format =
     (if response_fmt \<noteq> JNull then response_fmt
      else if text_format = JNull then JNull
      else
        let ty = get_or text_format ''type'' (JStr ''text'')
        in if ty = JStr ''text'' then JNull
           else if ty = JStr ''json_object'' then JObj [(''type'', JStr ''json_object'')]
           else JObj [(''type'', JStr ''json_schema''),
                  (''json_schema'', JObj [(''name'', get text_format ''name''), (''schema'', get text_format ''schema''),
                     (''strict'', get text_format ''strict'')])])"

text \<open>The format a response echoes when the request came with \<open>response_format\<close>.\<close>

definition response_text_format :: "json \<Rightarrow> json" where
  "response_text_format response_fmt =
     (if response_fmt = JNull then JObj [(''type'', JStr ''text'')]
      else
        let ty = get_or response_fmt ''type'' (JStr ''text'')
        in if ty = JStr ''json_schema'' then
             (let schema = py_or (get response_fmt ''json_schema'') (JObj [])
              in JObj ([(''type'', JStr ''json_schema''), (''name'', py_or (get schema ''name'') (JStr ''response'')),
                   (''schema'', py_or (get schema ''schema'') (JObj []))]
                   @ (if get schema ''strict'' = JNull then [] else [(''strict'', get schema ''strict'')])))
           else if ty = JStr ''json_object'' then JObj [(''type'', JStr ''json_object'')]
           else JObj [(''type'', JStr ''text'')])"

lemma validated_choice_names_function:
  assumes "validate_tool_choice choice = Some v"
  shows "choice = JNull \<or> choice \<in> {JStr ''auto'', JStr ''none'', JStr ''required''}
    \<or> (\<exists>n. n \<noteq> [] \<and> chosen_function (chat_tool_choice choice) = Some (JStr n))"
proof (cases choice)
  case (JObj kvs)
  then obtain n where "n \<noteq> []" and "(if get choice ''name'' = JNull \<and> is_obj (get choice ''function'')
      then get (get choice ''function'') ''name'' else get choice ''name'') = JStr n"
    using assms by (auto simp: validate_tool_choice_def Let_def is_obj_def is_str_def split: if_splits json.splits)
  with JObj show ?thesis
    by (auto simp: chat_tool_choice_def chosen_function_def get_or_def get_def is_obj_def has_key_def Let_def)
qed (use assms in \<open>auto simp: validate_tool_choice_def is_obj_def split: if_splits\<close>)

section \<open>Output items and events\<close>

datatype out_item =
    OutMessage (item_id: string) (item_parts: "string list") (item_status: string)
  | OutCall (item_id: string) (item_call: string) (item_name: string) (item_arguments: string) (item_status: string)

definition message_item :: "string \<Rightarrow> string \<Rightarrow> out_item" where
  "message_item mid t = OutMessage mid [t] ''completed''"

definition function_item :: "string \<Rightarrow> tool_call \<Rightarrow> out_item" where
  "function_item hex c = OutCall (''fc-'' @ hex) (call_id c) (call_name c) (call_arguments c) ''completed''"

record response =
  rs_status :: string
  rs_output :: "out_item list"
  rs_usage :: "(int \<times> int) option"
  rs_error :: "(string \<times> string) option"

datatype sse_event =
    ResponseCreated response
  | ItemAdded nat out_item
  | PartAdded string nat
  | TextDelta string nat string
  | TextDone string nat string
  | PartDone string nat string
  | ItemDone nat out_item
  | ArgumentsDelta string nat string
  | ArgumentsDone string nat string string
  | ErrorEvent string string
  | ResponseFailed response
  | ResponseCompleted response

datatype response_frame = Event nat sse_event | DoneMarker

text \<open>\<open>sequence_number\<close> counts the events of a stream from 1.\<close>

fun numbered_from :: "nat \<Rightarrow> sse_event list \<Rightarrow> response_frame list" where
  "numbered_from k [] = []"
| "numbered_from k (e # es) = Event k e # numbered_from (Suc k) es"

definition message_added :: "string \<Rightarrow> nat \<Rightarrow> sse_event list" where
  "message_added mid i = [ItemAdded i (OutMessage mid [] ''in_progress''), PartAdded mid i]"

definition message_done :: "string \<Rightarrow> nat \<Rightarrow> string \<Rightarrow> sse_event list" where
  "message_done mid i t = [TextDone mid i t, PartDone mid i t, ItemDone i (message_item mid t)]"

definition call_events :: "nat \<Rightarrow> out_item \<Rightarrow> sse_event list" where
  "call_events i it =
     (case it of
        OutMessage _ _ _ \<Rightarrow> []
      | OutCall oid cid name args st \<Rightarrow>
          [ItemAdded i (OutCall oid cid name [] ''in_progress''), ArgumentsDelta oid i args,
           ArgumentsDone oid i name args, ItemDone i it])"

fun calls_events :: "nat \<Rightarrow> out_item list \<Rightarrow> sse_event list" where
  "calls_events i [] = []"
| "calls_events i (it # its) = call_events i it @ calls_events (Suc i) its"

definition call_items :: "(nat \<Rightarrow> string) \<Rightarrow> tool_call list \<Rightarrow> out_item list" where
  "call_items hex calls = map (\<lambda>(i, c). function_item (hex (length calls + i)) c) (zip [0..<length calls] calls)"

section \<open>The answer in one piece\<close>

definition output_items :: "'e serving \<Rightarrow> generation_request \<Rightarrow> string \<Rightarrow> string \<Rightarrow> ('e chat_failure, out_item list) result" where
  "output_items sv rq mid shown =
     (if rq_use_tools rq then
        (case parse_tool_calls (json_decoder sv) (hexid sv) shown (rq_tools rq) of
           Inl e \<Rightarrow> Inl (BadToolText e)
         | Inr (remaining, parsed) \<Rightarrow>
             Inr ((if remaining = [] then [] else [message_item mid remaining]) @ call_items (hexid sv) parsed
                  @ (if parsed = [] \<and> remaining = [] then [message_item mid shown] else [])))
      else Inr [message_item mid shown])"

definition finish_response ::
  "'e serving \<Rightarrow> generation_request \<Rightarrow> string \<Rightarrow> string \<times> int \<times> int \<times> gen_params \<Rightarrow> ('e chat_failure, response) result" where
  "finish_response sv rq mid res =
     (let (answer, tokens, pt, ps) = res
      in bindr (if params_stop ps = [] then Inr (answer, tokens)
                else let (visible, hit) = truncate_at_stop answer (params_stop ps)
                     in if hit then (case count_tokens sv visible of Inl e \<Rightarrow> Inl (External e) | Inr n \<Rightarrow> Inr (visible, n))
                        else Inr (answer, tokens)) (\<lambda>(shown, n).
         bindr (output_items sv rq mid shown) (\<lambda>outs.
         Inr \<lparr>rs_status = ''completed'', rs_output = outs, rs_usage = Some (pt, n), rs_error = None\<rparr>)))"

definition complete_response ::
  "'e serving \<Rightarrow> generation_request \<Rightarrow> string \<Rightarrow> message list \<Rightarrow> string \<Rightarrow> int \<Rightarrow> gen_params \<Rightarrow>
     'f action list \<times> ('e chat_failure, response) result" where
  "complete_response sv rq mid ms prompt pt ps =
     (let (tr, current, r) = attempts sv rq (\<lambda>p. [ReleasePrompt p]) 0 max_retries ms prompt pt ps;
          result = bindr r (finish_response sv rq mid);
          recorded = (case result of
              Inl e \<Rightarrow> []
            | Inr rs \<Rightarrow> (case rs_usage rs of None \<Rightarrow> [] | Some (i, j) \<Rightarrow> [RecordRequest i j]))
      in (tr @ recorded @ [ReleasePrompt current], result))"

section \<open>The stream\<close>

text \<open>Events, output items, full text and end of the part between \<open>try\<close> and its handlers.\<close>

definition response_body ::
  "'e serving \<Rightarrow> generation_request \<Rightarrow> string \<Rightarrow> gen_params \<Rightarrow> string list \<Rightarrow> stream_end \<Rightarrow>
     sse_event list \<times> out_item list \<times> string \<times> stream_end" where
  "response_body sv rq mid ps pieces fin =
     (if rq_use_tools rq then
        let all_text = concat pieces
        in if fin \<noteq> Exhausted then ([], [], all_text, fin)
           else
             let full = (if params_stop ps = [] then all_text else fst (truncate_at_stop all_text (params_stop ps)))
             in case parse_tool_calls (json_decoder sv) (hexid sv) full (rq_tools rq) of
                  Inl e \<Rightarrow> ([], [], full, Failing)
                | Inr (remaining, parsed) \<Rightarrow>
                    let visible = (if remaining = [] then full else remaining);
                        shown = remaining \<noteq> [] \<or> parsed = [];
                        calls = call_items (hexid sv) parsed
                    in ((if shown then message_added mid 0 @ TextDelta mid 0 visible # message_done mid 0 visible else [])
                          @ calls_events (if shown then 1 else 0) calls,
                        (if shown then [message_item mid visible] else []) @ calls, full, Exhausted)
      else
        let (texts, fin') = visible_texts (params_stop ps) pieces fin; full = concat texts
        in (message_added mid 0 @ map (TextDelta mid 0) texts @ (if fin' = Exhausted then message_done mid 0 full else []),
            if fin' = Exhausted then [message_item mid full] else [], full, fin'))"

definition generation_error :: "string \<times> string" where
  "generation_error = (''generation_error'', ''Response generation failed; see server logs for the request ID.'')"

definition failed_response :: "out_item list \<Rightarrow> response" where
  "failed_response output =
     \<lparr>rs_status = ''failed'', rs_output = output, rs_usage = None, rs_error = Some generation_error\<rparr>"

definition completed_response :: "out_item list \<Rightarrow> int \<Rightarrow> int \<Rightarrow> response" where
  "completed_response output pt n =
     \<lparr>rs_status = ''completed'', rs_output = output, rs_usage = Some (pt, n), rs_error = None\<rparr>"

definition first_event :: sse_event where
  "first_event = ResponseCreated \<lparr>rs_status = ''in_progress'', rs_output = [], rs_usage = None, rs_error = None\<rparr>"

definition stream_response ::
  "'e serving \<Rightarrow> generation_request \<Rightarrow> string \<Rightarrow> string \<Rightarrow> int \<Rightarrow> gen_params \<Rightarrow> string list \<Rightarrow> stream_end \<Rightarrow> response_frame action list" where
  "stream_response sv rq mid prompt pt ps pieces fin =
     (let (body, output, full, fin') = response_body sv rq mid ps pieces fin;
          failure = (if fin' = Failing
            then [ErrorEvent (fst generation_error) (snd generation_error), ResponseFailed (failed_response output)] else []);
          inner = body @ failure;
          frames = numbered_from 2 inner
      in Yield (Event 1 first_event) # OpenStream # map Yield frames @ CloseStream
         # (if fin' = Cancelled then []
            else if fin' = Failing then [Yield DoneMarker]
            else case count_tokens sv full of
                   Inl e \<Rightarrow> []
                 | Inr n \<Rightarrow> [RecordRequest pt n, Yield (Event (length frames + 2) (ResponseCompleted (completed_response output pt n))),
                             Yield DoneMarker])
         @ [ReleasePrompt prompt])"

section \<open>What a client reads from the events\<close>

definition on_item :: "nat \<Rightarrow> (out_item \<Rightarrow> out_item option) \<Rightarrow> out_item list \<Rightarrow> out_item list option" where
  "on_item i f items =
     (if i < length items then (case f (items ! i) of None \<Rightarrow> None | Some it \<Rightarrow> Some (items[i := it])) else None)"

definition with_text :: "string \<Rightarrow> (string \<Rightarrow> string option) \<Rightarrow> out_item \<Rightarrow> out_item option" where
  "with_text mid f it =
     (case it of
        OutMessage m [t] st \<Rightarrow>
          if m = mid then (case f t of None \<Rightarrow> None | Some t' \<Rightarrow> Some (OutMessage m [t'] st)) else None
      | _ \<Rightarrow> None)"

definition with_arguments :: "string \<Rightarrow> (string \<Rightarrow> string \<Rightarrow> string option) \<Rightarrow> out_item \<Rightarrow> out_item option" where
  "with_arguments oid f it =
     (case it of
        OutCall k cid name args st \<Rightarrow>
          if k = oid then (case f name args of None \<Rightarrow> None | Some a \<Rightarrow> Some (OutCall k cid name a st)) else None
      | _ \<Rightarrow> None)"

fun completed_item :: "out_item \<Rightarrow> out_item" where
  "completed_item (OutMessage m ps st) = OutMessage m ps ''completed''"
| "completed_item (OutCall k cid name args st) = OutCall k cid name args ''completed''"

text \<open>
  A client that follows the protocol: an item is added behind completed ones, its text and arguments are what the
  deltas append, every \<open>done\<close> event repeats what was collected, and the final response holds the items. \<open>None\<close>
  when an event does not fit.
\<close>

fun replay_event :: "out_item list \<Rightarrow> sse_event \<Rightarrow> out_item list option" where
  "replay_event items (ItemAdded i it) =
     (if i = length items \<and> list_all (\<lambda>x. item_status x = ''completed'') items then Some (items @ [it]) else None)"
| "replay_event items (PartAdded mid i) =
     on_item i (\<lambda>it. case it of OutMessage m [] st \<Rightarrow> if m = mid then Some (OutMessage m [[]] st) else None | _ \<Rightarrow> None) items"
| "replay_event items (TextDelta mid i d) = on_item i (with_text mid (\<lambda>t. Some (t @ d))) items"
| "replay_event items (TextDone mid i d) = on_item i (with_text mid (\<lambda>t. if t = d then Some t else None)) items"
| "replay_event items (PartDone mid i d) = on_item i (with_text mid (\<lambda>t. if t = d then Some t else None)) items"
| "replay_event items (ItemDone i it) = on_item i (\<lambda>x. if completed_item x = it then Some it else None) items"
| "replay_event items (ArgumentsDelta oid i d) = on_item i (with_arguments oid (\<lambda>n a. Some (a @ d))) items"
| "replay_event items (ArgumentsDone oid i name args) =
     on_item i (with_arguments oid (\<lambda>n a. if n = name \<and> a = args then Some a else None)) items"
| "replay_event items (ResponseCompleted r) = (if rs_output r = items then Some items else None)"
| "replay_event items e = Some items"

fun replay :: "out_item list \<Rightarrow> sse_event list \<Rightarrow> out_item list option" where
  "replay items [] = Some items"
| "replay items (e # es) = (case replay_event items e of None \<Rightarrow> None | Some items' \<Rightarrow> replay items' es)"

lemma replay_append: "replay items (xs @ ys) = (case replay items xs of None \<Rightarrow> None | Some items' \<Rightarrow> replay items' ys)"
  by (induction xs arbitrary: items) (auto split: option.split)

abbreviation settled :: "out_item list \<Rightarrow> bool" where
  "settled items \<equiv> list_all (\<lambda>x. item_status x = ''completed'') items"

lemma on_item_end [simp]: "on_item (length items) f (items @ [it]) = map_option (\<lambda>x. items @ [x]) (f it)"
  by (auto simp: on_item_def split: option.split)

lemma replay_deltas:
  "replay (items @ [OutMessage mid [t] st]) (map (TextDelta mid (length items)) ts)
     = Some (items @ [OutMessage mid [t @ concat ts] st])"
  by (induction ts arbitrary: t) (simp_all add: with_text_def)

lemma replay_opened:
  assumes "settled items"
  shows "replay items (message_added mid (length items) @ map (TextDelta mid (length items)) ts)
     = Some (items @ [OutMessage mid [concat ts] ''in_progress''])"
  using assms replay_deltas [of items mid "[]"] by (simp add: message_added_def)

lemma replay_done:
  "replay (items @ [OutMessage mid [t] st]) (message_done mid (length items) t) = Some (items @ [message_item mid t])"
  by (simp add: message_done_def message_item_def with_text_def)

lemma replay_message:
  assumes "settled items"
  shows "replay items (message_added mid (length items) @ map (TextDelta mid (length items)) ts
      @ message_done mid (length items) (concat ts)) = Some (items @ [message_item mid (concat ts)])"
  using replay_opened [OF assms, of mid ts] replay_done
  by (auto simp: replay_append split: option.splits)

fun done_call :: "out_item \<Rightarrow> bool" where
  "done_call (OutCall k cid name args st) \<longleftrightarrow> st = ''completed''"
| "done_call _ = False"

lemma replay_call:
  assumes "settled items" and "done_call it"
  shows "replay items (call_events (length items) it) = Some (items @ [it])"
  using assms by (cases it) (simp_all add: call_events_def with_arguments_def)

lemma replay_calls:
  assumes "settled items" and "list_all done_call its"
  shows "replay items (calls_events (length items) its) = Some (items @ its)"
  using assms
proof (induction its arbitrary: items)
  case (Cons it its)
  then have "settled (items @ [it])" by (cases it) simp_all
  from Cons.IH [OF this] Cons.prems replay_call [of items it] show ?case
    by (simp add: replay_append)
qed simp

lemma call_items_done: "list_all done_call (call_items hex calls)"
  by (auto simp: call_items_def function_item_def list_all_iff)

lemma replay_body:
  assumes "response_body sv rq mid ps pieces fin = (body, outs, full, fin')"
  shows "\<exists>items. replay [] body = Some items \<and> (fin' = Exhausted \<longrightarrow> items = outs)"
proof (cases "rq_use_tools rq")
  case True
  have message: "replay [] (message_added mid 0 @ TextDelta mid 0 v # message_done mid 0 v) = Some [message_item mid v]" for v
    using replay_message [of "[]" mid "[v]"] by simp
  have calls: "replay [message_item mid v] (calls_events (Suc 0) (call_items hex cs)) = Some (message_item mid v # call_items hex cs)"
    for v hex cs
    using replay_calls [OF _ call_items_done, of "[message_item mid v]" hex cs] by (simp add: message_item_def)
  have "replay [] (calls_events 0 (call_items hex cs)) = Some (call_items hex cs)" for hex cs
    using replay_calls [OF _ call_items_done, of "[]" hex cs] by simp
  moreover have "replay [] (message_added mid 0 @ TextDelta mid 0 v # message_done mid 0 v @ calls_events (Suc 0) (call_items hex cs))
      = Some (message_item mid v # call_items hex cs)" for v hex cs
    using message [of v] calls [of v hex cs]
    by (metis append_Cons append_assoc replay_append option.simps(5))
  ultimately show ?thesis
    using assms True by (auto simp: response_body_def Let_def split: if_splits sum.splits prod.splits)
next
  case False
  obtain ts f where v: "visible_texts (params_stop ps) pieces fin = (ts, f)" by fastforce
  show ?thesis
    using assms False v replay_message [of "[]" mid ts] replay_opened [of "[]" mid ts]
    by (auto simp: response_body_def Let_def)
qed

fun frame_events :: "response_frame action list \<Rightarrow> sse_event list" where
  "frame_events [] = []"
| "frame_events (Yield (Event k e) # as) = e # frame_events as"
| "frame_events (a # as) = frame_events as"

lemma frame_events_numbered: "frame_events (map Yield (numbered_from k es) @ as) = es @ frame_events as"
  by (induction es arbitrary: k) simp_all


text \<open>The handler releases what it holds, as the chat stream does.\<close>

lemma response_stream_released:
  "released prompt False (stream_response sv rq mid prompt pt ps pieces fin)"
  "released prompt False (closed_after prompt n False (stream_response sv rq mid prompt pt ps pieces fin))"
proof -
  show "released prompt False (stream_response sv rq mid prompt pt ps pieces fin)"
    by (simp add: stream_response_def Let_def split: prod.split sum.split)
  then show "released prompt False (closed_after prompt n False (stream_response sv rq mid prompt pt ps pieces fin))"
    by (rule closed_after_released)
qed

fun sequence_numbers :: "response_frame action list \<Rightarrow> nat list" where
  "sequence_numbers [] = []"
| "sequence_numbers (Yield (Event k e) # as) = k # sequence_numbers as"
| "sequence_numbers (a # as) = sequence_numbers as"

lemma sequence_numbers_numbered:
  "sequence_numbers (map Yield (numbered_from k es) @ as) = [k..<k + length es] @ sequence_numbers as"
proof (induction es arbitrary: k)
  case (Cons e es)
  then show ?case using upt_conv_Cons [of k "Suc (k + length es)"] by simp
qed simp

lemma numbered_length [simp]: "length (numbered_from k es) = length es"
  by (induction es arbitrary: k) simp_all

lemma stream_numbered:
  "\<exists>n. sequence_numbers (stream_response sv rq mid prompt pt ps pieces fin) = [1..<n]"
proof -
  obtain body outs full fin' where b: "response_body sv rq mid ps pieces fin = (body, outs, full, fin')"
    by (metis prod_cases4)
  have u: "1 # [2..<2 + n] = [1..<2 + n]" "1 # [2..<2 + n] @ [2 + n] = [1..<3 + n]" for n :: nat
    using upt_conv_Cons [of 1 "2 + n"] upt_conv_Cons [of 1 "3 + n"] by (simp_all add: numeral_2_eq_2 numeral_3_eq_3)
  have "sequence_numbers (stream_response sv rq mid prompt pt ps pieces fin) = 1 # [2..<2 + n]
      \<or> sequence_numbers (stream_response sv rq mid prompt pt ps pieces fin) = 1 # [2..<2 + n] @ [2 + n]"
    if "n = length (body @ (if fin' = Failing
      then [ErrorEvent (fst generation_error) (snd generation_error), ResponseFailed (failed_response outs)] else []))" for n
    using b that
    by (cases fin') (simp_all add: stream_response_def sequence_numbers_numbered Let_def add.commute del: upt_Suc split: sum.split)
  then show ?thesis unfolding u by blast
qed

section \<open>The two forms of the answer agree\<close>



text \<open>With tools offered, an answer without a call loses its line breaks and indentation in both forms.\<close>

lemma tools_collapse_response:
  "output_items (demo_serving []) (demo_generation JNull True) ''m'' (''a'' @ [CHR 0x0A] @ ''  b'')
     = Inr [message_item ''m'' ''a b'']"
  by code_simp

section \<open>Prompts of the attempts\<close>

fun built_prompts :: "'f action list \<Rightarrow> string list" where
  "built_prompts [] = []"
| "built_prompts (BuildPrompt p # as) = p # built_prompts as"
| "built_prompts (a # as) = built_prompts as"

fun released_prompts :: "'f action list \<Rightarrow> string list" where
  "released_prompts [] = []"
| "released_prompts (ReleasePrompt p # as) = p # released_prompts as"
| "released_prompts (a # as) = released_prompts as"

lemma prompts_append:
  "built_prompts (xs @ ys) = built_prompts xs @ built_prompts ys"
  "released_prompts (xs @ ys) = released_prompts xs @ released_prompts ys"
  by (induction xs rule: built_prompts.induct) simp_all

lemma attempts_prompts:
  assumes "attempts sv rq (\<lambda>p. [ReleasePrompt p]) n left ms prompt pt ps = (tr, current, r)"
  shows "released_prompts tr @ [current] = prompt # built_prompts tr \<and> length (built_prompts tr) \<le> left"
  using assms
proof (induction left arbitrary: n ms prompt pt ps tr r)
  case 0
  then show ?case by (subst (asm) attempts.simps) (auto split: sum.splits)
next
  case (Suc left)
  show ?case using Suc.prems
    by (subst (asm) attempts.simps)
      (auto simp: Let_def split: sum.splits if_splits prod.splits dest!: Suc.IH)
qed

lemma recorded_prompts:
  "released_prompts (case x of Inl e \<Rightarrow> [] | Inr rs \<Rightarrow> (case rs_usage rs of None \<Rightarrow> [] | Some (i, j) \<Rightarrow> [RecordRequest i j])) = []"
  "built_prompts (case x of Inl e \<Rightarrow> [] | Inr rs \<Rightarrow> (case rs_usage rs of None \<Rightarrow> [] | Some (i, j) \<Rightarrow> [RecordRequest i j])) = []"
  by (auto split: sum.split option.split)

text \<open>Whatever fails, every prompt built for a request is released, in the order they were built, and at most
  two truncated tool calls are tried again.\<close>

lemma response_prompts_released:
  "released_prompts (fst (complete_response sv rq mid ms prompt pt ps :: 'f action list \<times> ('e chat_failure, response) result))
      = prompt # built_prompts (fst (complete_response sv rq mid ms prompt pt ps :: 'f action list \<times> ('e chat_failure, response) result))
   \<and> length (built_prompts (fst (complete_response sv rq mid ms prompt pt ps :: 'f action list \<times> ('e chat_failure, response) result)))
      \<le> max_retries"
proof -
  obtain tr :: "'f action list" and current r
    where a: "attempts sv rq (\<lambda>p. [ReleasePrompt p]) 0 max_retries ms prompt pt ps = (tr, current, r)"
    by (metis prod_cases3)
  show ?thesis
    by (simp add: complete_response_def a prompts_append recorded_prompts Let_def attempts_prompts [OF a])
qed

end
