(* ===== verification/Evidence.thy ===== *)
theory Evidence
  imports ModelRegistry Quantization
begin

text \<open>
  The benchmark evidence of the hardware advisor: \<open>app/hardware_advisor/evidence.py\<close>,
  \<open>benchmark_store.py\<close>, the record \<open>auto_benchmark.py\<close> stores, and the helpers of \<open>common.py\<close> they use. The
  store is the parsed file, \<open>None\<close> when it cannot be read or parsed.
\<close>

section \<open>Devices and numbers\<close>

definition advisor_base_device :: "json \<Rightarrow> string" where
  "advisor_base_device device =
     (let t = py_upper (py_str (py_or device (JStr ''CPU'')));
          t' = (if CHR '':'' \<in> set t then hd (py_split (CHR '','') (last (py_split1 (CHR '':'') t))) else t)
      in hd (py_split1 (CHR ''.'') t'))"

definition safe_float :: "json \<Rightarrow> rat \<Rightarrow> pyfloat" where
  "safe_float v d = (case json_float v of Inr f \<Rightarrow> f | Inl e \<Rightarrow> Fin d)"

definition stripped :: "json \<Rightarrow> string" where
  "stripped v = py_strip (py_str (py_or v (JStr [])))"

definition benchmark_matches_direct_device :: "json \<Rightarrow> json \<Rightarrow> bool" where
  "benchmark_matches_direct_device row device \<longleftrightarrow>
     advisor_base_device device \<in> {''CPU'', ''GPU'', ''NPU''}
     \<and> stripped (get row ''requested_device'') \<noteq> [] \<and> stripped (get row ''actual_device'') \<noteq> []
     \<and> advisor_base_device (get row ''requested_device'') = advisor_base_device device
     \<and> advisor_base_device (get row ''actual_device'') = advisor_base_device device"

section \<open>The store\<close>

definition schema_ok :: "json \<Rightarrow> bool" where
  "schema_ok data \<longleftrightarrow> get_or data ''schema_version'' (JInt 1) = JInt 1"

definition runs_of :: "json \<Rightarrow> json list option" where
  "runs_of data = (case get data ''runs'' of JList rs \<Rightarrow> if is_obj data then Some rs else None | _ \<Rightarrow> None)"

text \<open>\<open>_read_store\<close>: the runs, and whether the file must be left alone.\<close>

definition read_store :: "json option \<Rightarrow> json list \<times> bool" where
  "read_store file =
     (case file of
        None \<Rightarrow> ([], False)
      | Some data \<Rightarrow>
          (case runs_of data of
             None \<Rightarrow> ([], False)
           | Some rs \<Rightarrow> if schema_ok data then (rs, False) else ([], True)))"

definition max_runs :: nat where "max_runs = 100"

definition store_json :: "json list \<Rightarrow> json" where
  "store_json rs = JObj [(''schema_version'', JInt 1), (''runs'', JList rs)]"

definition append_run :: "json \<Rightarrow> json option \<Rightarrow> json option" where
  "append_run run file =
     (let (rs, read_only) = read_store file
      in if read_only then file else Some (store_json (last_n max_runs (filter is_obj rs @ [run]))))"

section \<open>The rows of evidence\<close>

fun put_key :: "(string \<times> json) list \<Rightarrow> string \<Rightarrow> json \<Rightarrow> (string \<times> json) list" where
  "put_key [] k v = [(k, v)]"
| "put_key ((k', v') # kvs) k v = (if k' = k then (k, v) # kvs else (k', v') # put_key kvs k v)"

text \<open>\<open>row[k] = v\<close>.\<close>

definition put :: "string \<Rightarrow> json \<Rightarrow> json \<Rightarrow> json" where
  "put k v row = (case row of JObj kvs \<Rightarrow> JObj (put_key kvs k v) | _ \<Rightarrow> row)"

definition benchmark_row :: "json \<Rightarrow> json \<Rightarrow> json" where
  "benchmark_row run res =
     (let synthetic = get run ''mock'' = JBool True \<or> get run ''synthetic'' = JBool True
      in put ''created_at'' (py_or (get run ''created_at'') (get res ''timestamp''))
         (put ''methodology_version'' (get run ''methodology_version'')
         (put ''hardware_fingerprint'' (get run ''hardware_fingerprint'')
         (put ''synthetic'' (JBool (synthetic \<or> get res ''synthetic'' = JBool True))
         (put ''automatic'' (JBool (get run ''automatic'' = JBool True)) res)))))"

definition run_rows :: "json \<Rightarrow> json list" where
  "run_rows run =
     (case get run ''results'' of
        JList results \<Rightarrow>
          if is_obj run
          then map (benchmark_row run) (filter (\<lambda>r. is_obj r \<and> get r ''success'' = JBool True) results) else []
      | _ \<Rightarrow> [])"

definition rows_of_file :: "json option \<Rightarrow> json list" where
  "rows_of_file file =
     (case file of
        None \<Rightarrow> []
      | Some data \<Rightarrow>
          (case runs_of data of
             None \<Rightarrow> []
           | Some rs \<Rightarrow> if schema_ok data then concat (map run_rows rs) else []))"

text \<open>The rows are read again after two seconds or when the file's time changed; \<open>cached_at\<close> is 0 when nothing is cached.\<close>

record row_cache =
  cached_rows :: "json list"
  cached_at :: rat
  cached_mtime :: int

definition benchmark_rows :: "rat \<Rightarrow> int option \<Rightarrow> json option \<Rightarrow> row_cache \<Rightarrow> json list \<times> row_cache" where
  "benchmark_rows now mtime file c =
     (let m = (case mtime of None \<Rightarrow> -1 | Some m \<Rightarrow> m)
      in if cached_at c \<noteq> 0 \<and> now - cached_at c < 2 \<and> m = cached_mtime c then (cached_rows c, c)
         else (rows_of_file file, \<lparr>cached_rows = rows_of_file file, cached_at = now, cached_mtime = m\<rparr>))"

section \<open>The best evidence\<close>

text \<open>What the clock parser and the file system tell: \<open>fromisoformat\<close> with a missing zone read as UTC and as local
  time, the conversion marker and the times of the artifacts that exist.\<close>

record evidence_env =
  parse_utc :: "string \<Rightarrow> rat option"
  parse_local :: "string \<Rightarrow> rat option"
  model_dir_exists :: bool
  conversion_marker :: "json option"
  artifact_mtimes :: "rat list"

definition parse_benchmark_time :: "evidence_env \<Rightarrow> json \<Rightarrow> rat option" where
  "parse_benchmark_time env v =
     (case v of
        JStr s \<Rightarrow>
          (let t = py_strip s
           in if t = [] then None
              else parse_utc env (if List.last t = CHR ''Z'' then butlast t @ ''+00:00'' else t))
      | _ \<Rightarrow> None)"

definition mtime_tolerance :: rat where "mtime_tolerance = 2"

definition artifact_changed_after_benchmark :: "evidence_env \<Rightarrow> json \<Rightarrow> bool" where
  "artifact_changed_after_benchmark env row =
     (case parse_benchmark_time env (py_or (get row ''created_at'') (get row ''timestamp'')) of
        None \<Rightarrow> False
      | Some t \<Rightarrow>
          model_dir_exists env
          \<and> ((case conversion_marker env of
                Some m \<Rightarrow> (case parse_benchmark_time env (get m ''recorded_at'') of Some r \<Rightarrow> r > t | None \<Rightarrow> False)
              | None \<Rightarrow> False)
             \<or> list_ex (\<lambda>m. m > t + mtime_tolerance) (artifact_mtimes env)))"

definition int_or :: "json \<Rightarrow> int \<Rightarrow> int" where
  "int_or v d = (case json_int v of Inr i \<Rightarrow> i | Inl e \<Rightarrow> d)"

text \<open>\<open>_benchmark_evidence_rank\<close>: a tuple, compared from the left.\<close>

definition benchmark_evidence_rank :: "json \<Rightarrow> int list" where
  "benchmark_evidence_rank row =
     [if get row ''automatic'' = JBool True then 0 else 1,
      max (int_or (py_or (get row ''methodology_version'') (JInt 0)) 0) 0,
      max (int_or (py_or (get row ''runs'') (JInt 1)) 1) 1,
      if get row ''decode_tokens_sec'' = JNull then 0 else 1]"

fun rank_less :: "int list \<Rightarrow> int list \<Rightarrow> bool" where
  "rank_less (x # xs) (y # ys) \<longleftrightarrow> x < y \<or> x = y \<and> rank_less xs ys"
| "rank_less _ _ = False"

text \<open>Later rows win among equals, as the index is the last component of the key.\<close>

fun best_row :: "json \<Rightarrow> json list \<Rightarrow> json" where
  "best_row b [] = b"
| "best_row b (r # rs) =
     best_row (if rank_less (benchmark_evidence_rank r) (benchmark_evidence_rank b) then b else r) rs"

definition compact_fields :: "string list" where
  "compact_fields = [''model_id'', ''source_model'', ''backend'', ''weight_format'', ''requested_device'', ''actual_device'',
     ''load_time_ms'', ''time_to_first_token_ms'', ''total_latency_ms'', ''tokens_sec'', ''decode_tokens_sec'', ''success'',
     ''timestamp'', ''created_at'', ''hardware_fingerprint'', ''methodology_version'', ''automatic'', ''synthetic'', ''runs'',
     ''warmup_runs'', ''stability'', ''score'']"

definition compact_benchmark_evidence :: "json \<Rightarrow> json" where
  "compact_benchmark_evidence row =
     JObj (List.map_filter (\<lambda>f. if has_key row f then Some (f, get row f) else None) compact_fields)"

definition usable_row :: "evidence_env \<Rightarrow> json \<Rightarrow> model_config option \<Rightarrow> string \<Rightarrow> json option \<Rightarrow> json \<Rightarrow> bool" where
  "usable_row env fingerprint cfg mid device row \<longleftrightarrow>
     get row ''model_id'' = JStr mid \<and> get row ''synthetic'' \<noteq> JBool True
     \<and> (case device of Some d \<Rightarrow> truthy d \<longrightarrow> benchmark_matches_direct_device row d | None \<Rightarrow> True)
     \<and> (case cfg of
          None \<Rightarrow> False
        | Some c \<Rightarrow> get row ''source_model'' = JStr (source_model c) \<and> get row ''backend'' = JStr (backend c)
            \<and> get row ''weight_format'' = JStr (weight_format c))
     \<and> truthy fingerprint \<and> get row ''hardware_fingerprint'' = fingerprint
     \<and> \<not> artifact_changed_after_benchmark env row"

definition latest_benchmark ::
  "evidence_env \<Rightarrow> json \<Rightarrow> model_config option \<Rightarrow> json list \<Rightarrow> string \<Rightarrow> json option \<Rightarrow> json option" where
  "latest_benchmark env fingerprint cfg rows mid device =
     (case filter (usable_row env fingerprint cfg mid device) rows of
        [] \<Rightarrow> None
      | r # rs \<Rightarrow> Some (compact_benchmark_evidence (best_row r rs)))"

section \<open>Automatic benchmarks\<close>

definition auto_ttl :: rat where "auto_ttl = 6 * 60 * 60"

definition created_timestamp :: "evidence_env \<Rightarrow> json \<Rightarrow> rat" where
  "created_timestamp env run =
     (let s = py_str (py_or (get run ''created_at'') (JStr []));
          z = concat (map (\<lambda>c. if c = CHR ''Z'' then ''+00:00'' else [c]) s)
      in case parse_local env z of Some t \<Rightarrow> t | None \<Rightarrow> 0)"

definition proves_device :: "string \<Rightarrow> json \<Rightarrow> json \<Rightarrow> bool" where
  "proves_device mid device res \<longleftrightarrow>
     is_obj res \<and> get res ''model_id'' = JStr mid
     \<and> advisor_base_device (get res ''requested_device'') = advisor_base_device device \<and> get res ''success'' = JBool True"

text \<open>The runs come newest first; the first one that is too old ends the search.\<close>

fun recent_auto_in :: "evidence_env \<Rightarrow> json \<Rightarrow> rat \<Rightarrow> string \<Rightarrow> json \<Rightarrow> json list \<Rightarrow> bool" where
  "recent_auto_in env fingerprint cutoff mid device [] = False"
| "recent_auto_in env fingerprint cutoff mid device (run # rs) =
     (if \<not> is_obj run \<or> \<not> truthy (get run ''automatic'') \<or> get run ''hardware_fingerprint'' \<noteq> fingerprint
      then recent_auto_in env fingerprint cutoff mid device rs
      else if created_timestamp env run < cutoff then False
      else case get run ''results'' of
             JList results \<Rightarrow> list_ex (proves_device mid device) results \<or> recent_auto_in env fingerprint cutoff mid device rs
           | _ \<Rightarrow> recent_auto_in env fingerprint cutoff mid device rs)"

definition recent_auto_benchmark_exists :: "evidence_env \<Rightarrow> json \<Rightarrow> rat \<Rightarrow> json option \<Rightarrow> string \<Rightarrow> json \<Rightarrow> bool" where
  "recent_auto_benchmark_exists env fingerprint now file mid device =
     recent_auto_in env fingerprint (now - auto_ttl) mid device (rev (fst (read_store file)))"

text \<open>
  What \<open>_run_auto_benchmark\<close> stores: \<open>latency\<close> and \<open>first_token\<close> are seconds since the start, \<open>run_id\<close> and
  \<open>stamp\<close> come from the clock. The prose for the user (\<open>recommendation\<close>, \<open>caveat\<close>) is left out.
\<close>

record auto_measurement =
  am_run_id :: string
  am_stamp :: string
  am_device :: string
  am_actual :: string
  am_load_time_ms :: "rat option"
  am_first_token :: "rat option"
  am_latency :: rat
  am_prompt_tokens :: int
  am_completion_tokens :: int

definition num :: "rat option \<Rightarrow> json" where
  "num x = (case x of None \<Rightarrow> JNull | Some r \<Rightarrow> JFloat (Fin (round_to 3 r)))"

definition auto_latency :: "auto_measurement \<Rightarrow> rat" where
  "auto_latency m = max (am_latency m) (1 / 1000000)"

definition decode_tps :: "auto_measurement \<Rightarrow> rat option" where
  "decode_tps m =
     (case am_first_token m of
        None \<Rightarrow> None
      | Some f \<Rightarrow>
          if am_completion_tokens m \<ge> 2 \<and> auto_latency m > f
          then Some (of_int (am_completion_tokens m - 1) / (auto_latency m - f)) else None)"

definition auto_result :: "model_config \<Rightarrow> auto_measurement \<Rightarrow> json" where
  "auto_result c m =
     JObj [(''run_id'', JStr (am_run_id m)), (''model_id'', JStr (model_id c)), (''source_model'', JStr (source_model c)),
       (''backend'', JStr (backend c)), (''weight_format'', JStr (weight_format c)), (''requested_device'', JStr (am_device m)),
       (''actual_device'', JStr (am_actual m)), (''load_time_ms'', num (am_load_time_ms m)),
       (''time_to_first_token_ms'', num (map_option (\<lambda>f. f * 1000) (am_first_token m))),
       (''total_latency_ms'', num (Some (auto_latency m * 1000))), (''prompt_tokens'', JInt (am_prompt_tokens m)),
       (''completion_tokens'', JInt (am_completion_tokens m)),
       (''tokens_sec'', num (Some (of_int (am_completion_tokens m) / auto_latency m))), (''decode_tokens_sec'', num (decode_tps m)),
       (''prefill_tokens_sec'', JNull), (''success'', JBool True), (''error'', JNull), (''timestamp'', JStr (am_stamp m)),
       (''runs'', JInt 1), (''warmup_runs'', JInt 0), (''score'', JNull), (''synthetic'', JBool False)]"

definition auto_run :: "json \<Rightarrow> model_config \<Rightarrow> auto_measurement \<Rightarrow> json" where
  "auto_run fingerprint c m =
     JObj [(''run_id'', JStr (am_run_id m)), (''benchmark_schema_version'', JInt 2), (''methodology_version'', JInt 1),
       (''created_at'', JStr (am_stamp m)), (''finished_at'', JStr (am_stamp m)), (''models'', JList [JStr (model_id c)]),
       (''devices'', JList [JStr (am_device m)]), (''preset'', JStr ''automatic-short''), (''max_tokens'', JInt 24),
       (''runs_per_combo'', JInt 1), (''warmup_runs'', JInt 0), (''mock'', JBool False), (''synthetic'', JBool False),
       (''automatic'', JBool True), (''hardware_fingerprint'', fingerprint), (''results'', JList [auto_result c m])]"

section \<open>The best evidence is the strongest one\<close>

lemma rank_less_neg_trans:
  assumes "length xs = length ys" and "length ys = length zs" and "\<not> rank_less xs ys" and "\<not> rank_less ys zs"
  shows "\<not> rank_less xs zs"
  using assms
proof (induction xs ys zs rule: list_induct3)
  case (Cons x xs y ys z zs)
  then show ?case by auto
qed simp

lemma rank_less_asym: "rank_less xs ys \<Longrightarrow> \<not> rank_less ys xs"
  by (induction xs ys rule: rank_less.induct) auto

lemma best_row_best:
  "best_row b rs \<in> set (b # rs)
   \<and> (\<forall>r \<in> set (b # rs). \<not> rank_less (benchmark_evidence_rank (best_row b rs)) (benchmark_evidence_rank r))"
proof (induction rs arbitrary: b)
  case Nil
  then show ?case using rank_less_asym [of "benchmark_evidence_rank b" "benchmark_evidence_rank b"] by auto
next
  case (Cons r rs)
  let ?rk = benchmark_evidence_rank
  let ?c = "if rank_less (?rk r) (?rk b) then b else r"
  have len: "length (?rk x) = length (?rk y)" for x y by (simp add: benchmark_evidence_rank_def)
  have c: "\<not> rank_less (?rk ?c) (?rk r)" "\<not> rank_less (?rk ?c) (?rk b)"
    using rank_less_asym [of "?rk r" "?rk b"] rank_less_asym [of "?rk r" "?rk r"] rank_less_asym [of "?rk b" "?rk b"] by auto
  from Cons.IH [of ?c] have best: "best_row ?c rs \<in> set (?c # rs)"
    "\<And>x. x \<in> set (?c # rs) \<Longrightarrow> \<not> rank_less (?rk (best_row ?c rs)) (?rk x)" by blast+
  have "\<not> rank_less (?rk (best_row ?c rs)) (?rk x)" if "x \<in> {b, r}" for x
  proof (rule rank_less_neg_trans [OF len len])
    show "\<not> rank_less (?rk (best_row ?c rs)) (?rk ?c)" using best(2) by simp
    show "\<not> rank_less (?rk ?c) (?rk x)" using that c by blast
  qed
  with best show ?case by (auto split: if_splits)
qed

text \<open>The evidence shown for a model is the strongest successful real measurement of just this model, source,
  format, backend and device on the present hardware, taken after the files in use were written.\<close>

lemma evidence_is_current:
  assumes "latest_benchmark env fingerprint cfg rows mid device = Some e"
  shows "\<exists>row \<in> set rows. usable_row env fingerprint cfg mid device row \<and> e = compact_benchmark_evidence row
    \<and> get row ''model_id'' = JStr mid \<and> get row ''synthetic'' \<noteq> JBool True
    \<and> truthy fingerprint \<and> get row ''hardware_fingerprint'' = fingerprint \<and> \<not> artifact_changed_after_benchmark env row
    \<and> (\<forall>r \<in> set rows. usable_row env fingerprint cfg mid device r \<longrightarrow>
         \<not> rank_less (benchmark_evidence_rank row) (benchmark_evidence_rank r))"
proof -
  obtain r rs where f: "filter (usable_row env fingerprint cfg mid device) rows = r # rs"
    and e: "e = compact_benchmark_evidence (best_row r rs)"
    using assms by (auto simp: latest_benchmark_def split: list.splits)
  have members: "x \<in> set (r # rs) \<longleftrightarrow> x \<in> set rows \<and> usable_row env fingerprint cfg mid device x" for x
    unfolding f [symmetric] by simp
  let ?b = "best_row r rs"
  have "?b \<in> set (r # rs)" and strongest: "\<And>x. x \<in> set (r # rs) \<Longrightarrow>
      \<not> rank_less (benchmark_evidence_rank ?b) (benchmark_evidence_rank x)"
    using best_row_best [of r rs] by blast+
  then have b: "?b \<in> set rows" "usable_row env fingerprint cfg mid device ?b" using members [of ?b] by blast+
  have "get ?b ''model_id'' = JStr mid \<and> get ?b ''synthetic'' \<noteq> JBool True \<and> truthy fingerprint
      \<and> get ?b ''hardware_fingerprint'' = fingerprint \<and> \<not> artifact_changed_after_benchmark env ?b"
    using b(2) unfolding usable_row_def by blast
  moreover have "\<forall>x \<in> set rows. usable_row env fingerprint cfg mid device x \<longrightarrow>
      \<not> rank_less (benchmark_evidence_rank ?b) (benchmark_evidence_rank x)"
    using strongest members by blast
  ultimately show ?thesis using e b by blast
qed

section \<open>What is appended is found\<close>

lemma get_put_key: "get (JObj (put_key kvs k v)) k' = (if k' = k then v else get (JObj kvs) k')"
  by (induction kvs k v rule: put_key.induct) (auto split: option.splits)

lemma is_obj_put [simp]: "is_obj (put k v row) = is_obj row"
  by (simp add: put_def is_obj_def split: json.split)

lemma get_put [simp]: "is_obj row \<Longrightarrow> get (put k v row) k' = (if k' = k then v else get row k')"
  by (cases row) (auto simp: is_obj_def put_def get_put_key simp del: get_simps)

lemma append_run_store:
  assumes "\<not> snd (read_store file)" and "is_obj run"
  obtains rs where "append_run run file = Some (store_json (rs @ [run]))"
proof -
  have "last_n max_runs (filter is_obj rs @ [run]) = drop (Suc (length (filter is_obj rs)) - max_runs) (filter is_obj rs) @ [run]"
    for rs
    by (auto simp: last_n_def max_runs_def)
  with assms(1) that show ?thesis by (cases "read_store file") (simp add: append_run_def)
qed

lemma store_json_reads [simp]:
  "runs_of (store_json rs) = Some rs" "schema_ok (store_json rs)" "read_store (Some (store_json rs)) = (rs, False)"
  by (simp_all add: store_json_def runs_of_def schema_ok_def get_or_def is_obj_def read_store_def)

text \<open>A store of another schema is left as it is, and a store holds at most a hundred runs.\<close>

lemma foreign_store_kept: "snd (read_store file) \<Longrightarrow> append_run run file = file"
  by (cases "read_store file") (simp add: append_run_def)

lemma store_bounded:
  assumes "\<not> snd (read_store file)"
  shows "\<exists>rs. append_run run file = Some (store_json rs) \<and> length rs \<le> max_runs"
  using assms by (cases "read_store file") (auto simp: append_run_def last_n_def max_runs_def)

text \<open>A file that cannot be parsed, or whose runs are no list, is replaced by the first run that is appended.\<close>

lemma unreadable_store_replaced: "is_obj run \<Longrightarrow> append_run run None = Some (store_json [run])"
  by (simp add: append_run_def read_store_def last_n_def max_runs_def)

lemma auto_row_usable:
  assumes "truthy fingerprint" and "advisor_base_device device \<in> {''CPU'', ''GPU'', ''NPU''}"
    and "py_strip (am_device m) \<noteq> []" and "py_strip (am_actual m) \<noteq> []"
    and "advisor_base_device (JStr (am_device m)) = advisor_base_device device"
    and "advisor_base_device (JStr (am_actual m)) = advisor_base_device device"
    and "\<not> model_dir_exists env"
  shows "usable_row env fingerprint (Some c) (model_id c) (Some device) (benchmark_row (auto_run fingerprint c m) (auto_result c m))"
proof -
  have "is_obj (auto_result c m)" by (simp add: auto_result_def is_obj_def)
  moreover have "s \<noteq> []" if "py_strip s \<noteq> []" for s using that by (auto simp: py_strip_def py_lstrip_def)
  ultimately show ?thesis using assms
    by (auto simp: usable_row_def benchmark_row_def benchmark_matches_direct_device_def stripped_def py_or_def py_str_def
        artifact_changed_after_benchmark_def Let_def auto_result_def auto_run_def split: option.split)
qed

lemma auto_run_facts:
  "is_obj (auto_run fingerprint c m)" "get (auto_run fingerprint c m) ''results'' = JList [auto_result c m]"
  "truthy (get (auto_run fingerprint c m) ''automatic'')" "get (auto_run fingerprint c m) ''hardware_fingerprint'' = fingerprint"
  "get (auto_run fingerprint c m) ''created_at'' = JStr (am_stamp m)"
  "is_obj (auto_result c m)" "get (auto_result c m) ''success'' = JBool True" "get (auto_result c m) ''model_id'' = JStr (model_id c)"
  "get (auto_result c m) ''requested_device'' = JStr (am_device m)"
  by (simp_all add: auto_run_def auto_result_def is_obj_def)

text \<open>An automatic benchmark that was stored is found by both its readers: the advisor has evidence for the
  model on that device, and no further automatic benchmark is started within six hours.\<close>

lemma auto_benchmark_found:
  assumes "\<not> snd (read_store file)" and "truthy fingerprint"
    and "advisor_base_device device \<in> {''CPU'', ''GPU'', ''NPU''}"
    and "py_strip (am_device m) \<noteq> []" and "py_strip (am_actual m) \<noteq> []"
    and "advisor_base_device (JStr (am_device m)) = advisor_base_device device"
    and "advisor_base_device (JStr (am_actual m)) = advisor_base_device device"
    and "\<not> model_dir_exists env"
    and "now - auto_ttl \<le> created_timestamp env (auto_run fingerprint c m)"
  shows "latest_benchmark env fingerprint (Some c) (rows_of_file (append_run (auto_run fingerprint c m) file)) (model_id c)
      (Some device) \<noteq> None
    \<and> recent_auto_benchmark_exists env fingerprint now (append_run (auto_run fingerprint c m) file) (model_id c) device"
proof -
  let ?run = "auto_run fingerprint c m" and ?row = "benchmark_row (auto_run fingerprint c m) (auto_result c m)"
  obtain rs where a: "append_run ?run file = Some (store_json (rs @ [?run]))"
    by (rule append_run_store [OF assms(1) auto_run_facts(1)])
  have "run_rows ?run = [?row]" by (simp add: run_rows_def auto_run_facts)
  then have "?row \<in> set (rows_of_file (append_run ?run file))" by (simp add: a rows_of_file_def)
  with auto_row_usable [OF assms(2-8), of c]
  have "filter (usable_row env fingerprint (Some c) (model_id c) (Some device)) (rows_of_file (append_run ?run file)) \<noteq> []"
    by (auto simp: filter_empty_conv)
  then have "latest_benchmark env fingerprint (Some c) (rows_of_file (append_run ?run file)) (model_id c) (Some device) \<noteq> None"
    by (simp add: latest_benchmark_def split: list.split)
  moreover have "proves_device (model_id c) device (auto_result c m)"
    using assms(6) by (simp add: proves_device_def auto_run_facts)
  then have "recent_auto_benchmark_exists env fingerprint now (append_run ?run file) (model_id c) device"
    using assms(9) by (simp add: recent_auto_benchmark_exists_def a auto_run_facts not_less)
  ultimately show ?thesis by blast
qed

definition demo_measurement :: auto_measurement where
  "demo_measurement = \<lparr>am_run_id = ''auto-1'', am_stamp = ''2026-01-01T00:00:00Z'', am_device = ''GPU.0'', am_actual = ''GPU.0'',
     am_load_time_ms = None, am_first_token = Some (1 / 4), am_latency = 2, am_prompt_tokens = 20, am_completion_tokens = 8\<rparr>"

definition demo_model :: model_config where
  "demo_model = \<lparr>model_id = ''m'', model_name = ''M'', description = [], backend = ''openvino-genai'', model_path = ''models/m'',
     source_model = ''tinyllama'', weight_format = ''int8'', recommended_device = ''CPU'', max_context_len = 2048,
     max_output_tokens = 512, trust_remote_code = False, recommended_context_len = None, kv_cache_precision = None\<rparr>"

definition demo_evidence_env :: evidence_env where
  "demo_evidence_env = \<lparr>parse_utc = (\<lambda>_. Some 100000), parse_local = (\<lambda>_. Some 100000), model_dir_exists = False,
     conversion_marker = None, artifact_mtimes = []\<rparr>"

lemma demo_created: "created_timestamp demo_evidence_env run = 100000"
  by (simp add: created_timestamp_def demo_evidence_env_def)

lemma auto_benchmark_found_witness:
  "recent_auto_benchmark_exists demo_evidence_env (JStr ''hw'') 110000 (append_run (auto_run (JStr ''hw'') demo_model demo_measurement) None)
     ''m'' (JStr ''GPU'')"
proof -
  have "advisor_base_device (JStr ''GPU.0'') = ''GPU''" "advisor_base_device (JStr ''GPU'') = ''GPU''" "py_strip ''GPU.0'' = ''GPU.0''"
    by code_simp+
  then show ?thesis
    using auto_benchmark_found [of None "JStr ''hw''" "JStr ''GPU''" demo_measurement demo_evidence_env 110000 demo_model]
    by (simp add: demo_measurement_def [abs_def] demo_evidence_env_def demo_model_def read_store_def
        created_timestamp_def auto_ttl_def)
qed

lemma evidence_is_current_witness:
  "\<exists>row \<in> set (rows_of_file (append_run (auto_run (JStr ''hw'') demo_model demo_measurement) None)).
     get row ''model_id'' = JStr ''m''"
proof -
  let ?rows = "rows_of_file (append_run (auto_run (JStr ''hw'') demo_model demo_measurement) None)"
  have "latest_benchmark demo_evidence_env (JStr ''hw'') (Some demo_model) ?rows ''m'' (Some (JStr ''GPU'')) \<noteq> None"
    by code_simp
  then obtain e where "latest_benchmark demo_evidence_env (JStr ''hw'') (Some demo_model) ?rows ''m'' (Some (JStr ''GPU'')) = Some e"
    by blast
  from evidence_is_current [OF this] show ?thesis by (auto simp: usable_row_def)
qed

end
