(* ===== verification/Advisor.thy ===== *)
theory Advisor
  imports Evidence
begin

text \<open>
  \<open>app/hardware_advisor\<close>: \<open>common.py\<close>, \<open>model_estimates.py\<close>, \<open>device_profiles.py\<close>, \<open>preflight.py\<close> and
  \<open>profile_ranking.py\<close>, with the resolution of a request's model in \<open>app/model_resolution_safety.py\<close>,
  \<open>app/model_manager.py\<close> and \<open>app/model_manager_core.py\<close>, which asks the advisor for \<open>auto\<close> models. Numbers are
  exact rationals; the prose of warnings and reasons is left out, their codes and severities are kept.
\<close>

section \<open>Profiles and names\<close>

definition profile_order :: "string list" where
  "profile_order = [''fastest'', ''balanced'', ''best-quality'', ''lowest-memory'', ''lowest-power'']"

definition advisor_aliases :: "(string \<times> string) list" where
  "advisor_aliases = [(''fast'', ''fastest''), (''speed'', ''fastest''), (''default'', ''balanced''), (''quality'', ''best-quality''),
     (''best'', ''best-quality''), (''best-quality'', ''best-quality''), (''memory'', ''lowest-memory''),
     (''low-memory'', ''lowest-memory''), (''power'', ''lowest-power''), (''low-power'', ''lowest-power'')]"

text \<open>\<open>re.sub(r"-+", "-", text)\<close>.\<close>

fun squeeze :: "char \<Rightarrow> string \<Rightarrow> string" where
  "squeeze c (x # y # s) = (if x = c \<and> y = c then squeeze c (y # s) else x # squeeze c (y # s))"
| "squeeze c s = s"

definition strip_char :: "char \<Rightarrow> string \<Rightarrow> string" where
  "strip_char c s = rev (dropWhile (\<lambda>x. x = c) (rev (dropWhile (\<lambda>x. x = c) s)))"

text \<open>\<open>None\<close>: the \<open>ValueError\<close> of an unknown profile.\<close>

definition advisor_profile :: "string option \<Rightarrow> string option" where
  "advisor_profile value =
     (let t = map (\<lambda>c. if c = CHR ''_'' \<or> c = CHR '' '' then CHR ''-'' else c) (py_lower (py_strip (str_or value ''balanced'')));
          u = strip_char (CHR ''-'') (squeeze (CHR ''-'') t);
          p = (case map_of advisor_aliases u of Some a \<Rightarrow> a | None \<Rightarrow> u)
      in if p \<in> set profile_order then Some p else None)"

datatype auto_model = NotAuto | AutoProfile string | BadProfile

definition profile_char :: "char \<Rightarrow> bool" where
  "profile_char c \<longleftrightarrow> word_char c \<or> c \<in> {CHR '' '', CHR ''_'', CHR ''-''}"

definition parse_auto_model :: "string \<Rightarrow> auto_model" where
  "parse_auto_model value =
     (let t = py_strip value; rest = drop 4 t;
          profile = (\<lambda>p. case advisor_profile p of Some q \<Rightarrow> AutoProfile q | None \<Rightarrow> BadProfile)
      in if py_lower (take 4 t) \<noteq> ''auto'' then NotAuto
         else case rest of
                [] \<Rightarrow> profile (Some ''balanced'')
              | c # p \<Rightarrow> if (c = CHR '':'' \<or> c = CHR ''/'') \<and> p \<noteq> [] \<and> list_all profile_char p then profile (Some p) else NotAuto)"

section \<open>The size of a model\<close>

definition known_parameter_counts :: "(string \<times> rat) list" where
  "known_parameter_counts = [(''tinyllama'', 11 / 10), (''phi-3.5-mini'', 38 / 10), (''phi3.5-mini'', 38 / 10),
     (''phi-4-mini'', 38 / 10), (''phi4-mini'', 38 / 10), (''bge-small-en-v1.5'', 33 / 1000)]"

definition letter :: "char \<Rightarrow> bool" where
  "letter c \<longleftrightarrow> word_char c \<and> \<not> is_digit c"

text \<open>A number, white space, the unit or the whole word, and no letter behind: value and length.\<close>

definition size_at :: "char \<Rightarrow> string \<Rightarrow> (rat \<times> nat) option" where
  "size_at unit s =
     (let whole = takeWhile is_digit s; r1 = dropWhile is_digit s;
          frac = (case r1 of c # cs \<Rightarrow> if c = CHR ''.'' then takeWhile is_digit cs else [] | [] \<Rightarrow> []);
          r2 = (if frac = [] then r1 else dropWhile is_digit (tl r1));
          r3 = dropWhile py_space r2
      in if whole = [] then None
         else case r3 of
                [] \<Rightarrow> None
              | u # r4 \<Rightarrow>
                  let r5 = (if starts_with r4 ''illion'' then drop 6 r4 else r4)
                  in if u = unit \<and> (r5 = [] \<or> \<not> letter (hd r5))
                     then Some (of_nat (digits_val whole) + of_nat (digits_val frac) / 10 ^ length frac, length s - length r5)
                     else None)"

text \<open>\<open>findall\<close>; \<open>skip\<close> characters belong to the match before.\<close>

fun sizes :: "char \<Rightarrow> char option \<Rightarrow> nat \<Rightarrow> string \<Rightarrow> rat list" where
  "sizes unit before skip [] = []"
| "sizes unit before skip (c # cs) =
     (case skip of
        Suc k \<Rightarrow> sizes unit (Some c) k cs
      | 0 \<Rightarrow>
          (case (if (case before of None \<Rightarrow> False | Some b \<Rightarrow> word_char b) then None else size_at unit (c # cs)) of
             None \<Rightarrow> sizes unit (Some c) 0 cs
           | Some (v, n) \<Rightarrow> v # sizes unit (Some c) (n - 1) cs))"

definition infer_parameter_count_b :: "string list \<Rightarrow> rat" where
  "infer_parameter_count_b vs =
     (let t = py_lower (py_join '' '' vs)
      in case find (\<lambda>(k, n). py_in k t) known_parameter_counts of
           Some (k, n) \<Rightarrow> n
         | None \<Rightarrow>
             (case sizes (CHR ''b'') None 0 t of
                b # bs \<Rightarrow> max (Min (set (b # bs))) (1 / 1000)
              | [] \<Rightarrow>
                  (case map (\<lambda>m. m / 1000) (sizes (CHR ''m'') None 0 t) of
                     m # ms \<Rightarrow> max (Min (set (m # ms))) (1 / 1000)
                   | [] \<Rightarrow> 1)))"

definition parameters_of :: "model_config \<Rightarrow> rat" where
  "parameters_of c = infer_parameter_count_b [model_id c, model_name c, source_model c]"

lemma sizes_in_names:
  "infer_parameter_count_b [''qwen2.5-7b-instruct''] = 7" "infer_parameter_count_b [''smollm-360m''] = 36 / 100"
  "infer_parameter_count_b [''llama 1.5 billion''] = 3 / 2"
  by code_simp+

text \<open>A mixture of experts written \<open>8x7B\<close> has no number the pattern accepts and counts as one billion.\<close>

lemma mixture_counts_as_one: "infer_parameter_count_b [''Mixtral-8x7B-Instruct''] = 1"
  by code_simp

section \<open>Estimates\<close>

record snapshot =
  available_devices :: "string list"
  ram_available :: rat
  ram_total :: rat
  disk_free :: rat
  gpu_total :: "rat option"

text \<open>
  What the advisor asks others for: the size of the converted files, the key-value cache by the model's metadata, the
  evidence of \<open>latest_benchmark\<close>, and \<open>log2\<close> and \<open>sqrt\<close> of the mathematics library.
\<close>

record advisor_env =
  converted_size :: "model_config \<Rightarrow> rat option"
  kv_cache_gb :: "model_config \<Rightarrow> int \<Rightarrow> rat option"
  evidence :: "model_config \<Rightarrow> string \<Rightarrow> json option"
  log2 :: "rat \<Rightarrow> rat"
  square_root :: "rat \<Rightarrow> rat"

text \<open>Numbers of a benchmark file are finite.\<close>

definition float_or :: "json \<Rightarrow> rat \<Rightarrow> rat" where
  "float_or v d = (case safe_float v d of Fin r \<Rightarrow> r | _ \<Rightarrow> d)"

definition base_of :: "string \<Rightarrow> string" where
  "base_of d = advisor_base_device (JStr d)"

definition precision_of :: "model_config \<Rightarrow> string" where
  "precision_of c = py_lower (if weight_format c = [] then ''fp16'' else weight_format c)"

definition lookup :: "(string \<times> rat) list \<Rightarrow> string \<Rightarrow> rat \<Rightarrow> rat" where
  "lookup table k d = (case map_of table k of Some x \<Rightarrow> x | None \<Rightarrow> d)"

record estimate =
  parameter_count_b :: rat
  precision :: string
  download_size_gb :: rat
  converted_size_gb :: rat
  runtime_memory_gb :: rat
  kv_known :: "rat option"
  first_load_seconds :: rat
  first_load_measured :: bool
  target_device :: string

definition estimate_model :: "advisor_env \<Rightarrow> model_config \<Rightarrow> string option \<Rightarrow> estimate" where
  "estimate_model env c device =
     (let n = parameters_of c; p = precision_of c;
          bytes = lookup [(''fp16'', 2), (''int8'', 105 / 100), (''int4'', 58 / 100)] p 2;
          download = max (n * (210 / 100)) (6 / 100);
          estimated = max (n * bytes * (108 / 100)) (4 / 100);
          converted = (case converted_size env c of Some x \<Rightarrow> if x = 0 then estimated else x | None \<Rightarrow> estimated);
          context_len = max (if max_context_len c = 0 then 2048 else max_context_len c) 128;
          kv = kv_cache_gb env c context_len;
          runtime = max (converted * (122 / 100) + (case kv of Some k \<Rightarrow> k | None \<Rightarrow> 0) + 35 / 100) (1 / 2);
          target = str_or device (if recommended_device c = [] then ''CPU'' else recommended_device c);
          multiplier = lookup [(''CPU'', 1), (''GPU'', 22 / 10), (''NPU'', 4)] (base_of target) (18 / 10);
          measured = (case evidence env c target of Some b \<Rightarrow> get b ''load_time_ms'' | None \<Rightarrow> JNull);
          first = (if measured = JNull then 4 + n * 2 * multiplier + converted * multiplier
                   else max (float_or measured 0 / 1000) 0)
      in \<lparr>parameter_count_b = round_to 3 n, precision = p, download_size_gb = round_to 2 download,
          converted_size_gb = round_to 2 converted, runtime_memory_gb = round_to 2 runtime, kv_known = map_option (round_to 3) kv,
          first_load_seconds = round_to 1 first, first_load_measured = (measured \<noteq> JNull), target_device = target\<rparr>)"

definition candidate_devices :: "model_config \<Rightarrow> snapshot \<Rightarrow> string list" where
  "candidate_devices c s =
     (let available = map base_of (available_devices s); preferred = base_of (recommended_device c);
          first = (if preferred \<in> set available \<or> preferred = ''CPU'' then [preferred] else []);
          all = first @ filter (\<lambda>d. (d \<in> set available \<or> d = ''CPU'') \<and> d \<notin> set first) [''NPU'', ''GPU'', ''CPU'']
      in if all = [] then [''CPU''] else all)"

section \<open>Choosing a device\<close>

definition tokens_sec :: "json option \<Rightarrow> rat option" where
  "tokens_sec benchmark =
     (case benchmark of
        None \<Rightarrow> None
      | Some b \<Rightarrow>
          (let v = (if get b ''decode_tokens_sec'' = JNull then get b ''tokens_sec'' else get b ''decode_tokens_sec'')
           in if v = JNull then None else Some (float_or v 0)))"

definition gpu_tight :: "snapshot \<Rightarrow> rat \<Rightarrow> bool" where
  "gpu_tight s runtime \<longleftrightarrow> (case gpu_total s of None \<Rightarrow> False | Some g \<Rightarrow> g \<noteq> 0 \<and> g < runtime * (75 / 100))"

definition device_score :: "advisor_env \<Rightarrow> model_config \<Rightarrow> string \<Rightarrow> snapshot \<Rightarrow> string \<Rightarrow> rat" where
  "device_score env c profile s device =
     (let base = base_of device; n = parameters_of c; large_npu = (base = ''NPU'' \<and> n > 45 / 10);
          prior =
            (if profile = ''lowest-power'' then
               lookup [(''NPU'', 100), (''GPU'', 62), (''CPU'', 48)] base 30 - n * 2 - (if large_npu then 50 else 0)
             else if profile = ''fastest'' then
               lookup [(''NPU'', 92), (''GPU'', 86), (''CPU'', 60)] base 50 - (if large_npu then 45 else 0)
             else if profile = ''best-quality'' then lookup [(''GPU'', 86), (''CPU'', 78), (''NPU'', 68)] base 50
             else if profile = ''lowest-memory'' then lookup [(''NPU'', 82), (''GPU'', 68), (''CPU'', 62)] base 50
             else lookup [(''NPU'', 88), (''GPU'', 82), (''CPU'', 70)] base 50 - (if large_npu then 35 else 0));
          fmt = (if base = ''NPU'' then (if precision_of c = ''int4'' then 10 else if precision_of c = ''int8'' then -30 else 0) else 0);
          measured = (case tokens_sec (evidence env c device) of Some t \<Rightarrow> min t 40 | None \<Rightarrow> 0);
          runtime = runtime_memory_gb (estimate_model env c (Some ''CPU''))
      in prior + fmt + measured - (if base = ''GPU'' \<and> gpu_tight s runtime then 35 else 0))"

text \<open>Python's \<open>max\<close> with a key: the first of the greatest.\<close>

fun max_by :: "('a \<Rightarrow> rat) \<Rightarrow> 'a \<Rightarrow> 'a list \<Rightarrow> 'a" where
  "max_by f b [] = b"
| "max_by f b (x # xs) = max_by f (if f b < f x then x else b) xs"

definition recommend_device :: "advisor_env \<Rightarrow> model_config \<Rightarrow> string \<Rightarrow> snapshot \<Rightarrow> string" where
  "recommend_device env c profile s =
     max_by (device_score env c profile s) (hd (candidate_devices c s)) (tl (candidate_devices c s))"

section \<open>Evaluating a model\<close>

datatype severity = Blocking | Caution | Note

record evaluation =
  ev_estimate :: estimate
  compatibility :: string
  fit_score :: rat
  required_free_disk :: rat
  ev_device :: string
  ev_context :: int
  ev_output :: int
  ev_quantization :: recommendation
  warnings :: "(string \<times> severity) list"
  requires_confirmation :: bool
  ev_benchmark :: "json option"

text \<open>\<open>if c: warn(...)\<close>.\<close>

definition warn :: "bool \<Rightarrow> string \<Rightarrow> severity \<Rightarrow> (string \<times> severity) list" where
  "warn c code sev = (if c then [(code, sev)] else [])"

definition is_embedding :: "model_config \<Rightarrow> bool" where
  "is_embedding c \<longleftrightarrow> py_in ''embedding'' (py_lower (backend c))"

definition required_disk :: "bool \<Rightarrow> estimate \<Rightarrow> rat" where
  "required_disk downloaded e =
     (if downloaded then 35 / 100 else download_size_gb e + converted_size_gb e * (115 / 100) + 1)"

definition model_warnings :: "model_config \<Rightarrow> bool \<Rightarrow> bool \<Rightarrow> string \<Rightarrow> snapshot \<Rightarrow> estimate \<Rightarrow> (string \<times> severity) list" where
  "model_warnings c downloaded is_loaded target s e =
     (let base = base_of target; ram = ram_available s; total = ram_total s; free = disk_free s; runtime = runtime_memory_gb e;
          disk = required_disk downloaded e; headroom = (if ram = 0 then total else ram)
      in warn (base \<noteq> ''CPU'' \<and> base \<notin> base_of ` set (available_devices s)) ''device-missing'' Blocking
       @ (if \<not> is_loaded \<and> free \<noteq> 0 \<and> free < disk then [(''disk-insufficient'', Blocking)]
          else warn (\<not> is_loaded \<and> free \<noteq> 0 \<and> free < disk * (135 / 100)) ''disk-tight'' Caution)
       @ warn (\<not> is_loaded \<and> ram \<noteq> 0 \<and> ram < runtime * (85 / 100)) ''ram-insufficient'' Blocking
       @ (if kv_known e = None then [(''kv-cache-unknown'', Caution)]
          else warn (\<not> is_loaded \<and> ram \<noteq> 0 \<and> ram < runtime * (125 / 100)) ''ram-tight'' Caution)
       @ warn (base = ''GPU'' \<and> gpu_tight s runtime) ''gpu-memory-tight'' Caution
       @ warn (base = ''NPU'' \<and> parameter_count_b e > 45 / 10) ''npu-large-model'' Caution
       @ warn (base = ''NPU'' \<and> max_context_len c > 4096) ''npu-context'' Caution
       @ warn (\<not> downloaded \<and> headroom \<noteq> 0 \<and> download_size_gb e * (115 / 100) > headroom) ''conversion-memory-risk'' Caution
       @ warn (parameter_count_b e \<ge> 14 \<and> total \<noteq> 0 \<and> total < 48) ''large-model-system-memory'' Caution
       @ warn (py_in ''meta-llama/'' (py_lower (source_model c)) \<or> py_in ''google/gemma'' (py_lower (source_model c)))
           ''gated-model'' Note
       @ warn (trust_remote_code c) ''remote-code'' Caution
       @ warn (first_load_seconds e \<ge> 180) ''slow-first-load'' Note)"

definition recommended_context_for :: "model_config \<Rightarrow> string \<Rightarrow> rat \<Rightarrow> rat \<Rightarrow> int" where
  "recommended_context_for c base ram runtime =
     (let m = max_context_len c; r = (if base = ''NPU'' then min m 4096 else m)
      in if ram \<noteq> 0 \<and> ram < runtime * (15 / 10) then max 1024 (min r (m div 2)) else r)"

definition recommended_output_for :: "model_config \<Rightarrow> int \<Rightarrow> int" where
  "recommended_output_for c context =
     (if is_embedding c then 0
      else min (if max_output_tokens c = 0 then 512 else max_output_tokens c) (max 128 (context div 4)))"

definition fit_score_of :: "nat \<Rightarrow> nat \<Rightarrow> rat \<Rightarrow> rat \<Rightarrow> rat" where
  "fit_score_of blocking caution ram runtime =
     (let f = 100 - of_nat blocking * 55 - of_nat caution * 12;
          f' = (if ram \<noteq> 0 \<and> runtime \<noteq> 0 then f + min (ram / runtime - 1) 1 * 8 else f)
      in round_to 1 (max 0 (min f' 100)))"

definition evaluate_model ::
  "advisor_env \<Rightarrow> model_config \<Rightarrow> bool \<Rightarrow> bool \<Rightarrow> string option \<Rightarrow> string \<Rightarrow> snapshot \<Rightarrow> evaluation" where
  "evaluate_model env c downloaded is_loaded loaded_device profile s =
     (let target = str_or loaded_device (recommend_device env c profile s);
          e = estimate_model env c (Some target);
          ws = model_warnings c downloaded is_loaded target s e;
          blocking = length (filter (\<lambda>(k, sev). sev = Blocking) ws);
          caution = length (filter (\<lambda>(k, sev). sev = Caution) ws);
          context = recommended_context_for c (base_of target) (ram_available s) (runtime_memory_gb e)
      in \<lparr>ev_estimate = e, compatibility = (if blocking > 0 then ''blocked'' else if caution > 0 then ''caution'' else ''compatible''),
          fit_score = fit_score_of blocking caution (ram_available s) (runtime_memory_gb e),
          required_free_disk = round_to 2 (required_disk downloaded e), ev_device = target, ev_context = context,
          ev_output = recommended_output_for c context,
          ev_quantization = recommend_quantization (Some (backend c)) (Some target) (Some profile) (Some (source_model c)) None,
          warnings = ws, requires_confirmation = (blocking > 0 \<or> caution > 0), ev_benchmark = evidence env c target\<rparr>)"

section \<open>Choosing a model\<close>

definition clamp01 :: "rat \<Rightarrow> rat" where
  "clamp01 x = max 0 (min x 1)"

definition quality_score :: "advisor_env \<Rightarrow> model_config \<Rightarrow> rat" where
  "quality_score env c =
     (let score = log2 env (max (parameters_of c) (3 / 100) + 1) / log2 env 33 * 100;
          t = py_lower (py_join '' '' [model_id c, model_name c, source_model c]);
          score1 = score + (if py_in ''reason'' t \<or> py_in ''deepseek-r1'' t then 7 else 0)
                    + (if py_in ''instruct'' t \<or> py_in ''chat'' t then 3 else 0)
      in if is_embedding c then 0
         else clamp01 ((score1 - estimated_quality_penalty (Some (weight_format c))) / 100) * 100)"

definition estimated_speed_score :: "advisor_env \<Rightarrow> model_config \<Rightarrow> string \<Rightarrow> json option \<Rightarrow> rat" where
  "estimated_speed_score env c device benchmark =
     (case tokens_sec benchmark of
        Some t \<Rightarrow> min (t * 4) 100
      | None \<Rightarrow>
          clamp01 (lookup [(''NPU'', 135 / 100), (''GPU'', 12 / 10), (''CPU'', 1)] (base_of device) (9 / 10)
                   / square_root env (max (parameters_of c) (8 / 100)) / 4) * 100)"

definition profile_score :: "advisor_env \<Rightarrow> model_config \<Rightarrow> evaluation \<Rightarrow> string \<Rightarrow> string option \<Rightarrow> rat" where
  "profile_score env c ev profile loaded_device =
     (if compatibility ev = ''blocked'' then -10000
      else
        let device = str_or loaded_device (if ev_device ev = [] then ''CPU'' else ev_device ev);
            speed = estimated_speed_score env c device (ev_benchmark ev); quality = quality_score env c;
            memory = runtime_memory_gb (ev_estimate ev); fit = fit_score ev; n = parameter_count_b (ev_estimate ev);
            prior = profile_precision_bonus (Some (weight_format c)) (Some profile) (Some device)
        in if profile = ''fastest'' then
             speed * (72 / 100) + fit * (18 / 100) - memory * (8 / 10) + (if ev_benchmark ev \<noteq> None then 8 else 0) + prior
           else if profile = ''best-quality'' then
             quality * (72 / 100) + fit * (20 / 100) + speed * (8 / 100) + min n 32 * (2 / 10) + prior
           else if profile = ''lowest-memory'' then fit * (35 / 100) + 70 / max memory (35 / 100) + speed * (8 / 100) + prior
           else if profile = ''lowest-power'' then
             lookup [(''NPU'', 100), (''GPU'', 68), (''CPU'', 55)] (base_of device) 45 * (58 / 100) + fit * (27 / 100)
               + speed * (15 / 100) - memory + prior
           else quality * (38 / 100) + speed * (30 / 100) + fit * (28 / 100) - memory * (35 / 100) + prior)"

record pick =
  pick_model :: model_config
  pick_evaluation :: evaluation
  pick_score :: rat

text \<open>\<open>loaded\<close> is \<open>None\<close> when all models of the catalogue compete, else the loaded ones with their devices.\<close>

definition candidate_pick ::
  "advisor_env \<Rightarrow> (model_config \<Rightarrow> bool) \<Rightarrow> string \<Rightarrow> (string \<rightharpoonup> string) \<Rightarrow> string list option \<Rightarrow> snapshot \<Rightarrow> string \<times> model_config \<Rightarrow> pick option" where
  "candidate_pick env downloaded profile devs loaded s entry =
     (let (mid, c) = entry; present = (case loaded of None \<Rightarrow> False | Some ms \<Rightarrow> mid \<in> set ms)
      in if is_embedding c \<or> loaded \<noteq> None \<and> \<not> present then None
         else
           let ev = evaluate_model env c (downloaded c) present (devs mid) profile s
           in if compatibility ev = ''blocked'' then None
              else Some \<lparr>pick_model = c, pick_evaluation = ev, pick_score = profile_score env c ev profile (devs mid)\<rparr>)"

definition recommend_profile ::
  "advisor_env \<Rightarrow> (model_config \<Rightarrow> bool) \<Rightarrow> (string \<times> model_config) list \<Rightarrow> string \<Rightarrow> (string \<rightharpoonup> string) \<Rightarrow> string list option
     \<Rightarrow> snapshot \<Rightarrow> pick option" where
  "recommend_profile env downloaded catalog profile devs loaded s =
     (case List.map_filter (candidate_pick env downloaded profile devs loaded s) catalog of
        [] \<Rightarrow> None
      | p # ps \<Rightarrow> Some (max_by pick_score p ps))"

definition select_loaded_model ::
  "advisor_env \<Rightarrow> (model_config \<Rightarrow> bool) \<Rightarrow> (string \<times> model_config) list \<Rightarrow> string \<Rightarrow> string list \<Rightarrow> (string \<rightharpoonup> string) \<Rightarrow> snapshot \<Rightarrow> string option" where
  "select_loaded_model env downloaded catalog profile engines devs s =
     map_option (\<lambda>p. model_id (pick_model p)) (recommend_profile env downloaded catalog profile devs (Some engines) s)"

section \<open>Resolving the model of a request\<close>

datatype resolution_error = UnknownModel | ModelLoading | ModelNotLoaded | NoModelsLoaded | MissingEngine

record 'e registry =
  rg_engines :: "(string \<times> 'e) list"
  rg_catalog :: "(string \<times> model_config) list"
  rg_status :: "string \<Rightarrow> string option"
  rg_devices :: "string \<rightharpoonup> string"
  rg_default :: "string option"

text \<open>\<open>resolve_engine\<close> of the core, then of the manager with its advisor, then the strict one in front of both.\<close>

definition core_resolve_engine :: "'e registry \<Rightarrow> string \<Rightarrow> (resolution_error, 'e) result" where
  "core_resolve_engine g mid =
     (case map_of (rg_engines g) mid of
        Some e \<Rightarrow> Inr e
      | None \<Rightarrow>
          if mid \<in> fst ` set (rg_catalog g) then
            (case rg_status g mid of
               Some st \<Rightarrow> if st \<in> {''queued'', ''loading'', ''queued_convert'', ''converting''} then Inl ModelLoading else Inl ModelNotLoaded
             | None \<Rightarrow> Inl ModelNotLoaded)
          else
            (case (case rg_default g of None \<Rightarrow> None | Some d \<Rightarrow> if d = [] then None else map_of (rg_engines g) d) of
               Some e \<Rightarrow> Inr e
             | None \<Rightarrow> (case rg_engines g of [] \<Rightarrow> Inl NoModelsLoaded | (k, e) # _ \<Rightarrow> Inr e)))"

definition manager_resolve_engine ::
  "advisor_env \<Rightarrow> (model_config \<Rightarrow> bool) \<Rightarrow> snapshot \<Rightarrow> 'e registry \<Rightarrow> string \<Rightarrow> (resolution_error, 'e) result" where
  "manager_resolve_engine env downloaded s g mid =
     (if starts_with (py_lower (py_strip mid)) ''auto'' then
        (case parse_auto_model (py_strip mid) of
           BadProfile \<Rightarrow> Inl UnknownModel
         | NotAuto \<Rightarrow> core_resolve_engine g mid
         | AutoProfile p \<Rightarrow>
             (case select_loaded_model env downloaded (rg_catalog g) p (map fst (rg_engines g)) (rg_devices g) s of
                None \<Rightarrow> Inl NoModelsLoaded
              | Some m \<Rightarrow> (case map_of (rg_engines g) m of Some e \<Rightarrow> Inr e | None \<Rightarrow> Inl MissingEngine)))
      else core_resolve_engine g mid)"

definition resolve_engine_exact ::
  "advisor_env \<Rightarrow> (model_config \<Rightarrow> bool) \<Rightarrow> snapshot \<Rightarrow> 'e registry \<Rightarrow> string \<Rightarrow> (resolution_error, 'e) result" where
  "resolve_engine_exact env downloaded s g mid =
     (let t = py_strip mid
      in case parse_auto_model t of
           BadProfile \<Rightarrow> Inl UnknownModel
         | AutoProfile p \<Rightarrow> manager_resolve_engine env downloaded s g mid
         | NotAuto \<Rightarrow>
             if t \<notin> fst ` set (rg_catalog g) then Inl UnknownModel
             else manager_resolve_engine env downloaded s g t)"

section \<open>What is chosen\<close>

lemma max_by_greatest: "max_by f b xs \<in> set (b # xs) \<and> (\<forall>x \<in> set (b # xs). f x \<le> f (max_by f b xs))"
proof (induction xs arbitrary: b)
  case (Cons x xs)
  let ?c = "if f b < f x then x else b"
  from Cons.IH [of ?c] have "max_by f ?c xs \<in> set (?c # xs)" "\<And>y. y \<in> set (?c # xs) \<Longrightarrow> f y \<le> f (max_by f ?c xs)"
    by blast+
  moreover from this(2) [of ?c] have "f b \<le> f (max_by f ?c xs)" "f x \<le> f (max_by f ?c xs)" by (auto split: if_splits)
  ultimately show ?case by (auto split: if_splits)
qed simp

lemma candidate_devices_present:
  "candidate_devices c s \<noteq> [] \<and> set (candidate_devices c s) \<subseteq> insert ''CPU'' (base_of ` set (available_devices s))"
proof -
  define xs where "xs = [''NPU'', ''GPU'', ''CPU'']"
  have "(if all = [] then [''CPU''] else all) \<noteq> [] \<and> set (if all = [] then [''CPU''] else all) \<subseteq> insert ''CPU'' A"
    if "\<forall>d \<in> set all. d \<in> A \<or> d = ''CPU''" for all A using that by auto
  then show ?thesis unfolding candidate_devices_def Let_def xs_def [symmetric] by auto
qed

text \<open>The device the advisor recommends is the CPU or one that OpenVINO reports, and no candidate scores higher.\<close>

lemma recommended_device_available:
  "recommend_device env c profile s \<in> insert ''CPU'' (base_of ` set (available_devices s))
   \<and> list_all (\<lambda>d. device_score env c profile s d \<le> device_score env c profile s (recommend_device env c profile s))
       (candidate_devices c s)"
proof -
  from candidate_devices_present [of c s] obtain d ds where d: "candidate_devices c s = d # ds"
    by (cases "candidate_devices c s") auto
  from max_by_greatest [of "device_score env c profile s" d ds] candidate_devices_present [of c s] show ?thesis
    unfolding recommend_device_def d list_all_iff by auto
qed

text \<open>The model recommended for a profile is in the catalogue, generates text, is loaded when only loaded models
  compete, has no blocking warning, and no other such model scores higher.\<close>

lemma recommended_model_is_best:
  assumes "recommend_profile env downloaded catalog profile devs loaded s = Some p"
  shows "(\<exists>(mid, c) \<in> set catalog. pick_model p = c \<and> \<not> is_embedding c \<and> compatibility (pick_evaluation p) \<noteq> ''blocked''
      \<and> (\<forall>ms. loaded = Some ms \<longrightarrow> mid \<in> set ms))
    \<and> (\<forall>entry \<in> set catalog. \<forall>q. candidate_pick env downloaded profile devs loaded s entry = Some q \<longrightarrow> pick_score q \<le> pick_score p)"
proof -
  let ?f = "candidate_pick env downloaded profile devs loaded s"
  obtain b bs where l: "List.map_filter ?f catalog = b # bs" and p: "p = max_by pick_score b bs"
    using assms by (auto simp: recommend_profile_def split: list.splits)
  have mem: "q \<in> set (b # bs) \<longleftrightarrow> (\<exists>entry \<in> set catalog. ?f entry = Some q)" for q
    unfolding l [symmetric] by (force simp: List.map_filter_def)
  from max_by_greatest [of pick_score b bs] have top: "p \<in> set (b # bs)" "\<And>q. q \<in> set (b # bs) \<Longrightarrow> pick_score q \<le> pick_score p"
    unfolding p by blast+
  from top(1) mem [of p] obtain mid c where e: "(mid, c) \<in> set catalog" "?f (mid, c) = Some p" by auto
  then have "pick_model p = c \<and> \<not> is_embedding c \<and> compatibility (pick_evaluation p) \<noteq> ''blocked''
      \<and> (\<forall>ms. loaded = Some ms \<longrightarrow> mid \<in> set ms)"
    by (auto simp: candidate_pick_def Let_def split: if_splits option.splits)
  with e(1) top(2) mem show ?thesis by blast
qed

section \<open>No model is served under another name\<close>

lemma auto_starts: "parse_auto_model t \<noteq> NotAuto \<Longrightarrow> starts_with (py_lower (py_strip t)) ''auto''"
proof -
  assume "parse_auto_model t \<noteq> NotAuto"
  then have "py_lower (take 4 (py_strip t)) = ''auto''" by (auto simp: parse_auto_model_def Let_def split: if_splits)
  then show ?thesis by (metis py_lower_def take_is_prefix take_map)
qed

definition auto_choice :: "advisor_env \<Rightarrow> (model_config \<Rightarrow> bool) \<Rightarrow> snapshot \<Rightarrow> 'e registry \<Rightarrow> string \<Rightarrow> 'e \<Rightarrow> bool" where
  "auto_choice env downloaded s g profile e \<longleftrightarrow>
     (\<exists>(mid, c) \<in> set (rg_catalog g). \<not> is_embedding c \<and> map_of (rg_engines g) mid = Some e
        \<and> (\<exists>p. recommend_profile env downloaded (rg_catalog g) profile (rg_devices g) (Some (map fst (rg_engines g))) s = Some p
             \<and> pick_model p = c))"

definition catalog_keyed :: "(string \<times> model_config) list \<Rightarrow> bool" where
  "catalog_keyed catalog \<longleftrightarrow> list_all (\<lambda>(mid, c). model_id c = mid) catalog"

lemma recommended_member:
  assumes "recommend_profile env downloaded catalog profile devs loaded s = Some p"
  shows "\<exists>mid c. (mid, c) \<in> set catalog \<and> pick_model p = c \<and> \<not> is_embedding c"
proof -
  let ?f = "candidate_pick env downloaded profile devs loaded s"
  obtain b bs where l: "List.map_filter ?f catalog = b # bs" and p: "p = max_by pick_score b bs"
    using assms by (auto simp: recommend_profile_def split: list.splits)
  have "p \<in> set (List.map_filter ?f catalog)" unfolding l p using max_by_greatest [of pick_score b bs] by blast
  then obtain mid c where "(mid, c) \<in> set catalog" "?f (mid, c) = Some p" by (auto simp: List.map_filter_def)
  then show ?thesis by (auto simp: candidate_pick_def Let_def split: if_splits)
qed

text \<open>C40: a request that names a model is answered by the engine loaded under just this name or refused, and one that
  names a profile by a loaded text model the advisor chose for this profile: no request is silently served by another model.\<close>

theorem resolved_engine_is_requested:
  assumes "catalog_keyed (rg_catalog g)" and "resolve_engine_exact env downloaded s g mid = Inr e"
  shows "(parse_auto_model (py_strip mid) = NotAuto \<and> py_strip mid \<in> fst ` set (rg_catalog g)
      \<and> map_of (rg_engines g) (py_strip mid) = Some e)
    \<or> (\<exists>profile. parse_auto_model (py_strip mid) = AutoProfile profile \<and> auto_choice env downloaded s g profile e)"
proof (cases "parse_auto_model (py_strip mid)")
  case NotAuto
  with assms(2) have "py_strip mid \<in> fst ` set (rg_catalog g)" "core_resolve_engine g (py_strip mid) = Inr e"
    by (auto simp: resolve_engine_exact_def manager_resolve_engine_def Let_def split: if_splits)
  with NotAuto show ?thesis
    by (auto simp: core_resolve_engine_def split: option.splits if_splits)
next
  case (AutoProfile profile)
  then have "starts_with (py_lower (py_strip mid)) ''auto''" using auto_starts [of "py_strip mid"] by simp
  with AutoProfile assms(2) obtain m where m: "select_loaded_model env downloaded (rg_catalog g) profile (map fst (rg_engines g)) (rg_devices g) s = Some m"
    "map_of (rg_engines g) m = Some e"
    by (auto simp: resolve_engine_exact_def manager_resolve_engine_def split: option.splits)
  then obtain p where p: "recommend_profile env downloaded (rg_catalog g) profile (rg_devices g) (Some (map fst (rg_engines g))) s = Some p"
    "model_id (pick_model p) = m"
    by (auto simp: select_loaded_model_def)
  from recommended_member [OF p(1)] obtain k c where c: "(k, c) \<in> set (rg_catalog g)" "pick_model p = c" "\<not> is_embedding c" by blast
  with assms(1) p(2) have "k = m" by (auto simp: catalog_keyed_def list_all_iff)
  with c p(1) m(2) have "auto_choice env downloaded s g profile e" unfolding auto_choice_def by blast
  with AutoProfile show ?thesis by blast
next
  case BadProfile
  with assms(2) show ?thesis by (simp add: resolve_engine_exact_def)
qed

text \<open>The core alone serves an unknown name with the default model.\<close>

lemma core_serves_unknown_names:
  "core_resolve_engine \<lparr>rg_engines = [(''m'', e)], rg_catalog = [(''m'', demo_model)], rg_status = (\<lambda>_. None), rg_devices = (\<lambda>_. None),
     rg_default = None\<rparr> ''other'' = Inr e"
  by (simp add: core_resolve_engine_def)

section \<open>Budgets\<close>

lemma py_round_bounds:
  assumes "of_int a \<le> x" and "x \<le> of_int b"
  shows "a \<le> py_round x \<and> py_round x \<le> b"
proof (cases "\<lfloor>x\<rfloor> = b")
  case True
  then have "x = of_int b" using assms(2) of_int_floor_le [of x] by simp
  then show ?thesis using assms(1) by (simp add: py_round_def)
next
  case False
  have "a \<le> \<lfloor>x\<rfloor>" "\<lfloor>x\<rfloor> \<le> b" using assms by (simp_all add: le_floor_iff floor_le_iff)
  with False show ?thesis by (auto simp: py_round_def Let_def)
qed

lemma round_to_bounds:
  assumes "0 \<le> x" and "x \<le> 100"
  shows "0 \<le> round_to 1 x \<and> round_to 1 x \<le> 100"
proof -
  have "0 \<le> py_round (x * 10) \<and> py_round (x * 10) \<le> 1000"
    by (rule py_round_bounds) (use assms in simp_all)
  then have "(0 :: rat) \<le> of_int (py_round (x * 10))" "of_int (py_round (x * 10)) \<le> (1000 :: rat)" by simp_all
  then show ?thesis by (simp add: round_to_def)
qed

lemma fit_score_bounds: "0 \<le> fit_score_of b k ram runtime \<and> fit_score_of b k ram runtime \<le> 100"
  unfolding fit_score_of_def Let_def by (rule round_to_bounds) simp_all

lemma recommended_context_bounds:
  assumes "1024 \<le> max_context_len c"
  shows "1024 \<le> recommended_context_for c base ram runtime \<and> recommended_context_for c base ram runtime \<le> max_context_len c"
  using assms by (auto simp: recommended_context_for_def Let_def)

text \<open>The score of a model lies between 0 and 100, and the recommended context and output fit the model when its
  context has at least 1024 tokens.\<close>

lemma recommended_budgets_fit:
  assumes "1024 \<le> max_context_len c" and "0 \<le> max_output_tokens c"
  shows "let ev = evaluate_model env c downloaded is_loaded dev profile s
    in 0 \<le> fit_score ev \<and> fit_score ev \<le> 100 \<and> ev_context ev \<le> max_context_len c
       \<and> 0 \<le> ev_output ev \<and> ev_output ev \<le> ev_context ev"
proof -
  have out: "0 \<le> recommended_output_for c n \<and> recommended_output_for c n \<le> n" if "1024 \<le> n" for n
    using assms(2) that by (auto simp: recommended_output_for_def Let_def)
  show ?thesis
    using recommended_context_bounds [OF assms(1)] out by (simp add: evaluate_model_def Let_def fit_score_bounds)
qed

text \<open>A model with a smaller context is recommended more than it has when memory is short.\<close>

lemma small_context_exceeded:
  assumes "max_context_len c < 1024" and "ram \<noteq> 0" and "ram < runtime * (15 / 10)"
  shows "max_context_len c < recommended_context_for c base ram runtime"
  using assms by (simp add: recommended_context_for_def Let_def)

section \<open>Concrete applications\<close>

definition demo_advisor :: advisor_env where
  "demo_advisor = \<lparr>converted_size = (\<lambda>_. None), kv_cache_gb = (\<lambda>_ _. Some (1 / 4)), evidence = (\<lambda>_ _. None),
     log2 = (\<lambda>x. x), square_root = (\<lambda>x. x)\<rparr>"

definition demo_snapshot :: snapshot where
  "demo_snapshot = \<lparr>available_devices = [''CPU'', ''GPU''], ram_available = 16, ram_total = 32, disk_free = 100, gpu_total = Some 8\<rparr>"

definition demo_registry :: "nat registry" where
  "demo_registry = \<lparr>rg_engines = [(''m'', 7)], rg_catalog = [(''m'', demo_model)], rg_status = (\<lambda>_. None),
     rg_devices = (\<lambda>_. Some ''GPU''), rg_default = None\<rparr>"

lemma recommended_model_is_best_witness:
  "\<exists>p. recommend_profile demo_advisor (\<lambda>_. True) [(''m'', demo_model)] ''fastest'' (\<lambda>_. None) None demo_snapshot = Some p
     \<and> compatibility (pick_evaluation p) \<noteq> ''blocked''"
proof -
  have "recommend_profile demo_advisor (\<lambda>_. True) [(''m'', demo_model)] ''fastest'' (\<lambda>_. None) None demo_snapshot \<noteq> None"
    by code_simp
  then obtain p where p: "recommend_profile demo_advisor (\<lambda>_. True) [(''m'', demo_model)] ''fastest'' (\<lambda>_. None) None demo_snapshot = Some p"
    by blast
  from recommended_model_is_best [OF p] p show ?thesis by auto
qed

lemma resolved_engine_is_requested_witness:
  "map_of (rg_engines demo_registry) ''m'' = Some 7"
proof -
  have "catalog_keyed (rg_catalog demo_registry)" by (simp add: catalog_keyed_def demo_registry_def demo_model_def)
  moreover have "resolve_engine_exact demo_advisor (\<lambda>_. True) demo_snapshot demo_registry '' m '' = Inr 7" by code_simp
  moreover have "py_strip '' m '' = ''m''" "parse_auto_model ''m'' = NotAuto" by code_simp+
  ultimately show ?thesis using resolved_engine_is_requested [of demo_registry demo_advisor "\<lambda>_. True" demo_snapshot "'' m ''" 7]
    by simp
qed

lemma recommended_budgets_fit_witness:
  "fit_score (evaluate_model demo_advisor demo_model True False None ''balanced'' demo_snapshot) \<le> 100"
  using recommended_budgets_fit [of demo_model demo_advisor True False None "''balanced''" demo_snapshot]
  by (simp add: demo_model_def Let_def)

end
