(* ===== verification/Releases.thy ===== *)
theory Releases
  imports PyValue "HOL-Library.List_Lexorder" "HOL-Library.Char_ord" "HOL-Library.Product_Lexorder"
begin

text \<open>
  \<open>app/release_models.py\<close>: semantic versions and their order, release channels, artifact names,
  the official download locations, the validators of a release manifest and the compatibility
  decisions. Pydantic's field parsing and \<open>urllib\<close>'s URL parser are parameters; the validators
  written in the module are definitions.
\<close>

section \<open>Semantic versions\<close>

record version =
  major :: nat
  minor :: nat
  patch :: nat
  prerelease :: "string list"
  build_tags :: "string list"

definition ident_char :: "char \<Rightarrow> bool" where
  "ident_char c \<longleftrightarrow> (let n = of_char c :: nat
     in (48 \<le> n \<and> n \<le> 57) \<or> (65 \<le> n \<and> n \<le> 90) \<or> (97 \<le> n \<and> n \<le> 122) \<or> n = 45)"

text \<open>\<open>(0|[1-9]\d*)\<close> and \<open>[0-9A-Za-z-]+(?:\.[0-9A-Za-z-]+)*\<close>\<close>

definition number_ok :: "string \<Rightarrow> bool" where
  "number_ok s \<longleftrightarrow> s \<noteq> [] \<and> list_all is_digit s \<and> (s = ''0'' \<or> hd s \<noteq> CHR ''0'')"

definition idents_ok :: "string list \<Rightarrow> bool" where
  "idents_ok ids \<longleftrightarrow> list_all (\<lambda>i. i \<noteq> [] \<and> list_all ident_char i) ids"

definition ident_list :: "string \<Rightarrow> string list option" where
  "ident_list s = (let ids = py_split (CHR ''.'') s in if idents_ok ids then Some ids else None)"

text \<open>The part behind the first \<open>sep\<close>, when there is one.\<close>

definition tail_idents :: "string list \<Rightarrow> string list option" where
  "tail_idents parts = (case parts of [_, t] \<Rightarrow> ident_list t | _ \<Rightarrow> Some [])"

text \<open>\<open>int\<close> of a digit string raises \<open>ValueError\<close> beyond 4300 digits.\<close>

definition parse_core :: "string \<Rightarrow> (nat \<times> nat \<times> nat) option" where
  "parse_core s =
     (case py_split (CHR ''.'') s of
        [a, b, c] \<Rightarrow>
          if number_ok a \<and> number_ok b \<and> number_ok c \<and> length a \<le> 4300 \<and> length b \<le> 4300 \<and> length c \<le> 4300
          then Some (digits_val a, digits_val b, digits_val c) else None
      | _ \<Rightarrow> None)"

definition parse_version :: "string \<Rightarrow> version option" where
  "parse_version raw =
     (let plus = py_split1 (CHR ''+'') (py_strip raw);
          dash = py_split1 (CHR ''-'') (hd plus)
      in case (parse_core (hd dash), tail_idents dash, tail_idents plus) of
           (Some (a, b, c), Some pre, Some bld) \<Rightarrow>
             Some \<lparr>major = a, minor = b, patch = c, prerelease = pre, build_tags = bld\<rparr>
         | _ \<Rightarrow> None)"

definition version_core :: "version \<Rightarrow> string" where
  "version_core v = show_nat (major v) @ ''.'' @ show_nat (minor v) @ ''.'' @ show_nat (patch v)"

definition version_str :: "version \<Rightarrow> string" where
  "version_str v =
     version_core v @ (if prerelease v = [] then [] else ''-'' @ py_join ''.'' (prerelease v)) @
     (if build_tags v = [] then [] else ''+'' @ py_join ''.'' (build_tags v))"

definition precedence :: "version \<Rightarrow> nat \<times> nat \<times> nat" where
  "precedence v = (major v, minor v, patch v)"

definition version_eq :: "version \<Rightarrow> version \<Rightarrow> bool" where
  "version_eq a b \<longleftrightarrow> precedence a = precedence b \<and> prerelease a = prerelease b"

definition is_number :: "string \<Rightarrow> bool" where
  "is_number s \<longleftrightarrow> s \<noteq> [] \<and> list_all is_digit s"

text \<open>The loop over \<open>zip\<close> and the comparison of lengths behind it.\<close>

fun prerelease_lt :: "string list \<Rightarrow> string list \<Rightarrow> bool" where
  "prerelease_lt [] ys = (ys \<noteq> [])"
| "prerelease_lt (x # xs) [] = False"
| "prerelease_lt (x # xs) (y # ys) =
     (if x = y then prerelease_lt xs ys
      else if is_number x \<and> is_number y then digits_val x < digits_val y
      else if is_number x \<noteq> is_number y then is_number x
      else x < y)"

definition version_lt :: "version \<Rightarrow> version \<Rightarrow> bool" where
  "version_lt a b =
     (if precedence a \<noteq> precedence b then precedence a < precedence b
      else if prerelease a = [] then False
      else if prerelease b = [] then True
      else prerelease_lt (prerelease a) (prerelease b))"

text \<open>\<open>functools.total_ordering\<close> derives the others from \<open>__lt__\<close> and \<open>__eq__\<close>.\<close>

definition version_gt :: "version \<Rightarrow> version \<Rightarrow> bool" where
  "version_gt a b \<longleftrightarrow> \<not> version_lt a b \<and> \<not> version_eq a b"

section \<open>Channels and artifacts\<close>

datatype channel = Stable | Beta | Nightly

datatype artifact_type = Installer | Portable | Checksums | Manifest | ThirdPartyLicenses | ReleaseNotes

datatype installation_mode = Installed | PortableMode | Source

definition pre_label :: "version \<Rightarrow> bool" where
  "pre_label v \<longleftrightarrow> prerelease v \<noteq> [] \<and>
     (let label = py_lower (hd (prerelease v)) in starts_with label ''beta'' \<or> starts_with label ''rc'')"

text \<open>\<open>None\<close>: the version does not parse.\<close>

definition channel_accepts :: "channel \<Rightarrow> string \<Rightarrow> bool option" where
  "channel_accepts ch s =
     map_option (\<lambda>v. case ch of
         Stable \<Rightarrow> prerelease v = []
       | Beta \<Rightarrow> prerelease v = [] \<or> pre_label v
       | Nightly \<Rightarrow> True) (parse_version s)"

definition artifact_prefix :: string where "artifact_prefix = ''InferBridge''"

definition legacy_artifact_prefixes :: "string list" where
  "legacy_artifact_prefixes = [''OpenVINO-Windows-LLM'', ''OpenVINOWindowsLLM'']"

definition artifact_suffix :: "artifact_type \<Rightarrow> string" where
  "artifact_suffix t = (case t of
       Installer \<Rightarrow> ''-windows-x64-installer.exe'' | Portable \<Rightarrow> ''-windows-x64-portable.zip''
     | Checksums \<Rightarrow> ''-checksums.txt'' | Manifest \<Rightarrow> ''-release-manifest.json''
     | ThirdPartyLicenses \<Rightarrow> ''-third-party-licenses.zip'' | ReleaseNotes \<Rightarrow> ''-release-notes.md'')"

definition artifact_filename :: "string \<Rightarrow> artifact_type \<Rightarrow> string option" where
  "artifact_filename v t =
     (if parse_version v = None then None else Some (artifact_prefix @ ''-'' @ v @ artifact_suffix t))"

definition artifact_filenames :: "string \<Rightarrow> artifact_type \<Rightarrow> string list option" where
  "artifact_filenames v t =
     map_option (\<lambda>canonical.
       let suffix = remove_prefix canonical (artifact_prefix @ ''-'' @ v)
       in canonical # map (\<lambda>p. p @ ''-'' @ v @ suffix) legacy_artifact_prefixes) (artifact_filename v t)"

section \<open>Official locations\<close>

text \<open>What \<open>urlparse\<close> returns; \<open>None\<close> in the port when reading it raises.\<close>

record parsed_url =
  scheme :: string
  hostname :: "string option"
  username :: "string option"
  password :: "string option"
  port :: "int option option"
  params :: string
  query :: string
  fragment :: string
  path :: string

type_synonym url_parser = "string \<Rightarrow> parsed_url option"

definition blank :: "string option \<Rightarrow> bool" where
  "blank s \<longleftrightarrow> s = None \<or> s = Some []"

text \<open>\<open>None\<close>: a \<open>ValueError\<close> of the parser or of the port.\<close>

definition safe_github_url :: "url_parser \<Rightarrow> string \<Rightarrow> (bool \<times> string) option" where
  "safe_github_url urlparse value =
     (case urlparse value of
        None \<Rightarrow> None
      | Some u \<Rightarrow>
          if \<not> (scheme u = ''https'' \<and> hostname u = Some ''github.com'' \<and> blank (username u) \<and> blank (password u))
          then Some (False, path u)
          else case port u of
            None \<Rightarrow> None
          | Some p \<Rightarrow> Some (p = None \<and> params u = [] \<and> query u = [] \<and> fragment u = [], path u))"

definition repositories :: "string list" where
  "repositories = [''/Quazmoz/InferBridge'', ''/Quazmoz/openvino-windows-llm'']"

definition is_official_release_url :: "url_parser \<Rightarrow> string \<Rightarrow> bool option" where
  "is_official_release_url urlparse value =
     map_option (\<lambda>(valid, p). valid \<and> list_ex (\<lambda>r. starts_with p (r @ ''/releases/download/'')) repositories)
       (safe_github_url urlparse value)"

definition is_official_repository_url :: "url_parser \<Rightarrow> string \<Rightarrow> bool option" where
  "is_official_repository_url urlparse value =
     map_option (\<lambda>(valid, p). valid \<and> list_ex (\<lambda>r. p = r \<or> starts_with p (r @ ''/'')) repositories)
       (safe_github_url urlparse value)"

section \<open>Manifests\<close>

record release_artifact =
  art_type :: artifact_type
  art_filename :: string
  art_url :: string
  art_sha256 :: string
  art_size :: int
  signed :: bool
  signature_verified :: bool
  launcher_signed :: bool
  launcher_verified :: bool

record data_compatibility =
  minimum_supported_schema :: int
  current_schema :: int
  downgrade_from_schema :: int
  model_cache_compatible :: bool
  compiled_cache_policy :: string

record release_manifest =
  man_version :: string
  man_channel :: channel
  minimum_windows_version :: string
  minimum_windows_build :: int
  man_schema_version :: int
  published_at :: int
  architecture :: string
  source_commit :: string
  source_tree_clean :: bool
  api_compatibility :: "bool \<times> bool \<times> bool"
  openvino_versions :: "string \<times> string \<times> string"
  artifacts :: "release_artifact list"
  data_compat :: data_compatibility
  release_notes_url :: string
  known_issues_url :: string
  compatibility_matrix_url :: string
  summary :: string
  highlights :: "string list"
  dependency_inventory :: string

definition validate_trust_state :: "url_parser \<Rightarrow> release_artifact \<Rightarrow> bool" where
  "validate_trust_state urlparse a \<longleftrightarrow>
     \<not> (signed a \<and> \<not> signature_verified a) \<and> \<not> (launcher_signed a \<and> \<not> launcher_verified a) \<and>
     is_official_release_url urlparse (art_url a) = Some True"

definition validate_schema_range :: "data_compatibility \<Rightarrow> bool" where
  "validate_schema_range d \<longleftrightarrow>
     minimum_supported_schema d \<le> current_schema d \<and> downgrade_from_schema d \<le> current_schema d"

fun artifacts_ok :: "string \<Rightarrow> artifact_type list \<Rightarrow> release_artifact list \<Rightarrow> bool" where
  "artifacts_ok v seen [] \<longleftrightarrow> Installer \<in> set seen \<or> Portable \<in> set seen"
| "artifacts_ok v seen (a # as) \<longleftrightarrow>
     art_type a \<notin> set seen \<and>
     (case artifact_filenames v (art_type a) of None \<Rightarrow> False | Some ns \<Rightarrow> art_filename a \<in> set ns) \<and>
     artifacts_ok v (art_type a # seen) as"

definition validate_release :: "url_parser \<Rightarrow> release_manifest \<Rightarrow> bool" where
  "validate_release urlparse m \<longleftrightarrow>
     (case parse_version (man_version m) of
        None \<Rightarrow> False
      | Some v \<Rightarrow>
          \<not> (man_channel m = Stable \<and> prerelease v \<noteq> []) \<and>
          \<not> (man_channel m = Beta \<and> \<not> pre_label v) \<and>
          \<not> (man_channel m = Nightly \<and> prerelease v = []) \<and>
          artifacts_ok (man_version m) [] (artifacts m) \<and>
          list_all (\<lambda>u. is_official_repository_url urlparse u = Some True)
            [release_notes_url m, known_issues_url m, compatibility_matrix_url m])"

text \<open>
  \<open>ReleaseManifest.model_validate\<close>: the parameter \<open>parse_fields\<close> is Pydantic's parsing of the fields, the rest are
  the validators of the nested models and of the manifest.
\<close>

definition model_validate :: "url_parser \<Rightarrow> (json \<Rightarrow> release_manifest option) \<Rightarrow> json \<Rightarrow> release_manifest option" where
  "model_validate urlparse parse_fields j =
     (case parse_fields j of
        None \<Rightarrow> None
      | Some m \<Rightarrow>
          if list_all (validate_trust_state urlparse) (artifacts m) \<and> validate_schema_range (data_compat m) \<and>
             validate_release urlparse m
          then Some m else None)"

definition select_artifact :: "installation_mode \<Rightarrow> release_manifest \<Rightarrow> release_artifact option" where
  "select_artifact mode m = find (\<lambda>a. art_type a = (if mode = PortableMode then Portable else Installer)) (artifacts m)"

section \<open>Compatibility\<close>

record host_platform =
  os_name :: string
  machine :: string
  windows_build :: "int option"

definition platform_compatibility :: "host_platform \<Rightarrow> release_manifest \<Rightarrow> bool \<times> string option" where
  "platform_compatibility p m =
     (if os_name p \<noteq> ''nt'' then (True, None)
      else if py_lower (py_strip (machine p)) \<notin> {''amd64'', ''x86_64''}
      then (False, Some ''This release supports Windows x64 only.'')
      else case windows_build p of
        None \<Rightarrow> (False, Some ''The Windows build could not be verified for this release.'')
      | Some b \<Rightarrow>
          if b < minimum_windows_build m
          then (False, Some (''This release requires '' @ minimum_windows_version m @ '' or newer (build ''
                 @ show_int (minimum_windows_build m) @ ''+).''))
          else (True, None))"

definition schema_compatibility :: "int \<Rightarrow> data_compatibility \<Rightarrow> bool \<times> string option" where
  "schema_compatibility s d =
     (if s < minimum_supported_schema d
      then (False, Some ''The installed data schema is too old for this release.'')
      else if s > current_schema d
      then (False, Some ''This release cannot safely read data created by a newer application.'')
      else (True, None))"

definition rollback_warning :: "int \<Rightarrow> data_compatibility \<Rightarrow> string option" where
  "rollback_warning s d =
     (if s > current_schema d
      then Some ''The older release may not understand the current data schema. Restore a compatible configuration backup before rollback.''
      else if s < downgrade_from_schema d
      then Some ''Rollback compatibility is not verified for this data schema.''
      else None)"

section \<open>The order of versions\<close>

text \<open>
  Precedence as an order of the library: a pre-release identifier is a number or a label, numbers come
  first; a release comes after its pre-releases; a list of identifiers after its prefixes.
\<close>

datatype ident = Number nat | Label string

instantiation ident :: linorder
begin

fun less_eq_ident :: "ident \<Rightarrow> ident \<Rightarrow> bool" where
  "less_eq_ident (Number m) (Number n) = (m \<le> n)"
| "less_eq_ident (Number m) (Label b) = True"
| "less_eq_ident (Label a) (Number n) = False"
| "less_eq_ident (Label a) (Label b) = (a \<le> b)"

definition less_ident :: "ident \<Rightarrow> ident \<Rightarrow> bool" where
  "less_ident a b \<longleftrightarrow> a \<le> b \<and> \<not> b \<le> a"

instance
proof
  fix a b c :: ident
  show "(a < b) = (a \<le> b \<and> \<not> b \<le> a)" by (rule less_ident_def)
  show "a \<le> a" by (cases a) simp_all
  show "a \<le> b \<Longrightarrow> b \<le> c \<Longrightarrow> a \<le> c" by (cases a; cases b; cases c) auto
  show "a \<le> b \<Longrightarrow> b \<le> a \<Longrightarrow> a = b" by (cases a; cases b) auto
  show "a \<le> b \<or> b \<le> a" by (cases a; cases b) auto
qed

end

lemma less_ident_simps [simp]:
  "Number m < Number n \<longleftrightarrow> m < n" "Number m < Label b" "\<not> Label a < Number n" "Label a < Label b \<longleftrightarrow> a < b"
  by (auto simp: less_ident_def)

definition ident_of :: "string \<Rightarrow> ident" where
  "ident_of s = (if is_number s then Number (digits_val s) else Label s)"

definition version_key :: "version \<Rightarrow> (nat \<times> nat \<times> nat) \<times> nat \<times> ident list" where
  "version_key v = (precedence v, if prerelease v = [] then 1 else 0, map ident_of (prerelease v))"

text \<open>Semantic versioning forbids leading zeros in numeric identifiers; the parser does not.\<close>

definition canonical :: "version \<Rightarrow> bool" where
  "canonical v \<longleftrightarrow> list_all (\<lambda>i. is_number i \<longrightarrow> number_ok i) (prerelease v)"

lemma digits_val_Cons_pos:
  "list_all is_digit (c # cs) \<Longrightarrow> c \<noteq> CHR ''0'' \<Longrightarrow> 0 < digits_val (c # cs)"
proof (induction cs rule: rev_induct)
  case Nil
  have "digit_val c = 0 \<Longrightarrow> is_digit c \<Longrightarrow> c = CHR ''0''"
  proof -
    assume "digit_val c = 0" "is_digit c"
    then have "of_char c = (48::nat)" by (auto simp: digit_val_def is_digit_def Let_def)
    then have "char_of (of_char c :: nat) = char_of (48::nat)" by simp
    moreover have "char_of (48::nat) = CHR ''0''" by code_simp
    ultimately show ?thesis by (simp only: char_of_char)
  qed
  with Nil show ?case by (auto simp: digits_val_def)
next
  case (snoc d ds)
  then show ?case using digits_val_snoc [of "c # ds" d] by simp
qed

lemma digit_val_lt: "is_digit d \<Longrightarrow> digit_val d < 10 \<and> digit_char (digit_val d) = d"
  by (auto simp: is_digit_def digit_val_def digit_char_def Let_def)

lemma show_digits_val: "number_ok s \<Longrightarrow> show_nat (digits_val s) = s"
proof (induction s rule: rev_induct)
  case (snoc d ds)
  have d: "digit_val d < 10" "digit_char (digit_val d) = d"
    using snoc.prems digit_val_lt [of d] by (auto simp: number_ok_def)
  show ?case
  proof (cases ds)
    case Nil
    with d show ?thesis by (subst show_nat.simps) (simp add: digits_val_def)
  next
    case (Cons c cs)
    then have ok: "number_ok ds" "c \<noteq> CHR ''0''" using snoc.prems by (auto simp: number_ok_def)
    then have "0 < digits_val ds" using digits_val_Cons_pos [of c cs] by (simp add: Cons number_ok_def)
    then have "\<not> digits_val (ds @ [d]) < 10" "digits_val (ds @ [d]) div 10 = digits_val ds"
      "digits_val (ds @ [d]) mod 10 = digit_val d" using d(1) by (simp_all add: digits_val_snoc)
    with snoc.IH [OF ok(1)] d(2) show ?thesis by (subst show_nat.simps) simp
  qed
qed (simp add: number_ok_def)

lemma ident_of_inj:
  assumes "is_number x \<longrightarrow> number_ok x" "is_number y \<longrightarrow> number_ok y" "ident_of x = ident_of y"
  shows "x = y"
proof (cases "is_number x")
  case True
  then have y: "is_number y" "digits_val x = digits_val y"
    using assms(3) by (simp_all add: ident_of_def split: if_splits)
  have "show_nat (digits_val x) = x" "show_nat (digits_val y) = y"
    using True y(1) assms(1,2) by (simp_all add: show_digits_val)
  with y(2) show ?thesis by metis
next
  case False
  with assms(3) show ?thesis by (simp add: ident_of_def split: if_splits)
qed

lemma lex_less: "((a :: 'a :: linorder), (b :: 'b :: linorder)) < (c, d) \<longleftrightarrow> a < c \<or> a = c \<and> b < d"
  by (auto simp: less_prod_simp)

lemma prerelease_lt_key:
  assumes "list_all (\<lambda>i. is_number i \<longrightarrow> number_ok i) xs" "list_all (\<lambda>i. is_number i \<longrightarrow> number_ok i) ys"
  shows "prerelease_lt xs ys \<longleftrightarrow> map ident_of xs < map ident_of ys"
  using assms
proof (induction xs ys rule: prerelease_lt.induct)
  case (3 x xs y ys)
  then have "ident_of x = ident_of y \<longrightarrow> x = y" using ident_of_inj [of x y] by simp
  with 3 show ?case by (auto simp: ident_of_def)
next
  case (1 ys)
  then show ?case by (cases ys) auto
qed auto

lemma map_ident_inj:
  "list_all (\<lambda>i. is_number i \<longrightarrow> number_ok i) xs \<Longrightarrow> list_all (\<lambda>i. is_number i \<longrightarrow> number_ok i) ys \<Longrightarrow>
     map ident_of xs = map ident_of ys \<longleftrightarrow> xs = ys"
proof (induction xs ys rule: prerelease_lt.induct)
  case (3 x xs y ys)
  then have "ident_of x = ident_of y \<longrightarrow> x = y" using ident_of_inj [of x y] by simp
  with 3 show ?case by auto
qed auto

lemma version_order_key:
  assumes "canonical a" and "canonical b"
  shows "version_lt a b \<longleftrightarrow> version_key a < version_key b"
    and "version_eq a b \<longleftrightarrow> version_key a = version_key b"
    and "version_gt a b \<longleftrightarrow> version_key b < version_key a"
proof -
  show lt: "version_lt a b \<longleftrightarrow> version_key a < version_key b"
  proof (cases "precedence a = precedence b \<and> prerelease a \<noteq> [] \<and> prerelease b \<noteq> []")
    case True
    then show ?thesis
      using assms prerelease_lt_key [of "prerelease a" "prerelease b"]
      by (simp add: version_lt_def version_key_def canonical_def lex_less)
  qed (auto simp: version_lt_def version_key_def lex_less)
  show eq: "version_eq a b \<longleftrightarrow> version_key a = version_key b"
    using assms map_ident_inj [of "prerelease a" "prerelease b"]
    by (auto simp: version_eq_def version_key_def canonical_def)
  show "version_gt a b \<longleftrightarrow> version_key b < version_key a"
    unfolding version_gt_def lt eq by auto
qed

text \<open>Comparing versions is the precedence order of semantic versioning: on versions without
  leading zeros in numeric identifiers the three comparisons are those of a linear order on the
  keys, so exactly one of smaller, equal and greater holds and sorting is well defined.\<close>

lemma versions_linearly_ordered:
  assumes "canonical a" and "canonical b"
  shows "(version_lt a b \<longleftrightarrow> version_key a < version_key b) \<and>
     (version_eq a b \<longleftrightarrow> version_key a = version_key b) \<and>
     (version_gt a b \<longleftrightarrow> version_key b < version_key a)"
  using version_order_key [OF assms] by blast

lemma versions_linearly_ordered_witness:
  "version_lt \<lparr>major = 1, minor = 0, patch = 0, prerelease = [''rc'', ''2''], build_tags = []\<rparr>
     \<lparr>major = 1, minor = 0, patch = 0, prerelease = [''rc'', ''10''], build_tags = []\<rparr> \<longleftrightarrow>
   version_key \<lparr>major = 1, minor = 0, patch = 0, prerelease = [''rc'', ''2''], build_tags = []\<rparr> <
     version_key \<lparr>major = 1, minor = 0, patch = 0, prerelease = [''rc'', ''10''], build_tags = []\<rparr>"
  by (rule versions_linearly_ordered [THEN conjunct1]) code_simp+

text \<open>Outside of that the order breaks: the parser accepts numeric identifiers with leading
  zeros, and then two versions can each be greater than the other.\<close>

lemma leading_zeros_break_the_order:
  "let a = the (parse_version ''1.0.0-01''); b = the (parse_version ''1.0.0-1'')
   in parse_version ''1.0.0-01'' \<noteq> None \<and> version_gt a b \<and> version_gt b a"
  by code_simp

section \<open>Printing and parsing\<close>

definition version_ok :: "version \<Rightarrow> bool" where
  "version_ok v \<longleftrightarrow> idents_ok (prerelease v) \<and> idents_ok (build_tags v) \<and>
     list_all (\<lambda>n. length (show_nat n) \<le> 4300) [major v, minor v, patch v]"

lemma show_nat_digits: "list_all is_digit (show_nat n)"
  using show_nat_chars digit_char_props(1) by (fastforce simp: list_all_iff)

lemma show_nat_head: "0 < n \<Longrightarrow> hd (show_nat n) \<noteq> CHR ''0''"
proof (induction n rule: show_nat.induct)
  case (1 n)
  show ?case
  proof (cases "n < 10")
    case True
    have "digit_val (digit_char n) \<noteq> digit_val (CHR ''0'')"
      using True 1(2) digit_char_props(2) [OF True] by (simp add: digit_val_def)
    with True show ?thesis by (subst show_nat.simps) auto
  next
    case False
    with 1 show ?thesis by (subst show_nat.simps) simp
  qed
qed

lemma number_ok_show: "number_ok (show_nat n)"
proof (cases "n = 0")
  case True
  have "number_ok (show_nat 0)" by code_simp
  with True show ?thesis by simp
qed (simp add: number_ok_def show_nat_digits show_nat_head)

lemma digit_plain: "is_digit c \<Longrightarrow> ident_char c \<and> \<not> py_space c \<and> c \<noteq> CHR ''.'' \<and> c \<noteq> CHR ''+'' \<and> c \<noteq> CHR ''-''"
  by (auto simp: is_digit_def ident_char_def py_space_def Let_def)

lemma ident_plain: "ident_char c \<Longrightarrow> \<not> py_space c \<and> c \<noteq> CHR ''.'' \<and> c \<noteq> CHR ''+''"
  by (auto simp: ident_char_def py_space_def Let_def)

lemma ident_list_join:
  assumes "idents_ok ids" and "ids \<noteq> []"
  shows "ident_list (py_join ''.'' ids) = Some ids"
proof -
  have "\<forall>i \<in> set ids. CHR ''.'' \<notin> set i"
    using assms(1) ident_plain by (fastforce simp: idents_ok_def list_all_iff)
  with assms show ?thesis by (simp add: ident_list_def py_split_join)
qed

lemma ident_list_Some:
  assumes "ident_list s = Some ids"
  shows "idents_ok ids" "ids \<noteq> []" "py_join ''.'' ids = s"
  using assms py_join_split [of "CHR ''.''" s]
  by (auto simp: ident_list_def Let_def split: if_splits)

lemma joined_chars:
  assumes "idents_ok ids"
  shows "CHR ''+'' \<notin> set (py_join ''.'' ids)" "\<forall>c \<in> set (py_join ''.'' ids). \<not> py_space c"
proof -
  have "c = CHR ''.'' \<or> ident_char c" if "c \<in> set (py_join ''.'' ids)" for c
    using that py_join_chars [of "''.''" ids] assms by (fastforce simp: idents_ok_def list_all_iff)
  moreover have "\<not> py_space (CHR ''.'')" by code_simp
  ultimately show "CHR ''+'' \<notin> set (py_join ''.'' ids)" "\<forall>c \<in> set (py_join ''.'' ids). \<not> py_space c"
    using ident_plain by (fastforce, blast)
qed

lemma core_chars:
  "c \<in> set (version_core v) \<Longrightarrow> c = CHR ''.'' \<or> is_digit c"
  using show_nat_digits by (auto simp: version_core_def list_all_iff)

lemma parse_core_str:
  assumes "version_ok v"
  shows "parse_core (version_core v) = Some (major v, minor v, patch v)"
proof -
  have free: "CHR ''.'' \<notin> set (show_nat n)" for n
    using show_nat_digits [of n] digit_plain by (fastforce simp: list_all_iff)
  have "py_split (CHR ''.'') (version_core v) = [show_nat (major v), show_nat (minor v), show_nat (patch v)]"
    by (simp add: version_core_def py_split_append free py_split_free)
  with assms show ?thesis
    by (simp add: parse_core_def number_ok_show digits_val_show_nat version_ok_def)
qed

lemma plain_version_str:
  assumes "version_ok v"
  shows "py_strip (version_str v) = version_str v"
proof -
  have "\<not> py_space c" if "c \<in> set (version_str v)" for c
  proof -
    have fixed: "\<not> py_space (CHR ''.'')" "\<not> py_space (CHR ''-'')" "\<not> py_space (CHR ''+'')" by code_simp+
    from that consider "c \<in> set (version_core v)" | "c = CHR ''-''" | "c = CHR ''+''"
      | "c \<in> set (py_join ''.'' (prerelease v))" | "c \<in> set (py_join ''.'' (build_tags v))"
      by (auto simp: version_str_def split: if_splits)
    then show ?thesis
      using core_chars [of c v] digit_plain fixed joined_chars(2) assms by cases (auto simp: version_ok_def)
  qed
  then show ?thesis by (simp add: py_strip_def py_lstrip_def py_rstrip_def dropWhile_none)
qed

lemma parse_version_str:
  assumes ok: "version_ok v"
  shows "parse_version (version_str v) = Some (v :: version)"
proof -
  let ?pre = "if prerelease v = [] then [] else ''-'' @ py_join ''.'' (prerelease v)"
  let ?bld = "if build_tags v = [] then [] else ''+'' @ py_join ''.'' (build_tags v)"
  have core: "CHR ''+'' \<notin> set (version_core v)" "CHR ''-'' \<notin> set (version_core v)"
    using core_chars digit_plain by fastforce+
  have ids: "idents_ok (prerelease v)" "idents_ok (build_tags v)" using ok by (simp_all add: version_ok_def)
  have plus: "hd (py_split1 (CHR ''+'') (version_str v)) = version_core v @ ?pre"
    "tail_idents (py_split1 (CHR ''+'') (version_str v)) = Some (build_tags v)"
  proof -
    have "CHR ''+'' \<notin> set (version_core v @ ?pre)" using core(1) joined_chars(1) [OF ids(1)] by auto
    then have "py_split1 (CHR ''+'') ((version_core v @ ?pre) @ ?bld) =
        (if build_tags v = [] then [version_core v @ ?pre] else [version_core v @ ?pre, py_join ''.'' (build_tags v)])"
      using py_split1_append [of "CHR ''+''" "version_core v @ ?pre" "py_join ''.'' (build_tags v)"]
      by (auto simp: py_split1_def)
    then show "hd (py_split1 (CHR ''+'') (version_str v)) = version_core v @ ?pre"
      "tail_idents (py_split1 (CHR ''+'') (version_str v)) = Some (build_tags v)"
      using ident_list_join [OF ids(2)] by (simp_all add: version_str_def tail_idents_def)
  qed
  have dash: "py_split1 (CHR ''-'') (version_core v @ ?pre) =
      (if prerelease v = [] then [version_core v] else [version_core v, py_join ''.'' (prerelease v)])"
    using core(2) py_split1_append [of "CHR ''-''" "version_core v" "py_join ''.'' (prerelease v)"]
    by (auto simp: py_split1_def)
  have "tail_idents (py_split1 (CHR ''-'') (version_core v @ ?pre)) = Some (prerelease v)"
    "hd (py_split1 (CHR ''-'') (version_core v @ ?pre)) = version_core v"
    unfolding dash using ident_list_join [OF ids(1)] by (simp_all add: tail_idents_def)
  with plus parse_core_str [OF ok] show ?thesis
    by (simp add: parse_version_def plain_version_str [OF ok] Let_def)
qed

lemma py_split1_cases:
  obtains "py_split1 sep s = [s]" "sep \<notin> set s"
  | a b where "py_split1 sep s = [a, b]" "s = a @ sep # b" "sep \<notin> set a"
proof (cases "sep \<in> set s")
  case True
  then obtain a b where "s = a @ sep # b" "sep \<notin> set a" by (meson split_list_first)
  then show ?thesis using that(2) [of a b] py_split1_append by metis
next
  case False
  then show ?thesis using that(1) by (simp add: py_split1_def)
qed

lemma parse_core_Some:
  assumes "parse_core s = Some (a, b, c)"
  shows "s = show_nat a @ ''.'' @ show_nat b @ ''.'' @ show_nat c"
    "list_all (\<lambda>n. length (show_nat n) \<le> 4300) [a, b, c]"
proof -
  obtain x y z where split: "py_split (CHR ''.'') s = [x, y, z]" and ok: "number_ok x" "number_ok y" "number_ok z"
    and len: "length x \<le> 4300" "length y \<le> 4300" "length z \<le> 4300"
    and v: "a = digits_val x" "b = digits_val y" "c = digits_val z"
    using assms by (auto simp: parse_core_def split: list.splits if_splits)
  have s: "s = x @ ''.'' @ y @ ''.'' @ z" using py_join_split [of "CHR ''.''" s] split by simp
  show "s = show_nat a @ ''.'' @ show_nat b @ ''.'' @ show_nat c"
    "list_all (\<lambda>n. length (show_nat n) \<le> 4300) [a, b, c]"
    using s len by (simp_all add: v show_digits_val ok)
qed

lemma parse_version_Some:
  assumes "parse_version raw = Some v"
  shows "version_str v = py_strip raw" "version_ok v"
proof -
  let ?s = "py_strip raw"
  let ?plus = "py_split1 (CHR ''+'') ?s"
  let ?dash = "py_split1 (CHR ''-'') (hd ?plus)"
  from assms have core: "parse_core (hd ?dash) = Some (major v, minor v, patch v)"
    and pre: "tail_idents ?dash = Some (prerelease v)" and bld: "tail_idents ?plus = Some (build_tags v)"
    by (auto simp: parse_version_def Let_def split: option.splits prod.splits)
  have dash: "idents_ok (prerelease v) \<and> hd ?plus = hd ?dash @
      (if prerelease v = [] then [] else ''-'' @ py_join ''.'' (prerelease v))"
  proof (cases rule: py_split1_cases [of "CHR ''-''" "hd ?plus"])
    case 1
    with pre show ?thesis by (simp add: tail_idents_def idents_ok_def)
  next
    case (2 a b)
    with pre ident_list_Some [of b "prerelease v"] show ?thesis by (simp add: tail_idents_def)
  qed
  have plus: "idents_ok (build_tags v) \<and> ?s = hd ?plus @
      (if build_tags v = [] then [] else ''+'' @ py_join ''.'' (build_tags v))"
  proof (cases rule: py_split1_cases [of "CHR ''+''" ?s])
    case 1
    with bld show ?thesis by (simp add: tail_idents_def idents_ok_def)
  next
    case (2 a b)
    with bld ident_list_Some [of b "build_tags v"] show ?thesis by (simp add: tail_idents_def)
  qed
  from dash plus parse_core_Some [OF core] show "version_str v = py_strip raw" "version_ok v"
    by (simp_all add: version_str_def version_core_def version_ok_def)
qed

text \<open>Printing and parsing are inverse: a text parses to exactly the version whose printed
  form it is, up to surrounding blanks, and every version made of valid parts is parsed back.\<close>

lemma version_text_roundtrip:
  "parse_version raw = Some v \<longleftrightarrow> version_ok v \<and> version_str v = py_strip raw"
proof
  show "parse_version raw = Some v \<Longrightarrow> version_ok v \<and> version_str v = py_strip raw"
    using parse_version_Some by blast
  assume v: "version_ok v \<and> version_str v = py_strip raw"
  then have "parse_version (py_strip raw) = Some v" using parse_version_str by metis
  then show "parse_version raw = Some v" by (simp add: parse_version_def)
qed

end
