(* ===== verification/UpdateChecker.thy ===== *)
theory UpdateChecker
  imports Releases
begin

text \<open>
  \<open>app/update_checker.py\<close>: the opt-in check for a newer release. Times are instants in seconds; the
  network is a function from a request to what the opener returns or raises, and every request that is sent is
  recorded. Reading and writing the two settings files succeeds, and the fixed texts of the
  field \<open>message\<close> are left out.
\<close>

section \<open>Settings, cache and results\<close>

record update_preferences =
  enabled :: bool
  pref_channel :: channel
  skipped_versions :: "string list"

record update_cache =
  cache_channel :: "channel option"
  releases_etag :: "string option"
  last_checked_at :: "int option"
  latest_checked_version :: "string option"
  cached_manifest :: "json option"

datatype update_status = Disabled | NotDue | Offline | Current | Available | Rejected

record update_result =
  up_status :: update_status
  up_latest :: "string option"
  up_checked :: "int option"
  up_manifest :: "release_manifest option"
  up_artifact :: "artifact_type option"
  up_warning :: "string option"

definition plain_result :: "update_status \<Rightarrow> int option \<Rightarrow> update_result" where
  "plain_result st tm = \<lparr>up_status = st, up_latest = None, up_checked = tm, up_manifest = None,
     up_artifact = None, up_warning = None\<rparr>"

definition day :: int where "day = 24 * 60 * 60"

definition check_due :: "int option \<Rightarrow> int \<Rightarrow> bool" where
  "check_due last_time now = (case last_time of None \<Rightarrow> True | Some t \<Rightarrow> t > now \<or> now - t \<ge> day)"

section \<open>The network\<close>

text \<open>
  What \<open>opener\<close> and \<open>_read_json\<close> give: an HTTP error, another \<open>OSError\<close> or a timeout, a body that is too
  large or does not decode, or a JSON value with its ETag.
\<close>

datatype response = HttpStatus int | Unreachable | BadBody | Payload json "string option"

datatype fetch_error = HttpFailed int | NetworkFailed | InvalidData | WrongType

record request =
  req_url :: string
  req_etag :: "string option"

record update_env =
  opener :: "request \<Rightarrow> response"
  url_parser :: url_parser
  manifest_fields :: "json \<Rightarrow> release_manifest option"
  manifest_dump :: "release_manifest \<Rightarrow> json"
  host :: host_platform
  mode :: installation_mode
  current_version :: string
  data_schema :: int

definition releases_apis :: "string list" where
  "releases_apis = map (\<lambda>r. ''https://api.github.com/repos'' @ r @ ''/releases?per_page=20'') repositories"

text \<open>The loop of \<open>_fetch_release_index\<close>; \<open>failed\<close> is \<open>last_error\<close>.\<close>

fun fetch_from ::
  "update_env \<Rightarrow> string option \<Rightarrow> fetch_error option \<Rightarrow> string list \<Rightarrow>
     (fetch_error, json \<times> string option) result \<times> request list" where
  "fetch_from env etag failed [] = (Inl (case failed of Some e \<Rightarrow> e | None \<Rightarrow> NetworkFailed), [])"
| "fetch_from env etag failed (u # us) =
     (let req = \<lparr>req_url = u, req_etag = etag\<rparr>
      in case opener env req of
           Payload j tag \<Rightarrow> (Inr (j, tag), [req])
         | BadBody \<Rightarrow> (Inl InvalidData, [req])
         | HttpStatus c \<Rightarrow>
             if c \<in> {301, 302, 307, 308, 404}
             then (let (r, reqs) = fetch_from env None (Some (HttpFailed c)) us in (r, req # reqs))
             else (Inl (HttpFailed c), [req])
         | Unreachable \<Rightarrow>
             (let (r, reqs) = fetch_from env None (Some NetworkFailed) us in (r, req # reqs)))"

definition fetch_release_index ::
  "update_env \<Rightarrow> string option \<Rightarrow> (fetch_error, json \<times> string option) result \<times> request list" where
  "fetch_release_index env etag = fetch_from env etag None releases_apis"

section \<open>Choosing a release\<close>

record candidate =
  cand_parsed :: version
  cand_priority :: nat
  cand_version :: string
  cand_url :: string

definition manifest_prefixes :: "string list" where
  "manifest_prefixes = artifact_prefix # legacy_artifact_prefixes"

definition manifest_priority :: "string \<Rightarrow> string \<Rightarrow> nat option" where
  "manifest_priority v name =
     map_of (zip (map (\<lambda>p. p @ ''-'' @ v @ ''-release-manifest.json'') (rev manifest_prefixes)) [1..<4]) name"

text \<open>Iterating \<open>x or []\<close>: strings and dicts have no dict elements, other truthy values raise \<open>TypeError\<close>.\<close>

definition assets_of :: "json \<Rightarrow> (fetch_error, json list) result" where
  "assets_of v =
     (if \<not> truthy v then Inr []
      else case v of JList xs \<Rightarrow> Inr xs | JStr _ \<Rightarrow> Inr [] | JObj _ \<Rightarrow> Inr [] | _ \<Rightarrow> Inl WrongType)"

fun asset_candidates ::
  "url_parser \<Rightarrow> version \<Rightarrow> string \<Rightarrow> json list \<Rightarrow> (fetch_error, candidate list) result" where
  "asset_candidates urlparse parsed v [] = Inr []"
| "asset_candidates urlparse parsed v (a # as) =
     (if \<not> is_obj a then asset_candidates urlparse parsed v as
      else case manifest_priority v (py_str (py_or (get a ''name'') (JStr []))) of
        None \<Rightarrow> asset_candidates urlparse parsed v as
      | Some p \<Rightarrow>
          let url = py_str (py_or (get a ''browser_download_url'') (JStr []))
          in case is_official_release_url urlparse url of
               None \<Rightarrow> Inl InvalidData
             | Some ok \<Rightarrow>
                 bindr (asset_candidates urlparse parsed v as) (\<lambda>cs.
                   Inr (if ok then \<lparr>cand_parsed = parsed, cand_priority = p, cand_version = v, cand_url = url\<rparr> # cs
                        else cs)))"

definition release_candidates :: "url_parser \<Rightarrow> channel \<Rightarrow> json \<Rightarrow> (fetch_error, candidate list) result" where
  "release_candidates urlparse ch r =
     (if \<not> is_obj r \<or> truthy (get r ''draft'') then Inr []
      else if ch = Stable \<and> truthy (get r ''prerelease'') then Inr []
      else
        let tag = py_str (py_or (get r ''tag_name'') (JStr []));
            v = remove_prefix tag ''v''
        in case parse_version v of
             None \<Rightarrow> Inr []
           | Some parsed \<Rightarrow>
               if channel_accepts ch v \<noteq> Some True then Inr []
               else bindr (assets_of (get r ''assets'')) (asset_candidates urlparse parsed v))"

fun all_candidates :: "url_parser \<Rightarrow> channel \<Rightarrow> json list \<Rightarrow> (fetch_error, candidate list) result" where
  "all_candidates urlparse ch [] = Inr []"
| "all_candidates urlparse ch (r # rs) =
     bindr (release_candidates urlparse ch r) (\<lambda>cs.
       bindr (all_candidates urlparse ch rs) (\<lambda>ds. Inr (cs @ ds)))"

text \<open>Tuples compare at the first component that differs; \<open>max\<close> keeps the first maximal element.\<close>

definition candidate_gt :: "candidate \<Rightarrow> candidate \<Rightarrow> bool" where
  "candidate_gt a b \<longleftrightarrow>
     (if version_eq (cand_parsed a) (cand_parsed b) then cand_priority a > cand_priority b
      else version_gt (cand_parsed a) (cand_parsed b))"

definition best_candidate :: "candidate \<Rightarrow> candidate list \<Rightarrow> candidate" where
  "best_candidate c cs = foldl (\<lambda>best x. if candidate_gt x best then x else best) c cs"

definition candidate_manifest_url ::
  "url_parser \<Rightarrow> json \<Rightarrow> channel \<Rightarrow> (fetch_error, candidate option) result" where
  "candidate_manifest_url urlparse releases ch =
     (case releases of
        JList rs \<Rightarrow> bindr (all_candidates urlparse ch rs) (\<lambda>cs.
          case cs of [] \<Rightarrow> Inr None | c # ds \<Rightarrow> Inr (Some (best_candidate c ds)))
      | _ \<Rightarrow> Inl InvalidData)"

definition manifest_channel_allowed :: "channel \<Rightarrow> channel \<Rightarrow> bool" where
  "manifest_channel_allowed selected published =
     (case selected of Stable \<Rightarrow> published = Stable | Beta \<Rightarrow> published \<in> {Stable, Beta} | Nightly \<Rightarrow> True)"

section \<open>The check\<close>

definition result_for_manifest ::
  "update_env \<Rightarrow> release_manifest option \<Rightarrow> update_preferences \<Rightarrow> update_status \<Rightarrow> int option \<Rightarrow> update_result" where
  "result_for_manifest env man prefs fallback tm =
     (case man of
        None \<Rightarrow> plain_result fallback tm
      | Some m \<Rightarrow>
          let latest = the (parse_version (man_version m));
              current = the (parse_version (current_version env));
              same_base = precedence latest = precedence current;
              same_stream = pref_channel prefs \<in> {Beta, Nightly} \<and> man_channel m = pref_channel prefs;
              installed = version_eq latest current;
              older = version_lt latest current \<and> \<not> (same_stream \<and> same_base);
              shown = (plain_result fallback tm)\<lparr>up_latest := Some (man_version m), up_manifest := Some m\<rparr>
          in if installed \<or> older \<or> man_version m \<in> set (skipped_versions prefs) then shown
             else
               let (schema_ok, schema_warning) = schema_compatibility (data_schema env) (data_compat m);
                   (platform_ok, platform_warning) = platform_compatibility (host env) m
               in case select_artifact (mode env) m of
                    Some a \<Rightarrow>
                      if schema_ok \<and> platform_ok
                      then shown\<lparr>up_status := Available, up_artifact := Some (art_type a)\<rparr>
                      else shown\<lparr>up_status := Rejected,
                             up_warning := (if schema_warning \<noteq> None then schema_warning else platform_warning)\<rparr>
                  | None \<Rightarrow> shown\<lparr>up_status := Rejected,
                             up_warning := (if schema_warning \<noteq> None then schema_warning
                               else if platform_warning \<noteq> None then platform_warning
                               else Some ''No compatible artifact is available.'')\<rparr>)"

definition wiped_cache :: update_cache where
  "wiped_cache = \<lparr>cache_channel = None, releases_etag = None, last_checked_at = None,
     latest_checked_version = None, cached_manifest = None\<rparr>"

definition validated_cached_manifest ::
  "update_env \<Rightarrow> update_cache \<Rightarrow> release_manifest option \<times> update_cache" where
  "validated_cached_manifest env cache =
     (case cached_manifest cache of
        None \<Rightarrow> (None, cache)
      | Some j \<Rightarrow>
          if \<not> truthy j then (None, cache)
          else case model_validate (url_parser env) (manifest_fields env) j of
            None \<Rightarrow> (None, wiped_cache)
          | Some m \<Rightarrow> (Some m, cache))"

text \<open>The body of the \<open>try\<close>: the outcome, the cache it saved and the requests it sent.\<close>

definition fetch_update ::
  "update_env \<Rightarrow> update_preferences \<Rightarrow> string option \<Rightarrow> int \<Rightarrow> update_cache \<Rightarrow>
     (fetch_error, update_result) result \<times> update_cache \<times> request list" where
  "fetch_update env prefs etag now cache =
     (case fetch_release_index env etag of
        (Inl e, reqs) \<Rightarrow> (Inl e, cache, reqs)
      | (Inr (releases, tag), reqs) \<Rightarrow>
          (case candidate_manifest_url (url_parser env) releases (pref_channel prefs) of
             Inl e \<Rightarrow> (Inl e, cache, reqs)
           | Inr None \<Rightarrow>
               (Inr (plain_result Current (Some now)),
                \<lparr>cache_channel = Some (pref_channel prefs), releases_etag = tag, last_checked_at = Some now,
                 latest_checked_version = None, cached_manifest = None\<rparr>, reqs)
           | Inr (Some c) \<Rightarrow>
               let req = \<lparr>req_url = cand_url c, req_etag = None\<rparr>; reqs2 = reqs @ [req]
               in case opener env req of
                    HttpStatus code \<Rightarrow> (Inl (HttpFailed code), cache, reqs2)
                  | Unreachable \<Rightarrow> (Inl NetworkFailed, cache, reqs2)
                  | BadBody \<Rightarrow> (Inl InvalidData, cache, reqs2)
                  | Payload j _ \<Rightarrow>
                      (case model_validate (url_parser env) (manifest_fields env) j of
                         None \<Rightarrow> (Inl InvalidData, cache, reqs2)
                       | Some m \<Rightarrow>
                           if man_version m \<noteq> cand_version c \<or>
                              channel_accepts (pref_channel prefs) (man_version m) \<noteq> Some True \<or>
                              \<not> manifest_channel_allowed (pref_channel prefs) (man_channel m)
                           then (Inl InvalidData, cache, reqs2)
                           else
                             (Inr (result_for_manifest env (Some m) prefs Current (Some now)),
                              \<lparr>cache_channel = Some (pref_channel prefs), releases_etag = tag, last_checked_at = Some now,
                               latest_checked_version = Some (man_version m), cached_manifest = Some (manifest_dump env m)\<rparr>,
                              reqs2))))"

text \<open>\<open>Inl\<close>: a \<open>TypeError\<close> leaves \<open>check\<close>.\<close>

definition check_update ::
  "update_env \<Rightarrow> update_preferences \<Rightarrow> bool \<Rightarrow> int \<Rightarrow> update_cache \<Rightarrow>
     (fetch_error, update_result) result \<times> update_cache \<times> request list" where
  "check_update env prefs force now cache0 =
     (let (man, cache) = (if cache_channel cache0 = Some (pref_channel prefs)
                          then validated_cached_manifest env cache0 else (None, cache0));
          matches = (cache_channel cache = Some (pref_channel prefs));
          checked = (if matches then last_checked_at cache else None)
      in if \<not> enabled prefs then (Inr (plain_result Disabled checked), cache, [])
         else if \<not> force \<and> \<not> check_due checked now
         then (Inr (result_for_manifest env man prefs NotDue checked), cache, [])
         else case fetch_update env prefs (if matches then releases_etag cache else None) now cache of
           (Inr r, cache2, reqs) \<Rightarrow> (Inr r, cache2, reqs)
         | (Inl (HttpFailed c), cache2, reqs) \<Rightarrow>
             if c = 304 \<and> matches
             then (Inr (if man = None then plain_result Current (Some now)
                        else result_for_manifest env man prefs Current (Some now)),
                   cache2\<lparr>last_checked_at := Some now\<rparr>, reqs)
             else (Inr (plain_result Offline (Some now)), cache2, reqs)
         | (Inl InvalidData, cache2, reqs) \<Rightarrow>
             (Inr ((plain_result Rejected (Some now))\<lparr>up_warning :=
                Some ''The published update metadata could not be validated.''\<rparr>), cache2, reqs)
         | (Inl NetworkFailed, cache2, reqs) \<Rightarrow> (Inr (plain_result Offline (Some now)), cache2, reqs)
         | (Inl WrongType, cache2, reqs) \<Rightarrow> (Inl WrongType, cache2, reqs))"

section \<open>What is offered, and what is asked for\<close>

definition offer_ok :: "update_env \<Rightarrow> update_preferences \<Rightarrow> release_manifest \<Rightarrow> release_artifact \<Rightarrow> bool" where
  "offer_ok env prefs m a \<longleftrightarrow>
     (\<exists>j. model_validate (url_parser env) (manifest_fields env) j = Some m) \<and>
     select_artifact (mode env) m = Some a \<and> validate_trust_state (url_parser env) a \<and>
     man_version m \<notin> set (skipped_versions prefs) \<and>
     fst (schema_compatibility (data_schema env) (data_compat m)) \<and> fst (platform_compatibility (host env) m) \<and>
     (let latest = the (parse_version (man_version m)); current = the (parse_version (current_version env))
      in version_gt latest current \<or>
         precedence latest = precedence current \<and> \<not> version_eq latest current \<and>
         pref_channel prefs \<noteq> Stable \<and> man_channel m = pref_channel prefs)"

lemma model_validate_Some:
  "model_validate urlparse parse_fields j = Some m \<Longrightarrow>
     list_all (validate_trust_state urlparse) (artifacts m) \<and> validate_schema_range (data_compat m) \<and>
     validate_release urlparse m"
  by (auto simp: model_validate_def split: option.splits if_splits)

lemma select_artifact_in: "select_artifact k m = Some a \<Longrightarrow> a \<in> set (artifacts m)"
  by (auto simp: select_artifact_def find_Some_iff)

lemma result_available:
  assumes "up_status (result_for_manifest env (Some m) prefs fallback tm) = Available" and "fallback \<noteq> Available"
    and "model_validate (url_parser env) (manifest_fields env) j = Some m"
  shows "\<exists>a. up_manifest (result_for_manifest env (Some m) prefs fallback tm) = Some m \<and>
     up_artifact (result_for_manifest env (Some m) prefs fallback tm) = Some (art_type a) \<and> offer_ok env prefs m a"
proof -
  obtain so sw where s: "schema_compatibility (data_schema env) (data_compat m) = (so, sw)" by fastforce
  obtain po pw where p: "platform_compatibility (host env) m = (po, pw)" by fastforce
  let ?l = "the (parse_version (man_version m))" and ?c = "the (parse_version (current_version env))"
  from assms(1,2) obtain a where a: "select_artifact (mode env) m = Some a" and ok: "so" "po"
    and new: "\<not> version_eq ?l ?c" "man_version m \<notin> set (skipped_versions prefs)"
    and old: "\<not> (version_lt ?l ?c \<and> \<not> ((pref_channel prefs = Beta \<or> pref_channel prefs = Nightly) \<and>
        man_channel m = pref_channel prefs \<and> precedence ?l = precedence ?c))"
    by (auto simp: result_for_manifest_def s p plain_result_def Let_def split: if_splits option.splits)
  have "validate_trust_state (url_parser env) a"
    using model_validate_Some [OF assms(3)] select_artifact_in [OF a] by (auto simp: list_all_iff)
  moreover have "version_gt ?l ?c \<or> precedence ?l = precedence ?c \<and> \<not> version_eq ?l ?c \<and>
      pref_channel prefs \<noteq> Stable \<and> man_channel m = pref_channel prefs"
    using new(1) old by (auto simp: version_gt_def)
  ultimately have "offer_ok env prefs m a" using assms(3) a ok new(2) s p by (auto simp: offer_ok_def Let_def)
  moreover have "up_manifest (result_for_manifest env (Some m) prefs fallback tm) = Some m"
    "up_artifact (result_for_manifest env (Some m) prefs fallback tm) = Some (art_type a)"
    using new old a ok by (auto simp: result_for_manifest_def s p plain_result_def Let_def)
  ultimately show ?thesis by blast
qed

lemma plain_not_available: "up_status (plain_result st tm) = st"
  by (simp add: plain_result_def)

definition offers :: "update_env \<Rightarrow> update_preferences \<Rightarrow> update_result \<Rightarrow> bool" where
  "offers env prefs r \<longleftrightarrow> up_status r \<noteq> Available \<or>
     (\<exists>m a. up_manifest r = Some m \<and> up_artifact r = Some (art_type a) \<and> offer_ok env prefs m a)"

lemma result_offers:
  assumes "fallback \<noteq> Available"
    and "\<forall>m. man = Some m \<longrightarrow> (\<exists>j. model_validate (url_parser env) (manifest_fields env) j = Some m)"
  shows "offers env prefs (result_for_manifest env man prefs fallback tm)"
proof (cases man)
  case None
  with assms(1) show ?thesis by (simp add: result_for_manifest_def offers_def plain_result_def)
next
  case (Some m)
  with assms obtain j where "model_validate (url_parser env) (manifest_fields env) j = Some m" by blast
  with result_available assms(1) Some show ?thesis by (fastforce simp: offers_def)
qed

lemma fetch_offers:
  assumes "fetch_update env prefs etag now cache = (Inr r, rest)"
  shows "offers env prefs r"
proof -
  obtain f reqs where f: "fetch_release_index env etag = (f, reqs)" by fastforce
  from assms obtain j tag where "f = Inr (j, tag)" by (auto simp: fetch_update_def f split: sum.splits)
  with assms f consider "r = plain_result Current (Some now)"
    | m i where "r = result_for_manifest env (Some m) prefs Current (Some now)"
        "model_validate (url_parser env) (manifest_fields env) i = Some m"
    by (auto simp: fetch_update_def Let_def split: sum.splits option.splits response.splits if_splits)
  then show ?thesis
  proof cases
    case 1
    then show ?thesis by (simp add: offers_def plain_result_def)
  next
    case 2
    then show ?thesis using result_offers by blast
  qed
qed

lemma cached_validated:
  "validated_cached_manifest env cache = (man, cache') \<Longrightarrow>
     \<forall>m. man = Some m \<longrightarrow> (\<exists>j. model_validate (url_parser env) (manifest_fields env) j = Some m)"
  by (auto simp: validated_cached_manifest_def split: option.splits if_splits)

lemma check_offers:
  assumes "check_update env prefs force now cache0 = (Inr r, rest)"
  shows "offers env prefs r \<and> (up_status r = Available \<longrightarrow> enabled prefs)"
proof -
  obtain man cache where mc: "(if cache_channel cache0 = Some (pref_channel prefs)
      then validated_cached_manifest env cache0 else (None, cache0)) = (man, cache)" by fastforce
  have man: "\<forall>m. man = Some m \<longrightarrow> (\<exists>j. model_validate (url_parser env) (manifest_fields env) j = Some m)"
    using mc cached_validated by (auto split: if_splits)
  let ?m = "cache_channel cache = Some (pref_channel prefs)"
  let ?etag = "if ?m then releases_etag cache else None"
  obtain fr cache2 reqs where f: "fetch_update env prefs ?etag now cache = (fr, cache2, reqs)"
    by (metis prod_cases3)
  have plain: "offers env prefs (plain_result st tm)" "offers env prefs ((plain_result st tm)\<lparr>up_warning := w\<rparr>)"
    if "st \<noteq> Available" for st tm w using that by (simp_all add: offers_def plain_result_def)
  show ?thesis
  proof (cases "enabled prefs")
    case False
    with assms have "r = plain_result Disabled (if ?m then last_checked_at cache else None)"
      by (simp add: check_update_def mc Let_def)
    then show ?thesis using plain(1) by (simp add: plain_result_def)
  next
    case True
    have "offers env prefs r"
    proof (cases fr)
      case (Inr x)
      then have "offers env prefs x" using fetch_offers f by metis
      then show ?thesis using assms True man Inr f
        by (auto simp: check_update_def mc Let_def intro: result_offers split: if_splits)
    next
      case (Inl e)
      then show ?thesis using assms True man f
        by (cases e) (auto simp: check_update_def mc Let_def intro: result_offers plain split: if_splits)
    qed
    with True show ?thesis by blast
  qed
qed

section \<open>A release feed\<close>

definition demo_url_parser :: url_parser where
  "demo_url_parser u = Some \<lparr>scheme = ''https'', hostname = Some ''github.com'', username = None, password = None,
     port = Some None, params = [], query = [], fragment = [], path = u\<rparr>"

definition demo_manifest :: release_manifest where
  "demo_manifest = \<lparr>man_version = ''1.2.0'', man_channel = Stable, minimum_windows_version = ''10'', minimum_windows_build = 19041,
     man_schema_version = 1, published_at = 0, architecture = ''x64'', source_commit = [], source_tree_clean = True,
     api_compatibility = (True, True, True), openvino_versions = ([], [], []),
     artifacts = [\<lparr>art_type = Installer, art_filename = ''InferBridge-1.2.0-windows-x64-installer.exe'',
       art_url = ''/Quazmoz/InferBridge/releases/download/i'', art_sha256 = [], art_size = 1, signed = False,
       signature_verified = False, launcher_signed = False, launcher_verified = False\<rparr>],
     data_compat = \<lparr>minimum_supported_schema = 1, current_schema = 1, downgrade_from_schema = 1,
       model_cache_compatible = True, compiled_cache_policy = []\<rparr>,
     release_notes_url = ''/Quazmoz/InferBridge'', known_issues_url = ''/Quazmoz/InferBridge/i'',
     compatibility_matrix_url = ''/Quazmoz/InferBridge/c'',
     summary = [], highlights = [], dependency_inventory = []\<rparr>"

definition demo_release :: "string \<Rightarrow> json \<Rightarrow> json" where
  "demo_release v assets = JObj [(''tag_name'', JStr (''v'' @ v)), (''assets'', assets)]"

definition demo_asset :: "string \<Rightarrow> json" where
  "demo_asset v = JObj [(''name'', JStr (''InferBridge-'' @ v @ ''-release-manifest.json'')),
     (''browser_download_url'', JStr (''/Quazmoz/InferBridge/releases/download/'' @ v))]"

definition demo_feed :: "json list" where
  "demo_feed = [demo_release ''1.1.0'' (JList [demo_asset ''1.1.0'']), demo_release ''1.2.0'' (JList [JNull, demo_asset ''1.2.0''])]"

definition demo_update_env :: "json \<Rightarrow> update_env" where
  "demo_update_env releases = \<lparr>opener = (\<lambda>q. if req_url q \<in> set releases_apis then Payload releases None else Payload JNull None),
     url_parser = demo_url_parser, manifest_fields = (\<lambda>_. Some demo_manifest), manifest_dump = (\<lambda>_. JNull),
     host = \<lparr>os_name = ''posix'', machine = [], windows_build = None\<rparr>, mode = Installed,
     current_version = ''1.1.1-dev.1'', data_schema = 1\<rparr>"

definition demo_preferences :: update_preferences where
  "demo_preferences = \<lparr>enabled = True, pref_channel = Stable, skipped_versions = []\<rparr>"

definition demo_check :: "(fetch_error, update_result) result \<times> update_cache \<times> request list" where
  "demo_check = check_update (demo_update_env (JList demo_feed)) demo_preferences False 5 wiped_cache"

text \<open>C22: an update is offered only when it should be: checks are switched on, the manifest passed
  every validator, its version is newer than the running one (or another build of the same version
  in the selected pre-release stream), it was not skipped, it suits the platform and the data schema, and the
  offered artifact lies in an official release and has no unverified signature.\<close>

theorem offered_update_is_eligible:
  assumes "check_update env prefs force now cache = (Inr r, cache', reqs)" and "up_status r = Available"
  shows "enabled prefs \<and>
    (\<exists>m a. up_manifest r = Some m \<and> up_artifact r = Some (art_type a) \<and> offer_ok env prefs m a)"
  using check_offers [OF assms(1)] assms(2) by (auto simp: offers_def)

theorem offered_update_is_eligible_witness:
  "\<exists>r. fst demo_check = Inr r \<and> up_status r = Available \<and> up_latest r = Some ''1.2.0'' \<and>
     (\<exists>m a. up_manifest r = Some m \<and> up_artifact r = Some (art_type a) \<and>
        offer_ok (demo_update_env (JList demo_feed)) demo_preferences m a)"
proof -
  have "(case fst demo_check of Inl _ \<Rightarrow> None | Inr r \<Rightarrow> Some (up_status r, up_latest r)) = Some (Available, Some ''1.2.0'')"
    by code_simp
  then obtain r where r: "fst demo_check = Inr r" "up_status r = Available" "up_latest r = Some ''1.2.0''"
    by (auto split: sum.splits)
  obtain c q where "demo_check = (Inr r, c, q)" using r(1) by (metis prod.collapse)
  from offered_update_is_eligible [OF this [unfolded demo_check_def] r(2)] r show ?thesis by blast
qed


lemma fetch_from_requests:
  "fetch_from env etag failed us = (r, reqs) \<Longrightarrow> list_all (\<lambda>q. req_url q \<in> set us) reqs"
  by (induction env etag failed us arbitrary: r reqs rule: fetch_from.induct)
    (auto simp: Let_def list_all_iff split: response.splits if_splits prod.splits)

lemma asset_candidates_official:
  "asset_candidates urlparse parsed v as = Inr cs \<Longrightarrow>
     list_all (\<lambda>c. is_official_release_url urlparse (cand_url c) = Some True \<and> cand_parsed c = parsed \<and>
       cand_version c = v) cs"
  by (induction urlparse parsed v as arbitrary: cs rule: asset_candidates.induct)
    (auto simp: Let_def bindr_eq_Inr split: if_splits option.splits)

lemma release_candidates_official:
  "release_candidates urlparse ch r = Inr cs \<Longrightarrow>
     list_all (\<lambda>c. is_official_release_url urlparse (cand_url c) = Some True \<and>
       parse_version (cand_version c) = Some (cand_parsed c) \<and> channel_accepts ch (cand_version c) = Some True) cs"
  by (auto simp: release_candidates_def Let_def bindr_eq_Inr list_all_iff
      split: if_splits option.splits dest!: asset_candidates_official)

lemma all_candidates_official:
  "all_candidates urlparse ch rs = Inr cs \<Longrightarrow>
     list_all (\<lambda>c. is_official_release_url urlparse (cand_url c) = Some True \<and>
       parse_version (cand_version c) = Some (cand_parsed c) \<and> channel_accepts ch (cand_version c) = Some True) cs"
  by (induction urlparse ch rs arbitrary: cs rule: all_candidates.induct)
    (auto simp: bindr_eq_Inr dest: release_candidates_official)

lemma best_candidate_in: "best_candidate c cs \<in> set (c # cs)"
proof (induction cs rule: rev_induct)
  case (snoc x cs)
  then show ?case by (auto simp: best_candidate_def)
qed (simp add: best_candidate_def)

lemma chosen_from_candidates:
  assumes "candidate_manifest_url urlparse releases ch = Inr (Some c)"
  obtains rs d ds where "releases = JList rs" "all_candidates urlparse ch rs = Inr (d # ds)" "c = best_candidate d ds"
  using assms by (auto simp: candidate_manifest_url_def bindr_eq_Inr neq_Nil_conv split: json.splits list.splits)

lemma fetch_update_requests:
  assumes "fetch_update env prefs etag now cache = (r, cache', reqs)"
  shows "list_all (\<lambda>q. req_url q \<in> set releases_apis \<or>
    is_official_release_url (url_parser env) (req_url q) = Some True) reqs"
proof -
  obtain f reqs0 where f: "fetch_release_index env etag = (f, reqs0)" by fastforce
  then have index: "list_all (\<lambda>q. req_url q \<in> set releases_apis) reqs0"
    unfolding fetch_release_index_def by (rule fetch_from_requests)
  have url: "is_official_release_url (url_parser env) (cand_url c) = Some True"
    if "candidate_manifest_url (url_parser env) releases ch = Inr (Some c)" for releases ch c
  proof (rule chosen_from_candidates [OF that])
    fix rs d ds assume "all_candidates (url_parser env) ch rs = Inr (d # ds)" "c = best_candidate d ds"
    then show ?thesis using all_candidates_official best_candidate_in [of d ds] by (auto simp: list_all_iff)
  qed
  from assms f have "reqs = reqs0 \<or> (\<exists>c releases. reqs = reqs0 @ [\<lparr>req_url = cand_url c, req_etag = None\<rparr>] \<and>
      candidate_manifest_url (url_parser env) releases (pref_channel prefs) = Inr (Some c))"
    by (auto simp: fetch_update_def Let_def split: sum.splits option.splits response.splits if_splits)
  with index url show ?thesis by (fastforce simp: list_all_iff)
qed

text \<open>The check is as private as promised: switched off it sends nothing, nor does it before
  the interval has passed unless forced, and whatever it sends goes to one of the two GitHub
  release lists or to an official release download.\<close>

lemma update_requests_are_private:
  assumes "check_update env prefs force now cache = (r, cache', reqs)"
  shows "list_all (\<lambda>q. req_url q \<in> set releases_apis \<or>
      is_official_release_url (url_parser env) (req_url q) = Some True) reqs \<and>
    (\<not> enabled prefs \<longrightarrow> reqs = [])"
proof -
  obtain man c2 where mc: "(if cache_channel cache = Some (pref_channel prefs)
      then validated_cached_manifest env cache else (None, cache)) = (man, c2)" by fastforce
  let ?m = "cache_channel c2 = Some (pref_channel prefs)"
  obtain fr c3 rq where f: "fetch_update env prefs (if ?m then releases_etag c2 else None) now c2 = (fr, c3, rq)"
    by (metis prod_cases3)
  have "reqs = [] \<or> enabled prefs \<and> reqs = rq"
    using assms f by (auto simp: check_update_def mc Let_def split: sum.splits if_splits fetch_error.splits)
  with fetch_update_requests [OF f] show ?thesis by auto
qed

lemma update_requests_are_private_witness:
  "length (snd (snd demo_check)) = 2 \<and>
   list_all (\<lambda>q. req_url q \<in> set releases_apis \<or> is_official_release_url demo_url_parser (req_url q) = Some True)
     (snd (snd demo_check))"
proof -
  have "check_update (demo_update_env (JList demo_feed)) demo_preferences False 5 wiped_cache =
      (fst demo_check, fst (snd demo_check), snd (snd demo_check))" by (simp add: demo_check_def)
  from update_requests_are_private [OF this]
  have "list_all (\<lambda>q. req_url q \<in> set releases_apis \<or> is_official_release_url demo_url_parser (req_url q) = Some True)
     (snd (snd demo_check))" by (simp add: demo_update_env_def)
  moreover have "length (snd (snd demo_check)) = 2" by code_simp
  ultimately show ?thesis by blast
qed


section \<open>The newest release is chosen\<close>

definition candidate_key :: "candidate \<Rightarrow> ((nat \<times> nat \<times> nat) \<times> nat \<times> ident list) \<times> nat" where
  "candidate_key c = (version_key (cand_parsed c), cand_priority c)"

lemma candidate_gt_key:
  assumes "canonical (cand_parsed a)" and "canonical (cand_parsed b)"
  shows "candidate_gt a b \<longleftrightarrow> candidate_key b < candidate_key a"
  using version_order_key [OF assms] by (auto simp: candidate_gt_def candidate_key_def lex_less)

lemma best_candidate_max:
  assumes "\<forall>x \<in> set (c # cs). canonical (cand_parsed x)"
  shows "\<forall>x \<in> set (c # cs). candidate_key x \<le> candidate_key (best_candidate c cs)"
  using assms
proof (induction cs rule: rev_induct)
  case (snoc y cs)
  let ?b = "best_candidate c cs"
  have canon: "canonical (cand_parsed y)" "canonical (cand_parsed ?b)"
    using snoc.prems best_candidate_in [of c cs] by auto
  have IH: "\<forall>x \<in> set (c # cs). candidate_key x \<le> candidate_key ?b" using snoc by simp
  have "best_candidate c (cs @ [y]) = (if candidate_gt y ?b then y else ?b)"
    by (simp add: best_candidate_def)
  then show ?case using IH candidate_gt_key [OF canon] by (auto intro: order.trans less_imp_le)
qed (simp add: best_candidate_def)

text \<open>Among all acceptable releases the newest is chosen, and of two manifests of it the one with the
  current product name: no acceptable asset of the response has a larger version and priority, when
  versions have no leading zeros.\<close>

lemma newest_release_is_chosen:
  assumes "candidate_manifest_url urlparse (JList rs) ch = Inr (Some c)"
    and "all_candidates urlparse ch rs = Inr cs" and "\<forall>d \<in> set cs. canonical (cand_parsed d)"
  shows "c \<in> set cs \<and> (\<forall>d \<in> set cs. candidate_key d \<le> candidate_key c) \<and>
    is_official_release_url urlparse (cand_url c) = Some True \<and> channel_accepts ch (cand_version c) = Some True"
proof (rule chosen_from_candidates [OF assms(1)])
  fix rs' d ds assume "JList rs = JList rs'" "all_candidates urlparse ch rs' = Inr (d # ds)" and c: "c = best_candidate d ds"
  then have cs: "cs = d # ds" using assms(2) by simp
  with c have "c \<in> set cs" using best_candidate_in by metis
  with assms(3) best_candidate_max [of d ds] all_candidates_official [OF assms(2)] show ?thesis
    by (auto simp: cs c [symmetric] list_all_iff)
qed

lemma newest_release_is_chosen_witness:
  "\<exists>c. candidate_manifest_url demo_url_parser (JList demo_feed) Stable = Inr (Some c) \<and>
     cand_version c = ''1.2.0'' \<and> is_official_release_url demo_url_parser (cand_url c) = Some True"
proof -
  have "(case candidate_manifest_url demo_url_parser (JList demo_feed) Stable of Inr (Some c) \<Rightarrow> cand_version c | _ \<Rightarrow> []) = ''1.2.0''"
    by code_simp
  then obtain c where c: "candidate_manifest_url demo_url_parser (JList demo_feed) Stable = Inr (Some c)" "cand_version c = ''1.2.0''"
    by (auto split: sum.splits option.splits)
  obtain rs d ds where "JList demo_feed = JList rs" and cs: "all_candidates demo_url_parser Stable rs = Inr (d # ds)"
    by (rule chosen_from_candidates [OF c(1)])
  then have all: "all_candidates demo_url_parser Stable demo_feed = Inr (d # ds)" by simp
  have "(case all_candidates demo_url_parser Stable demo_feed of Inr cs \<Rightarrow> list_all (\<lambda>d. canonical (cand_parsed d)) cs | _ \<Rightarrow> True)"
    by code_simp
  then have "\<forall>x \<in> set (d # ds). canonical (cand_parsed x)" by (simp add: all list_all_iff)
  from newest_release_is_chosen [OF c(1) all this] c show ?thesis by blast
qed

text \<open>A malformed release list is not always rejected quietly: an \<open>assets\<close> field that is a number
  or \<open>true\<close> raises \<open>TypeError\<close>, which none of the handlers catches.\<close>

lemma malformed_assets_escape:
  "fst (check_update (demo_update_env (JList [demo_release ''1.2.0'' (JInt 1)])) demo_preferences False 5 wiped_cache)
     = Inl WrongType"
proof -
  have "(case fst (check_update (demo_update_env (JList [demo_release ''1.2.0'' (JInt 1)])) demo_preferences False 5 wiped_cache) of
      Inl e \<Rightarrow> e = WrongType | Inr _ \<Rightarrow> False)" by code_simp
  then show ?thesis by (auto split: sum.splits)
qed

end
