(* ===== verification/Access.thy ===== *)
theory Access
  imports PyValue "HOL-Library.Word" "HOL-Library.AList"
begin

text \<open>
  Who reaches the API: the boundary against remote clients of \<open>app/network_exposure_safety.py\<close>, the
  API-key dependency of the routes with its record of failures and the per-key statistics of
  \<open>app/server.py\<close>, and the browser-origin check of \<open>app/local_request_security.py\<close>. The parsers
  of IP addresses and URLs are parameters. Header values are Latin-1 text, so comparing their UTF-8 encodings is
  comparing the texts.
\<close>

section \<open>Addresses\<close>

datatype ip = V4 "32 word" | V6 "128 word"

type_synonym ip_parser = "string \<Rightarrow> ip option"

definition v4_loopback :: "32 word \<Rightarrow> bool" where
  "v4_loopback w \<longleftrightarrow> drop_bit 24 w = 127"

definition ipv4_mapped :: "128 word \<Rightarrow> (32 word) option" where
  "ipv4_mapped w = (if drop_bit 32 w = 0xFFFF then Some (ucast w) else None)"

definition is_loopback :: "ip \<Rightarrow> bool" where
  "is_loopback a = (case a of V4 w \<Rightarrow> v4_loopback w
     | V6 w \<Rightarrow> w = 1 \<or> (case ipv4_mapped w of Some v \<Rightarrow> v4_loopback v | None \<Rightarrow> False))"

definition unbracket :: "string \<Rightarrow> string" where
  "unbracket h = (if starts_with h ''['' \<and> suffix '']'' h then take (length h - 2) (drop 1 h) else h)"

definition host_is_loopback :: "ip_parser \<Rightarrow> string \<Rightarrow> bool" where
  "host_is_loopback ip_address value =
     (let host = py_lower (py_strip value)
      in if host = [] then False
         else if host \<in> {''localhost'', ''ip6-localhost''} then True
         else case ip_address (unbracket host) of None \<Rightarrow> False | Some a \<Rightarrow> is_loopback a)"

section \<open>Requests\<close>

record http_request =
  scope_type :: string
  client_host :: "string option"
  req_method :: string
  req_path :: string
  req_headers :: "(string \<times> string) list"

definition header :: "http_request \<Rightarrow> string \<Rightarrow> string option" where
  "header r name = map_of (map (\<lambda>(n, v). (py_lower n, v)) (req_headers r)) name"

definition header_text :: "http_request \<Rightarrow> string \<Rightarrow> string" where
  "header_text r name = (case header r name of Some v \<Rightarrow> v | None \<Rightarrow> [])"

definition configured_keys :: "string option \<Rightarrow> string list" where
  "configured_keys api_key =
     (let raw = (case api_key of Some k \<Rightarrow> k | None \<Rightarrow> [])
      in filter (\<lambda>k. k \<noteq> []) (map py_strip (py_split (CHR '','') raw)))"

definition matches_any_secret :: "string \<Rightarrow> string list \<Rightarrow> bool" where
  "matches_any_secret supplied expected = fold (\<lambda>c matched. supplied = c \<or> matched) expected False"

definition bearer_token :: "string \<Rightarrow> string option" where
  "bearer_token authorization =
     (if starts_with authorization ''Bearer '' then Some (remove_prefix authorization ''Bearer '') else None)"

definition bearer_is_valid :: "http_request \<Rightarrow> string list \<Rightarrow> bool" where
  "bearer_is_valid r configured =
     (case bearer_token (header_text r ''authorization'') of
        None \<Rightarrow> False | Some t \<Rightarrow> matches_any_secret t configured)"

definition is_cors_preflight :: "http_request \<Rightarrow> bool" where
  "is_cors_preflight r \<longleftrightarrow> py_upper (req_method r) = ''OPTIONS'' \<and>
     py_strip (header_text r ''origin'') \<noteq> [] \<and>
     py_strip (header_text r ''access-control-request-method'') \<noteq> []"

section \<open>The boundary\<close>

datatype boundary = Forward | NeedsKey | NotAuthorized

definition api_path :: "string \<Rightarrow> bool" where
  "api_path p \<longleftrightarrow> p = ''/v1'' \<or> starts_with p ''/v1/''"

definition local_client :: "ip_parser \<Rightarrow> http_request \<Rightarrow> bool" where
  "local_client ip_address r =
     (let host = py_strip (case client_host r of Some h \<Rightarrow> h | None \<Rightarrow> [])
      in host = ''testclient'' \<or> host_is_loopback ip_address host)"

text \<open>\<open>UnauthenticatedRemoteAccessMiddleware.__call__\<close>: the two refusals have status 403 and 401.\<close>

definition remote_boundary :: "ip_parser \<Rightarrow> string option \<Rightarrow> http_request \<Rightarrow> boundary" where
  "remote_boundary ip_address api_key r =
     (if scope_type r \<noteq> ''http'' then Forward
      else if local_client ip_address r then Forward
      else let configured = configured_keys api_key
           in if configured = [] then NeedsKey
              else if api_path (req_path r) then Forward
              else if is_cors_preflight r then Forward
              else if \<not> bearer_is_valid r configured then NotAuthorized
              else Forward)"

section \<open>The key of an API call\<close>

record key_stats =
  key_requests :: int
  key_prompt_tokens :: int
  key_completion_tokens :: int
  key_latency :: rat

record access =
  auth_failures :: "(string \<times> rat list) list"
  stats :: "(string \<times> key_stats) list"

definition zero_stats :: key_stats where
  "zero_stats = \<lparr>key_requests = 0, key_prompt_tokens = 0, key_completion_tokens = 0, key_latency = 0\<rparr>"

definition start_access :: "string option \<Rightarrow> access" where
  "start_access api_key =
     \<lparr>auth_failures = [],
      stats = (let ks = fold (\<lambda>k m. AList.update k zero_stats m) (configured_keys api_key) []
               in if ks = [] then [(''default'', zero_stats)] else ks)\<rparr>"

definition failure_window :: rat where "failure_window = 300"

definition failure_max :: nat where "failure_max = 10"

datatype auth_result = Accepted string | Unauthorized | TooMany int

text \<open>The failures of one source inside the window.\<close>

definition recent :: "rat \<Rightarrow> rat list \<Rightarrow> rat list" where
  "recent now ts = filter (\<lambda>t. t > now - failure_window) ts"

definition failures_of :: "access \<Rightarrow> string \<Rightarrow> rat list" where
  "failures_of s source = (case map_of (auth_failures s) source of Some ts \<Rightarrow> ts | None \<Rightarrow> [])"

definition auth_failure :: "rat \<Rightarrow> string \<Rightarrow> access \<Rightarrow> auth_result \<times> access" where
  "auth_failure now source s =
     (let kept = filter (\<lambda>(key, ts). key = source \<or> recent now ts \<noteq> []) (auth_failures s);
          failures = recent now (failures_of s source) @ [now];
          s1 = s\<lparr>auth_failures := AList.update source failures kept\<rparr>
      in if failure_max < length failures
         then (TooMany (max 1 (\<lfloor>hd failures + failure_window - now\<rfloor> + 1)), s1)
         else (Unauthorized, s1))"

definition first_match :: "string \<Rightarrow> string list \<Rightarrow> string option" where
  "first_match t ks = find (\<lambda>k. t = k) ks"

definition require_api_key ::
  "string option \<Rightarrow> rat \<Rightarrow> http_request \<Rightarrow> access \<Rightarrow> auth_result \<times> access" where
  "require_api_key api_key now r s =
     (let keys = configured_keys api_key;
          source = (case client_host r of Some h \<Rightarrow> h | None \<Rightarrow> ''unknown'')
      in if keys = [] then (Accepted ''default'', s)
         else case Option.bind (header r ''authorization'') bearer_token of
           None \<Rightarrow> auth_failure now source s
         | Some t \<Rightarrow>
             (case first_match t keys of
                None \<Rightarrow> auth_failure now source s
              | Some k \<Rightarrow> (Accepted k, s\<lparr>auth_failures := AList.delete source (auth_failures s)\<rparr>)))"

definition add_usage :: "int \<Rightarrow> int \<Rightarrow> rat \<Rightarrow> key_stats \<Rightarrow> key_stats" where
  "add_usage p c latency st =
     \<lparr>key_requests = key_requests st + 1, key_prompt_tokens = key_prompt_tokens st + p,
      key_completion_tokens = key_completion_tokens st + c, key_latency = key_latency st + latency\<rparr>"

definition stats_key :: "string \<Rightarrow> access \<Rightarrow> string option" where
  "stats_key active s =
     (if map_of (stats s) active \<noteq> None then Some active
      else if map_of (stats s) ''default'' \<noteq> None then Some ''default''
      else if stats s \<noteq> [] then Some (fst (hd (stats s))) else None)"

definition record_key_metrics :: "string \<Rightarrow> int \<Rightarrow> int \<Rightarrow> rat \<Rightarrow> access \<Rightarrow> access" where
  "record_key_metrics active p c latency s =
     (case stats_key active s of
        None \<Rightarrow> s
      | Some key \<Rightarrow> if key = [] then s
          else s\<lparr>stats := AList.map_entry key (add_usage p c latency) (stats s)\<rparr>)"

text \<open>A request to a route with the dependency, behind the boundary; \<open>None\<close>: refused by the boundary.\<close>

definition api_call ::
  "ip_parser \<Rightarrow> string option \<Rightarrow> rat \<Rightarrow> http_request \<Rightarrow> access \<Rightarrow> auth_result option \<times> access" where
  "api_call ip_address api_key now r s =
     (if remote_boundary ip_address api_key r \<noteq> Forward then (None, s)
      else let (res, s1) = require_api_key api_key now r s in (Some res, s1))"

section \<open>Browser origins\<close>

record url_parts =
  url_scheme :: string
  url_host :: "string option"
  url_port :: "int option"

definition effective_port :: "string \<Rightarrow> int option \<Rightarrow> int option" where
  "effective_port sch p =
     (if p \<noteq> None then p else if sch = ''http'' then Some 80 else if sch = ''https'' then Some 443 else None)"

definition loopback_hosts :: "string list" where "loopback_hosts = [''127.0.0.1'', ''localhost'', ''::1'']"

definition host_text :: "url_parts \<Rightarrow> string" where
  "host_text u = py_lower (case url_host u of Some h \<Rightarrow> h | None \<Rightarrow> [])"

text \<open>\<open>urlsplit\<close> of the origin, \<open>None\<close> when it or its port raises; the result: is the request let through?\<close>

definition require_safe_browser_origin ::
  "(string \<Rightarrow> url_parts option) \<Rightarrow> url_parts \<Rightarrow> http_request \<Rightarrow> bool" where
  "require_safe_browser_origin urlsplit url r =
     (if py_lower (py_strip (header_text r ''sec-fetch-site'')) = ''cross-site'' then False
      else case header r ''origin'' of
        None \<Rightarrow> True
      | Some origin \<Rightarrow>
          (case urlsplit origin of
             None \<Rightarrow> False
           | Some o_url \<Rightarrow>
               host_text url \<in> set loopback_hosts \<and> host_text o_url = host_text url \<and>
               py_lower (url_scheme o_url) = py_lower (url_scheme url) \<and>
               effective_port (py_lower (url_scheme o_url)) (url_port o_url) =
                 effective_port (py_lower (url_scheme url)) (url_port url)))"

section \<open>Remote callers carry a key\<close>

lemma matches_any_secret_iff: "matches_any_secret t ks \<longleftrightarrow> t \<in> set ks"
proof -
  have "fold (\<lambda>c matched. t = c \<or> matched) ks b \<longleftrightarrow> b \<or> t \<in> set ks" for b
    by (induction ks arbitrary: b) auto
  then show ?thesis by (simp add: matches_any_secret_def)
qed

lemma bearer_token_Some: "bearer_token a = Some t \<longleftrightarrow> a = ''Bearer '' @ t"
proof
  assume "bearer_token a = Some t"
  then have p: "prefix ''Bearer '' a" "t = drop (length ''Bearer '') a"
    by (auto simp: bearer_token_def remove_prefix_def split: if_splits)
  then show "a = ''Bearer '' @ t" by (auto simp: prefix_def)
next
  assume a: "a = ''Bearer '' @ t"
  then have "prefix ''Bearer '' a" by (simp add: prefix_def)
  then show "bearer_token a = Some t" unfolding bearer_token_def remove_prefix_def by (simp add: a)
qed

definition presents_key :: "string option \<Rightarrow> http_request \<Rightarrow> bool" where
  "presents_key api_key r \<longleftrightarrow>
     (\<exists>k \<in> set (configured_keys api_key). header r ''authorization'' = Some (''Bearer '' @ k))"

lemma bearer_presents: "bearer_is_valid r (configured_keys api_key) \<Longrightarrow> presents_key api_key r"
proof -
  assume v: "bearer_is_valid r (configured_keys api_key)"
  then obtain t where t: "bearer_token (header_text r ''authorization'') = Some t" "t \<in> set (configured_keys api_key)"
    by (auto simp: bearer_is_valid_def matches_any_secret_iff split: option.splits)
  then have h: "header_text r ''authorization'' = ''Bearer '' @ t" by (simp add: bearer_token_Some)
  then have "header r ''authorization'' = Some (''Bearer '' @ t)"
    by (auto simp: header_text_def split: option.splits)
  with t(2) show ?thesis by (auto simp: presents_key_def)
qed

lemma accepted_presents:
  assumes "require_api_key api_key now r s = (Accepted k, s')" and "configured_keys api_key \<noteq> []"
  shows "presents_key api_key r \<and> k \<in> set (configured_keys api_key)"
proof -
  let ?a = "Option.bind (header r ''authorization'') bearer_token"
  have no: "\<nexists>k' s''. auth_failure now src s = (Accepted k', s'')" for src
    by (simp add: auth_failure_def Let_def)
  from assms no obtain t where t: "?a = Some t" "first_match t (configured_keys api_key) = Some k"
    by (auto simp: require_api_key_def Let_def split: option.splits)
  then have k: "t = k" "k \<in> set (configured_keys api_key)"
    by (auto simp: first_match_def find_Some_iff)
  from t(1) k(1) have "header r ''authorization'' = Some (''Bearer '' @ k)"
    by (cases "header r ''authorization''") (auto simp: bearer_token_Some)
  with k(2) show ?thesis by (auto simp: presents_key_def)
qed

text \<open>C21: the server is closed to the network by default and keyed when open: whatever a remote HTTP client
  reaches, an API route behind its dependency or, preflights aside, anything else behind the boundary, it
  presented one of the configured keys; in particular nothing is reached when none is configured.\<close>

theorem remote_access_needs_key:
  assumes "scope_type r = ''http''" and "\<not> local_client ip_address r"
    and "if api_path (req_path r)
         then \<exists>k. fst (api_call ip_address api_key now r s) = Some (Accepted k)
         else remote_boundary ip_address api_key r = Forward \<and> \<not> is_cors_preflight r"
  shows "presents_key api_key r \<and> configured_keys api_key \<noteq> []"
proof (cases "api_path (req_path r)")
  case True
  with assms(3) obtain k where k: "fst (api_call ip_address api_key now r s) = Some (Accepted k)" by auto
  then have fwd: "remote_boundary ip_address api_key r = Forward" by (auto simp: api_call_def split: if_splits)
  with assms(1,2) have keys: "configured_keys api_key \<noteq> []"
    by (auto simp: remote_boundary_def Let_def split: if_splits)
  obtain s' where "require_api_key api_key now r s = (Accepted k, s')"
    using k fwd by (auto simp: api_call_def split: prod.splits)
  with accepted_presents keys show ?thesis by blast
next
  case False
  with assms have "bearer_is_valid r (configured_keys api_key)" "configured_keys api_key \<noteq> []"
    by (auto simp: remote_boundary_def Let_def split: if_splits)
  with bearer_presents show ?thesis by blast
qed

definition demo_request :: "string \<Rightarrow> string \<Rightarrow> http_request" where
  "demo_request path token = \<lparr>scope_type = ''http'', client_host = Some ''10.0.0.9'', req_method = ''GET'', req_path = path,
     req_headers = [(''Authorization'', ''Bearer '' @ token)]\<rparr>"

theorem remote_access_needs_key_witness:
  "presents_key (Some ''k1, k2'') (demo_request ''/v1/models'' ''k2'') \<and> configured_keys (Some ''k1, k2'') \<noteq> []"
proof (rule remote_access_needs_key [where ip_address = "\<lambda>_. Some (V4 0x0A000009)" and now = 0
      and s = "start_access (Some ''k1, k2'')"])
  show "scope_type (demo_request ''/v1/models'' ''k2'') = ''http''" by (simp add: demo_request_def)
  show "\<not> local_client (\<lambda>_. Some (V4 0x0A000009)) (demo_request ''/v1/models'' ''k2'')" by code_simp
  have p: "api_path (req_path (demo_request ''/v1/models'' ''k2''))" by code_simp
  have "fst (api_call (\<lambda>_. Some (V4 0x0A000009)) (Some ''k1, k2'') 0 (demo_request ''/v1/models'' ''k2'')
      (start_access (Some ''k1, k2''))) = Some (Accepted ''k2'')" by code_simp
  with p show "if api_path (req_path (demo_request ''/v1/models'' ''k2''))
      then \<exists>k. fst (api_call (\<lambda>_. Some (V4 0x0A000009)) (Some ''k1, k2'') 0 (demo_request ''/v1/models'' ''k2'')
        (start_access (Some ''k1, k2''))) = Some (Accepted k)
      else remote_boundary (\<lambda>_. Some (V4 0x0A000009)) (Some ''k1, k2'') (demo_request ''/v1/models'' ''k2'') = Forward \<and>
        \<not> is_cors_preflight (demo_request ''/v1/models'' ''k2'')" by simp
qed

section \<open>Counting failures\<close>

lemma map_of_filter_key:
  "distinct (map fst xs) \<Longrightarrow>
     map_of (filter P xs) k = (case map_of xs k of Some v \<Rightarrow> if P (k, v) then Some v else None | None \<Rightarrow> None)"
proof (induction xs)
  case (Cons x xs)
  obtain j v where x: "x = (j, v)" by (cases x)
  have "map_of xs j = None" using Cons.prems by (simp add: x map_of_eq_None_iff)
  with Cons show ?case by (auto simp: x split: option.splits)
qed simp

lemma recent_recent: "now \<le> later_now \<Longrightarrow> recent later_now (recent now ts) = recent later_now ts"
  by (induction ts) (auto simp: recent_def)

lemma recent_empty: "now \<le> later_now \<Longrightarrow> recent now ts = [] \<Longrightarrow> recent later_now ts = []"
  using recent_recent [of now later_now ts] by (simp add: recent_def)

lemma recent_append: "recent now (xs @ ys) = recent now xs @ recent now ys"
  by (simp add: recent_def)

definition source_of :: "http_request \<Rightarrow> string" where
  "source_of r = (case client_host r of Some h \<Rightarrow> h | None \<Rightarrow> ''unknown'')"

definition failures_ok :: "access \<Rightarrow> bool" where
  "failures_ok s \<longleftrightarrow> distinct (map fst (auth_failures s))"

lemma auth_failure_spec:
  assumes "failures_ok s" and "auth_failure now source s = (res, s')"
  shows "failures_ok s'"
    and "failures_of s' source = recent now (failures_of s source) @ [now]"
    and "src \<noteq> source \<Longrightarrow> now \<le> later_now \<Longrightarrow>
      recent later_now (failures_of s' src) = recent later_now (failures_of s src)"
    and "(\<exists>w. res = TooMany w) \<longleftrightarrow> failure_max < length (recent now (failures_of s source)) + 1"
    and "res = Unauthorized \<or> (\<exists>w. res = TooMany w)"
proof -
  let ?kept = "filter (\<lambda>(key, ts). key = source \<or> recent now ts \<noteq> []) (auth_failures s)"
  have s': "auth_failures s' = AList.update source (recent now (failures_of s source) @ [now]) ?kept"
    using assms(2) by (auto simp: auth_failure_def Let_def split: if_splits)
  have "distinct (map fst ?kept)" using assms(1) by (simp add: failures_ok_def distinct_map_filter)
  then show "failures_ok s'" unfolding failures_ok_def s' by (rule distinct_update)
  show "failures_of s' source = recent now (failures_of s source) @ [now]"
    by (simp add: failures_of_def s' update_conv')
  show "recent later_now (failures_of s' src) = recent later_now (failures_of s src)"
    if "src \<noteq> source" "now \<le> later_now"
    using that assms(1) recent_empty [OF that(2)] map_of_filter_key [of "auth_failures s" _ src]
    by (auto simp: failures_of_def s' update_conv' failures_ok_def recent_def split: option.splits)
  show "(\<exists>w. res = TooMany w) \<longleftrightarrow> failure_max < length (recent now (failures_of s source)) + 1"
    and "res = Unauthorized \<or> (\<exists>w. res = TooMany w)"
    using assms(2) by (auto simp: auth_failure_def Let_def split: if_splits)
qed

lemma require_api_key_cases:
  assumes "configured_keys api_key \<noteq> []"
  shows "require_api_key api_key now r s =
     (if presents_key api_key r
      then (Accepted (drop 7 (the (header r ''authorization''))),
            s\<lparr>auth_failures := AList.delete (source_of r) (auth_failures s)\<rparr>)
      else auth_failure now (source_of r) s)"
proof (cases "presents_key api_key r")
  case True
  then obtain k where k: "header r ''authorization'' = Some (''Bearer '' @ k)" "k \<in> set (configured_keys api_key)"
    by (auto simp: presents_key_def)
  have "first_match k (configured_keys api_key) = Some k"
  proof (cases "first_match k (configured_keys api_key)")
    case None
    with k(2) show ?thesis by (auto simp: first_match_def find_None_iff)
  qed (auto simp: first_match_def find_Some_iff)
  moreover have "bearer_token (''Bearer '' @ k) = Some k" by (simp only: bearer_token_Some)
  ultimately show ?thesis using assms k True by (simp add: require_api_key_def Let_def source_of_def)
next
  case False
  have "first_match t (configured_keys api_key) = None" if "header r ''authorization'' = Some (''Bearer '' @ t)" for t
    using that False by (auto simp: presents_key_def first_match_def find_None_iff)
  then show ?thesis using False assms
    by (cases "header r ''authorization''")
      (auto simp: require_api_key_def Let_def source_of_def bearer_token_Some split: option.splits)
qed

text \<open>The reference: all failures of a source since its last success.\<close>

definition count_attempt :: "string option \<Rightarrow> string \<Rightarrow> rat list \<Rightarrow> rat \<times> http_request \<Rightarrow> rat list" where
  "count_attempt api_key src acc x =
     (if source_of (snd x) \<noteq> src then acc else if presents_key api_key (snd x) then [] else acc @ [fst x])"

definition failures_since_success :: "string option \<Rightarrow> string \<Rightarrow> (rat \<times> http_request) list \<Rightarrow> rat list" where
  "failures_since_success api_key src xs = foldl (count_attempt api_key src) [] xs"

definition auth_run :: "string option \<Rightarrow> (rat \<times> http_request) list \<Rightarrow> access" where
  "auth_run api_key xs = foldl (\<lambda>s x. snd (require_api_key api_key (fst x) (snd x) s)) (start_access api_key) xs"

lemma auth_run_tracks:
  assumes "configured_keys api_key \<noteq> []"
  shows "sorted (map fst xs) \<Longrightarrow> failures_ok (auth_run api_key xs) \<and>
    (\<forall>src T. (\<forall>x \<in> set xs. fst x \<le> T) \<longrightarrow>
      recent T (failures_of (auth_run api_key xs) src) = recent T (failures_since_success api_key src xs))"
proof (induction xs rule: rev_induct)
  case Nil
  then show ?case by (simp add: auth_run_def failures_since_success_def start_access_def failures_ok_def failures_of_def)
next
  case (snoc x xs)
  obtain now r where x: "x = (now, r)" by (cases x)
  let ?s = "auth_run api_key xs"
  have sorted: "sorted (map fst xs)" "\<forall>y \<in> set xs. fst y \<le> now"
    using snoc.prems by (auto simp: sorted_append x)
  note IH = snoc.IH [OF sorted(1)]
  have run: "auth_run api_key (xs @ [x]) = snd (require_api_key api_key now r ?s)"
    and ref: "failures_since_success api_key src (xs @ [x]) =
      count_attempt api_key src (failures_since_success api_key src xs) (now, r)" for src
    by (simp_all add: auth_run_def failures_since_success_def x)
  show ?case
  proof (cases "presents_key api_key r")
    case True
    then have s': "auth_run api_key (xs @ [x]) = ?s\<lparr>auth_failures := AList.delete (source_of r) (auth_failures ?s)\<rparr>"
      using run require_api_key_cases [OF assms] by simp
    have "failures_of (auth_run api_key (xs @ [x])) src =
        (if src = source_of r then [] else failures_of ?s src)" for src
      by (simp add: s' failures_of_def delete_conv')
    moreover have "failures_ok (auth_run api_key (xs @ [x]))"
      using IH by (simp add: s' failures_ok_def distinct_delete)
    ultimately show ?thesis using IH True by (auto simp: ref count_attempt_def)
  next
    case False
    obtain res s' where af: "auth_failure now (source_of r) ?s = (res, s')" by fastforce
    then have s': "auth_run api_key (xs @ [x]) = s'"
      using run require_api_key_cases [OF assms] False by simp
    note spec = auth_failure_spec [OF conjunct1 [OF IH] af]
    have "recent T (failures_of s' src) = recent T (failures_since_success api_key src (xs @ [x]))"
      if T: "\<forall>y \<in> set (xs @ [x]). fst y \<le> T" for src T
    proof (cases "src = source_of r")
      case True
      have "recent T (failures_of s' src) = recent T (recent now (failures_of ?s src)) @ recent T [now]"
        using spec(2) True by (simp add: recent_append)
      also have "recent T (recent now (failures_of ?s src)) = recent T (failures_since_success api_key src xs)"
        using IH T recent_recent [of now T] by (simp add: x)
      finally show ?thesis using True False by (simp add: ref count_attempt_def recent_append)
    next
      case False
      then show ?thesis using spec(3) [of src T] IH T by (simp add: ref [unfolded x] count_attempt_def x)
    qed
    with spec(1) show ?thesis by (simp add: s')
  qed
qed

text \<open>The bookkeeping of wrong keys is exact although it forgets: in any history of calls, a failing call is
  answered with too-many-requests exactly when its source has failed more than ten times in the last five minutes,
  this call included, since it last succeeded, whatever other sources did.\<close>

lemma failures_counted_exactly:
  assumes "configured_keys api_key \<noteq> []" and "sorted (map fst xs @ [now])" and "\<not> presents_key api_key r"
  shows "(\<exists>w. fst (require_api_key api_key now r (auth_run api_key xs)) = TooMany w) \<longleftrightarrow>
    10 < length (filter (\<lambda>t. t > now - 300) (failures_since_success api_key (source_of r) xs)) + 1"
proof -
  have "sorted (map fst xs)" "\<forall>x \<in> set xs. fst x \<le> now" using assms(2) by (auto simp: sorted_append)
  with auth_run_tracks [OF assms(1), of xs] have tracks: "failures_ok (auth_run api_key xs)"
    "recent now (failures_of (auth_run api_key xs) (source_of r)) =
      recent now (failures_since_success api_key (source_of r) xs)" by blast+
  obtain res s' where af: "auth_failure now (source_of r) (auth_run api_key xs) = (res, s')" by fastforce
  then have "fst (require_api_key api_key now r (auth_run api_key xs)) = res"
    using require_api_key_cases [OF assms(1)] assms(3) by simp
  with auth_failure_spec(4) [OF tracks(1) af] show ?thesis
    using tracks(2) by (simp add: recent_def failure_window_def failure_max_def)
qed

definition wrong_key :: http_request where "wrong_key = demo_request ''/v1/models'' ''nope''"

lemma failures_counted_exactly_witness:
  "\<exists>w. fst (require_api_key (Some ''k1'') 100 wrong_key
     (auth_run (Some ''k1'') (map (\<lambda>i. (10 * of_int i, wrong_key)) [0..9]))) = TooMany w"
proof -
  have "configured_keys (Some ''k1'') \<noteq> []" by code_simp
  moreover have "sorted (map fst (map (\<lambda>i. (10 * of_int i, wrong_key)) [0..9]) @ [100 :: rat])" by code_simp
  moreover have "\<not> presents_key (Some ''k1'') wrong_key" by code_simp
  moreover have "10 < length (filter (\<lambda>t. t > (100 :: rat) - 300) (failures_since_success (Some ''k1'') (source_of wrong_key)
      (map (\<lambda>i. (10 * of_int i, wrong_key)) [0..9]))) + 1" by code_simp
  ultimately show ?thesis by (rule failures_counted_exactly [THEN iffD2])
qed

text \<open>The advertised wait is too short: eleven wrong keys ten seconds apart are told to retry
  after 201 seconds, and the next wrong key after exactly that wait is refused for the same reason, because
  only the oldest failure has left the window.\<close>

lemma advertised_wait_too_short:
  "fst (require_api_key (Some ''k1'') 100 wrong_key
     (auth_run (Some ''k1'') (map (\<lambda>i. (10 * of_int i, wrong_key)) [0..9]))) = TooMany 201 \<and>
   fst (require_api_key (Some ''k1'') (100 + 201) wrong_key
     (auth_run (Some ''k1'') (map (\<lambda>i. (10 * of_int i, wrong_key)) [0..10]))) = TooMany 10"
  by code_simp

section \<open>Accounting\<close>

definition recorded_requests :: "access \<Rightarrow> int" where
  "recorded_requests s = sum_list (map (key_requests \<circ> snd) (stats s))"

lemma map_entry_requests:
  assumes "distinct (map fst m)" and "map_of m k \<noteq> None"
  shows "sum_list (map (key_requests \<circ> snd) (AList.map_entry k (add_usage p c l) m)) =
    sum_list (map (key_requests \<circ> snd) m) + 1"
  using assms
proof (induction m)
  case (Cons x m)
  obtain j v where x: "x = (j, v)" by (cases x)
  show ?case
  proof (cases "j = k")
    case True
    then show ?thesis by (simp add: x add_usage_def)
  next
    case False
    with Cons show ?thesis by (simp add: x)
  qed
qed simp

definition stats_ok :: "access \<Rightarrow> bool" where
  "stats_ok s \<longleftrightarrow> distinct (map fst (stats s)) \<and> stats s \<noteq> [] \<and> [] \<notin> fst ` set (stats s)"

lemma stats_ok_keys: "stats_ok s \<longleftrightarrow> distinct (map fst (stats s)) \<and> map fst (stats s) \<noteq> [] \<and> [] \<notin> set (map fst (stats s))"
  by (simp add: stats_ok_def)

lemma start_stats_ok: "stats_ok (start_access api_key)"
proof -
  have "distinct (map fst (fold (\<lambda>k m. AList.update k zero_stats m) ks m)) \<and>
      fst ` set (fold (\<lambda>k m. AList.update k zero_stats m) ks m) = fst ` set m \<union> set ks"
    if "distinct (map fst m)" for ks :: "string list" and m
    using that by (induction ks arbitrary: m) (auto simp: distinct_update dom_update)
  from this [of "[]" "configured_keys api_key"] show ?thesis
    by (auto simp: stats_ok_def start_access_def Let_def configured_keys_def)
qed

lemma record_key_metrics_counts:
  assumes "stats_ok s"
  shows "stats_ok (record_key_metrics active p c l s)"
    and "recorded_requests (record_key_metrics active p c l s) = recorded_requests s + 1"
proof -
  have keys: "map fst (AList.map_entry k f m) = map fst m" for k :: string and f and m :: "(string \<times> key_stats) list"
    by (induction m) auto
  obtain k where k: "stats_key active s = Some k" "map_of (stats s) k \<noteq> None"
  proof -
    have ne: "stats s \<noteq> []" using assms by (simp add: stats_ok_def)
    then have head: "map_of (stats s) (fst (hd (stats s))) \<noteq> None" by (cases "stats s") auto
    show ?thesis
    proof (cases "map_of (stats s) active = None")
      case True
      then show ?thesis
        using that [of "''default''"] that [of "fst (hd (stats s))"] head ne
        by (cases "map_of (stats s) ''default'' = None") (simp_all add: stats_key_def)
    next
      case False
      then show ?thesis using that [of active] by (simp add: stats_key_def)
    qed
  qed
  then have "k \<in> fst ` set (stats s)" by (simp only: map_of_eq_None_iff) simp
  then have "k \<noteq> []" using assms unfolding stats_ok_def by metis
  then have eq: "record_key_metrics active p c l s = s\<lparr>stats := AList.map_entry k (add_usage p c l) (stats s)\<rparr>"
    using k(1) by (simp add: record_key_metrics_def)
  show "recorded_requests (record_key_metrics active p c l s) = recorded_requests s + 1"
    unfolding eq recorded_requests_def using map_entry_requests [OF _ k(2)] assms by (simp add: stats_ok_def)
  show "stats_ok (record_key_metrics active p c l s)"
    unfolding eq using assms keys by (simp add: stats_ok_keys)
qed

text \<open>No served call is lost from the accounts: from the start, after any sequence of recorded calls under any
  active keys, known or not, the requests of all keys add up to the number of calls.\<close>

lemma every_call_is_accounted:
  "recorded_requests (foldl (\<lambda>s (k, p, c, l). record_key_metrics k p c l s) (start_access api_key) xs) = int (length xs)"
proof -
  let ?step = "\<lambda>s (k, p, c, l). record_key_metrics k p c l s"
  have "stats_ok (foldl ?step (start_access api_key) xs) \<and>
      recorded_requests (foldl ?step (start_access api_key) xs) = int (length xs)"
  proof (induction xs rule: rev_induct)
    case Nil
    have zero: "sum_list (map (key_requests \<circ> snd) (fold (\<lambda>k m. AList.update k zero_stats m) ks m)) = 0"
      if "\<forall>x \<in> set m. snd x = zero_stats" for ks and m :: "(string \<times> key_stats) list"
      using that
    proof (induction ks arbitrary: m)
      case (Cons k ks)
      have "\<forall>x \<in> set (AList.update k zero_stats m). snd x = zero_stats"
        using Cons.prems by (induction m) auto
      from Cons.IH [OF this] show ?case by simp
    next
      case Nil
      then show ?case by (induction m) (auto simp: zero_stats_def)
    qed
    show ?case using start_stats_ok [of api_key] zero [of "[]"]
      by (simp add: recorded_requests_def start_access_def Let_def zero_stats_def)
  next
    case (snoc x xs)
    then show ?case using record_key_metrics_counts by (cases x) auto
  qed
  then show ?thesis by blast
qed

end
